(* ===== verification/Prelude.thy ===== *)
theory Prelude
  imports Main "HOL-Library.Word" "HOL-Library.Code_Target_Nat"
begin

text \<open>
  The vocabulary shared by every component of the development: machine words, results with
  errors as values, bounds-checked access to byte buffers, and the little-endian byte order in
  which all multi-byte fields of the program are stored.

  A C pointer to a buffer is modelled by the list of bytes that are accessible from it; a length
  argument that the code passes beside the pointer stays a separate argument. Reading or writing
  outside the list is \<open>Fault\<close>: the C code has no defined behaviour there. A function
  that reports failure by a negative return value yields \<open>Fail\<close>, a call of
  \<open>die()\<close> (see \<open>die.c\<close>) yields \<open>Died\<close>, and a loop that exhausts the iteration budget of
  its model yields \<open>Fuel\<close>, which the theorems about that loop exclude.
\<close>

unbundle bit_operations_syntax

named_theorems result_simps \<open>rewriting of results\<close>
named_theorems buffer_simps \<open>lengths and contents of buffers\<close>

section \<open>Types\<close>

type_synonym u8 = "8 word"
type_synonym u16 = "16 word"
type_synonym u32 = "32 word"
type_synonym u64 = "64 word"
type_synonym bytes = "u8 list"

datatype error = Fail | Fault | Died | Fuel

type_synonym 'a result = "error + 'a"

text \<open>The bytes of a string literal, without its terminator.\<close>

definition ascii :: "string \<Rightarrow> bytes" where
  "ascii s = map of_char s"

section \<open>Results\<close>

definition rbind :: "'a result \<Rightarrow> ('a \<Rightarrow> 'b result) \<Rightarrow> 'b result" where
  "rbind r f = (case r of Inl e \<Rightarrow> Inl e | Inr x \<Rightarrow> f x)"

lemma rbind_Inl [simp, result_simps]: "rbind (Inl e) f = Inl e"
  by (simp add: rbind_def)

lemma rbind_Inr [simp, result_simps]: "rbind (Inr x) f = f x"
  by (simp add: rbind_def)

lemma rbind_cong [fundef_cong]:
  "r = r' \<Longrightarrow> (\<And>x. r' = Inr x \<Longrightarrow> f x = f' x) \<Longrightarrow> rbind r f = rbind r' f'"
  by (cases r') simp_all

lemma rbind_eq_Inr [result_simps]: "rbind r f = Inr y \<longleftrightarrow> (\<exists>x. r = Inr x \<and> f x = Inr y)"
  by (cases r) simp_all

lemma rbind_eq_Inl [result_simps]:
  "rbind r f = Inl e \<longleftrightarrow> r = Inl e \<or> (\<exists>x. r = Inr x \<and> f x = Inl e)"
  by (cases r) simp_all

lemma rbind_assoc: "rbind (rbind r f) g = rbind r (\<lambda>x. rbind (f x) g)"
  by (cases r) simp_all

definition guard :: "bool \<Rightarrow> error \<Rightarrow> unit result" where
  "guard b e = (if b then Inr () else Inl e)"

lemma guard_True [simp]: "guard True e = Inr ()" and guard_False [simp]: "guard False e = Inl e"
  by (simp_all add: guard_def)

lemma guard_eq_Inr [simp]: "guard b e = Inr u \<longleftrightarrow> b"
  by (simp add: guard_def)

lemma guard_eq_Inl [simp]: "guard b e = Inl e' \<longleftrightarrow> \<not> b \<and> e = e'"
  by (auto simp: guard_def)

text \<open>A result is clean if it is a value or a failure that the code reports itself.\<close>

definition clean :: "'a result \<Rightarrow> bool" where
  "clean r \<longleftrightarrow> (\<forall>e. r = Inl e \<longrightarrow> e = Fail)"

lemma clean_simps [simp]: "clean (Inr x)" "clean (Inl e) \<longleftrightarrow> e = Fail"
  by (simp_all add: clean_def)

lemma clean_bind: "clean r \<Longrightarrow> (\<And>x. r = Inr x \<Longrightarrow> clean (f x)) \<Longrightarrow> clean (rbind r f)"
  by (cases r) auto

lemma clean_if: "(c \<Longrightarrow> clean r) \<Longrightarrow> (\<not> c \<Longrightarrow> clean s) \<Longrightarrow> clean (if c then r else s)"
  by simp

lemma clean_prod: "(\<And>a b. x = (a, b) \<Longrightarrow> clean (f a b)) \<Longrightarrow> clean (case x of (a, b) \<Rightarrow> f a b)"
  by (cases x) simp

lemmas clean_intros = clean_bind clean_if clean_prod

section \<open>Buffers\<close>

definition rd8 :: "bytes \<Rightarrow> nat \<Rightarrow> u8 result" where
  "rd8 data i = (if i < length data then Inr (data ! i) else Inl Fault)"

definition wr8 :: "bytes \<Rightarrow> nat \<Rightarrow> u8 \<Rightarrow> bytes result" where
  "wr8 buf i v = (if i < length buf then Inr (buf[i := v]) else Inl Fault)"

definition window :: "nat \<Rightarrow> nat \<Rightarrow> 'a list \<Rightarrow> 'a list" where
  "window off n xs = take n (drop off xs)"

definition rd_bytes :: "bytes \<Rightarrow> nat \<Rightarrow> nat \<Rightarrow> bytes result" where
  "rd_bytes data off n = (if off + n \<le> length data then Inr (window off n data) else Inl Fault)"

definition overlay :: "nat \<Rightarrow> 'a list \<Rightarrow> 'a list \<Rightarrow> 'a list" where
  "overlay off bs xs = take off xs @ bs @ drop (off + length bs) xs"

definition wr_bytes :: "bytes \<Rightarrow> nat \<Rightarrow> bytes \<Rightarrow> bytes result" where
  "wr_bytes buf off bs = (if off + length bs \<le> length buf then Inr (overlay off bs buf) else Inl Fault)"

lemma length_window [simp, buffer_simps]: "length (window off n xs) = min n (length xs - off)"
  by (simp add: window_def)

lemma nth_window [buffer_simps]: "i < n \<Longrightarrow> off + i < length xs \<Longrightarrow> window off n xs ! i = xs ! (off + i)"
  by (simp add: window_def)

lemma length_overlay [simp, buffer_simps]:
  "off + length bs \<le> length xs \<Longrightarrow> length (overlay off bs xs) = length xs"
  by (simp add: overlay_def)

lemma nth_overlay [buffer_simps]:
  assumes "off + length bs \<le> length xs" "i < length xs"
  shows "overlay off bs xs ! i = (if off \<le> i \<and> i < off + length bs then bs ! (i - off) else xs ! i)"
  using assms by (auto simp: overlay_def nth_append)

lemma window_overlay_same [simp, buffer_simps]:
  "off + length bs \<le> length xs \<Longrightarrow> window off (length bs) (overlay off bs xs) = bs"
  by (simp add: window_def overlay_def)

lemma drop_overlay [buffer_simps]:
  "off + length bs \<le> n \<Longrightarrow> off + length bs \<le> length xs \<Longrightarrow> drop n (overlay off bs xs) = drop n xs"
  by (simp add: overlay_def)

lemma take_overlay [buffer_simps]:
  "n \<le> off \<Longrightarrow> off \<le> length xs \<Longrightarrow> take n (overlay off bs xs) = take n xs"
  by (simp add: overlay_def min_def)

lemma rd8_eq_Inr [simp, result_simps]: "rd8 data i = Inr v \<longleftrightarrow> i < length data \<and> v = data ! i"
  by (auto simp: rd8_def)

lemma rd8_eq_Inl [simp, result_simps]: "rd8 data i = Inl e \<longleftrightarrow> length data \<le> i \<and> e = Fault"
  by (auto simp: rd8_def)

lemma wr8_eq_Inr [simp, result_simps]: "wr8 buf i v = Inr b \<longleftrightarrow> i < length buf \<and> b = buf[i := v]"
  by (auto simp: wr8_def)

lemma wr8_eq_Inl [simp, result_simps]: "wr8 buf i v = Inl e \<longleftrightarrow> length buf \<le> i \<and> e = Fault"
  by (auto simp: wr8_def)

lemma replicate_numeral: "replicate (numeral k) x = x # replicate (pred_numeral k) x"
  by (simp add: numeral_eq_Suc)

section \<open>Little-endian fields\<close>

definition rd16 :: "bytes \<Rightarrow> nat \<Rightarrow> nat result" where
  "rd16 data i = rbind (rd8 data i) (\<lambda>b0. rbind (rd8 data (i + 1)) (\<lambda>b1.
     Inr (unat b0 + 256 * unat b1)))"

definition rd32 :: "bytes \<Rightarrow> nat \<Rightarrow> nat result" where
  "rd32 data i = rbind (rd16 data i) (\<lambda>lo. rbind (rd16 data (i + 2)) (\<lambda>hi.
     Inr (lo + 65536 * hi)))"

definition rd64 :: "bytes \<Rightarrow> nat \<Rightarrow> nat result" where
  "rd64 data i = rbind (rd32 data i) (\<lambda>lo. rbind (rd32 data (i + 4)) (\<lambda>hi.
     Inr (lo + 4294967296 * hi)))"

definition le16 :: "nat \<Rightarrow> bytes" where
  "le16 v = [word_of_nat v, word_of_nat (v div 256)]"

definition le32 :: "nat \<Rightarrow> bytes" where
  "le32 v = le16 v @ le16 (v div 65536)"

definition le64 :: "nat \<Rightarrow> bytes" where
  "le64 v = le32 v @ le32 (v div 4294967296)"

lemma length_le [simp]: "length (le16 v) = 2" "length (le32 v) = 4" "length (le64 v) = 8"
  by (simp_all add: le16_def le32_def le64_def)

lemma unat_u8_less [simp]: "unat (b :: u8) < 256"
  using unsigned_less [where ?'b = 8 and w = b and ?'a = nat] by simp

lemma rd16_bound: "rd16 data i = Inr v \<Longrightarrow> v < 65536 \<and> i + 1 < length data"
  using unat_u8_less [of "data ! i"] unat_u8_less [of "data ! Suc i"]
  by (auto simp: rd16_def rbind_eq_Inr simp del: unat_u8_less)

lemma clean_rd8 [simp]: "clean (rd8 data i) \<longleftrightarrow> i < length data"
  by (simp add: rd8_def)

lemma clean_rd16 [simp]: "clean (rd16 data i) \<longleftrightarrow> i + 1 < length data"
  by (simp add: rd16_def rd8_def)

lemma rd16_defined: "i + 1 < length data \<Longrightarrow> \<exists>v. rd16 data i = Inr v"
  by (simp add: rd16_def rd8_def)

lemma unat_drop_16 [simp]: "unat (drop_bit 16 (w :: u32)) < 65536"
proof -
  have "unat w < 2 ^ 32" using unsigned_less [where ?'b = 32 and w = w and ?'a = nat] by simp
  then show ?thesis unfolding unat_drop_bit_eq drop_bit_nat_def by simp
qed

end
