(* ===== verification/Huffman.thy ===== *)
theory Huffman
  imports Prelude
begin

text \<open>
  Huffman alphabets (\<open>huffman.c\<close>, \<open>huffman.h\<close>): the construction of a canonical code from a
  table of code lengths, and the lookup of a symbol from sixteen bits of input.

  The member \<open>raw\<close> of a symbol set is a pointer into the array of raw symbols that follows the
  alphabet in memory; it is modelled by its index in that array. \<open>huffman_alphabet()\<close> moves it
  below the start of the array (\<open>sym->raw -= adjustment\<close>), hence the type \<open>int\<close>. The array is
  laid out directly after the quick lookup table, so that an index from \<open>-64\<close> to \<open>-1\<close> reads two
  bytes of that table (see \<open>huffman_raw\<close>). The number of symbols of a length and the raw symbols have
  sixteen bits; they wrap around in a table of 65536 symbols, which the properties exclude.

  The lemmas describe a finished alphabet by the number \<open>len_count\<close> of symbols of each length and
  by the boundaries \<open>code_start\<close> of the code space, and derive that looking up any code word of
  the canonical code yields its symbol and its length.
\<close>

section \<open>Data\<close>

definition HUFFMAN_BITS :: nat where "HUFFMAN_BITS = 16"

text \<open>The values of the type of raw symbols, which is that of the counts as well.\<close>

definition HUFFMAN_RAW_MAX :: nat where "HUFFMAN_RAW_MAX = 2 ^ 16"

definition HUFFMAN_QL_BITS :: nat where "HUFFMAN_QL_BITS = 7"

definition HUFFMAN_QL_SHIFT :: nat where "HUFFMAN_QL_SHIFT = HUFFMAN_BITS - HUFFMAN_QL_BITS"

lemmas huffman_consts = HUFFMAN_BITS_def HUFFMAN_RAW_MAX_def HUFFMAN_QL_BITS_def HUFFMAN_QL_SHIFT_def

record huffman_symbols =
  sym_bits :: nat
  sym_shift :: nat
  sym_freq :: nat
  sym_start :: nat
  sym_raw :: int

record huf_alphabet =
  alph_huf :: "huffman_symbols list"
  alph_lookup :: "nat list"
  alph_raw :: "nat list"

definition zero_symbols :: huffman_symbols where
  "zero_symbols = \<lparr>sym_bits = 0, sym_shift = 0, sym_freq = 0, sym_start = 0, sym_raw = 0\<rparr>"

text \<open>An alphabet whose memory is zeroed, with room for \<open>count\<close> raw symbols.\<close>

definition zero_alphabet :: "nat \<Rightarrow> huf_alphabet" where
  "zero_alphabet count = \<lparr>alph_huf = replicate HUFFMAN_BITS zero_symbols,
     alph_lookup = replicate (2 ^ HUFFMAN_QL_BITS) 0, alph_raw = replicate count 0\<rparr>"

section \<open>Construction\<close>

text \<open>Count the symbols of each length, modulo the size of a count. A length beyond the table would index outside it.\<close>

fun huffman_count :: "huffman_symbols list \<Rightarrow> bool \<Rightarrow> nat list \<Rightarrow> (huffman_symbols list \<times> bool) result" where
  "huffman_count huf is_empty [] = Inr (huf, is_empty)"
| "huffman_count huf is_empty (bits # lengths) =
     (if bits = 0 then huffman_count huf is_empty lengths
      else if bits \<le> length huf then
        huffman_count (huf[bits - 1 := (huf ! (bits - 1))\<lparr>sym_freq := (sym_freq (huf ! (bits - 1)) + 1) mod HUFFMAN_RAW_MAX\<rparr>])
          False lengths
      else Inl Fault)"

text \<open>Populate the symbol sets, for \<open>bits\<close> counting up from 1; yields the final value of \<open>huf\<close>.\<close>

fun huffman_populate :: "nat \<Rightarrow> nat \<Rightarrow> nat \<Rightarrow> huffman_symbols list \<Rightarrow> (huffman_symbols list \<times> nat) result" where
  "huffman_populate bits huf cum_freq [] = Inr ([], huf)"
| "huffman_populate bits huf cum_freq (s # ss) =
     (let shift = HUFFMAN_BITS - bits;
          s' = s\<lparr>sym_bits := bits, sym_shift := shift, sym_start := huf * 2 ^ shift,
                     sym_raw := int cum_freq\<rparr>;
          huf' = huf + sym_freq s
      in if huf' > 2 ^ bits then Inl Fail
         else rbind (huffman_populate (bits + 1) (2 * huf') (cum_freq + sym_freq s) ss)
                (\<lambda>(ss', h). Inr (s' # ss', h)))"

text \<open>Populate the raw symbol table: \<open>*(sym->raw++) = raw\<close> for every used symbol.\<close>

fun huffman_fill :: "huffman_symbols list \<Rightarrow> nat list \<Rightarrow> nat \<Rightarrow> nat list \<Rightarrow> (huffman_symbols list \<times> nat list) result" where
  "huffman_fill huf rawtab raw [] = Inr (huf, rawtab)"
| "huffman_fill huf rawtab raw (bits # lengths) =
     (if bits = 0 then huffman_fill huf rawtab (raw + 1) lengths
      else if bits \<le> length huf then
        (let s = huf ! (bits - 1); p = sym_raw s
         in if 0 \<le> p \<and> nat p < length rawtab then
              huffman_fill (huf[bits - 1 := s\<lparr>sym_raw := p + 1\<rparr>]) (rawtab[nat p := raw mod HUFFMAN_RAW_MAX])
                (raw + 1) lengths
            else Inl Fault)
      else Inl Fault)"

text \<open>Adjust the raw pointers and populate the quick lookup table.\<close>

definition huffman_lookup_fill :: "nat \<Rightarrow> nat \<Rightarrow> nat list \<Rightarrow> nat list" where
  "huffman_lookup_fill bits start lookup =
     fold (\<lambda>prefix tab. tab[prefix := bits - 1])
       [start div 2 ^ HUFFMAN_QL_SHIFT ..< 2 ^ HUFFMAN_QL_BITS] lookup"

fun huffman_adjust :: "nat \<Rightarrow> huffman_symbols list \<Rightarrow> nat list \<Rightarrow> huffman_symbols list \<times> nat list" where
  "huffman_adjust bits [] lookup = ([], lookup)"
| "huffman_adjust bits (s # ss) lookup =
     (let adjustment = sym_start s div 2 ^ sym_shift s;
          s' = s\<lparr>sym_raw := sym_raw s - int (sym_freq s) - int adjustment\<rparr>;
          (ss', lookup') = huffman_adjust (bits + 1) ss
             (huffman_lookup_fill bits (sym_start s) lookup)
      in (s' # ss', lookup'))"

definition huffman_alphabet :: "huf_alphabet \<Rightarrow> nat list \<Rightarrow> huf_alphabet result" where
  "huffman_alphabet alphabet lengths =
     rbind (huffman_count (replicate HUFFMAN_BITS zero_symbols) True lengths) (\<lambda>(huf, is_empty).
       let huf = (if is_empty then huf[0 := (huf ! 0)\<lparr>sym_freq := 2\<rparr>] else huf) in
       rbind (huffman_populate 1 0 0 huf) (\<lambda>(huf, h).
       let complete = (h = 2 ^ (HUFFMAN_BITS + 1)) in
       rbind (huffman_fill huf (alph_raw alphabet) 0 lengths) (\<lambda>(huf, rawtab).
       let (huf, lookup) = huffman_adjust 1 huf (alph_lookup alphabet) in
       if complete
       then Inr \<lparr>alph_huf = huf, alph_lookup = lookup, alph_raw = rawtab\<rparr>
       else Inl Fail)))"

section \<open>Lookup\<close>

text \<open>The loop \<open>while ( huf < sym->start ) sym--\<close>, from the set at index \<open>i\<close>.\<close>

fun huffman_sym_down :: "huffman_symbols list \<Rightarrow> nat \<Rightarrow> nat \<Rightarrow> huffman_symbols result" where
  "huffman_sym_down ss huf i =
     (if i < length ss then
        (if huf < sym_start (ss ! i) then
           (case i of 0 \<Rightarrow> Inl Fault | Suc j \<Rightarrow> huffman_sym_down ss huf j)
         else Inr (ss ! i))
      else Inl Fault)"

declare huffman_sym_down.simps [simp del]

definition huffman_sym :: "huf_alphabet \<Rightarrow> nat \<Rightarrow> huffman_symbols result" where
  "huffman_sym alphabet huf =
     (let lookup_index = huf div 2 ^ HUFFMAN_QL_SHIFT
      in if lookup_index < length (alph_lookup alphabet)
         then huffman_sym_down (alph_huf alphabet) huf (alph_lookup alphabet ! lookup_index)
         else Inl Fault)"

definition huffman_len :: "huffman_symbols \<Rightarrow> nat" where
  "huffman_len s = sym_bits s"

text \<open>
  \<open>sym->raw[ huf >> sym->shift ]\<close>. The raw symbols follow the lookup table in memory, so that a
  negative index reads a little-endian pair of its bytes.
\<close>

definition huffman_raw :: "huf_alphabet \<Rightarrow> huffman_symbols \<Rightarrow> nat \<Rightarrow> nat result" where
  "huffman_raw alphabet s huf =
     (let idx = sym_raw s + int (huf div 2 ^ sym_shift s);
          tail = int (length (alph_lookup alphabet)) + 2 * idx
      in if 0 \<le> idx then
           (if nat idx < length (alph_raw alphabet) then Inr (alph_raw alphabet ! nat idx)
            else Inl Fault)
         else if 0 \<le> tail then
           Inr (alph_lookup alphabet ! nat tail + 256 * (alph_lookup alphabet ! (nat tail + 1)))
         else Inl Fault)"

section \<open>The canonical code\<close>

text \<open>
  \<open>F b\<close> is the number of symbols of length \<open>b\<close>. The canonical code gives the symbols of length
  \<open>b\<close>, in increasing order, the consecutive code words from \<open>first_code F b\<close> on; normalised to
  sixteen bits these occupy the values from \<open>code_start F b\<close> up to \<open>code_start F (b + 1)\<close>.
\<close>

definition first_code :: "(nat \<Rightarrow> nat) \<Rightarrow> nat \<Rightarrow> nat" where
  "first_code F b = (\<Sum>j = 1..<b. F j * 2 ^ (b - j))"

definition code_start :: "(nat \<Rightarrow> nat) \<Rightarrow> nat \<Rightarrow> nat" where
  "code_start F b = (\<Sum>j = 1..<b. F j * 2 ^ (HUFFMAN_BITS - j))"

definition sym_base :: "(nat \<Rightarrow> nat) \<Rightarrow> nat \<Rightarrow> nat" where
  "sym_base F b = (\<Sum>j = 1..<b. F j)"

text \<open>The code word of symbol \<open>i\<close> of a length table: its rank among the symbols of its length.\<close>

definition canonical_code :: "nat list \<Rightarrow> nat \<Rightarrow> nat" where
  "canonical_code lengths i =
     first_code (count_list lengths) (lengths ! i) + count_list (take i lengths) (lengths ! i)"

text \<open>A length table uses the whole code space: the Kraft sum is one.\<close>

definition kraft_complete :: "nat list \<Rightarrow> bool" where
  "kraft_complete lengths \<longleftrightarrow> code_start (count_list lengths) (HUFFMAN_BITS + 1) = 2 ^ HUFFMAN_BITS"

lemma first_code_Suc: "1 \<le> b \<Longrightarrow> first_code F (Suc b) = 2 * (first_code F b + F b)"
proof -
  assume b: "1 \<le> b"
  have "(\<Sum>j = 1..<b. F j * 2 ^ (b + 1 - j)) = (\<Sum>j = 1..<b. 2 * (F j * 2 ^ (b - j)))"
    by (rule sum.cong) (auto simp: Suc_diff_le)
  with b show ?thesis
    by (simp add: first_code_def sum_distrib_left)
qed

lemma first_code_start:
  assumes "b \<le> 16"
  shows "first_code F b * 2 ^ (16 - b) = code_start F b"
proof -
  have "F j * 2 ^ (b - j) * 2 ^ (16 - b) = F j * 2 ^ (16 - j)" if "j \<in> {1..<b}" for j
    using that assms by (simp flip: power_add)
  then show ?thesis
    unfolding first_code_def code_start_def huffman_consts sum_distrib_right by (rule sum.cong [OF refl])
qed

lemma code_start_Suc: "1 \<le> b \<Longrightarrow> code_start F (Suc b) = code_start F b + F b * 2 ^ (16 - b)"
  by (simp add: code_start_def huffman_consts)

lemma sym_base_Suc: "1 \<le> b \<Longrightarrow> sym_base F (Suc b) = sym_base F b + F b"
  by (simp add: sym_base_def)

lemma code_start_mono: "b \<le> c \<Longrightarrow> code_start F b \<le> code_start F c"
  by (auto simp: code_start_def intro: sum_mono2)

lemma sym_base_mono: "b \<le> c \<Longrightarrow> sym_base F b \<le> sym_base F c"
  by (auto simp: sym_base_def intro: sum_mono2)

lemma code_start_1 [simp]: "code_start F (Suc 0) = 0" "code_start F 1 = 0"
  by (simp_all add: code_start_def)

lemma sym_base_1 [simp]: "sym_base F (Suc 0) = 0" "sym_base F 1 = 0"
  by (simp_all add: sym_base_def)

lemma first_code_1 [simp]: "first_code F (Suc 0) = 0" "first_code F 1 = 0"
  by (simp_all add: first_code_def)

lemma first_code_fits:
  assumes "1 \<le> b" "b \<le> 16"
  shows "first_code F b + F b \<le> 2 ^ b \<longleftrightarrow> code_start F (Suc b) \<le> 2 ^ 16"
proof -
  have "code_start F (Suc b) = (first_code F b + F b) * 2 ^ (16 - b)"
    using assms by (simp add: code_start_Suc first_code_start algebra_simps)
  moreover have "(2::nat) ^ 16 = 2 ^ b * 2 ^ (16 - b)"
    using assms by (simp flip: power_add)
  ultimately show ?thesis
    using mult_le_cancel2 [of "first_code F b + F b" "2 ^ (16 - b)" "2 ^ b"] by (simp only:) simp
qed

lemma first_code_17: "first_code F 17 = 2 * code_start F 17"
  using first_code_Suc [of 16 F] first_code_start [of 16 F] code_start_Suc [of 16 F] by simp

section \<open>What the construction computes\<close>

lemma upt_1_17: "b \<le> 16 \<Longrightarrow> [b..<17] = b # [Suc b..<17]"
  by (simp add: upt_conv_Cons)

lemma nth_map_upt_1: "1 \<le> j \<Longrightarrow> j \<le> 16 \<Longrightarrow> map f [1..<17] ! (j - 1) = f j"
  by simp

lemma map_upt_1_update:
  assumes "1 \<le> l" "l \<le> 16"
  shows "(map f [1..<17])[l - 1 := v] = map (f(l := v)) [1..<17]"
  using assms by (intro nth_equalityI) (auto simp: nth_list_update)

text \<open>Counting yields the multiplicities of the lengths, and rejects lengths above sixteen.\<close>

lemma huffman_count_eq:
  "huffman_count (map (\<lambda>j. zero_symbols\<lparr>sym_freq := G j mod HUFFMAN_RAW_MAX\<rparr>) [1..<17]) e lengths =
     (if \<forall>l \<in> set lengths. l \<le> 16
      then Inr (map (\<lambda>j. zero_symbols\<lparr>sym_freq := (G j + count_list lengths j) mod HUFFMAN_RAW_MAX\<rparr>) [1..<17],
                e \<and> (\<forall>l \<in> set lengths. l = 0))
      else Inl Fault)"
proof (induction lengths arbitrary: G e)
  case Nil
  then show ?case by simp
next
  case (Cons l lengths)
  show ?case
  proof (cases "1 \<le> l \<and> l \<le> 16")
    case True
    let ?f = "\<lambda>j. zero_symbols\<lparr>sym_freq := G j mod HUFFMAN_RAW_MAX\<rparr>"
    have "(map ?f [1..<17])[l - 1 := (map ?f [1..<17] ! (l - 1))\<lparr>sym_freq := (sym_freq (map ?f [1..<17] ! (l - 1)) + 1) mod HUFFMAN_RAW_MAX\<rparr>]
        = map (\<lambda>j. zero_symbols\<lparr>sym_freq := (G(l := G l + 1)) j mod HUFFMAN_RAW_MAX\<rparr>) [1..<17]"
      using True by (subst map_upt_1_update) (auto simp: nth_map_upt_1 mod_Suc_eq)
    with True Cons.IH [of "G(l := G l + 1)" False] show ?thesis
      by (auto intro!: arg_cong [where f = "huffman_symbols.sym_freq_update _"])
  next
    case False
    with Cons.IH [of G e] show ?thesis by auto
  qed
qed

definition populated :: "(nat \<Rightarrow> nat) \<Rightarrow> nat \<Rightarrow> huffman_symbols" where
  "populated F j = \<lparr>sym_bits = j, sym_shift = 16 - j, sym_freq = F j,
     sym_start = first_code F j * 2 ^ (16 - j), sym_raw = int (sym_base F j)\<rparr>"

lemma huffman_populate_eq:
  "1 \<le> b \<Longrightarrow> b \<le> 17 \<Longrightarrow>
   huffman_populate b (first_code F b) (sym_base F b) (map (\<lambda>j. zero_symbols\<lparr>sym_freq := F j\<rparr>) [b..<17]) =
     (if \<forall>j \<in> {b..16}. first_code F j + F j \<le> 2 ^ j
      then Inr (map (populated F) [b..<17], first_code F 17) else Inl Fail)"
proof (induction "17 - b" arbitrary: b)
  case 0
  then show ?case by simp
next
  case (Suc n)
  then have b: "1 \<le> b" "b \<le> 16" "n = 17 - Suc b" "Suc b \<le> 17" by auto
  have split: "(\<forall>j \<in> {b..16}. P j) \<longleftrightarrow> P b \<and> (\<forall>j \<in> {Suc b..16}. P j)" for P :: "nat \<Rightarrow> bool"
    using b by (auto simp: Ball_def) (metis Suc_leI le_neq_implies_less)
  have IH: "huffman_populate (Suc b) (first_code F (Suc b)) (sym_base F (Suc b))
       (map (\<lambda>j. zero_symbols\<lparr>sym_freq := F j\<rparr>) [Suc b..<17]) =
     (if \<forall>j \<in> {Suc b..16}. first_code F j + F j \<le> 2 ^ j
      then Inr (map (populated F) [Suc b..<17], first_code F 17) else Inl Fail)"
    by (rule Suc.hyps(1)) (use b in auto)
  show ?case
    using b IH unfolding split upt_1_17 [OF b(2)]
    by (simp add: Let_def huffman_consts first_code_Suc sym_base_Suc)
      (simp add: populated_def zero_symbols_def)
qed

lemma populate_ok:
  "(\<forall>j \<in> {1..16}. first_code F j + F j \<le> 2 ^ j) \<longleftrightarrow> code_start F 17 \<le> 2 ^ 16"
  (is "?fits \<longleftrightarrow> _")
proof
  assume ?fits
  then have "first_code F 16 + F 16 \<le> 2 ^ 16"
    by (rule bspec) simp
  then show "code_start F 17 \<le> 2 ^ 16"
    using first_code_fits [of 16 F] by simp
next
  assume le: "code_start F 17 \<le> 2 ^ 16"
  have "code_start F (Suc j) \<le> 2 ^ 16" if "j \<in> {1..16}" for j
    using le code_start_mono [of "Suc j" 17 F] that by simp
  then show ?fits
    by (simp add: first_code_fits)
qed

text \<open>
  Filling the raw symbol table. In the state described by \<open>fill_ready\<close> set \<open>j\<close> has its pointer at
  \<open>P j\<close>, its block of the table starts at \<open>B j\<close>, and the symbols still to come fill it up to the
  start \<open>B (j + 1)\<close> of the next block.
\<close>

definition fill_ready :: "(nat \<Rightarrow> nat) \<Rightarrow> (nat \<Rightarrow> nat) \<Rightarrow> nat list \<Rightarrow> bool" where
  "fill_ready B P lengths \<longleftrightarrow>
     (\<forall>j \<in> {1..16}. B j \<le> P j \<and> P j + count_list lengths j = B (Suc j))"

lemma fill_ready_mono:
  assumes "fill_ready B P lengths" "1 \<le> j" "j \<le> k" "k \<le> 17"
  shows "B j \<le> B k"
  using assms(3,4)
proof (induction k rule: dec_induct)
  case (step k)
  then have "B k \<le> P k" "P k + count_list lengths k = B (Suc k)"
    using assms(1,2) by (auto simp: fill_ready_def)
  with step show ?case by simp
qed simp

lemma fill_ready_next:
  assumes "fill_ready B P (l # lengths)" "1 \<le> l" "l \<le> 16"
  shows "fill_ready B (P(l := Suc (P l))) lengths" "P l < B (Suc l)" "B (Suc l) \<le> B 17"
    "j \<in> {1..16} \<Longrightarrow> P l \<notin> {(P(l := Suc (P l))) j..<B (Suc j)}"
proof -
  show "fill_ready B (P(l := Suc (P l))) lengths"
    using assms by (auto simp: fill_ready_def split: if_splits)
  show Pl: "P l < B (Suc l)"
    using assms by (auto simp: fill_ready_def dest: bspec [of _ _ l])
  show "B (Suc l) \<le> B 17"
    using fill_ready_mono [OF assms(1), of "Suc l" 17] assms(2,3) by simp
  assume j: "j \<in> {1..16}"
  have "B l \<le> P l" "B j \<le> P j"
    using assms j by (auto simp: fill_ready_def)
  then show "P l \<notin> {(P(l := Suc (P l))) j..<B (Suc j)}"
    using Pl fill_ready_mono [OF assms(1), of "Suc l" j] fill_ready_mono [OF assms(1), of "Suc j" l]
      assms(2,3) j by (cases j l rule: linorder_cases) auto
qed

lemma huffman_fill_step:
  assumes "1 \<le> l" "l \<le> 16" "P l < length rawtab" "r < HUFFMAN_RAW_MAX"
  shows "huffman_fill (map (\<lambda>j. (g j)\<lparr>sym_raw := int (P j)\<rparr>) [1..<17]) rawtab r (l # lengths) =
     huffman_fill (map (\<lambda>j. (g j)\<lparr>sym_raw := int ((P(l := Suc (P l))) j)\<rparr>) [1..<17])
       (rawtab[P l := r]) (Suc r) lengths"
proof -
  have "(map (\<lambda>j. (g j)\<lparr>sym_raw := int (P j)\<rparr>) [1..<17])[l - 1 := (g l)\<lparr>sym_raw := int (P l) + 1\<rparr>]
      = map (\<lambda>j. (g j)\<lparr>sym_raw := int ((P(l := Suc (P l))) j)\<rparr>) [1..<17]"
    using assms(1,2) by (subst map_upt_1_update) auto
  then show ?thesis
    using assms by (simp add: Let_def nth_map_upt_1 del: upt_conv_Cons)
qed

definition filled :: "(nat \<Rightarrow> nat) \<Rightarrow> (nat \<Rightarrow> nat) \<Rightarrow> nat \<Rightarrow> nat list \<Rightarrow> nat list \<Rightarrow> nat list \<Rightarrow> bool" where
  "filled B P r lengths rawtab rawtab' \<longleftrightarrow> length rawtab' = length rawtab \<and>
     (\<forall>i < length lengths. 0 < lengths ! i \<longrightarrow>
        rawtab' ! (P (lengths ! i) + count_list (take i lengths) (lengths ! i)) = r + i) \<and>
     (\<forall>q. (\<forall>j \<in> {1..16}. q \<notin> {P j..<B (Suc j)}) \<longrightarrow> rawtab' ! q = rawtab ! q)"

lemma filled_unused:
  "filled B P (Suc r) lengths rawtab rawtab' \<Longrightarrow> filled B P r (0 # lengths) rawtab rawtab'"
  by (auto simp: filled_def nth_Cons' take_Cons')

lemma filled_used:
  assumes "fill_ready B P (l # lengths)" "1 \<le> l" "l \<le> 16" "P l < length rawtab"
    and "filled B (P(l := Suc (P l))) (Suc r) lengths (rawtab[P l := r]) rawtab'"
  shows "filled B P r (l # lengths) rawtab rawtab'"
proof -
  have at: "rawtab' ! P l = r"
    using assms(4,5) fill_ready_next(4) [OF assms(1-3)] by (auto simp: filled_def)
  have "rawtab' ! (P ((l # lengths) ! i) + count_list (take i (l # lengths)) ((l # lengths) ! i)) = r + i"
    if "i < length (l # lengths)" "0 < (l # lengths) ! i" for i
  proof (cases i)
    case 0
    with at show ?thesis by simp
  next
    case (Suc k)
    have "rawtab' ! ((P(l := Suc (P l))) (lengths ! k) + count_list (take k lengths) (lengths ! k)) = Suc r + k"
      using assms(5) Suc that by (simp add: filled_def)
    with Suc show ?thesis by (auto split: if_splits)
  qed
  moreover have "rawtab' ! q = rawtab ! q" if "\<forall>j \<in> {1..16}. q \<notin> {P j..<B (Suc j)}" for q
  proof -
    have "q \<noteq> P l" using that assms(2,3) fill_ready_next(2) [OF assms(1-3)] by auto
    moreover have "\<forall>j \<in> {1..16}. q \<notin> {(P(l := Suc (P l))) j..<B (Suc j)}"
      using that by (auto split: if_splits)
    ultimately show ?thesis using assms(5) by (simp add: filled_def)
  qed
  ultimately show ?thesis using assms(5) by (simp add: filled_def)
qed

lemma huffman_fill_eq:
  assumes "\<forall>l \<in> set lengths. l \<le> 16" "fill_ready B P lengths" "B 17 \<le> length rawtab" "r + length lengths \<le> HUFFMAN_RAW_MAX"
  shows "\<exists>rawtab'. huffman_fill (map (\<lambda>j. (g j)\<lparr>sym_raw := int (P j)\<rparr>) [1..<17]) rawtab r lengths =
       Inr (map (\<lambda>j. (g j)\<lparr>sym_raw := int (B (Suc j))\<rparr>) [1..<17], rawtab')
     \<and> filled B P r lengths rawtab rawtab'"
  using assms
proof (induction lengths arbitrary: P rawtab r)
  case Nil
  then have "map (\<lambda>j. (g j)\<lparr>sym_raw := int (P j)\<rparr>) [1..<17] =
      map (\<lambda>j. (g j)\<lparr>sym_raw := int (B (Suc j))\<rparr>) [1..<17]"
    by (auto simp: fill_ready_def)
  then show ?case by (auto simp: filled_def simp del: upt_conv_Cons)
next
  case (Cons l lengths)
  show ?case
  proof (cases "l = 0")
    case True
    with Cons.prems have "fill_ready B P lengths" by (simp add: fill_ready_def)
    with Cons.IH [of P rawtab "Suc r"] Cons.prems True show ?thesis
      using filled_unused by fastforce
  next
    case False
    with Cons.prems have l: "1 \<le> l" "l \<le> 16" by auto
    note next_state = fill_ready_next [OF Cons.prems(2) l]
    have room: "P l < length rawtab" using next_state(2,3) Cons.prems(3) by simp
    have r: "r < HUFFMAN_RAW_MAX" using Cons.prems(4) by simp
    have "\<exists>rawtab'. huffman_fill (map (\<lambda>j. (g j)\<lparr>sym_raw := int ((P(l := Suc (P l))) j)\<rparr>) [1..<17])
          (rawtab[P l := r]) (Suc r) lengths =
         Inr (map (\<lambda>j. (g j)\<lparr>sym_raw := int (B (Suc j))\<rparr>) [1..<17], rawtab')
       \<and> filled B (P(l := Suc (P l))) (Suc r) lengths (rawtab[P l := r]) rawtab'"
      using Cons.prems next_state(1) by (intro Cons.IH) (auto simp: fun_upd_def)
    then show ?thesis
      unfolding huffman_fill_step [where P = P, OF l room r] using filled_used [OF Cons.prems(2) l room] by blast
  qed
qed

lemma huffman_fill_unused:
  "\<forall>l \<in> set lengths. l = 0 \<Longrightarrow> huffman_fill huf rawtab r lengths = Inr (huf, rawtab)"
  by (induction lengths arbitrary: r) auto

text \<open>Adjusting: lookup entry \<open>p\<close> holds the last set that starts at or below the prefix \<open>p\<close>.\<close>

lemma length_fold_update [simp]: "length (fold (\<lambda>i xs. xs[i := v]) is xs) = length xs"
  by (induction "is" arbitrary: xs) auto

lemma nth_fold_update:
  "j < length xs \<Longrightarrow> fold (\<lambda>i xs. xs[i := v]) is xs ! j = (if j \<in> set is then v else xs ! j)"
  by (induction "is" arbitrary: xs) (auto simp: nth_list_update)

lemma length_lookup_fill [simp]: "length (huffman_lookup_fill bits start lookup) = length lookup"
  by (simp add: huffman_lookup_fill_def)

lemma nth_lookup_fill:
  "p < length lookup \<Longrightarrow> huffman_lookup_fill bits start lookup ! p =
     (if start div 512 \<le> p \<and> p < 128 then bits - 1 else lookup ! p)"
  by (simp add: huffman_lookup_fill_def nth_fold_update huffman_consts)

lemma huffman_lookup_fill_code [code]:
  "huffman_lookup_fill bits start lookup =
     (let a = start div 512 in
      take a lookup @ replicate (min 128 (length lookup) - a) (bits - 1) @ drop (max a 128) lookup)"
  (is "_ = ?fast")
proof (rule nth_equalityI)
  show "length (huffman_lookup_fill bits start lookup) = length ?fast"
    by (auto simp: Let_def min_def max_def)
next
  fix p assume "p < length (huffman_lookup_fill bits start lookup)"
  then show "huffman_lookup_fill bits start lookup ! p = ?fast ! p"
    by (auto simp: Let_def nth_lookup_fill nth_append min_def max_def)
qed

definition adjusted :: "huffman_symbols \<Rightarrow> huffman_symbols" where
  "adjusted s = s\<lparr>sym_raw := sym_raw s - int (sym_freq s) - int (sym_start s div 2 ^ sym_shift s)\<rparr>"

lemma huffman_adjust_syms: "fst (huffman_adjust b ss lookup) = map adjusted ss"
  by (induction b ss lookup rule: huffman_adjust.induct) (auto simp: Let_def adjusted_def split: prod.splits)

lemma huffman_adjust_length [simp]: "length (snd (huffman_adjust b ss lookup)) = length lookup"
  by (induction b ss lookup rule: huffman_adjust.induct) (auto simp: Let_def split: prod.splits)

lemma huffman_adjust_kept:
  assumes "p < length lookup" "\<forall>s \<in> set ss. p < sym_start s div 512"
  shows "snd (huffman_adjust b ss lookup) ! p = lookup ! p"
  using assms by (induction b ss lookup rule: huffman_adjust.induct)
    (auto simp: Let_def nth_lookup_fill split: prod.splits)

lemma huffman_adjust_lookup:
  assumes "b \<le> j" "j \<le> 16" "p < length lookup" "p < 128"
    and "sym_start (f j) div 512 \<le> p" "\<forall>k. j < k \<longrightarrow> k \<le> 16 \<longrightarrow> p < sym_start (f k) div 512"
  shows "snd (huffman_adjust b (map f [b..<17]) lookup) ! p = j - 1"
  using assms(1,3)
proof (induction b arbitrary: lookup rule: inc_induct)
  case base
  have "\<forall>s \<in> set (map f [Suc j..<17]). p < sym_start s div 512"
    using assms(6) by auto
  then show ?case
    using assms base by (simp add: upt_1_17 Let_def split_beta huffman_adjust_kept nth_lookup_fill)
next
  case (step b)
  then have "[b..<17] = b # [Suc b..<17]" using assms(2) by (intro upt_1_17) simp
  with step show ?case by (simp add: Let_def split_beta)
qed

section \<open>Finished alphabets\<close>

text \<open>
  \<open>alphabet_for F R a\<close>: the alphabet \<open>a\<close> has \<open>F j\<close> symbols of length \<open>j\<close>, a code that uses the
  whole code space, raw symbols of length \<open>j\<close> from index \<open>R j\<close> on, and a quick lookup table that
  holds for every prefix the last set starting at or below it.
\<close>

definition finished :: "(nat \<Rightarrow> nat) \<Rightarrow> (nat \<Rightarrow> int) \<Rightarrow> nat \<Rightarrow> huffman_symbols" where
  "finished F R j = \<lparr>sym_bits = j, sym_shift = 16 - j, sym_freq = F j,
     sym_start = code_start F j, sym_raw = R j - int (first_code F j)\<rparr>"

definition last_start :: "(nat \<Rightarrow> nat) \<Rightarrow> nat \<Rightarrow> nat \<Rightarrow> bool" where
  "last_start st v j \<longleftrightarrow> 1 \<le> j \<and> j \<le> 16 \<and> st j \<le> v \<and> (\<forall>k. j < k \<longrightarrow> k \<le> 16 \<longrightarrow> v < st k)"

definition alphabet_for :: "(nat \<Rightarrow> nat) \<Rightarrow> (nat \<Rightarrow> int) \<Rightarrow> huf_alphabet \<Rightarrow> bool" where
  "alphabet_for F R a \<longleftrightarrow> alph_huf a = map (finished F R) [1..<17] \<and> code_start F 17 = 2 ^ 16 \<and>
     length (alph_lookup a) = 128 \<and>
     (\<forall>p < 128. last_start (\<lambda>j. code_start F j div 512) p (alph_lookup a ! p + 1))"

lemma last_start_ex: "st 1 \<le> v \<Longrightarrow> \<exists>j. last_start st v j"
proof -
  assume v: "st 1 \<le> v"
  define S where "S = {k \<in> {1..16}. st k \<le> v}"
  have S: "finite S" "1 \<in> S" using v by (auto simp: S_def)
  define j where "j = Max S"
  have "S \<noteq> {}" using S(2) by auto
  then have j: "j \<in> S" using Max_in [OF S(1)] by (simp add: j_def)
  moreover have "v < st k" if "j < k" "k \<le> 16" for k
  proof (rule ccontr)
    assume "\<not> v < st k"
    then have "k \<in> S" using j that by (auto simp: S_def)
    then have "k \<le> j" using Max_ge [OF S(1)] by (simp add: j_def)
    with that(1) show False by simp
  qed
  ultimately show ?thesis by (auto simp: S_def last_start_def)
qed

lemma huffman_sym_down_eq:
  assumes "last_start (\<lambda>j. sym_start (f j)) huf j" "j \<le> i + 1" "i < 16"
  shows "huffman_sym_down (map f [1..<17]) huf i = Inr (f j)"
  using assms(2,3)
proof (induction i)
  case 0
  with assms(1) show ?case by (simp add: huffman_sym_down.simps [of _ _ 0] last_start_def)
next
  case (Suc i)
  show ?case
  proof (cases "j = Suc (Suc i)")
    case True
    with assms(1) Suc show ?thesis
      by (simp add: huffman_sym_down.simps [of _ _ "Suc i"] last_start_def)
  next
    case False
    with assms(1) Suc show ?thesis
      by (simp add: huffman_sym_down.simps [of _ _ "Suc i"] last_start_def)
  qed
qed

lemma sym_start_finished [simp]: "sym_start (finished F R j) = code_start F j"
  by (simp add: finished_def)

text \<open>The quick lookup and the downward search find the set whose code range holds \<open>huf\<close>.\<close>

lemma huffman_sym_finds:
  assumes "alphabet_for F R a" "huf < 2 ^ 16"
  shows "\<exists>j. last_start (code_start F) huf j \<and> huffman_sym a huf = Inr (finished F R j)"
proof -
  obtain j where j: "last_start (code_start F) huf j"
    using last_start_ex [of "code_start F" huf] by auto
  have p: "huf div 512 < 128" using assms(2) by simp
  let ?i = "alph_lookup a ! (huf div 512)"
  have i: "last_start (\<lambda>j. code_start F j div 512) (huf div 512) (?i + 1)"
    using assms(1) p by (simp add: alphabet_for_def)
  have "code_start F j div 512 \<le> huf div 512"
    using j by (simp add: last_start_def div_le_mono)
  with i j have "j \<le> ?i + 1"
    by (auto simp: last_start_def) (metis not_le)
  moreover have "?i < 16" using i by (simp add: last_start_def)
  ultimately have "huffman_sym_down (alph_huf a) huf ?i = Inr (finished F R j)"
    using assms(1) j huffman_sym_down_eq [of "finished F R" huf j ?i] by (simp add: alphabet_for_def)
  then show ?thesis
    using assms(1) p j by (auto simp: huffman_sym_def huffman_consts alphabet_for_def)
qed

lemma last_start_range:
  assumes "alphabet_for F R a" "huf < 2 ^ 16" "last_start (code_start F) huf j"
  shows "code_start F j \<le> huf" "huf < code_start F (Suc j)"
    "huf div 2 ^ (16 - j) < first_code F j + F j" "first_code F j \<le> huf div 2 ^ (16 - j)"
proof -
  have j: "1 \<le> j" "j \<le> 16" using assms(3) by (auto simp: last_start_def)
  show lo: "code_start F j \<le> huf" using assms(3) by (simp add: last_start_def)
  show hi: "huf < code_start F (Suc j)"
    using assms j by (cases "j = 16") (auto simp: last_start_def alphabet_for_def)
  have "code_start F (Suc j) = (first_code F j + F j) * 2 ^ (16 - j)"
    using j by (simp add: code_start_Suc first_code_start algebra_simps)
  with hi show "huf div 2 ^ (16 - j) < first_code F j + F j"
    by (simp add: less_mult_imp_div_less)
  have "first_code F j * 2 ^ (16 - j) div 2 ^ (16 - j) \<le> huf div 2 ^ (16 - j)"
    using lo j by (intro div_le_mono) (simp add: first_code_start)
  then show "first_code F j \<le> huf div 2 ^ (16 - j)" by simp
qed

text \<open>Every set found has its raw symbols where \<open>R\<close> puts them.\<close>

lemma huffman_raw_finished:
  assumes "alphabet_for F R a" "huf < 2 ^ 16" "last_start (code_start F) huf j"
    and "R j = int r" "r + F j \<le> length (alph_raw a)"
  shows "huffman_raw a (finished F R j) huf =
     Inr (alph_raw a ! (r + (huf div 2 ^ (16 - j) - first_code F j)))"
    "huf div 2 ^ (16 - j) - first_code F j < F j"
proof -
  let ?c = "huf div 2 ^ (16 - j)"
  note range = last_start_range(3,4) [OF assms(1-3)]
  show k: "?c - first_code F j < F j" using range by simp
  define m where "m = r + (?c - first_code F j)"
  have "R j - int (first_code F j) + int ?c = int m"
    unfolding m_def using range assms(4) by (simp add: of_nat_diff)
  moreover have "m < length (alph_raw a)" unfolding m_def using k assms(5) by simp
  ultimately have "huffman_raw a (finished F R j) huf = Inr (alph_raw a ! m)"
    by (simp add: huffman_raw_def finished_def Let_def del: of_nat_div)
  then show "huffman_raw a (finished F R j) huf = Inr (alph_raw a ! (r + (?c - first_code F j)))"
    by (simp only: m_def)
qed

lemma sum_count_list_le: "(\<Sum>j = 1..<b. count_list (lengths :: nat list) j) \<le> length lengths"
proof (induction lengths)
  case (Cons l lengths)
  have "(\<Sum>j = 1..<b. count_list (l # lengths) j) =
      (\<Sum>j = 1..<b. count_list lengths j) + (\<Sum>j = 1..<b. if j = l then 1 else 0)"
    by (subst sum.distrib [symmetric]) (auto intro: sum.cong)
  also have "(\<Sum>j = 1..<b. if j = l then 1 else 0) \<le> (1::nat)"
    by (subst sum.delta) auto
  finally show ?case using Cons.IH by simp
qed simp

lemma adjusted_populated:
  assumes "1 \<le> j" "j \<le> 16"
  shows "adjusted ((populated F j)\<lparr>sym_raw := p\<rparr>) = finished F (\<lambda>j. p - int (F j)) j"
  using assms by (simp add: adjusted_def populated_def finished_def flip: first_code_start)

text \<open>The common tail of the construction: from the populated sets to the finished alphabet.\<close>

lemma adjust_alphabet_for:
  assumes "length lookup = 128" "code_start F 17 = 2 ^ 16"
    and "huffman_adjust 1 (map (\<lambda>j. (populated F j)\<lparr>sym_raw := P j\<rparr>) [1..<17]) lookup = (huf, lookup')"
  shows "alphabet_for F (\<lambda>j. P j - int (F j)) \<lparr>alph_huf = huf, alph_lookup = lookup', alph_raw = rawtab\<rparr>"
proof -
  let ?f = "\<lambda>j. (populated F j)\<lparr>sym_raw := P j\<rparr>"
  have "huf = map adjusted (map ?f [1..<17])"
    using assms(3) huffman_adjust_syms [of 1 "map ?f [1..<17]" lookup] by simp
  also have "\<dots> = map (finished F (\<lambda>j. P j - int (F j))) [1..<17]"
    by (auto simp: adjusted_populated finished_def)
  finally have huf: "huf = map (finished F (\<lambda>j. P j - int (F j))) [1..<17]" .
  have "last_start (\<lambda>j. code_start F j div 512) p (lookup' ! p + 1)" if p: "p < 128" for p
  proof -
    obtain j where j: "last_start (\<lambda>j. code_start F j div 512) p j"
      using last_start_ex [of "\<lambda>j. code_start F j div 512" p] by auto
    then have "lookup' ! p = j - 1"
      using huffman_adjust_lookup [of 1 j p lookup ?f] assms(1,3) p
      by (auto simp: last_start_def populated_def first_code_start)
    with j show ?thesis by (auto simp: last_start_def)
  qed
  then show ?thesis
    using huf assms huffman_adjust_length [of 1 "map ?f [1..<17]" lookup]
    by (simp add: alphabet_for_def)
qed

section \<open>Correctness of the construction\<close>

lemma replicate_zero_symbols:
  "replicate HUFFMAN_BITS zero_symbols = map (\<lambda>j. zero_symbols\<lparr>sym_freq := 0 mod HUFFMAN_RAW_MAX\<rparr>) [1..<17]"
  by (simp add: huffman_consts zero_symbols_def map_replicate_const)

lemma alphabet_for_cong:
  assumes "\<forall>j \<in> {1..16}. R j = R' j"
  shows "alphabet_for F R a = alphabet_for F R' a"
proof -
  have "map (finished F R) [1..<17] = map (finished F R') [1..<17]"
    using assms by (auto simp: finished_def)
  then show ?thesis by (simp only: alphabet_for_def)
qed

text \<open>The effective number of symbols of each length: an empty alphabet has two of length one.\<close>

definition len_count :: "nat list \<Rightarrow> nat \<Rightarrow> nat" where
  "len_count lengths =
     (if \<forall>l \<in> set lengths. l = 0 then (count_list lengths)(1 := 2) else count_list lengths)"

lemma huffman_counted:
  assumes "\<forall>l \<in> set lengths. l \<le> 16" "\<forall>j. count_list lengths (Suc j) < HUFFMAN_RAW_MAX"
  shows "\<exists>huf e. huffman_count (replicate HUFFMAN_BITS zero_symbols) True lengths = Inr (huf, e)
     \<and> (if e then huf[0 := (huf ! 0)\<lparr>sym_freq := 2\<rparr>] else huf) =
         map (\<lambda>j. zero_symbols\<lparr>sym_freq := len_count lengths j\<rparr>) [1..<17]"
proof -
  let ?f = "\<lambda>j. zero_symbols\<lparr>sym_freq := count_list lengths j\<rparr>"
  have "(map ?f [1..<17])[1 - 1 := (map ?f [1..<17] ! (1 - 1))\<lparr>sym_freq := 2\<rparr>]
      = map (\<lambda>j. zero_symbols\<lparr>sym_freq := ((count_list lengths)(1 := 2)) j\<rparr>) [1..<17]"
    by (subst map_upt_1_update) (auto simp: nth_map_upt_1)
  moreover have small: "map (\<lambda>j. zero_symbols\<lparr>sym_freq := count_list lengths j mod HUFFMAN_RAW_MAX\<rparr>) [1..<17] = map ?f [1..<17]"
    using assms(2) by (intro map_cong refl) (metis One_nat_def Suc_le_D atLeastLessThan_iff mod_less set_upt)
  moreover have "huffman_count (replicate HUFFMAN_BITS zero_symbols) True lengths = Inr (map ?f [1..<17], \<forall>l \<in> set lengths. l = 0)"
    using assms(1) huffman_count_eq [of "\<lambda>_. 0" True lengths] small
    by (simp only: replicate_zero_symbols add_0 if_P [OF assms(1)] simp_thms)
  ultimately show ?thesis
    by (auto simp: len_count_def simp del: upt_conv_Cons)
qed

lemma huffman_build:
  assumes "\<forall>l \<in> set lengths. l \<le> 16" "F = len_count lengths" "length (alph_lookup a) = 128"
    and counts: "\<forall>j. count_list lengths (Suc j) < HUFFMAN_RAW_MAX"
    and fill: "huffman_fill (map (populated F) [1..<17]) (alph_raw a) 0 lengths =
      Inr (map (\<lambda>j. (populated F j)\<lparr>sym_raw := P j\<rparr>) [1..<17], rawtab')"
  shows "if code_start F 17 = 2 ^ 16
     then \<exists>a'. huffman_alphabet a lengths = Inr a' \<and> alph_raw a' = rawtab'
        \<and> alphabet_for F (\<lambda>j. P j - int (F j)) a'
     else huffman_alphabet a lengths = Inl Fail"
proof -
  obtain huf e where count: "huffman_count (replicate HUFFMAN_BITS zero_symbols) True lengths = Inr (huf, e)"
    "(if e then huf[0 := (huf ! 0)\<lparr>sym_freq := 2\<rparr>] else huf) = map (\<lambda>j. zero_symbols\<lparr>sym_freq := F j\<rparr>) [1..<17]"
    using huffman_counted [OF assms(1) counts] assms(2) by blast
  have pop: "huffman_populate 1 0 0 (map (\<lambda>j. zero_symbols\<lparr>sym_freq := F j\<rparr>) [1..<17]) =
     (if code_start F 17 \<le> 2 ^ 16 then Inr (map (populated F) [1..<17], first_code F 17) else Inl Fail)"
    using huffman_populate_eq [of 1 F] unfolding populate_ok by (simp del: upt_conv_Cons)
  obtain huf' lookup' where adjust: "huffman_adjust 1 (map (\<lambda>j. (populated F j)\<lparr>sym_raw := P j\<rparr>) [1..<17])
      (alph_lookup a) = (huf', lookup')"
    by force
  note alph = adjust_alphabet_for [OF assms(3) _ adjust, of rawtab']
  have complete: "(first_code F 17 = 2 ^ (HUFFMAN_BITS + 1)) = (code_start F 17 = 2 ^ 16)"
    by (simp add: first_code_17 huffman_consts)
  show ?thesis
    unfolding huffman_alphabet_def count(1) rbind_Inr prod.case count(2) Let_def pop
    using alph by (simp only: if_distrib [of "\<lambda>r. rbind r _"] rbind_Inr rbind_Inl prod.case fill adjust complete) auto
qed

lemma huffman_alphabet_used:
  assumes "\<exists>l \<in> set lengths. l \<noteq> 0" "\<forall>l \<in> set lengths. l \<le> 16"
    and "length (alph_lookup a) = 128" "length lengths \<le> length (alph_raw a)" "length lengths < HUFFMAN_RAW_MAX"
  defines "F \<equiv> count_list lengths"
  shows "if kraft_complete lengths
     then \<exists>a'. huffman_alphabet a lengths = Inr a' \<and> alphabet_for F (\<lambda>j. int (sym_base F j)) a'
        \<and> filled (sym_base F) (sym_base F) 0 lengths (alph_raw a) (alph_raw a')
     else huffman_alphabet a lengths = Inl Fail"
proof -
  let ?B = "sym_base F"
  have F: "F = len_count lengths" using assms(1) by (auto simp: F_def len_count_def)
  have ready: "fill_ready ?B ?B lengths"
    by (auto simp: fill_ready_def sym_base_Suc F_def)
  have room: "?B 17 \<le> length (alph_raw a)"
    using sum_count_list_le [of lengths 17] assms(4) by (simp add: sym_base_def F_def)
  have same: "map (populated F) [1..<17] = map (\<lambda>j. (populated F j)\<lparr>sym_raw := int (?B j)\<rparr>) [1..<17]"
    by (simp add: populated_def)
  obtain rawtab' where fill: "huffman_fill (map (populated F) [1..<17]) (alph_raw a) 0 lengths =
       Inr (map (\<lambda>j. (populated F j)\<lparr>sym_raw := int (?B (Suc j))\<rparr>) [1..<17], rawtab')"
      and filled: "filled ?B ?B 0 lengths (alph_raw a) rawtab'"
    using huffman_fill_eq [OF assms(2) ready room, of 0 "populated F"] assms(5) unfolding same by auto
  have counts: "\<forall>j. count_list lengths (Suc j) < HUFFMAN_RAW_MAX"
    using assms(5) count_le_length [of lengths] le_less_trans by blast
  have R: "alphabet_for F (\<lambda>j. int (?B (Suc j)) - int (F j)) = alphabet_for F (\<lambda>j. int (?B j))"
    by (rule ext, rule alphabet_for_cong) (simp add: sym_base_Suc)
  have complete: "kraft_complete lengths \<longleftrightarrow> code_start F 17 = 2 ^ 16"
    by (simp add: kraft_complete_def huffman_consts F_def)
  show ?thesis
    using huffman_build [OF assms(2) F assms(3) counts fill] filled unfolding R complete by (auto split: if_splits)
qed

lemma code_start_two: "1 < j \<Longrightarrow> code_start ((\<lambda>_. 0)(1 := 2)) j = 2 ^ 16"
proof -
  assume j: "1 < j"
  have "(\<Sum>i = 1..<j. ((\<lambda>_. 0)(1 := 2)) i * 2 ^ (16 - i)) =
      (\<Sum>i = 1..<j. if i = 1 then (2 * 2 ^ 15 :: nat) else 0)"
    by (rule sum.cong) auto
  with j show ?thesis by (simp add: code_start_def huffman_consts)
qed

lemma code_start_cong: "(\<And>j. 1 \<le> j \<Longrightarrow> F j = G j) \<Longrightarrow> code_start F = code_start G"
  by (auto simp: code_start_def intro!: ext sum.cong)

lemma huffman_alphabet_unused:
  assumes "\<forall>l \<in> set lengths. l = 0" "length (alph_lookup a) = 128"
  defines "F \<equiv> len_count lengths"
  shows "\<exists>a'. huffman_alphabet a lengths = Inr a' \<and> alph_raw a' = alph_raw a \<and>
     alphabet_for F (\<lambda>j. int (sym_base F j) - int (F j)) a' \<and> (\<forall>j. 1 < j \<longrightarrow> code_start F j = 2 ^ 16)"
proof -
  have "count_list lengths j = 0" if "1 \<le> j" for j
    using assms(1) that by (auto simp: count_list_0_iff)
  then have F: "code_start F = code_start ((\<lambda>_. 0)(1 := 2))"
    using assms(1) unfolding F_def len_count_def by (intro code_start_cong) simp
  have fill: "huffman_fill (map (populated F) [1..<17]) (alph_raw a) 0 lengths =
      Inr (map (\<lambda>j. (populated F j)\<lparr>sym_raw := int (sym_base F j)\<rparr>) [1..<17], alph_raw a)"
    using assms(1) by (simp add: huffman_fill_unused populated_def)
  have short: "\<forall>l \<in> set lengths. l \<le> 16" using assms(1) by auto
  have "count_list lengths (Suc j) = 0" for j using assms(1) by (auto simp: count_list_0_iff)
  then have counts: "\<forall>j. count_list lengths (Suc j) < HUFFMAN_RAW_MAX" by (simp add: huffman_consts)
  show ?thesis
    using huffman_build [OF short meta_eq_to_obj_eq [OF F_def] assms(2) counts fill] code_start_two unfolding F by simp
qed

text \<open>The empty alphabet: every input decodes to symbol zero of length one.\<close>

lemma huffman_unused_decodes:
  assumes "alphabet_for F R a" "\<forall>j. 1 < j \<longrightarrow> code_start F j = 2 ^ 16" "R 1 = - 2" "huf < 2 ^ 16"
  shows "\<exists>s. huffman_sym a huf = Inr s \<and> huffman_len s = 1 \<and> huffman_raw a s huf = Inr 0"
proof -
  have zero: "alph_lookup a ! p = 0" if "p < 128" for p
  proof -
    have "last_start (\<lambda>j. code_start F j div 512) p (alph_lookup a ! p + 1)"
      using assms(1) that by (simp add: alphabet_for_def)
    then have "code_start F (alph_lookup a ! p + 1) div 512 \<le> p" by (simp add: last_start_def)
    then show ?thesis using assms(2) that by (cases "alph_lookup a ! p") auto
  qed
  obtain j where j: "last_start (code_start F) huf j" "huffman_sym a huf = Inr (finished F R j)"
    using huffman_sym_finds [OF assms(1,4)] by auto
  then have j1: "j = 1"
    using assms(2,4) by (metis last_start_def le_neq_implies_less not_le)
  have "huf div 2 ^ 15 < 2" using assms(4) by simp
  then have "huf div 2 ^ 15 = 0 \<or> huf div 2 ^ 15 = 1" by linarith
  then have "huffman_raw a (finished F R 1) huf = Inr 0"
    using assms(1,3) zero by (auto simp: huffman_raw_def finished_def Let_def alphabet_for_def)
  with j j1 show ?thesis by (simp add: huffman_len_def finished_def)
qed

lemma rank_surj:
  "k < count_list xs x \<Longrightarrow> \<exists>i < length xs. xs ! i = x \<and> count_list (take i xs) x = k"
proof (induction xs arbitrary: k)
  case (Cons y xs)
  show ?case
  proof (cases "y = x \<and> k = 0")
    case True
    then show ?thesis by (intro exI [of _ 0]) simp
  next
    case False
    with Cons.prems have "(if y = x then k - 1 else k) < count_list xs x" by auto
    from Cons.IH [OF this] obtain i where "i < length xs" "xs ! i = x"
      "count_list (take i xs) x = (if y = x then k - 1 else k)" by blast
    with False show ?thesis by (intro exI [of _ "Suc i"]) auto
  qed
qed simp

lemma rank_less: "i < length xs \<Longrightarrow> count_list (take i xs) (xs ! i) < count_list xs (xs ! i)"
proof -
  assume i: "i < length xs"
  have "count_list xs (xs ! i) = count_list (take i xs @ xs ! i # drop (Suc i) xs) (xs ! i)"
    using i by (simp flip: id_take_nth_drop)
  then show ?thesis by simp
qed

lemma huffman_used_decodes:
  assumes "alphabet_for F (\<lambda>j. int (sym_base F j)) a" "F = count_list lengths"
    and "filled (sym_base F) (sym_base F) 0 lengths raw0 (alph_raw a)"
    and "length lengths \<le> length raw0" "huf < 2 ^ 16"
  shows "\<exists>s i. huffman_sym a huf = Inr s \<and> huffman_raw a s huf = Inr i \<and> i < length lengths
     \<and> lengths ! i = huffman_len s \<and> 1 \<le> huffman_len s \<and> huffman_len s \<le> 16
     \<and> huf div 2 ^ (16 - huffman_len s) = canonical_code lengths i"
proof -
  obtain j where j: "last_start (code_start F) huf j"
      "huffman_sym a huf = Inr (finished F (\<lambda>j. int (sym_base F j)) j)"
    using huffman_sym_finds [OF assms(1,5)] by auto
  then have j16: "1 \<le> j" "j \<le> 16" by (auto simp: last_start_def)
  have "sym_base F j + F j \<le> sym_base F 17"
    using sym_base_mono [of "Suc j" 17 F] j16 by (simp add: sym_base_Suc)
  also have "\<dots> \<le> length (alph_raw a)"
    using sum_count_list_le [of lengths 17] assms(2-4) by (simp add: sym_base_def filled_def)
  finally have raw: "huffman_raw a (finished F (\<lambda>j. int (sym_base F j)) j) huf =
      Inr (alph_raw a ! (sym_base F j + (huf div 2 ^ (16 - j) - first_code F j)))"
    "huf div 2 ^ (16 - j) - first_code F j < F j"
    using huffman_raw_finished [OF assms(1,5) j(1) refl] by auto
  obtain i where i: "i < length lengths" "lengths ! i = j"
      "count_list (take i lengths) j = huf div 2 ^ (16 - j) - first_code F j"
    using rank_surj [of _ lengths j] raw(2) assms(2) by blast
  then have "alph_raw a ! (sym_base F j + (huf div 2 ^ (16 - j) - first_code F j)) = i"
    using assms(3) j16 by (auto simp: filled_def)
  then show ?thesis
    using i j(2) j16 raw(1) last_start_range(4) [OF assms(1,5) j(1)] assms(2)
    by (auto simp: huffman_len_def finished_def canonical_code_def)
qed

text \<open>The sixteen-bit values that begin with a code word of length \<open>l\<close> lie in the range of that length.\<close>

lemma canonical_code_range:
  assumes "i < length lengths" "lengths ! i = l" "1 \<le> l" "l \<le> 16"
    and "huf div 2 ^ (16 - l) = canonical_code lengths i"
  shows "code_start (count_list lengths) l \<le> huf" "huf < code_start (count_list lengths) (Suc l)"
proof -
  let ?F = "count_list lengths"
  let ?c = "canonical_code lengths i"
  have c: "first_code ?F l \<le> ?c" "Suc ?c \<le> first_code ?F l + ?F l"
    using rank_less [OF assms(1)] assms(2) by (auto simp: canonical_code_def)
  have "first_code ?F l * 2 ^ (16 - l) \<le> ?c * 2 ^ (16 - l)" using c by simp
  also have "\<dots> \<le> huf" by (metis assms(5) div_times_less_eq_dividend)
  finally show "code_start ?F l \<le> huf" using assms by (simp add: first_code_start)
  have "huf < Suc ?c * 2 ^ (16 - l)"
    using assms(5) dividend_less_div_times [of "2 ^ (16 - l)" huf] by simp
  also have "\<dots> \<le> (first_code ?F l + ?F l) * 2 ^ (16 - l)" by (rule mult_le_mono1) (rule c)
  finally show "huf < code_start ?F (Suc l)"
    using assms by (simp add: code_start_Suc first_code_start algebra_simps)
qed

lemma canonical_code_length:
  assumes "i < length lengths" "1 \<le> lengths ! i" "lengths ! i \<le> 16"
    and "k < length lengths" "1 \<le> lengths ! k" "lengths ! k \<le> 16"
    and "huf div 2 ^ (16 - lengths ! i) = canonical_code lengths i"
    and "huf div 2 ^ (16 - lengths ! k) = canonical_code lengths k"
  shows "lengths ! i = lengths ! k"
  using canonical_code_range [OF assms(1) refl assms(2,3,7)] canonical_code_range [OF assms(4) refl assms(5,6,8)]
    code_start_mono [of "Suc (lengths ! i)" "lengths ! k" "count_list lengths"]
    code_start_mono [of "Suc (lengths ! k)" "lengths ! i" "count_list lengths"]
  by (cases "lengths ! i" "lengths ! k" rule: linorder_cases) auto

lemma canonical_code_inj:
  assumes "i < length lengths" "k < length lengths" "lengths ! i = lengths ! k"
    and "canonical_code lengths i = canonical_code lengths k"
  shows "i = k"
proof -
  have lt: False if "m < n" "n < length lengths" "lengths ! m = lengths ! n"
      "count_list (take m lengths) (lengths ! m) = count_list (take n lengths) (lengths ! n)" for m n
  proof -
    have "take n lengths = take m lengths @ lengths ! m # drop (Suc m) (take n lengths)"
      using id_take_nth_drop [of m "take n lengths"] that by (simp add: min_def)
    from arg_cong [OF this, of "\<lambda>xs. count_list xs (lengths ! n)"] that show False by simp
  qed
  show ?thesis
    using assms lt [of i k] lt [of k i] by (cases i k rule: linorder_cases) (auto simp: canonical_code_def)
qed


section \<open>Properties\<close>

text \<open>An alphabet in memory whose tables are large enough for \<open>lengths\<close>, of which there are fewer than 65536.\<close>

definition alphabet_room :: "huf_alphabet \<Rightarrow> nat list \<Rightarrow> bool" where
  "alphabet_room a lengths \<longleftrightarrow>
     length (alph_lookup a) = 2 ^ HUFFMAN_QL_BITS \<and> length lengths \<le> length (alph_raw a) \<and> length lengths < HUFFMAN_RAW_MAX"

lemma alphabet_room_zero [simp]: "alphabet_room (zero_alphabet n) lengths \<longleftrightarrow> length lengths \<le> n \<and> length lengths < 65536"
  by (simp add: alphabet_room_def zero_alphabet_def HUFFMAN_RAW_MAX_def)

lemma huffman_alphabet_long:
  "\<exists>l \<in> set lengths. 16 < l \<Longrightarrow> huffman_alphabet a lengths = Inl Fault"
  using huffman_count_eq [of "\<lambda>_. 0" True lengths]
  by (auto simp: huffman_alphabet_def replicate_zero_symbols simp del: upt_conv_Cons)

text \<open>
  C18: For a table of fewer than 65536 code lengths that fits the alphabet, \<open>huffman_alphabet\<close> succeeds exactly if all
  lengths are at most sixteen and the lengths either are all zero (the empty alphabet, for which
  a code is made up) or use up the code space exactly; an over- or under-subscribed table is
  reported as a failure, and a length above sixteen is an access outside the table of symbol sets.
\<close>

theorem huffman_alphabet_outcome:
  assumes "alphabet_room a lengths"
  shows "if \<exists>l \<in> set lengths. 16 < l then huffman_alphabet a lengths = Inl Fault
     else if (\<forall>l \<in> set lengths. l = 0) \<or> kraft_complete lengths
     then \<exists>a'. huffman_alphabet a lengths = Inr a'
     else huffman_alphabet a lengths = Inl Fail"
proof -
  have lk: "length (alph_lookup a) = 128" and rm: "length lengths \<le> length (alph_raw a)" and raws: "length lengths < HUFFMAN_RAW_MAX"
    using assms by (auto simp: alphabet_room_def huffman_consts)
  consider "\<exists>l \<in> set lengths. 16 < l" | "\<forall>l \<in> set lengths. l = 0"
    | "\<forall>l \<in> set lengths. l \<le> 16" "\<exists>l \<in> set lengths. l \<noteq> 0"
    by (meson not_le)
  then show ?thesis
  proof cases
    case 1
    then show ?thesis using huffman_alphabet_long by simp
  next
    case 2
    then show ?thesis using huffman_alphabet_unused [OF 2 lk] by auto
  next
    case 3
    then show ?thesis using huffman_alphabet_used [OF 3(2,1) lk rm raws] by (auto split: if_splits)
  qed
qed

theorem huffman_alphabet_outcome_witness:
  "alphabet_room (zero_alphabet 4) [1, 2, 3, 3] \<and> kraft_complete [1, 2, 3, 3]
     \<and> (\<exists>a'. huffman_alphabet (zero_alphabet 4) [1, 2, 3, 3] = Inr a')"
proof -
  have "alphabet_room (zero_alphabet 4) [1, 2, 3, 3]" by simp
  moreover have "kraft_complete [1, 2, 3, 3]" by code_simp
  ultimately show ?thesis using huffman_alphabet_outcome [of "zero_alphabet 4" "[1, 2, 3, 3]"] by simp
qed

lemma huffman_lookup_total:
  assumes "alphabet_room a lengths" "huffman_alphabet a lengths = Inr a'" "huf < 2 ^ 16"
  shows "\<exists>s i. huffman_sym a' huf = Inr s \<and> huffman_raw a' s huf = Inr i
     \<and> 1 \<le> huffman_len s \<and> huffman_len s \<le> 16
     \<and> (if \<forall>l \<in> set lengths. l = 0 then huffman_len s = 1 \<and> i = 0
        else i < length lengths \<and> lengths ! i = huffman_len s
          \<and> huf div 2 ^ (16 - huffman_len s) = canonical_code lengths i)"
proof -
  have short: "\<forall>l \<in> set lengths. l \<le> 16"
    using assms(2) huffman_alphabet_long [of lengths a] by fastforce
  have lk: "length (alph_lookup a) = 128" and rm: "length lengths \<le> length (alph_raw a)" and raws: "length lengths < HUFFMAN_RAW_MAX"
    using assms(1) by (auto simp: alphabet_room_def huffman_consts)
  show ?thesis
  proof (cases "\<forall>l \<in> set lengths. l = 0")
    case True
    let ?F = "len_count lengths"
    have "alphabet_for ?F (\<lambda>j. int (sym_base ?F j) - int (?F j)) a'" "\<forall>j. 1 < j \<longrightarrow> code_start ?F j = 2 ^ 16"
      using huffman_alphabet_unused [OF True lk] assms(2) by auto
    moreover have "int (sym_base ?F 1) - int (?F 1) = - 2" using True by (simp add: len_count_def)
    ultimately obtain s where "huffman_sym a' huf = Inr s" "huffman_len s = 1" "huffman_raw a' s huf = Inr 0"
      using huffman_unused_decodes [OF _ _ _ assms(3)] by blast
    with True show ?thesis by (intro exI [of _ s] exI [of _ 0]) simp
  next
    case False
    then have "\<exists>l \<in> set lengths. l \<noteq> 0" by blast
    from huffman_alphabet_used [OF this short lk rm raws] assms(2)
    have "alphabet_for (count_list lengths) (\<lambda>j. int (sym_base (count_list lengths) j)) a'"
      "filled (sym_base (count_list lengths)) (sym_base (count_list lengths)) 0 lengths (alph_raw a) (alph_raw a')"
      by (auto split: if_splits)
    from huffman_used_decodes [OF this(1) refl this(2) rm assms(3)] False show ?thesis by auto
  qed
qed


text \<open>
  C16: In an alphabet built from a table of fewer than 65536 code lengths with a used symbol, sixteen bits of input that begin with the
  canonical code word of symbol \<open>i\<close> decode to \<open>i\<close>, with the length of its code word.
\<close>

theorem huffman_decodes_canonical_code:
  assumes "alphabet_room a lengths" "huffman_alphabet a lengths = Inr a'"
    and "i < length lengths" "0 < lengths ! i" "huf < 2 ^ 16"
    and "huf div 2 ^ (16 - lengths ! i) = canonical_code lengths i"
  shows "\<exists>s. huffman_sym a' huf = Inr s \<and> huffman_len s = lengths ! i \<and> huffman_raw a' s huf = Inr i"
proof -
  have used: "\<not> (\<forall>l \<in> set lengths. l = 0)" using assms(3,4) by (metis less_irrefl nth_mem)
  obtain s k where s: "huffman_sym a' huf = Inr s" "huffman_raw a' s huf = Inr k"
      and k: "1 \<le> lengths ! k" "lengths ! k \<le> 16" "k < length lengths" "lengths ! k = huffman_len s"
        "huf div 2 ^ (16 - lengths ! k) = canonical_code lengths k"
    using huffman_lookup_total [OF assms(1,2,5)] unfolding if_not_P [OF used] by metis
  have "\<forall>l \<in> set lengths. l \<le> 16"
    using assms(2) huffman_alphabet_long [of lengths a] by fastforce
  then have i: "lengths ! i \<le> 16" using nth_mem [OF assms(3)] by (rule bspec)
  have i1: "1 \<le> lengths ! i" using assms(4) by linarith
  have eq: "lengths ! i = lengths ! k"
    by (rule canonical_code_length [OF assms(3) i1 i k(3,1,2) assms(6) k(5)])
  have codes: "canonical_code lengths i = canonical_code lengths k"
    unfolding assms(6) [symmetric] k(5) [symmetric] eq by (rule refl)
  have "i = k" by (rule canonical_code_inj [OF assms(3) k(3) eq codes])
  then show ?thesis using s k(4) by (intro exI [of _ s]) simp
qed

text \<open>In the code of the lengths 1, 2, 3, 3 the code word of symbol 2 is 110.\<close>

theorem huffman_decodes_canonical_code_witness:
  "\<exists>a' s. huffman_alphabet (zero_alphabet 4) [1, 2, 3, 3] = Inr a' \<and> canonical_code [1, 2, 3, 3] 2 = 6
     \<and> huffman_sym a' 0xD234 = Inr s \<and> huffman_len s = 3 \<and> huffman_raw a' s 0xD234 = Inr 2"
proof -
  have "kraft_complete [1, 2, 3, 3]" by code_simp
  then obtain a' where a': "huffman_alphabet (zero_alphabet 4) [1, 2, 3, 3] = Inr a'"
    using huffman_alphabet_used [of "[1, 2, 3, 3]" "zero_alphabet 4"]
    by (auto simp: zero_alphabet_def huffman_consts)
  have code: "canonical_code [1, 2, 3, 3] 2 = 6" by code_simp
  have "\<exists>s. huffman_sym a' 0xD234 = Inr s \<and> huffman_len s = [1, 2, 3, 3] ! 2 \<and> huffman_raw a' s 0xD234 = Inr 2"
    by (rule huffman_decodes_canonical_code [OF _ a']) (simp_all add: code del: One_nat_def)
  with a' code show ?thesis by auto
qed

text \<open>
  C17: Every sixteen bits of input are decoded by a finished alphabet of fewer than 65536 symbols: the lookup stays inside its tables,
  consumes between one and sixteen bits, and yields the symbol whose canonical code word begins the
  input; the empty alphabet yields symbol zero at the cost of one bit.
\<close>

theorem huffman_decode_total:
  assumes "alphabet_room a lengths" "huffman_alphabet a lengths = Inr a'" "huf < 2 ^ 16"
  shows "\<exists>s i. huffman_sym a' huf = Inr s \<and> huffman_raw a' s huf = Inr i
     \<and> 1 \<le> huffman_len s \<and> huffman_len s \<le> 16
     \<and> (if \<forall>l \<in> set lengths. l = 0 then huffman_len s = 1 \<and> i = 0
        else i < length lengths \<and> lengths ! i = huffman_len s
          \<and> huf div 2 ^ (16 - huffman_len s) = canonical_code lengths i)"
  using assms by (rule huffman_lookup_total)


theorem huffman_decode_total_witness:
  "\<exists>a' s i. huffman_alphabet (zero_alphabet 2) [0, 0] = Inr a' \<and> huffman_sym a' 0xFFFF = Inr s
     \<and> huffman_raw a' s 0xFFFF = Inr i \<and> huffman_len s = 1 \<and> i = 0"
proof -
  obtain a' where a': "huffman_alphabet (zero_alphabet 2) [0, 0] = Inr a'"
    using huffman_alphabet_unused [of "[0, 0]" "zero_alphabet 2"]
    by (auto simp: zero_alphabet_def huffman_consts)
  have "\<exists>s i. huffman_sym a' 0xFFFF = Inr s \<and> huffman_raw a' s 0xFFFF = Inr i
     \<and> 1 \<le> huffman_len s \<and> huffman_len s \<le> 16
     \<and> (if \<forall>l \<in> set [0, 0 :: nat]. l = 0 then huffman_len s = 1 \<and> i = 0
        else i < length [0, 0 :: nat] \<and> [0, 0] ! i = huffman_len s
          \<and> 0xFFFF div 2 ^ (16 - huffman_len s) = canonical_code [0, 0] i)"
    by (rule huffman_decode_total [OF _ a']) simp_all
  with a' show ?thesis by auto
qed

section \<open>Decoders\<close>

text \<open>What a client of an alphabet of \<open>n\<close> symbols relies on.\<close>

definition decoder_ok :: "huf_alphabet \<Rightarrow> nat \<Rightarrow> bool" where
  "decoder_ok a n \<longleftrightarrow> (\<forall>huf < 2 ^ 16. \<exists>s i. huffman_sym a huf = Inr s \<and> huffman_raw a s huf = Inr i
     \<and> 1 \<le> huffman_len s \<and> huffman_len s \<le> 16 \<and> i < n)"

definition alphabet_memory :: "huf_alphabet \<Rightarrow> nat \<Rightarrow> bool" where
  "alphabet_memory a n \<longleftrightarrow> length (alph_lookup a) = 2 ^ HUFFMAN_QL_BITS \<and> n \<le> length (alph_raw a) \<and> n < HUFFMAN_RAW_MAX"

lemma alphabet_memory_zero [simp]: "alphabet_memory (zero_alphabet n) n \<longleftrightarrow> n < 65536"
  by (simp add: alphabet_memory_def zero_alphabet_def HUFFMAN_RAW_MAX_def)

lemma alphabet_room_memory: "alphabet_room a lengths \<longleftrightarrow> alphabet_memory a (length lengths)"
  by (simp add: alphabet_room_def alphabet_memory_def)

lemma huffman_fill_length: "huffman_fill huf tab r lengths = Inr (huf', tab') \<Longrightarrow> length tab' = length tab"
  by (induction huf tab r lengths rule: huffman_fill.induct) (auto simp: Let_def split: if_splits)

lemma huffman_alphabet_memory:
  assumes "huffman_alphabet a lengths = Inr a'" "alphabet_memory a n"
  shows "alphabet_memory a' n"
proof -
  obtain huf huf' tab where "huffman_fill huf (alph_raw a) 0 lengths = Inr (huf', tab)"
    and a': "a' = \<lparr>alph_huf = fst (huffman_adjust 1 huf' (alph_lookup a)),
        alph_lookup = snd (huffman_adjust 1 huf' (alph_lookup a)), alph_raw = tab\<rparr>"
    using assms(1) unfolding huffman_alphabet_def Let_def rbind_eq_Inr split_beta
    by (auto simp del: huffman_adjust.simps huffman_fill.simps split: if_splits)
  then show ?thesis
    using assms(2) huffman_fill_length by (fastforce simp: alphabet_memory_def)
qed

lemma huffman_alphabet_decoder:
  assumes "huffman_alphabet a lengths = Inr a'" "alphabet_memory a (length lengths)" "lengths \<noteq> []"
  shows "decoder_ok a' (length lengths)"
  unfolding decoder_ok_def
proof (intro allI impI)
  fix huf :: nat assume "huf < 2 ^ 16"
  from huffman_lookup_total [OF _ assms(1) this] assms(2) alphabet_room_memory
  obtain s i where "huffman_sym a' huf = Inr s" "huffman_raw a' s huf = Inr i"
    "1 \<le> huffman_len s" "huffman_len s \<le> 16" "i = 0 \<or> i < length lengths" by (metis (full_types))
  with assms(3) show "\<exists>s i. huffman_sym a' huf = Inr s \<and> huffman_raw a' s huf = Inr i
     \<and> 1 \<le> huffman_len s \<and> huffman_len s \<le> 16 \<and> i < length lengths" by auto
qed

lemma huffman_alphabet_clean:
  assumes "alphabet_memory a (length lengths)" "\<forall>l \<in> set lengths. l \<le> 16"
  shows "clean (huffman_alphabet a lengths)"
proof -
  have lk: "length (alph_lookup a) = 128" and rm: "length lengths \<le> length (alph_raw a)" and raws: "length lengths < HUFFMAN_RAW_MAX"
    using assms by (auto simp: alphabet_memory_def huffman_consts)
  show ?thesis
  proof (cases "\<forall>l \<in> set lengths. l = 0")
    case True
    from huffman_alphabet_unused [OF True lk] show ?thesis by auto
  next
    case False
    then have "\<exists>l \<in> set lengths. l \<noteq> 0" by blast
    from huffman_alphabet_used [OF this assms(2) lk rm raws] show ?thesis by (auto split: if_splits)
  qed
qed

lemma huffman_alphabet_empty:
  assumes "\<forall>l \<in> set lengths. l = 0" "alphabet_memory a n"
  shows "\<exists>a'. huffman_alphabet a lengths = Inr a' \<and> (\<forall>huf < 2 ^ 16.
     \<exists>s. huffman_sym a' huf = Inr s \<and> huffman_len s = 1 \<and> huffman_raw a' s huf = Inr 0)"
proof -
  let ?F = "len_count lengths"
  have "length (alph_lookup a) = 128" using assms(2) by (simp add: alphabet_memory_def huffman_consts)
  from huffman_alphabet_unused [OF assms(1) this] obtain a' where a': "huffman_alphabet a lengths = Inr a'"
    "alphabet_for ?F (\<lambda>j. int (sym_base ?F j) - int (?F j)) a'" "\<forall>j. 1 < j \<longrightarrow> code_start ?F j = 2 ^ 16"
    by blast
  have "int (sym_base ?F 1) - int (?F 1) = - 2" using assms(1) by (simp add: len_count_def)
  with huffman_unused_decodes [OF a'(2,3)] a'(1) show ?thesis by blast
qed

end
