(* ===== verification/Decompress.thy ===== *)
theory Decompress
  imports Prelude
begin

text \<open>
  The interface shared by the three decompressors (\<open>lznt1.c\<close>, \<open>xca.c\<close>, \<open>lzx.c\<close>).

  A decompressor is called with the compressed data, its length and an output buffer, or with a
  null pointer in place of the buffer to learn the output length. The output buffer is modelled
  by \<open>None\<close> for the null pointer and by \<open>Some b\<close> for a buffer whose bytes are \<open>b\<close>; the output
  position is an index in it. All decompressors write either one byte, a block of input bytes or
  a copy of earlier output.

  \<open>echoes f\<close> says that a step \<open>f\<close> of a decompressor does the same whether or not there is a
  buffer, except that it may run out of the buffer; \<open>streams p f\<close> adds that the step appends its
  output at position \<open>p\<close>, and that what it appends depends on nothing but the output before \<open>p\<close>.
  Both are closed under sequencing, from which the contract of a whole decompressor follows by
  induction over its loop. The locales state that contract, with what a caller may conclude.
\<close>

section \<open>Output\<close>

definition put8 :: "bytes option \<Rightarrow> nat \<Rightarrow> u8 \<Rightarrow> bytes option result" where
  "put8 out i v = (case out of None \<Rightarrow> Inr None | Some b \<Rightarrow> rbind (wr8 b i v) (\<lambda>b. Inr (Some b)))"

definition put_bytes :: "bytes option \<Rightarrow> nat \<Rightarrow> bytes \<Rightarrow> bytes option result" where
  "put_bytes out i bs =
     (case out of None \<Rightarrow> Inr None | Some b \<Rightarrow> rbind (wr_bytes b i bs) (\<lambda>b. Inr (Some b)))"

text \<open>
  The copy loop \<open>while ( n-- ) *(dest++) = *(src++)\<close> with \<open>src = dest - offset\<close>: overlapping
  copies repeat the output just written, and a source below the buffer is out of bounds.
\<close>

fun copy_loop :: "nat \<Rightarrow> nat \<Rightarrow> nat \<Rightarrow> bytes \<Rightarrow> bytes result" where
  "copy_loop 0 dest offset b = Inr b"
| "copy_loop (Suc n) dest offset b =
     (if offset \<le> dest
      then rbind (rd8 b (dest - offset)) (\<lambda>v. rbind (wr8 b dest v) (\<lambda>b. copy_loop n (dest + 1) offset b))
      else Inl Fault)"

definition copy_match :: "bytes option \<Rightarrow> nat \<Rightarrow> nat \<Rightarrow> nat \<Rightarrow> bytes option result" where
  "copy_match out n dest offset =
     (case out of None \<Rightarrow> Inr None | Some b \<Rightarrow> rbind (copy_loop n dest offset b) (\<lambda>b. Inr (Some b)))"

lemma copy_match_Suc:
  "copy_match (Some b) (Suc n) dest offset =
     (if offset \<le> dest
      then rbind (rd8 b (dest - offset)) (\<lambda>v. rbind (put8 (Some b) dest v)
             (\<lambda>out. copy_match out n (dest + 1) offset))
      else Inl Fault)"
  by (simp add: copy_match_def put8_def rbind_assoc)

section \<open>Steps that do the same with and without a buffer\<close>

definition echoes :: "(bytes option \<Rightarrow> ('q \<times> bytes option) result) \<Rightarrow> bool" where
  "echoes f \<longleftrightarrow> (\<forall>b. (\<forall>q out. f (Some b) = Inr (q, out) \<longrightarrow>
        f None = Inr (q, None) \<and> (\<exists>b'. out = Some b' \<and> length b' = length b))
     \<and> (\<forall>e. f (Some b) = Inl e \<longrightarrow> e = Fault \<or> f None = Inl e))
     \<and> (\<forall>q out. f None = Inr (q, out) \<longrightarrow> out = None)"

lemma echoesI:
  assumes "\<And>b q out. f (Some b) = Inr (q, out) \<Longrightarrow>
      f None = Inr (q, None) \<and> (\<exists>b'. out = Some b' \<and> length b' = length b)"
    and "\<And>b e. f (Some b) = Inl e \<Longrightarrow> e = Fault \<or> f None = Inl e"
    and "\<And>q out. f None = Inr (q, out) \<Longrightarrow> out = None"
  shows "echoes f"
  using assms unfolding echoes_def by blast

lemma echoesD:
  assumes "echoes f" "f (Some b) = Inr (q, out)"
  shows "f None = Inr (q, None)" "\<exists>b'. out = Some b' \<and> length b' = length b"
  using assms unfolding echoes_def by blast+

lemma echoes_error: "echoes f \<Longrightarrow> f (Some b) = Inl e \<Longrightarrow> e = Fault \<or> f None = Inl e"
  unfolding echoes_def by blast

lemma echoes_None: "echoes f \<Longrightarrow> f None = Inr (q, out) \<Longrightarrow> out = None"
  unfolding echoes_def by blast

lemma echoes_return [intro!]: "echoes (\<lambda>out. Inr (q, out))"
  by (rule echoesI) auto

lemma echoes_fail [intro!]: "echoes (\<lambda>out. Inl e)"
  by (rule echoesI) auto

lemma echoes_pure [intro!]: "(\<And>x. r = Inr x \<Longrightarrow> echoes (f x)) \<Longrightarrow> echoes (\<lambda>out. rbind r (\<lambda>x. f x out))"
  by (cases r) auto

lemma echoes_if [intro!]:
  "(c \<Longrightarrow> echoes f) \<Longrightarrow> (\<not> c \<Longrightarrow> echoes g) \<Longrightarrow> echoes (\<lambda>out. if c then f out else g out)"
  by (cases c) auto

lemma echoes_bind:
  assumes "echoes f" "\<And>q. echoes (g q)"
  shows "echoes (\<lambda>out. rbind (f out) (\<lambda>(q, out). g q out))"
proof (rule echoesI)
  fix b q out assume "rbind (f (Some b)) (\<lambda>(q, out). g q out) = Inr (q, out)"
  then obtain q1 out1 where f: "f (Some b) = Inr (q1, out1)" and g: "g q1 out1 = Inr (q, out)"
    by (auto simp: rbind_eq_Inr)
  from echoesD [OF assms(1) f] obtain b1 where "f None = Inr (q1, None)" "out1 = Some b1" "length b1 = length b"
    by blast
  with g echoesD [OF assms(2), of q1 b1 q out]
  show "rbind (f None) (\<lambda>(q, out). g q out) = Inr (q, None) \<and> (\<exists>b'. out = Some b' \<and> length b' = length b)"
    by simp
next
  fix b e assume "rbind (f (Some b)) (\<lambda>(q, out). g q out) = Inl e"
  then consider "f (Some b) = Inl e"
    | q1 out1 where "f (Some b) = Inr (q1, out1)" "g q1 out1 = Inl e"
    by (auto simp: rbind_eq_Inl)
  then show "e = Fault \<or> rbind (f None) (\<lambda>(q, out). g q out) = Inl e"
  proof cases
    case 1
    with echoes_error [OF assms(1)] show ?thesis by fastforce
  next
    case 2
    from echoesD [OF assms(1) 2(1)] obtain b1 where "f None = Inr (q1, None)" "out1 = Some b1" by blast
    with 2(2) echoes_error [OF assms(2)] show ?thesis by auto
  qed
next
  fix q out assume "rbind (f None) (\<lambda>(q, out). g q out) = Inr (q, out)"
  then obtain q1 out1 where "f None = Inr (q1, out1)" "g q1 out1 = Inr (q, out)"
    by (auto simp: rbind_eq_Inr)
  then show "out = None" using echoes_None [OF assms(1)] echoes_None [OF assms(2)] by auto
qed

lemma echoes_then:
  assumes "echoes (\<lambda>out. rbind (f out) (\<lambda>out. Inr ((), out)))" "echoes g"
  shows "echoes (\<lambda>out. rbind (f out) g)"
  using echoes_bind [OF assms(1), of "\<lambda>_. g"] assms(2) by (simp add: rbind_assoc)

lemma echoes_prod: "(\<And>a b. x = (a, b) \<Longrightarrow> echoes (f a b)) \<Longrightarrow> echoes (\<lambda>out. case x of (a, b) \<Rightarrow> f a b out)"
  by (cases x) simp

lemmas echoes_intros = echoes_return echoes_fail echoes_if echoes_prod echoes_pure

lemma put_None [simp]: "put8 None i v = Inr None" "put_bytes None i bs = Inr None"
    "copy_match None n dest offset = Inr None"
  by (simp_all add: put8_def put_bytes_def copy_match_def)

lemma echoes_put8 [intro!]: "echoes (\<lambda>out. rbind (put8 out i v) (\<lambda>out. Inr (q, out)))"
  by (rule echoesI) (auto simp: put8_def rbind_eq_Inr rbind_eq_Inl)

lemma echoes_put_bytes [intro!]: "echoes (\<lambda>out. rbind (put_bytes out i bs) (\<lambda>out. Inr (q, out)))"
  by (rule echoesI) (auto simp: put_bytes_def wr_bytes_def rbind_eq_Inr rbind_eq_Inl split: if_splits)

lemma copy_loop_length: "copy_loop n dest offset b = Inr b' \<Longrightarrow> length b' = length b"
  by (induction n dest offset b arbitrary: b' rule: copy_loop.induct)
    (auto simp: rbind_eq_Inr split: if_splits)

lemma copy_loop_error: "copy_loop n dest offset b = Inl e \<Longrightarrow> e = Fault"
  by (induction n dest offset b rule: copy_loop.induct) (auto simp: rbind_eq_Inl split: if_splits)

lemma echoes_copy_match [intro!]: "echoes (\<lambda>out. rbind (copy_match out n dest offset) (\<lambda>out. Inr (q, out)))"
  by (rule echoesI)
    (auto simp: copy_match_def rbind_eq_Inr rbind_eq_Inl dest: copy_loop_length copy_loop_error)

text \<open>A write that reads its bytes only if there is a buffer.\<close>

lemma echoes_when:
  assumes "\<And>v. echoes (\<lambda>out. rbind (w v out) (\<lambda>out. Inr (q, out)))" "\<And>e. r = Inl e \<Longrightarrow> e = Fault"
    and "\<And>v. w v None = Inr None"
  shows "echoes (\<lambda>out. rbind (case out of None \<Rightarrow> Inr None | Some _ \<Rightarrow> rbind r (\<lambda>v. w v out)) (\<lambda>out. Inr (q, out)))"
proof (cases r)
  case (Inl e)
  with assms(2) show ?thesis by (intro echoesI) auto
next
  case (Inr v)
  with assms(1) [of v] assms(3) [of v] show ?thesis by (simp add: echoes_def)
qed

lemma rd_bytes_error: "rd_bytes data off n = Inl e \<Longrightarrow> e = Fault"
  by (auto simp: rd_bytes_def split: if_splits)

lemma echoes_when_then:
  assumes "\<And>v. echoes (\<lambda>out. rbind (w v out) (\<lambda>out. Inr ((), out)))" "\<And>e. r = Inl e \<Longrightarrow> e = Fault"
    and "\<And>v. w v None = Inr None" "echoes g"
  shows "echoes (\<lambda>out. rbind (case out of None \<Rightarrow> Inr None | Some _ \<Rightarrow> rbind r (\<lambda>v. w v out)) g)"
  by (rule echoes_then [OF echoes_when [OF assms(1-3)] assms(4)])

lemmas echoes_writes = echoes_then [OF echoes_put8] echoes_then [OF echoes_put_bytes]
  echoes_then [OF echoes_copy_match]
  echoes_when_then [OF echoes_put8] echoes_when_then [OF echoes_put_bytes]

section \<open>Steps that append to the output\<close>

definition appends :: "('q \<Rightarrow> nat) \<Rightarrow> nat \<Rightarrow> (bytes option \<Rightarrow> ('q \<times> bytes option) result) \<Rightarrow> bool" where
  "appends pos p f \<longleftrightarrow> (\<forall>xs ys q out. length xs = p \<longrightarrow> f (Some (xs @ ys)) = Inr (q, out) \<longrightarrow>
     (\<exists>zs. pos q = p + length zs \<and> length zs \<le> length ys \<and>
        (\<forall>ys'. length zs \<le> length ys' \<longrightarrow>
           f (Some (xs @ ys')) = Inr (q, Some (xs @ zs @ drop (length zs) ys')))))"

lemma appendsI:
  assumes "\<And>xs ys q out. length xs = p \<Longrightarrow> f (Some (xs @ ys)) = Inr (q, out) \<Longrightarrow>
     \<exists>zs. pos q = p + length zs \<and> length zs \<le> length ys \<and>
        (\<forall>ys'. length zs \<le> length ys' \<longrightarrow>
           f (Some (xs @ ys')) = Inr (q, Some (xs @ zs @ drop (length zs) ys')))"
  shows "appends pos p f"
  using assms unfolding appends_def by blast

lemma appendsD:
  assumes "appends pos p f" "length xs = p" "f (Some (xs @ ys)) = Inr (q, out)"
  obtains zs where "pos q = p + length zs" "length zs \<le> length ys"
    "\<And>ys'. length zs \<le> length ys' \<Longrightarrow> f (Some (xs @ ys')) = Inr (q, Some (xs @ zs @ drop (length zs) ys'))"
  using assms unfolding appends_def by blast

lemma appends_return [intro!]: "pos q = p \<Longrightarrow> appends pos p (\<lambda>out. Inr (q, out))"
  by (rule appendsI) (auto intro!: exI [of _ "[]"])

lemma appends_fail [intro!]: "appends pos p (\<lambda>out. Inl e)"
  by (rule appendsI) auto

lemma appends_pure [intro!]:
  "(\<And>x. r = Inr x \<Longrightarrow> appends pos p (f x)) \<Longrightarrow> appends pos p (\<lambda>out. rbind r (\<lambda>x. f x out))"
  by (cases r) auto

lemma appends_if [intro!]:
  "(c \<Longrightarrow> appends pos p f) \<Longrightarrow> (\<not> c \<Longrightarrow> appends pos p g) \<Longrightarrow> appends pos p (\<lambda>out. if c then f out else g out)"
  by (cases c) auto

lemma appends_bind:
  assumes f: "appends pos p f" and g: "\<And>q out. appends pos' (pos q) (g q)"
  shows "appends pos' p (\<lambda>out. rbind (f out) (\<lambda>(q, out). g q out))"
proof (rule appendsI)
  fix xs ys q out
  assume xs: "length xs = p" and "rbind (f (Some (xs @ ys))) (\<lambda>(q, out). g q out) = Inr (q, out)"
  then obtain q1 out1 where f1: "f (Some (xs @ ys)) = Inr (q1, out1)" and g1: "g q1 out1 = Inr (q, out)"
    by (auto simp: rbind_eq_Inr)
  from appendsD [OF f xs f1] obtain zs where zs: "pos q1 = p + length zs" "length zs \<le> length ys"
    "\<And>ys'. length zs \<le> length ys' \<Longrightarrow> f (Some (xs @ ys')) = Inr (q1, Some (xs @ zs @ drop (length zs) ys'))"
    by blast
  have len: "length (xs @ zs) = pos q1" using xs zs(1) by simp
  have "g q1 (Some ((xs @ zs) @ drop (length zs) ys)) = Inr (q, out)"
    using g1 f1 zs(3) [OF zs(2)] by simp
  from appendsD [OF g len this] obtain us where us: "pos' q = pos q1 + length us"
      "length us \<le> length (drop (length zs) ys)"
    "\<And>ys'. length us \<le> length ys' \<Longrightarrow> g q1 (Some ((xs @ zs) @ ys')) = Inr (q, Some ((xs @ zs) @ us @ drop (length us) ys'))"
    by blast
  show "\<exists>zs. pos' q = p + length zs \<and> length zs \<le> length ys \<and>
        (\<forall>ys'. length zs \<le> length ys' \<longrightarrow>
           rbind (f (Some (xs @ ys'))) (\<lambda>(q, out). g q out) = Inr (q, Some (xs @ zs @ drop (length zs) ys')))"
  proof (intro exI [of _ "zs @ us"] conjI allI impI)
    fix ys' :: bytes assume room: "length (zs @ us) \<le> length ys'"
    then show "rbind (f (Some (xs @ ys'))) (\<lambda>(q, out). g q out) =
        Inr (q, Some (xs @ (zs @ us) @ drop (length (zs @ us)) ys'))"
      using zs(3) [of ys'] us(3) [of "drop (length zs) ys'"] by (simp add: add.commute)
  qed (use us zs in auto)
qed

lemma appends_then:
  assumes "appends (\<lambda>p. p) p (\<lambda>out. rbind (f out) (\<lambda>out. Inr (q, out)))" "appends pos q g"
  shows "appends pos p (\<lambda>out. rbind (f out) g)"
proof -
  have "appends pos p (\<lambda>out. rbind (rbind (f out) (\<lambda>out. Inr (q, out))) (\<lambda>(r, out). if r = q then g out else Inl Fault))"
    by (rule appends_bind [OF assms(1)]) (auto simp: assms(2))
  then show ?thesis by (simp add: rbind_assoc)
qed

lemma appends_prod:
  "(\<And>a b. x = (a, b) \<Longrightarrow> appends pos p (f a b)) \<Longrightarrow> appends pos p (\<lambda>out. case x of (a, b) \<Rightarrow> f a b out)"
  by (cases x) simp

lemmas appends_intros = appends_return appends_fail appends_if appends_prod appends_pure

lemma appends_put_bytes: "appends (\<lambda>p. p) p (\<lambda>out. rbind (put_bytes out p bs) (\<lambda>out. Inr (p + length bs, out)))"
  by (rule appendsI)
    (auto simp: put_bytes_def wr_bytes_def overlay_def rbind_eq_Inr intro!: exI [of _ bs] split: if_splits)

lemma put8_put_bytes: "put8 out p v = put_bytes out p [v]"
  by (auto simp: put8_def put_bytes_def wr8_def wr_bytes_def overlay_def upd_conv_take_nth_drop
      split: option.splits)

lemma appends_put8: "appends (\<lambda>p. p) p (\<lambda>out. rbind (put8 out p v) (\<lambda>out. Inr (p + 1, out)))"
  using appends_put_bytes [of p "[v]"] by (simp add: put8_put_bytes)

lemma appends_copy_match:
  "0 < offset \<Longrightarrow> appends (\<lambda>p. p) p (\<lambda>out. rbind (copy_match out n p offset) (\<lambda>out. Inr (p + n, out)))"
proof (induction n arbitrary: p)
  case 0
  then show ?case by (intro appendsI) (auto simp: copy_match_def intro!: exI [of _ "[]"])
next
  case (Suc n)
  have step: "\<exists>zs. q = p + length zs \<and> length zs \<le> length ys \<and>
        (\<forall>ys'. length zs \<le> length ys' \<longrightarrow>
           rbind (copy_match (Some (xs @ ys')) (Suc n) p offset) (\<lambda>out. Inr (p + Suc n, out))
             = Inr (q, Some (xs @ zs @ drop (length zs) ys')))"
    if xs: "length xs = p"
      and run: "rbind (copy_match (Some (xs @ ys)) (Suc n) p offset) (\<lambda>out. Inr (p + Suc n, out)) = Inr (q, out)"
    for xs ys q out
  proof -
    have off: "offset \<le> p" using run by (auto simp: copy_match_Suc split: if_splits)
    let ?v = "xs ! (p - offset)"
    have eq: "rbind (copy_match (Some (xs @ zs)) (Suc n) p offset) (\<lambda>out. Inr (p + Suc n, out)) =
        rbind (put8 (Some (xs @ zs)) p ?v) (\<lambda>out. rbind (copy_match out n (p + 1) offset) (\<lambda>out. Inr (p + 1 + n, out)))"
      for zs
      using off Suc.prems xs
      by (auto simp: copy_match_Suc rd8_def nth_append rbind_assoc put8_def wr8_def)
    have "appends (\<lambda>p. p) p (\<lambda>out. rbind (put8 out p ?v)
        (\<lambda>out. rbind (copy_match out n (p + 1) offset) (\<lambda>out. Inr (p + 1 + n, out))))"
      by (rule appends_then [OF appends_put8]) (rule Suc.IH [OF Suc.prems])
    from appendsD [OF this xs run [unfolded eq]] show ?thesis unfolding eq by metis
  qed
  then show ?case by (rule appendsI)
qed

lemma appends_when:
  assumes "\<And>v. r = Inr v \<Longrightarrow> appends pos p (\<lambda>out. rbind (w v out) (\<lambda>out. Inr (q, out)))"
  shows "appends pos p (\<lambda>out. rbind (case out of None \<Rightarrow> Inr None | Some _ \<Rightarrow> rbind r (\<lambda>v. w v out)) (\<lambda>out. Inr (q, out)))"
proof (cases r)
  case (Inl e)
  then show ?thesis by (intro appendsI) auto
next
  case (Inr v)
  with assms show ?thesis by (simp add: appends_def)
qed

section \<open>Reads of a prefix of the input\<close>

lemma rd8_take: "i < m \<Longrightarrow> rd8 (take m data) i = rd8 data i"
  by (simp add: rd8_def)

lemma rd16_take: "i + 1 < m \<Longrightarrow> rd16 (take m data) i = rd16 data i"
  by (simp add: rd16_def rd8_def)

lemma rd_bytes_take: "off + n \<le> m \<Longrightarrow> rd_bytes (take m data) off n = rd_bytes data off n"
  by (auto simp: rd_bytes_def window_def drop_take min_def)

section \<open>The contract of a decompressor\<close>

text \<open>Every decompressor reports the same length, or the same error, with and without a buffer.\<close>

locale decompressor =
  fixes decompress :: "bytes \<Rightarrow> nat \<Rightarrow> bytes option \<Rightarrow> (nat \<times> bytes option) result"
  assumes same_length: "echoes (decompress data len)"
begin

lemma measured:
  assumes "decompress data len (Some b) = Inr (n, out)"
  shows "decompress data len None = Inr (n, None) \<and> (\<exists>b'. out = Some b' \<and> length b' = length b)"
  using echoesD [OF same_length assms] by blast

lemma buffered_outcome:
  assumes "decompress data len None = Inr (n, None)"
  shows "decompress data len (Some b) = Inl Fault
    \<or> (\<exists>b'. decompress data len (Some b) = Inr (n, Some b') \<and> length b' = length b)"
proof (cases "decompress data len (Some b)")
  case (Inl e)
  with echoes_error [OF same_length Inl] assms show ?thesis by auto
next
  case (Inr x)
  then obtain m out where "decompress data len (Some b) = Inr (m, out)" by (cases x) auto
  with measured [OF this] assms show ?thesis by auto
qed

text \<open>If measuring ends well, so does every run: only leaving the buffer is added.\<close>

lemma clean_outcome:
  assumes "clean (decompress data len None)"
  shows "decompress data len (Some b) = Inl Fault
    \<or> (decompress data len (Some b) = Inl Fail \<and> decompress data len None = Inl Fail)
    \<or> (\<exists>n b'. decompress data len (Some b) = Inr (n, Some b') \<and> decompress data len None = Inr (n, None)
        \<and> length b' = length b)"
proof (cases "decompress data len (Some b)")
  case (Inl e)
  with echoes_error [OF same_length Inl] assms show ?thesis by (auto simp: clean_def)
next
  case (Inr x)
  then obtain m out where "decompress data len (Some b) = Inr (m, out)" by (cases x) auto
  with measured [OF this] show ?thesis by auto
qed

end

text \<open>
  A stream decompressor fills the buffer from its start with output that is determined by the
  input alone, for the inputs that are \<open>plain\<close>.
\<close>

locale stream_decompressor = decompressor +
  fixes plain :: "bytes \<Rightarrow> nat \<Rightarrow> bool"
  assumes in_order: "plain data len \<Longrightarrow> appends (\<lambda>n. n) 0 (decompress data len)"
begin

lemma decompressed:
  assumes "plain data len" "decompress data len (Some b) = Inr (n, out)"
  shows "n \<le> length b \<and> (\<exists>zs. length zs = n \<and>
     (\<forall>b'. n \<le> length b' \<longrightarrow> decompress data len (Some b') = Inr (n, Some (zs @ drop n b'))))"
proof -
  have "decompress data len (Some ([] @ b)) = Inr (n, out)" using assms(2) by simp
  from appendsD [OF in_order [OF assms(1)] list.size(3) this] obtain zs where
    "n = 0 + length zs" "length zs \<le> length b"
    "\<And>ys'. length zs \<le> length ys' \<Longrightarrow> decompress data len (Some ([] @ ys')) = Inr (n, Some ([] @ zs @ drop (length zs) ys'))"
    by blast
  then show ?thesis by (intro conjI exI [of _ zs]) auto
qed

lemma two_pass:
  assumes "plain data len" "decompress data len (Some b) = Inr (n, Some b')"
  shows "decompress data len None = Inr (n, None) \<and> n \<le> length b \<and> drop n b' = drop n b
    \<and> (\<forall>c. n \<le> length c \<longrightarrow> decompress data len (Some c) = Inr (n, Some (take n b' @ drop n c)))"
proof -
  from decompressed [OF assms] obtain zs where zs: "n \<le> length b" "length zs = n"
    "\<And>c. n \<le> length c \<Longrightarrow> decompress data len (Some c) = Inr (n, Some (zs @ drop n c))" by blast
  with zs(3) [of b] assms(2) measured [OF assms(2)] show ?thesis by auto
qed

lemma output_independent:
  assumes "plain data len" "decompress data len (Some b) = Inr (n, Some b')"
    and "decompress data len (Some c) = Inr (m, Some c')"
  shows "m = n \<and> take n b' = take n c' \<and> drop n b' = drop n b"
proof -
  from decompressed [OF assms(1,2)] decompressed [OF assms(1,3)] measured [OF assms(2)] measured [OF assms(3)] assms(2,3)
  show ?thesis by auto
qed

end

end
