(* ===== verification/Lznt1.thy ===== *)
theory Lznt1
  imports Decompress
begin

text \<open>
  LZNT1 decompression (\<open>lznt1.c\<close>, \<open>lznt1.h\<close>). The position \<open>copy_dest\<close> within the output is the
  start of the block plus \<open>block_out_len\<close>. The shift count \<open>split\<close> is a natural number; a
  decrement below zero would make the following shifts undefined and is \<open>Fault\<close>, which
  \<open>lznt1_loop_clean\<close> excludes for blocks of up to 4096 bytes.
\<close>

section \<open>Fields\<close>

definition LZNT1_BLOCK_LEN :: "nat \<Rightarrow> nat" where
  "LZNT1_BLOCK_LEN header = header mod 4096 + 1"

definition LZNT1_BLOCK_COMPRESSED :: "nat \<Rightarrow> bool" where
  "LZNT1_BLOCK_COMPRESSED header \<longleftrightarrow> odd (header div 32768)"

definition LZNT1_VALUE_LEN :: "nat \<Rightarrow> nat \<Rightarrow> nat" where
  "LZNT1_VALUE_LEN tuple split = tuple mod 2 ^ split + 3"

definition LZNT1_VALUE_OFFSET :: "nat \<Rightarrow> nat \<Rightarrow> nat" where
  "LZNT1_VALUE_OFFSET tuple split = tuple div 2 ^ split + 1"

section \<open>Decompression\<close>

text \<open>The loop \<open>while ( block_out_len > next_threshold )\<close>; the threshold doubles each time.\<close>

function lznt1_split :: "nat \<Rightarrow> nat \<Rightarrow> nat \<Rightarrow> (nat \<times> nat) result" where
  "lznt1_split block_out_len split next_threshold =
     (if block_out_len > next_threshold then
        (case split of 0 \<Rightarrow> Inl Fault
         | Suc split' \<Rightarrow> lznt1_split block_out_len split' (2 * next_threshold))
      else Inr (split, next_threshold))"
  by pat_completeness auto
termination
  by (relation "measure (\<lambda>(n, split, t). split)") auto

declare lznt1_split.simps [simp del]

text \<open>
  The loop of \<open>lznt1_block\<close>: \<open>base\<close> is the output position of the block and \<open>n\<close> its length so far
  (\<open>block_out_len\<close>). Yields the length of the block.
\<close>

fun lznt1_loop :: "nat \<Rightarrow> bytes \<Rightarrow> nat \<Rightarrow> nat \<Rightarrow> nat \<Rightarrow> nat \<Rightarrow> nat \<Rightarrow> nat \<Rightarrow> nat \<Rightarrow> nat \<Rightarrow> bytes option
    \<Rightarrow> (nat \<times> bytes option) result" where
  "lznt1_loop 0 data limit base offset n split next_threshold tag_bit tag out = Inl Fuel"
| "lznt1_loop (Suc fuel) data limit base offset n split next_threshold tag_bit tag out =
     (if offset = limit then Inr (n, out)
      else rbind (if tag_bit = 0 then rbind (rd8 data offset) (\<lambda>v. Inr (unat v, offset + 1))
                  else Inr (tag, offset))
        (\<lambda>(tag, offset).
          if tag_bit = 0 \<and> offset = limit then Inr (n, out)
          else if odd tag then
            (if offset + 2 > limit then Inl Fail
             else rbind (rd16 data offset) (\<lambda>tuple.
               let copy_len = LZNT1_VALUE_LEN tuple split
               in rbind (copy_match out copy_len (base + n) (LZNT1_VALUE_OFFSET tuple split)) (\<lambda>out.
                  rbind (lznt1_split (n + copy_len) split next_threshold) (\<lambda>(split, next_threshold).
                  lznt1_loop fuel data limit base (offset + 2) (n + copy_len) split next_threshold
                    ((tag_bit + 1) mod 8) (tag div 2) out))))
          else
            rbind (case out of None \<Rightarrow> Inr None
                   | Some _ \<Rightarrow> rbind (rd8 data offset) (\<lambda>v. put8 out (base + n) v)) (\<lambda>out.
            rbind (lznt1_split (n + 1) split next_threshold) (\<lambda>(split, next_threshold).
            lznt1_loop fuel data limit base (offset + 1) (n + 1) split next_threshold
              ((tag_bit + 1) mod 8) (tag div 2) out))))"

definition lznt1_block :: "bytes \<Rightarrow> nat \<Rightarrow> nat \<Rightarrow> nat \<Rightarrow> bytes option \<Rightarrow> (nat \<times> bytes option) result" where
  "lznt1_block data limit offset base out =
     lznt1_loop (limit - offset + 1) data limit base offset 0 12 16 0 0 out"

text \<open>The loop of \<open>lznt1_decompress\<close>, at input \<open>offset\<close> and output length \<open>out_len\<close>.\<close>

function lznt1_blocks :: "bytes \<Rightarrow> nat \<Rightarrow> nat \<Rightarrow> nat \<Rightarrow> bytes option \<Rightarrow> (nat \<times> bytes option) result" where
  "lznt1_blocks data len offset out_len out =
     (if offset = len then Inr (out_len, out)
      else rbind (if offset + 1 = len then rbind (rd8 data offset) (\<lambda>v. Inr (v = 0)) else Inr False) (\<lambda>at_end.
        if at_end then Inr (out_len, out)
        else if offset + 2 > len then Inl Fail
        else rbind (rd16 data offset) (\<lambda>header.
          let block_len = LZNT1_BLOCK_LEN header; offset = offset + 2 in
          if LZNT1_BLOCK_COMPRESSED header then
            rbind (lznt1_block data (offset + block_len) offset out_len out) (\<lambda>(block_out_len, out).
              lznt1_blocks data len (offset + block_len) (out_len + block_out_len) out)
          else if offset + block_len > len then Inl Fail
          else rbind (case out of None \<Rightarrow> Inr None
                      | Some _ \<Rightarrow> rbind (rd_bytes data offset block_len) (put_bytes out out_len)) (\<lambda>out.
              lznt1_blocks data len (offset + block_len) (out_len + block_len) out))))"
  by pat_completeness auto
termination
  by (relation "measure (\<lambda>(data, len, offset, n, out). len - offset)") (auto split: if_splits)

declare lznt1_blocks.simps [simp del]

definition lznt1_decompress :: "bytes \<Rightarrow> nat \<Rightarrow> bytes option \<Rightarrow> (nat \<times> bytes option) result" where
  "lznt1_decompress data len out = lznt1_blocks data len 0 0 out"

section \<open>The contract\<close>

lemma rd8_error: "rd8 data i = Inl e \<Longrightarrow> e = Fault"
  by simp

lemma echoes_lznt1_loop: "echoes (lznt1_loop fuel data limit base offset n split t tag_bit tag)"
proof (induction fuel arbitrary: offset n split t tag_bit tag)
  case 0
  show ?case unfolding lznt1_loop.simps by auto
next
  case (Suc fuel)
  show ?case
    unfolding lznt1_loop.simps Let_def
    by (intro echoes_intros echoes_writes Suc.IH) auto
qed

lemma appends_lznt1_loop:
  "appends (\<lambda>m. base + m) (base + n) (lznt1_loop fuel data limit base offset n split t tag_bit tag)"
proof (induction fuel arbitrary: offset n split t tag_bit tag)
  case 0
  show ?case unfolding lznt1_loop.simps by auto
next
  case (Suc fuel)
  have rec: "appends (\<lambda>m. base + m) (base + n + k)
      (\<lambda>out. rbind (lznt1_split m s t) (\<lambda>(split, t). lznt1_loop fuel data limit base o' (n + k) split t tb tg out))"
    for m s t o' k tb tg
    using Suc.IH [of "n + k"] by (intro appends_intros) (simp add: add.assoc)
  have lit: "appends (\<lambda>p. p) (base + n) (\<lambda>out. rbind (case out of None \<Rightarrow> Inr None
      | Some _ \<Rightarrow> rbind (rd8 data o') (\<lambda>v. put8 out (base + n) v)) (\<lambda>out. Inr (base + n + 1, out)))" for o'
    by (intro appends_when appends_put8)
  have off: "0 < LZNT1_VALUE_OFFSET tuple split" for tuple
    by (simp add: LZNT1_VALUE_OFFSET_def)
  show ?case
    unfolding lznt1_loop.simps Let_def
    by (intro appends_intros appends_then [OF lit rec] appends_then [OF appends_copy_match [OF off] rec]) simp_all
qed

lemma echoes_lznt1_blocks: "echoes (lznt1_blocks data len offset n)"
proof (induction "len - offset" arbitrary: offset n rule: less_induct)
  case less
  have block: "echoes (\<lambda>out. rbind (lznt1_block data l o' p out)
      (\<lambda>(m, out). lznt1_blocks data len (offset + 2 + k) (n + m) out))"
    if "offset + 2 \<le> len" for l o' p k
    unfolding lznt1_block_def using that by (intro echoes_bind echoes_lznt1_loop less) simp
  show ?case
    unfolding lznt1_blocks.simps [of data len offset n] Let_def
    by (intro echoes_intros echoes_writes block less)
      (auto dest: rd_bytes_error simp: LZNT1_BLOCK_LEN_def)
qed

lemma appends_lznt1_blocks: "appends (\<lambda>m. m) n (lznt1_blocks data len offset n)"
proof (induction "len - offset" arbitrary: offset n rule: less_induct)
  case less
  have block: "appends (\<lambda>m. m) n (\<lambda>out. rbind (lznt1_block data l o' n out)
      (\<lambda>(m, out). lznt1_blocks data len (offset + 2 + k) (n + m) out))"
    if "offset + 2 \<le> len" for l o' k
  proof (rule appends_bind)
    show "appends (\<lambda>m. n + m) n (lznt1_block data l o' n)"
      unfolding lznt1_block_def using appends_lznt1_loop [of n 0] by simp
    show "appends (\<lambda>m. m) (n + m) (lznt1_blocks data len (offset + 2 + k) (n + m))" for m
      using that by (intro less) simp
  qed
  have raw: "appends (\<lambda>p. p) n (\<lambda>out. rbind (case out of None \<Rightarrow> Inr None
      | Some _ \<Rightarrow> rbind (rd_bytes data o' k) (put_bytes out n)) (\<lambda>out. Inr (n + k, out)))" for o' k
  proof (rule appends_when)
    fix bs assume "rd_bytes data o' k = Inr bs"
    then have "length bs = k" by (auto simp: rd_bytes_def split: if_splits)
    then show "appends (\<lambda>p. p) n (\<lambda>out. rbind (put_bytes out n bs) (\<lambda>out. Inr (n + k, out)))"
      using appends_put_bytes [of n bs] by simp
  qed
  show ?case
    unfolding lznt1_blocks.simps [of data len offset n] Let_def
    by (intro appends_intros block appends_then [OF raw] less) (auto simp: LZNT1_BLOCK_LEN_def)
qed

interpretation lznt1_dec: stream_decompressor lznt1_decompress "\<lambda>data len. True"
proof
  show "echoes (lznt1_decompress data len)" for data len
    using echoes_lznt1_blocks unfolding lznt1_decompress_def [abs_def] .
  show "appends (\<lambda>n. n) 0 (lznt1_decompress data len)" for data len
    using appends_lznt1_blocks unfolding lznt1_decompress_def [abs_def] .
qed

section \<open>Termination and bounds\<close>

lemma lznt1_split_ok:
  "1 \<le> s \<Longrightarrow> s \<le> 12 \<Longrightarrow> n \<le> 2 ^ 15 \<Longrightarrow>
   \<exists>s'. lznt1_split n s (2 ^ (16 - s)) = Inr (s', 2 ^ (16 - s')) \<and> 1 \<le> s' \<and> s' \<le> s \<and> n \<le> 2 ^ (16 - s')"
proof (induction s)
  case (Suc s)
  show ?case
  proof (cases "n > 2 ^ (16 - Suc s)")
    case True
    with Suc.prems have "1 \<le> s" by (cases s) auto
    moreover have "(2::nat) * 2 ^ (16 - Suc s) = 2 ^ (16 - s)"
      using Suc.prems by (simp flip: power_Suc add: Suc_diff_le)
    moreover obtain s' where "lznt1_split n s (2 ^ (16 - s)) = Inr (s', 2 ^ (16 - s'))"
        "1 \<le> s'" "s' \<le> s" "n \<le> 2 ^ (16 - s')"
      using Suc.IH Suc.prems \<open>1 \<le> s\<close> by auto
    ultimately show ?thesis
      using True lznt1_split.simps [of n "Suc s" "2 ^ (16 - Suc s)"] by auto
  next
    case False
    then show ?thesis using lznt1_split.simps [of n "Suc s" "2 ^ (16 - Suc s)"] Suc.prems by auto
  qed
qed simp

text \<open>
  A block of up to 4096 bytes expands to less than \<open>2 ^ 15\<close> bytes: beyond \<open>2 ^ 14\<close> bytes a value
  of two bytes stands for at most four. Hence \<open>split\<close> never reaches zero.
\<close>

definition lznt1_inv :: "nat \<Rightarrow> nat \<Rightarrow> nat \<Rightarrow> nat \<Rightarrow> bool" where
  "lznt1_inv start offset n s \<longleftrightarrow>
     1 \<le> s \<and> s \<le> 12 \<and> n \<le> 2 ^ (16 - s) \<and> n \<le> 20482 + 2 * (offset - start) \<and> start \<le> offset"

lemma lznt1_value_growth:
  assumes "lznt1_inv start offset n s" "offset \<le> offset'"
  shows "n + LZNT1_VALUE_LEN tuple s \<le> 20482 + 2 * (offset' + 2 - start)"
proof -
  have rem: "tuple mod 2 ^ s < 2 ^ s" by simp
  show ?thesis
proof (cases "n \<le> 2 ^ 14")
  case True
  have "(2::nat) ^ s \<le> 2 ^ 12" using assms by (intro power_increasing) (auto simp: lznt1_inv_def)
  then have "(2::nat) ^ s \<le> 4096" by simp
  then have "LZNT1_VALUE_LEN tuple s \<le> 4098"
    using rem unfolding LZNT1_VALUE_LEN_def by linarith
  with True show ?thesis by simp
next
  case False
  have "s \<le> 1"
  proof (rule ccontr)
    assume "\<not> s \<le> 1"
    then have "(2::nat) ^ (16 - s) \<le> 2 ^ 14" by (intro power_increasing) auto
    with assms False show False by (simp add: lznt1_inv_def)
  qed
  then have "(2::nat) ^ s \<le> 2 ^ 1" by (intro power_increasing) auto
  then have "(2::nat) ^ s \<le> 2" by simp
  then have "LZNT1_VALUE_LEN tuple s \<le> 4"
    using rem unfolding LZNT1_VALUE_LEN_def by linarith
  with assms show ?thesis by (auto simp: lznt1_inv_def)
qed
qed

lemma lznt1_inv_step:
  assumes "lznt1_inv start offset n s" "n' \<le> 20482 + 2 * (offset' - start)" "start \<le> offset'" "offset' \<le> start + 4096"
  shows "\<exists>s'. lznt1_split n' s (2 ^ (16 - s)) = Inr (s', 2 ^ (16 - s')) \<and> lznt1_inv start offset' n' s'"
proof -
  have "n' \<le> 2 ^ 15" using assms(2,3,4) by simp
  then show ?thesis using lznt1_split_ok [of s n'] assms by (auto simp: lznt1_inv_def)
qed

lemma lznt1_loop_clean:
  assumes "lznt1_inv start offset n s" "limit \<le> length data" "offset \<le> limit" "limit \<le> start + 4096"
    and "limit - offset < fuel"
  shows "clean (lznt1_loop fuel data limit base offset n s (2 ^ (16 - s)) tag_bit tag None)"
  using assms
proof (induction fuel arbitrary: offset n s tag_bit tag)
  case (Suc fuel)
  have next_value: "clean (rbind (lznt1_split n' s (2 ^ (16 - s))) (\<lambda>(split, t).
      lznt1_loop fuel data limit base offset' n' split t tb tg None))"
    if "n' \<le> 20482 + 2 * (offset' - start)" "offset < offset'" "offset' \<le> limit" for n' offset' tb tg
  proof -
    have "start \<le> offset'" "offset' \<le> start + 4096" using that Suc.prems by (auto simp: lznt1_inv_def)
    from lznt1_inv_step [OF Suc.prems(1) that(1) this] obtain s' where
      "lznt1_split n' s (2 ^ (16 - s)) = Inr (s', 2 ^ (16 - s'))" "lznt1_inv start offset' n' s'" by blast
    with Suc.IH [of offset' n' s' tb tg] Suc.prems that show ?thesis by simp
  qed
  have lit: "n + 1 \<le> 20482 + 2 * (Suc offset' - start)" if "offset \<le> offset'" for offset'
    using Suc.prems that by (auto simp: lznt1_inv_def)
  note growth = lznt1_value_growth [OF Suc.prems(1)]
  have read_value: "clean (rbind (rd16 data o') (\<lambda>tuple.
      let copy_len = LZNT1_VALUE_LEN tuple s
      in rbind (copy_match None copy_len (base + n) (LZNT1_VALUE_OFFSET tuple s)) (\<lambda>out.
         rbind (lznt1_split (n + copy_len) s (2 ^ (16 - s))) (\<lambda>(split, t).
         lznt1_loop fuel data limit base (o' + 2) (n + copy_len) split t tb tg out))))"
    if "offset \<le> o'" "o' + 2 \<le> limit" for o' tb tg
    using that Suc.prems(2) growth [OF that(1)]
    by (intro clean_bind) (auto simp: Let_def intro!: next_value)
  have literal: "clean (rbind (lznt1_split (n + 1) s (2 ^ (16 - s))) (\<lambda>(split, t).
         lznt1_loop fuel data limit base (o' + 1) (n + 1) split t tb tg None))"
    if "offset \<le> o'" "o' < limit" for o' tb tg
    using that lit [OF that(1)] by (intro next_value) auto
  show ?case
  proof (cases "tag_bit = 0")
    case True
    with Suc.prems read_value [of "offset + 1"] literal [of "offset + 1"] show ?thesis
      by (auto simp: rd8_def)
  next
    case False
    with Suc.prems read_value [of offset] literal [of offset] show ?thesis by auto
  qed
qed simp

lemma lznt1_block_clean:
  assumes "offset + block_len \<le> length data" "block_len \<le> 4096"
  shows "clean (lznt1_block data (offset + block_len) offset base None)"
  using assms lznt1_loop_clean [of offset offset 0 12 "offset + block_len" data]
  by (simp add: lznt1_block_def lznt1_inv_def del: lznt1_loop.simps)

lemma LZNT1_BLOCK_LEN_bounds: "1 \<le> LZNT1_BLOCK_LEN h" "LZNT1_BLOCK_LEN h \<le> 4096"
  by (simp_all add: LZNT1_BLOCK_LEN_def Suc_le_eq)

lemma lznt1_blocks_clean:
  "len + 4096 \<le> length data \<Longrightarrow> clean (lznt1_blocks data len offset n None)"
proof (induction "len - offset" arbitrary: offset n rule: less_induct)
  case less
  have rec: "clean (lznt1_blocks data len (offset + 2 + k) m None)" if "offset + 2 \<le> len" for k m
    using that less.prems by (intro less.hyps) auto
  have block: "clean (rbind (lznt1_block data (offset + 2 + LZNT1_BLOCK_LEN h) (offset + 2) n None)
      (\<lambda>(m, out). lznt1_blocks data len (offset + 2 + LZNT1_BLOCK_LEN h) (n + m) out))"
    if "offset + 2 \<le> len" for h
  proof (intro clean_bind clean_prod)
    show "clean (lznt1_block data (offset + 2 + LZNT1_BLOCK_LEN h) (offset + 2) n None)"
      using that less.prems LZNT1_BLOCK_LEN_bounds [of h] by (intro lznt1_block_clean) auto
  next
    fix x m out
    assume x: "lznt1_block data (offset + 2 + LZNT1_BLOCK_LEN h) (offset + 2) n None = Inr x" "x = (m, out)"
    then have "out = None"
      using echoes_None [OF echoes_lznt1_loop] unfolding lznt1_block_def by blast
    with rec [OF that] show "clean (lznt1_blocks data len (offset + 2 + LZNT1_BLOCK_LEN h) (n + m) out)"
      by simp
  qed
  show ?case
    using less.prems rec unfolding lznt1_blocks.simps [of data len offset n] Let_def option.case
    by (intro clean_intros block) (auto simp del: add_2_eq_Suc add_2_eq_Suc')
qed

lemma lznt1_measure_clean: "len + 4096 \<le> length data \<Longrightarrow> clean (lznt1_decompress data len None)"
  unfolding lznt1_decompress_def by (rule lznt1_blocks_clean)

text \<open>What is read: a block is read up to its limit, which is at most 4096 bytes beyond the length.\<close>

lemma lznt1_loop_take:
  "limit \<le> m \<Longrightarrow> offset \<le> limit \<Longrightarrow>
   lznt1_loop fuel (take m data) limit base offset n s t tag_bit tag out = lznt1_loop fuel data limit base offset n s t tag_bit tag out"
proof (induction fuel arbitrary: offset n s t tag_bit tag out)
  case (Suc fuel)
  then show ?case
    by (auto simp: Let_def rd8_take rd16_take rbind_eq_Inr split: option.splits if_splits intro!: rbind_cong)
qed simp

lemma lznt1_blocks_take:
  "len + 4096 \<le> m \<Longrightarrow> lznt1_blocks (take m data) len offset n out = lznt1_blocks data len offset n out"
proof (induction "len - offset" arbitrary: offset n out rule: less_induct)
  case less
  have rec: "lznt1_blocks (take m data) len (offset + 2 + k) n' out' = lznt1_blocks data len (offset + 2 + k) n' out'"
    if "offset + 2 \<le> len" for k n' out'
    using that less.prems by (intro less.hyps) auto
  have block: "lznt1_block (take m data) (offset + 2 + LZNT1_BLOCK_LEN h) (offset + 2) n out
      = lznt1_block data (offset + 2 + LZNT1_BLOCK_LEN h) (offset + 2) n out" if "offset + 2 \<le> len" for h
    using that less.prems LZNT1_BLOCK_LEN_bounds [of h] unfolding lznt1_block_def by (intro lznt1_loop_take) auto
  show ?case
    using less.prems
    unfolding lznt1_blocks.simps [of "take m data" len offset n out] lznt1_blocks.simps [of data len offset n out] Let_def
    by (auto simp: rec block rd8_take rd16_take rd_bytes_take simp del: add_2_eq_Suc add_2_eq_Suc' split: option.splits intro!: rbind_cong)
qed

section \<open>Properties\<close>

text \<open>
  C23: LZNT1 decompression always terminates. Without a buffer it yields a length or an error of its own; with
  any buffer the outcome is the same, unless it would leave the buffer: a write behind its end or a match
  that starts before it. With or without a buffer it reads at most 4096 bytes beyond the length it is given, since
  the end of a compressed block is not compared with it.
\<close>

theorem lznt1_decompress_clean:
  assumes "len + 4096 \<le> length data"
  shows "clean (lznt1_decompress data len None)
    \<and> (\<forall>b. lznt1_decompress data len (Some b) = Inl Fault
      \<or> (lznt1_decompress data len (Some b) = Inl Fail \<and> lznt1_decompress data len None = Inl Fail)
      \<or> (\<exists>n b'. lznt1_decompress data len (Some b) = Inr (n, Some b') \<and> lznt1_decompress data len None = Inr (n, None)
          \<and> length b' = length b))
    \<and> (\<forall>out. lznt1_decompress data len out = lznt1_decompress (take (len + 4096) data) len out)"
  using lznt1_measure_clean [OF assms] lznt1_dec.clean_outcome lznt1_blocks_take [of len "len + 4096" data]
  by (auto simp: lznt1_decompress_def)

theorem lznt1_decompress_clean_witness:
  "clean (lznt1_decompress ([0x03, 0xb0, 0x02, 0x61, 0x00, 0x00] @ replicate 4100 0) 6 None)
    \<and> (\<forall>b. lznt1_decompress ([0x03, 0xb0, 0x02, 0x61, 0x00, 0x00] @ replicate 4100 0) 6 (Some b) = Inl Fault
      \<or> (lznt1_decompress ([0x03, 0xb0, 0x02, 0x61, 0x00, 0x00] @ replicate 4100 0) 6 (Some b) = Inl Fail \<and> lznt1_decompress ([0x03, 0xb0, 0x02, 0x61, 0x00, 0x00] @ replicate 4100 0) 6 None = Inl Fail)
      \<or> (\<exists>n b'. lznt1_decompress ([0x03, 0xb0, 0x02, 0x61, 0x00, 0x00] @ replicate 4100 0) 6 (Some b) = Inr (n, Some b') \<and> lznt1_decompress ([0x03, 0xb0, 0x02, 0x61, 0x00, 0x00] @ replicate 4100 0) 6 None = Inr (n, None)
          \<and> length b' = length b))
    \<and> (\<forall>out. lznt1_decompress ([0x03, 0xb0, 0x02, 0x61, 0x00, 0x00] @ replicate 4100 0) 6 out = lznt1_decompress (take (6 + 4096) ([0x03, 0xb0, 0x02, 0x61, 0x00, 0x00] @ replicate 4100 0)) 6 out)"
  by (rule lznt1_decompress_clean) simp

text \<open>
  C22: The output of LZNT1 decompression is a function of the input alone: a run that succeeds with some
  buffer succeeds with every buffer that is large enough, writes the same \<open>n\<close> bytes and nothing
  else, and the run without a buffer reports the same length.
\<close>

theorem lznt1_decompress_two_pass:
  assumes "lznt1_decompress data len (Some b) = Inr (n, Some b')"
  shows "lznt1_decompress data len None = Inr (n, None) \<and> n \<le> length b \<and> drop n b' = drop n b
    \<and> (\<forall>c. n \<le> length c \<longrightarrow> lznt1_decompress data len (Some c) = Inr (n, Some (take n b' @ drop n c)))"
  using assms by (rule lznt1_dec.two_pass [OF TrueI])

theorem lznt1_decompress_two_pass_witness:
  "lznt1_decompress [0x03, 0xb0, 0x02, 0x61, 0x01, 0x00] 6 None = Inr (5, None)
     \<and> lznt1_decompress [0x03, 0xb0, 0x02, 0x61, 0x01, 0x00] 6 (Some (replicate 6 0)) =
         Inr (5, Some [0x61, 0x61, 0x61, 0x61, 0x61, 0])"
proof -
  have "lznt1_decompress [0x03, 0xb0, 0x02, 0x61, 0x01, 0x00] 6 (Some (replicate 5 0)) =
      Inr (5, Some [0x61, 0x61, 0x61, 0x61, 0x61])"
    by code_simp
  from lznt1_decompress_two_pass [OF this] show ?thesis by simp
qed

end
