(* ===== verification/Xca.thy ===== *)
theory Xca
  imports Decompress Huffman
begin

text \<open>
  Xpress Huffman decompression (\<open>xca.c\<close>, \<open>xca.h\<close>). The pointer \<open>src\<close> is an offset in the data;
  the reads \<open>XCA_GET16\<close> and \<open>XCA_GET8\<close> are not checked against the length, so that the list of
  data may have to extend beyond it. The struct \<open>xca\<close> is represented by its alphabet; its table
  of code lengths is recomputed whenever it is used.
\<close>

definition XCA_CODES :: nat where "XCA_CODES = 512"

definition XCA_END_MARKER :: nat where "XCA_END_MARKER = 256"

definition XCA_BLOCK_SIZE :: nat where "XCA_BLOCK_SIZE = 64 * 1024"

lemmas xca_consts = XCA_CODES_def XCA_END_MARKER_def XCA_BLOCK_SIZE_def

section \<open>Decompression\<close>

text \<open>The code length of a symbol in the table of nibbles that starts at offset \<open>lengths\<close>.\<close>

definition xca_huf_len :: "bytes \<Rightarrow> nat \<Rightarrow> nat \<Rightarrow> nat result" where
  "xca_huf_len data lengths symbol =
     rbind (rd8 data (lengths + symbol div 2)) (\<lambda>v. Inr (unat v div 2 ^ (4 * (symbol mod 2)) mod 16))"

fun xca_lengths :: "bytes \<Rightarrow> nat \<Rightarrow> nat list \<Rightarrow> nat list result" where
  "xca_lengths data lengths [] = Inr []"
| "xca_lengths data lengths (raw # raws) =
     rbind (xca_huf_len data lengths raw) (\<lambda>l. rbind (xca_lengths data lengths raws) (\<lambda>ls. Inr (l # ls)))"

record xca_state =
  xca_src :: nat
  xca_accum :: u32
  xca_extra :: int
  xca_alphabet :: huf_alphabet
  xca_threshold :: nat

definition XCA_GET16 :: "bytes \<Rightarrow> nat \<Rightarrow> (nat \<times> nat) result" where
  "XCA_GET16 data src = rbind (rd16 data src) (\<lambda>v. Inr (v, src + 2))"

definition XCA_GET8 :: "bytes \<Rightarrow> nat \<Rightarrow> (nat \<times> nat) result" where
  "XCA_GET8 data src = rbind (rd8 data src) (\<lambda>v. Inr (unat v, src + 1))"

text \<open>(Re)initialise the decompressor at the start of a block.\<close>

definition xca_init :: "bytes \<Rightarrow> nat \<Rightarrow> nat \<Rightarrow> xca_state \<Rightarrow> xca_state result" where
  "xca_init data len out_len st =
     (let lengths = xca_src st; src = lengths + XCA_CODES div 2 in
      if src > len then Inl Fail
      else rbind (xca_lengths data lengths [0..<XCA_CODES]) (\<lambda>ls.
        rbind (huffman_alphabet (xca_alphabet st) ls) (\<lambda>alphabet.
        rbind (XCA_GET16 data src) (\<lambda>(hi, src).
        rbind (XCA_GET16 data src) (\<lambda>(lo, src).
        Inr \<lparr>xca_src = src, xca_accum = push_bit 16 (of_nat hi) OR of_nat lo, xca_extra = 16,
             xca_alphabet = alphabet, xca_threshold = out_len + XCA_BLOCK_SIZE\<rparr>)))))"

text \<open>Drop \<open>bits\<close> bits from the accumulator, refilling it from the source when it runs short.\<close>

definition xca_consume :: "bytes \<Rightarrow> nat \<Rightarrow> xca_state \<Rightarrow> xca_state result" where
  "xca_consume data bits st =
     (let accum = push_bit bits (xca_accum st); extra = xca_extra st - int bits in
      if extra < 0 then
        rbind (XCA_GET16 data (xca_src st)) (\<lambda>(v, src).
        Inr (st\<lparr>xca_src := src, xca_accum := accum OR push_bit (nat (- extra)) (of_nat v),
                  xca_extra := extra + 16\<rparr>))
      else Inr (st\<lparr>xca_accum := accum, xca_extra := extra\<rparr>))"

definition xca_match_len :: "bytes \<Rightarrow> nat \<Rightarrow> nat \<Rightarrow> (nat \<times> nat) result" where
  "xca_match_len data raw src =
     rbind (if raw mod 16 = 15 then
              rbind (XCA_GET8 data src) (\<lambda>(v, src).
              if v = 255 then XCA_GET16 data src else Inr (v + 15, src))
            else Inr (raw mod 16, src))
       (\<lambda>(match_len, src). Inr (match_len + 3, src))"

definition xca_match_offset :: "u32 \<Rightarrow> nat \<Rightarrow> nat" where
  "xca_match_offset accum match_offset_bits =
     (if match_offset_bits \<noteq> 0
      then unat (drop_bit (32 - match_offset_bits) accum) + 2 ^ match_offset_bits else 1)"

text \<open>The length and the offset of a match.\<close>

definition xca_match :: "bytes \<Rightarrow> nat \<Rightarrow> xca_state \<Rightarrow> (nat \<times> nat \<times> xca_state) result" where
  "xca_match data raw st =
     (let match_offset_bits = raw div 16 in
      rbind (xca_match_len data raw (xca_src st)) (\<lambda>(match_len, src).
      let match_offset = xca_match_offset (xca_accum st) match_offset_bits in
      rbind (xca_consume data match_offset_bits (st\<lparr>xca_src := src\<rparr>)) (\<lambda>st.
      Inr (match_len, match_offset, st))))"

text \<open>Determine the next symbol.\<close>

definition xca_symbol :: "bytes \<Rightarrow> xca_state \<Rightarrow> (nat \<times> xca_state) result" where
  "xca_symbol data st =
     (let huf = unat (drop_bit (32 - HUFFMAN_BITS) (xca_accum st)) in
      rbind (huffman_sym (xca_alphabet st) huf) (\<lambda>sym.
      rbind (huffman_raw (xca_alphabet st) sym huf) (\<lambda>raw.
      rbind (xca_consume data (huffman_len sym) st) (\<lambda>st. Inr (raw, st)))))"

fun xca_loop :: "nat \<Rightarrow> bytes \<Rightarrow> nat \<Rightarrow> nat \<Rightarrow> xca_state \<Rightarrow> bytes option \<Rightarrow> (nat \<times> bytes option) result" where
  "xca_loop 0 data len out_len st out = Inl Fuel"
| "xca_loop (Suc fuel) data len out_len st out =
     (if xca_src st < len then
        rbind (if out_len \<ge> xca_threshold st then xca_init data len out_len st else Inr st) (\<lambda>st.
        rbind (xca_symbol data st) (\<lambda>(raw, st).
        if raw < XCA_END_MARKER then
          rbind (put8 out out_len (of_nat raw)) (\<lambda>out. xca_loop fuel data len (out_len + 1) st out)
        else if raw = XCA_END_MARKER \<and> xca_src st + 1 \<ge> len then Inr (out_len, out)
        else
          rbind (xca_match data (raw - XCA_END_MARKER) st) (\<lambda>(match_len, match_offset, st).
          rbind (copy_match out match_len out_len match_offset) (\<lambda>out.
          xca_loop fuel data len (out_len + match_len) st out))))
      else if xca_src st = len then Inr (out_len, out)
      else Inl Fail)"

definition xca_start :: xca_state where
  "xca_start = \<lparr>xca_src = 0, xca_accum = 0, xca_extra = 0, xca_alphabet = zero_alphabet XCA_CODES,
     xca_threshold = 0\<rparr>"

definition xca_decompress :: "bytes \<Rightarrow> nat \<Rightarrow> bytes option \<Rightarrow> (nat \<times> bytes option) result" where
  "xca_decompress data len out = xca_loop (8 * len + 33) data len 0 xca_start out"

section \<open>The contract\<close>

lemma echoes_xca_loop: "echoes (xca_loop fuel data len n st)"
proof (induction fuel arbitrary: n st)
  case 0
  show ?case unfolding xca_loop.simps by auto
next
  case (Suc fuel)
  show ?case
    unfolding xca_loop.simps Let_def
    by (intro echoes_intros echoes_writes Suc.IH)
qed

lemma appends_xca_loop: "appends (\<lambda>m. m) n (xca_loop fuel data len n st)"
proof (induction fuel arbitrary: n st)
  case 0
  show ?case unfolding xca_loop.simps by auto
next
  case (Suc fuel)
  have off: "0 < d" if "xca_match data raw s = Inr x" "x = (l, y)" "y = (d, s')" for raw s l d s' x y
    using that by (auto simp: xca_match_def Let_def rbind_eq_Inr xca_match_offset_def split: if_splits)
  show ?case
    unfolding xca_loop.simps Let_def
    by (intro appends_intros appends_then [OF appends_put8 Suc.IH]
        appends_then [OF appends_copy_match Suc.IH]) (simp_all add: off)
qed

interpretation xca_dec: stream_decompressor xca_decompress "\<lambda>data len. True"
proof
  show "echoes (xca_decompress data len)" for data len
    using echoes_xca_loop unfolding xca_decompress_def [abs_def] .
  show "appends (\<lambda>n. n) 0 (xca_decompress data len)" for data len
    using appends_xca_loop unfolding xca_decompress_def [abs_def] .
qed

section \<open>Termination and bounds\<close>

text \<open>
  Every iteration consumes at least one bit: the potential \<open>8 * src - extra_bits\<close> grows.
\<close>

definition xca_used :: "xca_state \<Rightarrow> int" where
  "xca_used st = 8 * int (xca_src st) - xca_extra st"

definition xca_inv :: "nat \<Rightarrow> xca_state \<Rightarrow> bool" where
  "xca_inv n st \<longleftrightarrow> 0 \<le> xca_extra st \<and> xca_extra st \<le> 16 \<and> alphabet_memory (xca_alphabet st) 512
     \<and> (n < xca_threshold st \<longrightarrow> decoder_ok (xca_alphabet st) 512)"

lemma xca_consume_ok:
  assumes "xca_src st + 1 < length data" "bits \<le> 16" "0 \<le> xca_extra st" "xca_extra st \<le> 16"
  shows "\<exists>st'. xca_consume data bits st = Inr st' \<and> 0 \<le> xca_extra st' \<and> xca_extra st' \<le> 16
     \<and> xca_used st' = xca_used st + int bits \<and> xca_src st' \<le> xca_src st + 2
     \<and> xca_alphabet st' = xca_alphabet st \<and> xca_threshold st' = xca_threshold st"
  using assms rd16_defined [OF assms(1)]
  by (auto simp: xca_consume_def Let_def XCA_GET16_def xca_used_def)

lemma xca_lengths_ok:
  "\<forall>raw \<in> set raws. lengths + raw div 2 < length data \<Longrightarrow>
   \<exists>ls. xca_lengths data lengths raws = Inr ls \<and> length ls = length raws \<and> (\<forall>l \<in> set ls. l \<le> 16)"
proof (induction raws)
  case (Cons raw raws)
  moreover have "n mod 16 \<le> 16" for n :: nat using mod_less_divisor [of 16 n] by linarith
  ultimately show ?case by (auto simp: xca_huf_len_def rd8_def)
qed simp

lemma xca_init_ok:
  assumes "len + 4 \<le> length data" "xca_inv n st"
  shows "xca_init data len n st = Inl Fail \<or> (\<exists>st'. xca_init data len n st = Inr st' \<and> xca_inv n st'
     \<and> n < xca_threshold st' \<and> xca_used st < xca_used st' \<and> xca_src st' \<le> len + 4)"
proof (cases "xca_src st + 256 > len")
  case True
  then show ?thesis by (simp add: xca_init_def xca_consts Let_def)
next
  case False
  then have "\<forall>raw \<in> set [0..<512]. xca_src st + raw div 2 < length data" using assms(1) by auto
  from xca_lengths_ok [OF this] obtain ls where ls: "xca_lengths data (xca_src st) [0..<512] = Inr ls"
    "length ls = 512" "\<forall>l \<in> set ls. l \<le> 16" by auto
  have mem: "alphabet_memory (xca_alphabet st) (length ls)" using assms(2) ls(2) by (simp add: xca_inv_def)
  obtain hi lo where get: "rd16 data (xca_src st + 256) = Inr hi" "rd16 data (258 + xca_src st) = Inr lo"
    using rd16_defined [of "xca_src st + 256" data] rd16_defined [of "258 + xca_src st" data] False assms(1) by auto
  show ?thesis
  proof (cases "huffman_alphabet (xca_alphabet st) ls")
    case (Inl e)
    with huffman_alphabet_clean [OF mem ls(3)] False ls(1) show ?thesis
      by (simp add: xca_init_def xca_consts Let_def del: upt_conv_Cons)
  next
    case (Inr a)
    have "decoder_ok a 512" "alphabet_memory a 512"
      using huffman_alphabet_decoder [OF Inr mem] huffman_alphabet_memory [OF Inr mem] ls(2) by fastforce+
    with Inr False ls(1) get assms(2) show ?thesis
      by (auto simp: xca_init_def xca_consts Let_def XCA_GET16_def xca_inv_def xca_used_def simp del: upt_conv_Cons)
  qed
qed

lemma xca_symbol_ok:
  assumes "xca_inv n st" "n < xca_threshold st" "xca_src st + 1 < length data"
  shows "\<exists>raw st'. xca_symbol data st = Inr (raw, st') \<and> raw < 512 \<and> (\<forall>m. xca_inv m st')
     \<and> xca_used st < xca_used st' \<and> xca_src st' \<le> xca_src st + 2"
proof -
  let ?huf = "unat (drop_bit 16 (xca_accum st))"
  have "?huf < 2 ^ 16"
    by simp
  then obtain s raw where s: "huffman_sym (xca_alphabet st) ?huf = Inr s" "huffman_raw (xca_alphabet st) s ?huf = Inr raw"
    "1 \<le> huffman_len s" "huffman_len s \<le> 16" "raw < 512"
    using assms(1,2) unfolding xca_inv_def decoder_ok_def by blast
  from xca_consume_ok [OF assms(3) s(4)] assms(1,2) s show ?thesis
    by (auto simp: xca_symbol_def huffman_consts xca_inv_def)
qed

lemma xca_match_len_ok:
  assumes "src + 2 < length data"
  shows "\<exists>l src'. xca_match_len data raw src = Inr (l, src') \<and> src \<le> src' \<and> src' \<le> src + 3"
  using assms rd16_defined [of "src + 1" data]
  by (auto simp: xca_match_len_def XCA_GET8_def XCA_GET16_def rd8_def)

lemma xca_match_ok:
  assumes "xca_inv n st" "raw < 256" "xca_src st + 4 < length data"
  shows "\<exists>l d st'. xca_match data raw st = Inr (l, d, st') \<and> xca_used st \<le> xca_used st'
     \<and> ((\<forall>m. xca_inv m st) \<longrightarrow> (\<forall>m. xca_inv m st'))"
proof -
  obtain l src where ml: "xca_match_len data raw (xca_src st) = Inr (l, src)" "xca_src st \<le> src" "src \<le> xca_src st + 3"
    using xca_match_len_ok [of "xca_src st" data raw] assms(3) by auto
  have "raw div 16 \<le> 16" using assms(2) by simp
  moreover have "xca_src (st\<lparr>xca_src := src\<rparr>) + 1 < length data" using ml assms(3) by simp
  ultimately obtain st' where "xca_consume data (raw div 16) (st\<lparr>xca_src := src\<rparr>) = Inr st'"
      "0 \<le> xca_extra st'" "xca_extra st' \<le> 16" "xca_used st' = xca_used (st\<lparr>xca_src := src\<rparr>) + int (raw div 16)"
      "xca_alphabet st' = xca_alphabet st" "xca_threshold st' = xca_threshold st"
    using xca_consume_ok [of "st\<lparr>xca_src := src\<rparr>" data "raw div 16"] assms(1) by (auto simp: xca_inv_def)
  then show ?thesis using ml by (auto simp: xca_match_def Let_def xca_used_def xca_inv_def)
qed

lemma xca_loop_clean:
  assumes "len + 11 \<le> length data" "xca_inv n st" "0 < fuel"
    and "xca_src st < len \<longrightarrow> 8 * int len - xca_used st < int fuel"
  shows "clean (xca_loop fuel data len n st None)"
  using assms(2-)
proof (induction fuel arbitrary: n st)
  case (Suc fuel)
  show ?case
  proof (cases "xca_src st < len")
    case False
    then show ?thesis by simp
  next
    case True
    then have fuel: "8 * int len - xca_used st < int (Suc fuel)" "0 < fuel"
      using Suc.prems by (auto simp: xca_used_def xca_inv_def)
    have rec: "clean (xca_loop fuel data len m st' None)" if "xca_inv m st'" "xca_used st < xca_used st'" for m st'
      using that fuel by (intro Suc.IH) auto
    have body: "clean (rbind (xca_symbol data st1) (\<lambda>(raw, st).
        if raw < XCA_END_MARKER then
          rbind (put8 None n (of_nat raw)) (\<lambda>out. xca_loop fuel data len (n + 1) st out)
        else if raw = XCA_END_MARKER \<and> xca_src st + 1 \<ge> len then Inr (n, None)
        else
          rbind (xca_match data (raw - XCA_END_MARKER) st) (\<lambda>(match_len, match_offset, st).
          rbind (copy_match None match_len n match_offset) (\<lambda>out.
          xca_loop fuel data len (n + match_len) st out))))"
      if st1: "xca_inv n st1" "n < xca_threshold st1" "xca_used st \<le> xca_used st1" "xca_src st1 \<le> len + 4" for st1
    proof -
      have "xca_src st1 + 1 < length data" using st1(4) assms(1) by simp
      from xca_symbol_ok [OF st1(1,2) this] obtain raw st2 where st2: "xca_symbol data st1 = Inr (raw, st2)"
        "raw < 512" "\<forall>m. xca_inv m st2" "xca_used st < xca_used st2" "xca_src st2 \<le> len + 6"
        using st1(3,4) by fastforce
      show ?thesis
      proof (cases "raw < 256")
        case True
        with st2 rec show ?thesis by (simp add: xca_consts)
      next
        case False
        have "xca_inv n st2" "raw - 256 < 256" "xca_src st2 + 4 < length data" using st2 assms(1) False by auto
        from xca_match_ok [OF this] obtain l d st3 where "xca_match data (raw - 256) st2 = Inr (l, d, st3)"
          "xca_used st2 \<le> xca_used st3" "\<forall>m. xca_inv m st3" using st2(3) by blast
        with st2 rec False show ?thesis by (simp add: xca_consts)
      qed
    qed
    show ?thesis
    proof (cases "n \<ge> xca_threshold st")
      case False
      with body [of st] Suc.prems True show ?thesis by simp
    next
      case init: True
      have "len + 4 \<le> length data" using assms(1) by simp
      from xca_init_ok [OF this Suc.prems(1)] body True init show ?thesis by fastforce
    qed
  qed
qed simp

lemma xca_measure_clean: "len + 11 \<le> length data \<Longrightarrow> clean (xca_decompress data len None)"
  unfolding xca_decompress_def
  by (rule xca_loop_clean) (auto simp: xca_inv_def xca_start_def xca_used_def xca_consts)

text \<open>What is read: nothing at or beyond \<open>m\<close>, if \<open>m\<close> is eleven bytes beyond the length.\<close>

lemma xca_lengths_take:
  "\<forall>raw \<in> set raws. lengths + raw div 2 < m \<Longrightarrow> xca_lengths (take m data) lengths raws = xca_lengths data lengths raws"
  by (induction raws) (simp_all add: xca_huf_len_def rd8_take)

lemma xca_init_take:
  assumes "len + 4 \<le> m"
  shows "xca_init (take m data) len n st = xca_init data len n st"
proof (cases "xca_src st + 256 > len")
  case False
  then have "xca_lengths (take m data) (xca_src st) [0..<512] = xca_lengths data (xca_src st) [0..<512]"
    using assms by (intro xca_lengths_take) auto
  with False assms show ?thesis
    by (simp add: xca_init_def xca_consts XCA_GET16_def rd16_take Let_def rbind_assoc del: upt_conv_Cons cong: rbind_cong)
qed (simp add: xca_init_def xca_consts Let_def)

lemma xca_init_src: "xca_init data len n st = Inr st' \<Longrightarrow> xca_src st' \<le> len + 4"
  by (auto simp: xca_init_def xca_consts XCA_GET16_def Let_def rbind_eq_Inr simp del: upt_conv_Cons split: if_splits)

lemma xca_consume_take: "xca_src st + 1 < m \<Longrightarrow> xca_consume (take m data) bits st = xca_consume data bits st"
  by (simp add: xca_consume_def XCA_GET16_def rd16_take Let_def)

lemma xca_consume_src: "xca_consume data bits st = Inr st' \<Longrightarrow> xca_src st' \<le> xca_src st + 2"
  by (auto simp: xca_consume_def XCA_GET16_def Let_def rbind_eq_Inr split: if_splits)

lemma xca_symbol_take: "xca_src st + 1 < m \<Longrightarrow> xca_symbol (take m data) st = xca_symbol data st"
  by (simp add: xca_symbol_def xca_consume_take)

lemma xca_symbol_src: "xca_symbol data st = Inr (raw, st') \<Longrightarrow> xca_src st' \<le> xca_src st + 2"
  by (auto simp: xca_symbol_def Let_def rbind_eq_Inr dest: xca_consume_src)

lemma xca_match_len_take: "src + 2 < m \<Longrightarrow> xca_match_len (take m data) raw src = xca_match_len data raw src"
  by (auto simp: xca_match_len_def XCA_GET8_def XCA_GET16_def rd8_take rd16_take rbind_assoc intro!: rbind_cong)

lemma xca_match_len_src: "xca_match_len data raw src = Inr (l, src') \<Longrightarrow> src' \<le> src + 3"
  by (auto simp: xca_match_len_def XCA_GET8_def XCA_GET16_def rbind_eq_Inr split: if_splits)

lemma xca_match_take:
  assumes "xca_src st + 4 < m"
  shows "xca_match (take m data) raw st = xca_match data raw st"
proof -
  have "xca_match_len (take m data) raw (xca_src st) = xca_match_len data raw (xca_src st)"
    using assms by (intro xca_match_len_take) simp
  then show ?thesis
    using assms by (auto simp: xca_match_def Let_def intro!: rbind_cong xca_consume_take dest!: xca_match_len_src)
qed

lemma xca_loop_take:
  "len + 11 \<le> m \<Longrightarrow> xca_loop fuel (take m data) len n st out = xca_loop fuel data len n st out"
proof (induction fuel arbitrary: n st out)
  case (Suc fuel)
  have body: "xca_symbol (take m data) st1 = xca_symbol data st1"
    "xca_symbol data st1 = Inr (raw, st2) \<Longrightarrow> xca_match (take m data) r st2 = xca_match data r st2"
    if "xca_src st1 \<le> len + 4" for st1 st2 raw r
    using that Suc.prems xca_symbol_src [of data st1 raw st2] by (auto intro!: xca_symbol_take xca_match_take)
  have init: "xca_init (take m data) len n st = xca_init data len n st" using Suc.prems by (intro xca_init_take) simp
  have start: "xca_src st < len \<Longrightarrow> xca_src st \<le> len + 4" by simp
  show ?case
    by (auto simp: init body Suc.IH Suc.prems split: if_splits
        intro!: rbind_cong body start dest!: xca_init_src)
qed simp

section \<open>Properties\<close>

text \<open>
  C21: XCA decompression always terminates. Without a buffer it yields a length or an error of its own; with
  any buffer the outcome is the same, unless it would leave the buffer: a write behind its end or a match
  that starts before it. With or without a buffer it looks at no more than eleven bytes beyond the length it is given.
\<close>

theorem xca_decompress_clean:
  assumes "len + 11 \<le> length data"
  shows "clean (xca_decompress data len None)
    \<and> (\<forall>b. xca_decompress data len (Some b) = Inl Fault
      \<or> (xca_decompress data len (Some b) = Inl Fail \<and> xca_decompress data len None = Inl Fail)
      \<or> (\<exists>n b'. xca_decompress data len (Some b) = Inr (n, Some b') \<and> xca_decompress data len None = Inr (n, None)
          \<and> length b' = length b))
    \<and> (\<forall>out. xca_decompress data len out = xca_decompress (take (len + 11) data) len out)"
  using xca_measure_clean [OF assms] xca_dec.clean_outcome xca_loop_take [of len "len + 11" _ data]
  by (auto simp: xca_decompress_def)

theorem xca_decompress_clean_witness:
  "clean (xca_decompress (replicate 300 0x11) 289 None)
    \<and> (\<forall>b. xca_decompress (replicate 300 0x11) 289 (Some b) = Inl Fault
      \<or> (xca_decompress (replicate 300 0x11) 289 (Some b) = Inl Fail \<and> xca_decompress (replicate 300 0x11) 289 None = Inl Fail)
      \<or> (\<exists>n b'. xca_decompress (replicate 300 0x11) 289 (Some b) = Inr (n, Some b')
          \<and> xca_decompress (replicate 300 0x11) 289 None = Inr (n, None) \<and> length b' = length b))
    \<and> (\<forall>out. xca_decompress (replicate 300 0x11) 289 out = xca_decompress (take (289 + 11) (replicate 300 0x11)) 289 out)"
  by (rule xca_decompress_clean) simp

text \<open>An input with an empty table of code lengths: every bit decodes to a zero byte.\<close>

lemma xca_lengths_zero:
  "\<forall>raw \<in> set raws. raw div 2 < m \<Longrightarrow> xca_lengths (replicate m 0) 0 raws = Inr (replicate (length raws) 0)"
  by (induction raws) (auto simp: xca_huf_len_def rd8_def)

lemma xca_zero_block: "xca_decompress (replicate 260 0) 260 (Some [7]) = Inr (1, Some [0])"
proof -
  have "xca_lengths (replicate 260 0) 0 [0..<512] = Inr (replicate (length [0..<512]) 0)"
    by (rule xca_lengths_zero) auto
  then have ls: "xca_lengths (replicate 260 0) 0 [0..<512] = Inr (replicate 512 0)" by simp
  obtain a where a: "huffman_alphabet (zero_alphabet 512) (replicate 512 0) = Inr a"
      "\<And>huf. huf < 2 ^ 16 \<Longrightarrow> \<exists>s. huffman_sym a huf = Inr s \<and> huffman_len s = 1 \<and> huffman_raw a s huf = Inr 0"
    using huffman_alphabet_empty [of "replicate 512 0" "zero_alphabet 512" 512] by auto
  have accum: "drop_bit 16 (0 :: u32) = 0" by simp
  obtain s where s: "huffman_sym a 0 = Inr s" "huffman_len s = 1" "huffman_raw a s 0 = Inr 0"
    using a(2) [of 0] by auto
  have rd: "rd16 (replicate 260 0) 256 = Inr 0" "rd16 (replicate 260 0) 258 = Inr 0"
    by (simp_all add: rd16_def rd8_def)
  have init: "xca_init (replicate 260 0) 260 0 xca_start =
      Inr \<lparr>xca_src = 260, xca_accum = 0, xca_extra = 16, xca_alphabet = a, xca_threshold = 65536\<rparr>"
    using ls a(1) rd by (simp add: xca_init_def xca_start_def xca_consts XCA_GET16_def Let_def del: upt_conv_Cons)
  define f where "f = (2111 :: nat)"
  have fuel: "8 * 260 + 33 = Suc (Suc f)" by (simp add: f_def)
  have start: "xca_src xca_start = 0" "xca_threshold xca_start = 0" by (simp_all add: xca_start_def)
  show ?thesis
    unfolding xca_decompress_def fuel using s
    by (simp add: init start xca_symbol_def xca_consume_def huffman_consts xca_consts put8_def wr8_def Let_def)
qed

text \<open>
  The output of XCA decompression is a function of the input alone: a run that succeeds with some buffer
  succeeds with every buffer that is large enough, writes the same \<open>n\<close> bytes and nothing else, and
  the run without a buffer reports the same length.
\<close>

theorem xca_decompress_two_pass:
  assumes "xca_decompress data len (Some b) = Inr (n, Some b')"
  shows "xca_decompress data len None = Inr (n, None) \<and> n \<le> length b \<and> drop n b' = drop n b
    \<and> (\<forall>c. n \<le> length c \<longrightarrow> xca_decompress data len (Some c) = Inr (n, Some (take n b' @ drop n c)))"
  using assms by (rule xca_dec.two_pass [OF TrueI])

theorem xca_decompress_two_pass_witness:
  "xca_decompress (replicate 260 0) 260 None = Inr (1, None)
     \<and> xca_decompress (replicate 260 0) 260 (Some [1, 2, 3]) = Inr (1, Some [0, 2, 3])"
  using xca_decompress_two_pass [OF xca_zero_block] by simp

end
