(* ===== verification/Lzx.thy ===== *)
theory Lzx
  imports Decompress Huffman
begin

text \<open>
  LZX decompression (\<open>lzx.c\<close>, \<open>lzx.h\<close>). The struct \<open>lzx\<close> is a record; the input data and its length,
  which do not change, and the output buffer are passed beside it. Negative return codes are
  \<open>Fail\<close>. The 32-bit accumulator is a word, all counts and offsets are natural numbers.

  The outer and the inner loop are given a budget of \<open>8 * len + 1\<close> iterations each, which is
  enough because every token and every block header consumes at least one bit of input.
\<close>

section \<open>Constants and state\<close>

definition LZX_ALIGNOFFSET_CODES :: nat where "LZX_ALIGNOFFSET_CODES = 8"
definition LZX_ALIGNOFFSET_BITS :: nat where "LZX_ALIGNOFFSET_BITS = 3"
definition LZX_PRETREE_CODES :: nat where "LZX_PRETREE_CODES = 20"
definition LZX_PRETREE_BITS :: nat where "LZX_PRETREE_BITS = 4"
definition LZX_MAIN_LIT_CODES :: nat where "LZX_MAIN_LIT_CODES = 256"
definition LZX_POSITION_SLOTS :: nat where "LZX_POSITION_SLOTS = 30"
definition LZX_MAIN_CODES :: nat where "LZX_MAIN_CODES = LZX_MAIN_LIT_CODES + 8 * LZX_POSITION_SLOTS"
definition LZX_LENGTH_CODES :: nat where "LZX_LENGTH_CODES = 249"
definition LZX_BLOCK_TYPE_BITS :: nat where "LZX_BLOCK_TYPE_BITS = 3"
definition LZX_DEFAULT_BLOCK_LEN :: nat where "LZX_DEFAULT_BLOCK_LEN = 32768"
definition LZX_REPEATED_OFFSETS :: nat where "LZX_REPEATED_OFFSETS = 3"
definition LZX_WIM_MAGIC_FILESIZE :: int where "LZX_WIM_MAGIC_FILESIZE = 12000000"
definition LZX_BLOCK_VERBATIM :: nat where "LZX_BLOCK_VERBATIM = 1"
definition LZX_BLOCK_ALIGNOFFSET :: nat where "LZX_BLOCK_ALIGNOFFSET = 2"
definition LZX_BLOCK_UNCOMPRESSED :: nat where "LZX_BLOCK_UNCOMPRESSED = 3"

lemmas lzx_consts = LZX_ALIGNOFFSET_CODES_def LZX_ALIGNOFFSET_BITS_def LZX_PRETREE_CODES_def
  LZX_PRETREE_BITS_def LZX_MAIN_LIT_CODES_def LZX_POSITION_SLOTS_def LZX_MAIN_CODES_def
  LZX_LENGTH_CODES_def LZX_BLOCK_TYPE_BITS_def LZX_DEFAULT_BLOCK_LEN_def LZX_REPEATED_OFFSETS_def
  LZX_WIM_MAGIC_FILESIZE_def LZX_BLOCK_VERBATIM_def LZX_BLOCK_ALIGNOFFSET_def LZX_BLOCK_UNCOMPRESSED_def

record lzx =
  lzx_in :: nat
  lzx_out :: nat
  lzx_threshold :: nat
  lzx_accumulator :: u32
  lzx_bits :: nat
  lzx_block_type :: nat
  lzx_repeated_offset :: "nat list"
  lzx_alignoffset :: huf_alphabet
  lzx_pretree_alphabet :: huf_alphabet
  lzx_main :: huf_alphabet
  lzx_literals :: "nat list"
  lzx_remainder :: "nat list"
  lzx_length :: huf_alphabet
  lzx_length_lengths :: "nat list"

definition lzx_footer_bits :: "nat \<Rightarrow> nat" where
  "lzx_footer_bits position_slot =
     (if position_slot < 2 then 0 else if position_slot < 38 then position_slot div 2 - 1 else 17)"

fun lzx_position_base :: "nat \<Rightarrow> nat" where
  "lzx_position_base 0 = 0"
| "lzx_position_base (Suc i) = lzx_position_base i + 2 ^ lzx_footer_bits i"

section \<open>Bit stream\<close>

definition lzx_accumulate :: "bytes \<Rightarrow> nat \<Rightarrow> nat \<Rightarrow> lzx \<Rightarrow> (nat \<times> lzx) result" where
  "lzx_accumulate data len bits l =
     rbind (if lzx_bits l < bits \<and> lzx_in l < len then
              rbind (rd16 data (lzx_in l)) (\<lambda>v.
              Inr (l\<lparr>lzx_in := lzx_in l + 2,
                     lzx_accumulator := lzx_accumulator l OR push_bit (16 - lzx_bits l) (of_nat v),
                     lzx_bits := lzx_bits l + 16\<rparr>))
            else Inr l)
       (\<lambda>l. Inr (unat (drop_bit 16 (lzx_accumulator l)), l))"

definition lzx_consume :: "nat \<Rightarrow> lzx \<Rightarrow> lzx result" where
  "lzx_consume bits l =
     (if lzx_bits l < bits then Inl Fail
      else Inr (l\<lparr>lzx_accumulator := push_bit bits (lzx_accumulator l), lzx_bits := lzx_bits l - bits\<rparr>))"

definition lzx_getbits :: "bytes \<Rightarrow> nat \<Rightarrow> nat \<Rightarrow> lzx \<Rightarrow> (nat \<times> lzx) result" where
  "lzx_getbits data len bits l =
     rbind (lzx_accumulate data len bits l) (\<lambda>(norm_value, l).
     rbind (lzx_consume bits l) (\<lambda>l. Inr (norm_value div 2 ^ (16 - bits), l)))"

definition lzx_align :: "bytes \<Rightarrow> nat \<Rightarrow> nat \<Rightarrow> lzx \<Rightarrow> lzx result" where
  "lzx_align data len bits l =
     rbind (lzx_getbits data len bits l) (\<lambda>(pad, l). lzx_consume (lzx_bits l) l)"

text \<open>The flag \<open>wanted\<close> says whether the caller passes a buffer for the bytes.\<close>

definition lzx_getbytes :: "bytes \<Rightarrow> nat \<Rightarrow> bool \<Rightarrow> nat \<Rightarrow> lzx \<Rightarrow> (bytes \<times> lzx) result" where
  "lzx_getbytes data len wanted n l =
     (if lzx_in l + n > len then Inl Fail
      else rbind (if wanted then rd_bytes data (lzx_in l) n else Inr []) (\<lambda>bs.
        Inr (bs, l\<lparr>lzx_in := lzx_in l + n\<rparr>)))"

definition lzx_decode :: "bytes \<Rightarrow> nat \<Rightarrow> huf_alphabet \<Rightarrow> lzx \<Rightarrow> (nat \<times> lzx) result" where
  "lzx_decode data len alphabet l =
     rbind (lzx_accumulate data len HUFFMAN_BITS l) (\<lambda>(huf, l).
     rbind (huffman_sym alphabet huf) (\<lambda>s.
     rbind (lzx_consume (huffman_len s) l) (\<lambda>l.
     rbind (huffman_raw alphabet s huf) (\<lambda>raw. Inr (raw, l)))))"

section \<open>Alphabets\<close>

fun lzx_raw_lengths :: "bytes \<Rightarrow> nat \<Rightarrow> nat \<Rightarrow> nat \<Rightarrow> lzx \<Rightarrow> (nat list \<times> lzx) result" where
  "lzx_raw_lengths data len bits 0 l = Inr ([], l)"
| "lzx_raw_lengths data len bits (Suc count) l =
     rbind (lzx_getbits data len bits l) (\<lambda>(v, l).
     rbind (lzx_raw_lengths data len bits count l) (\<lambda>(vs, l). Inr (v # vs, l)))"

definition lzx_raw_alphabet :: "bytes \<Rightarrow> nat \<Rightarrow> nat \<Rightarrow> nat \<Rightarrow> huf_alphabet \<Rightarrow> lzx \<Rightarrow> (huf_alphabet \<times> lzx) result" where
  "lzx_raw_alphabet data len count bits alphabet l =
     rbind (lzx_raw_lengths data len bits count l) (\<lambda>(lengths, l).
     rbind (huffman_alphabet alphabet lengths) (\<lambda>alphabet. Inr (alphabet, l)))"

text \<open>
  \<open>( lengths[i] - code + 17 ) % 17\<close>, stored in a byte: the remainder is that of C, which is negative for a
  negative operand.
\<close>

definition lzx_delta :: "nat \<Rightarrow> nat \<Rightarrow> nat" where
  "lzx_delta old code =
     (let d = int old - int code + 17
      in if 0 \<le> d then nat (d mod 17) mod 256 else nat ((- ((- d) mod 17)) mod 256))"

text \<open>Interpret a pretree code: the new length and the number of times it is repeated.\<close>

definition lzx_pretree_code :: "bytes \<Rightarrow> nat \<Rightarrow> nat \<Rightarrow> lzx \<Rightarrow> ((nat \<times> nat) \<times> lzx) result" where
  "lzx_pretree_code data len old l =
     rbind (lzx_decode data len (lzx_pretree_alphabet l) l) (\<lambda>(code, l).
     if code \<le> 16 then Inr ((lzx_delta old code, 0), l)
     else if code = 17 then rbind (lzx_getbits data len 4 l) (\<lambda>(dup, l). Inr ((0, dup + 3), l))
     else if code = 18 then rbind (lzx_getbits data len 5 l) (\<lambda>(dup, l). Inr ((0, dup + 19), l))
     else if code = 19 then
       rbind (lzx_getbits data len 1 l) (\<lambda>(dup, l).
       rbind (lzx_decode data len (lzx_pretree_alphabet l) l) (\<lambda>(code, l).
       Inr ((lzx_delta old code, dup + 3), l)))
     else Inl Fail)"

text \<open>The loop over the lengths: \<open>prev\<close> is \<open>lengths[i-1]\<close>, the list holds the lengths from \<open>i\<close> on.\<close>

fun lzx_pretree_lengths :: "bytes \<Rightarrow> nat \<Rightarrow> nat \<Rightarrow> nat \<Rightarrow> nat list \<Rightarrow> lzx \<Rightarrow> (nat list \<times> lzx) result" where
  "lzx_pretree_lengths data len dup prev [] l = (if dup \<noteq> 0 then Inl Fail else Inr ([], l))"
| "lzx_pretree_lengths data len dup prev (old # lengths) l =
     (if dup \<noteq> 0 then
        rbind (lzx_pretree_lengths data len (dup - 1) prev lengths l) (\<lambda>(ls, l). Inr (prev # ls, l))
      else
        rbind (lzx_pretree_code data len old l) (\<lambda>((new, dup), l).
        rbind (lzx_pretree_lengths data len dup new lengths l) (\<lambda>(ls, l). Inr (new # ls, l))))"

definition lzx_pretree :: "bytes \<Rightarrow> nat \<Rightarrow> nat list \<Rightarrow> lzx \<Rightarrow> (nat list \<times> lzx) result" where
  "lzx_pretree data len lengths l =
     rbind (lzx_raw_alphabet data len LZX_PRETREE_CODES LZX_PRETREE_BITS (lzx_pretree_alphabet l) l) (\<lambda>(alphabet, l).
     lzx_pretree_lengths data len 0 0 lengths (l\<lparr>lzx_pretree_alphabet := alphabet\<rparr>))"

definition lzx_alignoffset_alphabet :: "bytes \<Rightarrow> nat \<Rightarrow> lzx \<Rightarrow> lzx result" where
  "lzx_alignoffset_alphabet data len l =
     rbind (lzx_raw_alphabet data len LZX_ALIGNOFFSET_CODES LZX_ALIGNOFFSET_BITS (lzx_alignoffset l) l) (\<lambda>(alphabet, l).
     Inr (l\<lparr>lzx_alignoffset := alphabet\<rparr>))"

definition lzx_main_alphabet :: "bytes \<Rightarrow> nat \<Rightarrow> lzx \<Rightarrow> lzx result" where
  "lzx_main_alphabet data len l =
     rbind (lzx_pretree data len (lzx_literals l) l) (\<lambda>(literals, l).
     rbind (lzx_pretree data len (lzx_remainder l) (l\<lparr>lzx_literals := literals\<rparr>)) (\<lambda>(rest, l).
     rbind (huffman_alphabet (lzx_main l) (literals @ rest)) (\<lambda>alphabet.
     Inr (l\<lparr>lzx_remainder := rest, lzx_main := alphabet\<rparr>))))"

definition lzx_length_alphabet :: "bytes \<Rightarrow> nat \<Rightarrow> lzx \<Rightarrow> lzx result" where
  "lzx_length_alphabet data len l =
     rbind (lzx_pretree data len (lzx_length_lengths l) l) (\<lambda>(lengths, l).
     rbind (huffman_alphabet (lzx_length l) lengths) (\<lambda>alphabet.
     Inr (l\<lparr>lzx_length_lengths := lengths, lzx_length := alphabet\<rparr>)))"

section \<open>Blocks\<close>

definition lzx_block_len :: "bytes \<Rightarrow> nat \<Rightarrow> lzx \<Rightarrow> (nat \<times> lzx) result" where
  "lzx_block_len data len l =
     rbind (lzx_getbits data len 1 l) (\<lambda>(default_len, l).
     if default_len \<noteq> 0 then Inr (LZX_DEFAULT_BLOCK_LEN, l)
     else rbind (lzx_getbits data len 8 l) (\<lambda>(len_high, l).
          rbind (lzx_getbits data len 8 l) (\<lambda>(len_low, l).
          Inr (256 * len_high + len_low, l))))"

definition lzx_new_offsets :: "bytes \<Rightarrow> nat \<Rightarrow> lzx \<Rightarrow> lzx result" where
  "lzx_new_offsets data len l =
     rbind (lzx_align data len 1 l) (\<lambda>l.
     rbind (lzx_getbytes data len True 12 l) (\<lambda>(bs, l).
     rbind (rd32 bs 0) (\<lambda>r0. rbind (rd32 bs 4) (\<lambda>r1. rbind (rd32 bs 8) (\<lambda>r2.
     Inr (l\<lparr>lzx_repeated_offset := [r0, r1, r2]\<rparr>))))))"

definition lzx_block_header :: "bytes \<Rightarrow> nat \<Rightarrow> lzx \<Rightarrow> lzx result" where
  "lzx_block_header data len l =
     rbind (lzx_getbits data len LZX_BLOCK_TYPE_BITS l) (\<lambda>(block_type, l).
     rbind (lzx_block_len data len (l\<lparr>lzx_block_type := block_type\<rparr>)) (\<lambda>(block_len, l).
     let l = l\<lparr>lzx_threshold := lzx_out l + block_len\<rparr> in
     if block_type = LZX_BLOCK_ALIGNOFFSET \<or> block_type = LZX_BLOCK_VERBATIM then
       rbind (if block_type = LZX_BLOCK_ALIGNOFFSET then lzx_alignoffset_alphabet data len l else Inr l) (\<lambda>l.
       rbind (lzx_main_alphabet data len l) (\<lambda>l. lzx_length_alphabet data len l))
     else if block_type = LZX_BLOCK_UNCOMPRESSED then lzx_new_offsets data len l
     else Inl Fail))"

definition lzx_uncompressed :: "bytes \<Rightarrow> nat \<Rightarrow> lzx \<Rightarrow> bytes option \<Rightarrow> (lzx \<times> bytes option) result" where
  "lzx_uncompressed data len l out =
     (let n = lzx_threshold l - lzx_out l in
      rbind (lzx_getbytes data len (out \<noteq> None) n l) (\<lambda>(bs, l).
      rbind (put_bytes out (lzx_out l) bs) (\<lambda>out.
      Inr (if odd n then l\<lparr>lzx_in := lzx_in l + 1\<rparr> else l, out))))"

section \<open>Tokens\<close>

definition lzx_match_length :: "bytes \<Rightarrow> nat \<Rightarrow> nat \<Rightarrow> lzx \<Rightarrow> (nat \<times> lzx) result" where
  "lzx_match_length data len main l =
     rbind (if main mod 8 = 7 then lzx_decode data len (lzx_length l) l else Inr (0, l)) (\<lambda>(n, l).
     Inr (main mod 8 + 2 + n, l))"

definition lzx_verbatim_offset :: "bytes \<Rightarrow> nat \<Rightarrow> nat \<Rightarrow> lzx \<Rightarrow> (nat \<times> lzx) result" where
  "lzx_verbatim_offset data len position_slot l =
     (let offset_bits = lzx_footer_bits position_slot in
      if lzx_block_type l = LZX_BLOCK_ALIGNOFFSET \<and> offset_bits \<ge> 3 then
        rbind (lzx_getbits data len (offset_bits - 3) l) (\<lambda>(verbatim_bits, l).
        rbind (lzx_decode data len (lzx_alignoffset l) l) (\<lambda>(aligned_bits, l).
        Inr (lzx_position_base position_slot + 8 * verbatim_bits + aligned_bits - 2, l)))
      else
        rbind (lzx_getbits data len offset_bits l) (\<lambda>(verbatim_bits, l).
        Inr (lzx_position_base position_slot + verbatim_bits - 2, l)))"

definition lzx_match_offset :: "bytes \<Rightarrow> nat \<Rightarrow> nat \<Rightarrow> lzx \<Rightarrow> (nat \<times> lzx) result" where
  "lzx_match_offset data len position_slot l =
     (if position_slot < LZX_REPEATED_OFFSETS then
        (let rs = lzx_repeated_offset l; r = rs ! position_slot in
         Inr (r, l\<lparr>lzx_repeated_offset := (rs[position_slot := rs ! 0])[0 := r]\<rparr>))
      else
        rbind (lzx_verbatim_offset data len position_slot l) (\<lambda>(r, l).
        Inr (r, l\<lparr>lzx_repeated_offset := [r, lzx_repeated_offset l ! 0, lzx_repeated_offset l ! 1]\<rparr>)))"

definition lzx_token :: "bytes \<Rightarrow> nat \<Rightarrow> lzx \<Rightarrow> bytes option \<Rightarrow> (lzx \<times> bytes option) result" where
  "lzx_token data len l out =
     rbind (lzx_decode data len (lzx_main l) l) (\<lambda>(main, l).
     if main < LZX_MAIN_LIT_CODES then
       rbind (put8 out (lzx_out l) (of_nat main)) (\<lambda>out. Inr (l\<lparr>lzx_out := lzx_out l + 1\<rparr>, out))
     else
       rbind (lzx_match_length data len (main - LZX_MAIN_LIT_CODES) l) (\<lambda>(match_length, l).
       rbind (lzx_match_offset data len ((main - LZX_MAIN_LIT_CODES) div 8) l) (\<lambda>(match_offset, l).
       if match_offset > lzx_out l then Inl Fail
       else rbind (copy_match out match_length (lzx_out l) match_offset) (\<lambda>out.
         Inr (l\<lparr>lzx_out := lzx_out l + match_length\<rparr>, out)))))"

fun lzx_tokens :: "nat \<Rightarrow> bytes \<Rightarrow> nat \<Rightarrow> lzx \<Rightarrow> bytes option \<Rightarrow> (lzx \<times> bytes option) result" where
  "lzx_tokens 0 data len l out = Inl Fuel"
| "lzx_tokens (Suc fuel) data len l out =
     (if lzx_out l < lzx_threshold l
      then rbind (lzx_token data len l out) (\<lambda>(l, out). lzx_tokens fuel data len l out)
      else Inr (l, out))"

section \<open>Jump translation\<close>

text \<open>The translation of one jump target, as a signed 32-bit value, at \<open>offset\<close>.\<close>

definition lzx_translate_target :: "nat \<Rightarrow> u32 \<Rightarrow> u32" where
  "lzx_translate_target offset target =
     (if 0 \<le> sint target then
        (if sint target < LZX_WIM_MAGIC_FILESIZE then target - of_nat offset else target)
      else if sint target \<ge> - sint (of_nat offset :: u32)
      then target + of_int LZX_WIM_MAGIC_FILESIZE else target)"

function lzx_translate_from :: "nat \<Rightarrow> nat \<Rightarrow> bytes \<Rightarrow> bytes result" where
  "lzx_translate_from n offset b =
     (if offset < n - 10 then
        rbind (rd8 b offset) (\<lambda>v.
        if v \<noteq> 0xe8 then lzx_translate_from n (offset + 1) b
        else rbind (rd32 b (offset + 1)) (\<lambda>target.
             rbind (wr_bytes b (offset + 1) (le32 (unat (lzx_translate_target offset (of_nat target)))))
               (\<lambda>b. lzx_translate_from n (offset + 5) b)))
      else Inr b)"
  by pat_completeness auto
termination
  by (relation "measure (\<lambda>(n, offset, b). n - offset)") auto

declare lzx_translate_from.simps [simp del]

definition lzx_translate_jumps :: "nat \<Rightarrow> bytes \<Rightarrow> bytes result" where
  "lzx_translate_jumps n b = (if n < 10 then Inr b else lzx_translate_from n 0 b)"

section \<open>Decompression\<close>

fun lzx_blocks :: "nat \<Rightarrow> bytes \<Rightarrow> nat \<Rightarrow> lzx \<Rightarrow> bytes option \<Rightarrow> (lzx \<times> bytes option) result" where
  "lzx_blocks 0 data len l out = Inl Fuel"
| "lzx_blocks (Suc fuel) data len l out =
     (if lzx_in l < len then
        rbind (lzx_block_header data len l) (\<lambda>l.
        rbind (if lzx_block_type l = LZX_BLOCK_UNCOMPRESSED then lzx_uncompressed data len l out
               else lzx_tokens (8 * len + 1) data len l out) (\<lambda>(l, out).
        lzx_blocks fuel data len l out))
      else Inr (l, out))"

definition lzx_start :: lzx where
  "lzx_start = \<lparr>lzx_in = 0, lzx_out = 0, lzx_threshold = 0, lzx_accumulator = 0, lzx_bits = 0,
     lzx_block_type = 0, lzx_repeated_offset = replicate LZX_REPEATED_OFFSETS 1,
     lzx_alignoffset = zero_alphabet LZX_ALIGNOFFSET_CODES,
     lzx_pretree_alphabet = zero_alphabet LZX_PRETREE_CODES,
     lzx_main = zero_alphabet LZX_MAIN_CODES, lzx_literals = replicate LZX_MAIN_LIT_CODES 0,
     lzx_remainder = replicate (LZX_MAIN_CODES - LZX_MAIN_LIT_CODES) 0,
     lzx_length = zero_alphabet LZX_LENGTH_CODES, lzx_length_lengths = replicate LZX_LENGTH_CODES 0\<rparr>"

definition lzx_decompress :: "bytes \<Rightarrow> nat \<Rightarrow> bytes option \<Rightarrow> (nat \<times> bytes option) result" where
  "lzx_decompress data len out =
     (if odd len then Inl Fail
      else rbind (lzx_blocks (8 * len + 1) data len lzx_start out) (\<lambda>(l, out).
        rbind (case out of None \<Rightarrow> Inr None
               | Some b \<Rightarrow> rbind (lzx_translate_jumps (lzx_out l) b) (\<lambda>b. Inr (Some b))) (\<lambda>out.
        Inr (lzx_out l, out))))"

section \<open>The contract\<close>

lemma echoes_lzx_uncompressed: "echoes (lzx_uncompressed data len l)"
  by (rule echoesI)
    (auto simp: lzx_uncompressed_def lzx_getbytes_def put_bytes_def wr_bytes_def Let_def
      rbind_eq_Inr rbind_eq_Inl split: if_splits dest: rd_bytes_error)

lemma echoes_lzx_token: "echoes (lzx_token data len l)"
  unfolding lzx_token_def by (intro echoes_intros echoes_put8 echoes_copy_match)

lemma echoes_lzx_tokens: "echoes (lzx_tokens fuel data len l)"
proof (induction fuel arbitrary: l)
  case 0
  show ?case unfolding lzx_tokens.simps by auto
next
  case (Suc fuel)
  show ?case
    unfolding lzx_tokens.simps by (intro echoes_intros echoes_bind echoes_lzx_token Suc.IH)
qed

lemma echoes_lzx_blocks: "echoes (lzx_blocks fuel data len l)"
proof (induction fuel arbitrary: l)
  case 0
  show ?case unfolding lzx_blocks.simps by auto
next
  case (Suc fuel)
  show ?case
    unfolding lzx_blocks.simps
    by (intro echoes_if echoes_return echoes_pure echoes_bind echoes_lzx_uncompressed echoes_lzx_tokens Suc.IH)
qed

lemma lzx_translate_from_length:
  "lzx_translate_from n offset b = Inr b' \<Longrightarrow> length b' = length b"
proof (induction n offset b arbitrary: b' rule: lzx_translate_from.induct)
  case (1 n offset b)
  note eq = lzx_translate_from.simps [of n offset b]
  show ?case
  proof (cases "offset < n - 10")
    case True
    with "1.prems" obtain v where v: "rd8 b offset = Inr v" by (auto simp: eq rbind_eq_Inr)
    show ?thesis
      using 1(1) [OF True v] 1(2) [OF True v] "1.prems" True v
      by (auto simp: eq rbind_eq_Inr wr_bytes_def split: if_splits)
  qed (use "1.prems" in \<open>simp add: eq\<close>)
qed

lemma rd32_error: "rd32 data i = Inl e \<Longrightarrow> e = Fault"
  by (auto simp: rd32_def rd16_def rbind_eq_Inl rbind_eq_Inr)

lemma lzx_translate_from_error: "lzx_translate_from n offset b = Inl e \<Longrightarrow> e = Fault"
proof (induction n offset b rule: lzx_translate_from.induct)
  case (1 n offset b)
  note eq = lzx_translate_from.simps [of n offset b]
  show ?case
  proof (cases "offset < n - 10 \<and> offset < length b")
    case True
    then have v: "offset < n - 10" "rd8 b offset = Inr (b ! offset)" by simp_all
    show ?thesis
      using 1(1) [OF v] 1(2) [OF v] "1.prems" v
      by (auto simp: eq rbind_eq_Inl wr_bytes_def split: if_splits dest: rd32_error)
  qed (use "1.prems" in \<open>auto simp: eq rbind_eq_Inl rbind_eq_Inr split: if_splits\<close>)
qed

lemma echoes_lzx_finish:
  "echoes (\<lambda>out. rbind (case out of None \<Rightarrow> Inr None
     | Some b \<Rightarrow> rbind (lzx_translate_jumps n b) (\<lambda>b. Inr (Some b))) (\<lambda>out. Inr (n, out)))"
  by (rule echoesI) (auto simp: lzx_translate_jumps_def rbind_eq_Inr rbind_eq_Inl
      dest: lzx_translate_from_length lzx_translate_from_error split: if_splits)

interpretation lzx_dec: decompressor lzx_decompress
proof
  show "echoes (lzx_decompress data len)" for data len
    unfolding lzx_decompress_def [abs_def]
    by (intro echoes_if echoes_fail echoes_bind echoes_lzx_blocks echoes_lzx_finish)
qed

section \<open>Use of the input\<close>

text \<open>
  Between two steps the input offset is even and within the input, and fewer than 32 bits are
  accumulated. \<open>lzx_used\<close> is the number of input bits consumed so far.
\<close>

definition lzx_inv :: "nat \<Rightarrow> lzx \<Rightarrow> bool" where
  "lzx_inv len l \<longleftrightarrow> even (lzx_in l) \<and> lzx_in l \<le> len \<and> lzx_bits l \<le> 31
     \<and> alphabet_memory (lzx_main l) 496 \<and> length (lzx_literals l) = 256 \<and> length (lzx_remainder l) = 240"

definition lzx_used :: "lzx \<Rightarrow> int" where
  "lzx_used l = 8 * int (lzx_in l) - int (lzx_bits l)"

text \<open>
  A step of the decompressor, from state \<open>l\<close> to the state that \<open>st\<close> finds in its result: it does not
  depend on data beyond the length, keeps the invariant and consumes at least \<open>k\<close> bits.
\<close>

definition lzx_step :: "nat \<Rightarrow> nat \<Rightarrow> ('r \<Rightarrow> lzx) \<Rightarrow> lzx \<Rightarrow> (bytes \<Rightarrow> 'r result) \<Rightarrow> bool" where
  "lzx_step len k st l f \<longleftrightarrow> (\<forall>data. len \<le> length data \<longrightarrow> even len \<longrightarrow> lzx_inv len l \<longrightarrow>
     f (take len data) = f data \<and>
     (case f data of Inl e \<Rightarrow> e = Fail \<or> e = Fault
      | Inr x \<Rightarrow> lzx_inv len (st x) \<and> lzx_used l + int k \<le> lzx_used (st x)))"

lemma lzx_step_bind:
  assumes "lzx_step len k st l f" "\<And>x. lzx_step len j st' (st x) (g x)" "i \<le> k + j"
  shows "lzx_step len i st' l (\<lambda>data. rbind (f data) (\<lambda>x. g x data))"
  unfolding lzx_step_def
proof (intro allI impI)
  fix data :: bytes
  assume pre: "len \<le> length data" "even len" "lzx_inv len l"
  with assms(1) have f: "f (take len data) = f data"
    "case f data of Inl e \<Rightarrow> e = Fail \<or> e = Fault
      | Inr x \<Rightarrow> lzx_inv len (st x) \<and> lzx_used l + int k \<le> lzx_used (st x)"
    unfolding lzx_step_def by blast+
  show "rbind (f (take len data)) (\<lambda>x. g x (take len data)) = rbind (f data) (\<lambda>x. g x data) \<and>
     (case rbind (f data) (\<lambda>x. g x data) of Inl e \<Rightarrow> e = Fail \<or> e = Fault
      | Inr x \<Rightarrow> lzx_inv len (st' x) \<and> lzx_used l + int i \<le> lzx_used (st' x))"
  proof (cases "f data")
    case (Inl e)
    with f show ?thesis by simp
  next
    case (Inr x)
    with f have x: "lzx_inv len (st x)" "lzx_used l + int k \<le> lzx_used (st x)" by auto
    with assms(2) [of x] pre have "g x (take len data) = g x data"
      "case g x data of Inl e \<Rightarrow> e = Fail \<or> e = Fault
        | Inr y \<Rightarrow> lzx_inv len (st' y) \<and> lzx_used (st x) + int j \<le> lzx_used (st' y)"
      unfolding lzx_step_def by blast+
    with Inr f x assms(3) show ?thesis by (auto split: sum.splits)
  qed
qed

lemma lzx_step_return: "st x = l \<Longrightarrow> lzx_step len 0 st l (\<lambda>data. Inr x)"
  by (simp add: lzx_step_def)

lemma lzx_step_fail: "lzx_step len k st l (\<lambda>data. Inl Fail)"
  by (simp add: lzx_step_def)

lemma lzx_step_if:
  "(c \<Longrightarrow> lzx_step len k st l f) \<Longrightarrow> (\<not> c \<Longrightarrow> lzx_step len k st l g)
     \<Longrightarrow> lzx_step len k st l (\<lambda>data. if c then f data else g data)"
  by (cases c) auto

lemma lzx_step_prod:
  "(\<And>a b. x = (a, b) \<Longrightarrow> lzx_step len k st l (f a b)) \<Longrightarrow> lzx_step len k st l (\<lambda>data. case x of (a, b) \<Rightarrow> f a b data)"
  by (cases x) simp

lemma lzx_step_weaken: "lzx_step len k st l f \<Longrightarrow> j \<le> k \<Longrightarrow> lzx_step len j st l f"
  unfolding lzx_step_def by (fastforce split: sum.splits)

lemma lzx_step_accumulate:
  assumes "bits \<le> 16"
  shows "lzx_step len 0 snd l (\<lambda>data. lzx_accumulate data len bits l)"
  unfolding lzx_step_def
proof (intro allI impI)
  fix data :: bytes
  assume pre: "len \<le> length data" "even len" "lzx_inv len l"
  show "lzx_accumulate (take len data) len bits l = lzx_accumulate data len bits l \<and>
     (case lzx_accumulate data len bits l of Inl e \<Rightarrow> e = Fail \<or> e = Fault
      | Inr x \<Rightarrow> lzx_inv len (snd x) \<and> lzx_used l + int 0 \<le> lzx_used (snd x))"
  proof (cases "lzx_bits l < bits \<and> lzx_in l < len")
    case False
    then have "lzx_accumulate d len bits l = Inr (unat (drop_bit 16 (lzx_accumulator l)), l)" for d
      unfolding lzx_accumulate_def if_not_P [OF False] by simp
    with pre show ?thesis by simp
  next
    case True
    with pre have in2: "lzx_in l + 1 < len" unfolding lzx_inv_def by (metis Suc_eq_plus1 Suc_lessI even_Suc)
    then obtain v where "rd16 data (lzx_in l) = Inr v" "rd16 (take len data) (lzx_in l) = Inr v"
      using rd16_defined [of "lzx_in l" data] pre(1) rd16_take [OF in2, of data] by auto
    with True pre in2 assms show ?thesis
      by (auto simp: lzx_accumulate_def lzx_inv_def lzx_used_def)
  qed
qed

lemma lzx_step_consume: "lzx_step len bits (\<lambda>l. l) l (\<lambda>data. lzx_consume bits l)"
  by (auto simp: lzx_step_def lzx_consume_def lzx_inv_def lzx_used_def)

lemma lzx_step_getbits:
  assumes "bits \<le> 16"
  shows "lzx_step len bits snd l (\<lambda>data. lzx_getbits data len bits l)"
  unfolding lzx_getbits_def
  by (rule lzx_step_bind [OF lzx_step_accumulate [OF assms], where j = bits])
    (auto simp: split_beta intro!: lzx_step_bind [OF lzx_step_consume] lzx_step_return)

lemma lzx_step_from:
  assumes "lzx_step len k st l' f" "lzx_inv len l \<Longrightarrow> lzx_inv len l'" "lzx_used l \<le> lzx_used l'"
  shows "lzx_step len k st l f"
  using assms unfolding lzx_step_def by (fastforce split: sum.splits)

lemma lzx_step_value:
  "(lzx_inv len l \<Longrightarrow> lzx_inv len (st x)) \<Longrightarrow> lzx_used l \<le> lzx_used (st x) \<Longrightarrow> lzx_step len 0 st l (\<lambda>data. Inr x)"
  by (simp add: lzx_step_def)

lemma lzx_step_pure:
  assumes "\<And>e. r = Inl e \<Longrightarrow> e = Fail \<or> e = Fault" "\<And>x. r = Inr x \<Longrightarrow> lzx_step len k st l (f x)"
  shows "lzx_step len k st l (\<lambda>data. rbind r (\<lambda>x. f x data))"
proof (cases r)
  case (Inl e)
  with assms(1) show ?thesis by (auto simp: lzx_step_def)
next
  case (Inr x)
  with assms(2) show ?thesis by simp
qed

lemma lzx_step_bits:
  assumes "lzx_step len k snd l f" "\<And>a l. lzx_step len j st l (g a l)" "i \<le> k + j"
  shows "lzx_step len i st l (\<lambda>data. rbind (f data) (\<lambda>(a, l). g a l data))"
  using lzx_step_bind [OF assms(1), of j st "\<lambda>x. g (fst x) (snd x)"] assms(2,3) by (simp add: case_prod_unfold)

lemma lzx_step_state:
  assumes "lzx_step len k (\<lambda>l. l) l f" "\<And>l. lzx_step len j st l (g l)" "i \<le> k + j"
  shows "lzx_step len i st l (\<lambda>data. rbind (f data) (\<lambda>l. g l data))"
  using lzx_step_bind [OF assms(1), of j st g] assms(2,3) by simp

lemma lzx_step_align: "lzx_step len 1 (\<lambda>l. l) l (\<lambda>data. lzx_align data len 1 l)"
  unfolding lzx_align_def
  by (rule lzx_step_bits [OF lzx_step_getbits, where j = 0])
    (auto intro: lzx_step_weaken [OF lzx_step_consume])

lemma huffman_sym_down_error: "huffman_sym_down ss huf i = Inl e \<Longrightarrow> e = Fault"
  by (induction ss huf i rule: huffman_sym_down.induct)
    (subst (asm) huffman_sym_down.simps, auto split: if_splits nat.splits)

lemma huffman_sym_error: "huffman_sym a huf = Inl e \<Longrightarrow> e = Fault"
  by (auto simp: huffman_sym_def Let_def split: if_splits dest: huffman_sym_down_error)

lemma huffman_raw_error: "huffman_raw a s huf = Inl e \<Longrightarrow> e = Fault"
  by (auto simp: huffman_raw_def Let_def split: if_splits)

lemma lzx_step_decode: "lzx_step len 0 snd l (\<lambda>data. lzx_decode data len alphabet l)"
  unfolding lzx_decode_def huffman_consts
  by (rule lzx_step_bits [OF lzx_step_accumulate, where j = 0], simp, rule lzx_step_pure,
      simp add: huffman_sym_error, rule lzx_step_state [OF lzx_step_consume, where j = 0], rule lzx_step_pure)
    (auto simp: huffman_raw_error intro!: lzx_step_return)

lemma lzx_decode_consumes:
  assumes "decoder_ok alphabet n"
  shows "lzx_step len 1 snd l (\<lambda>data. lzx_decode data len alphabet l)"
proof -
  have huf: "lzx_step len 1 snd l' (\<lambda>data. rbind (huffman_sym alphabet huf) (\<lambda>s. rbind (lzx_consume (huffman_len s) l')
      (\<lambda>l. rbind (huffman_raw alphabet s huf) (\<lambda>raw. Inr (raw, l)))))" if "huf < 2 ^ 16" for huf l'
  proof -
    obtain s where s: "huffman_sym alphabet huf = Inr s" "1 \<le> huffman_len s"
      using assms \<open>huf < 2 ^ 16\<close> unfolding decoder_ok_def by blast
    have "lzx_step len (huffman_len s + 0) snd l' (\<lambda>data. rbind (lzx_consume (huffman_len s) l')
      (\<lambda>l. rbind (huffman_raw alphabet s huf) (\<lambda>raw. Inr (raw, l))))"
      by (rule lzx_step_state [OF lzx_step_consume, where j = 0], rule lzx_step_pure)
        (auto simp: huffman_raw_error intro!: lzx_step_return)
    from lzx_step_weaken [OF this, of 1] s show ?thesis by simp
  qed
  have acc: "huf < 2 ^ 16" if "lzx_accumulate data len bits l = Inr (huf, l')" for data bits huf l'
    using that by (auto simp: lzx_accumulate_def rbind_eq_Inr)
  have "lzx_step len 1 snd l (\<lambda>data. rbind (lzx_accumulate data len 16 l) (\<lambda>(huf, l').
      if huf < 2 ^ 16 then rbind (huffman_sym alphabet huf) (\<lambda>s. rbind (lzx_consume (huffman_len s) l')
      (\<lambda>l. rbind (huffman_raw alphabet s huf) (\<lambda>raw. Inr (raw, l)))) else Inl Fail))"
    by (rule lzx_step_bits [OF lzx_step_accumulate, where j = 1], simp,
        intro lzx_step_if huf lzx_step_fail) simp_all
  moreover have "rbind (lzx_accumulate data len 16 l) (\<lambda>(huf, l').
      if huf < 2 ^ 16 then rbind (huffman_sym alphabet huf) (\<lambda>s. rbind (lzx_consume (huffman_len s) l')
      (\<lambda>l. rbind (huffman_raw alphabet s huf) (\<lambda>raw. Inr (raw, l)))) else Inl Fail) =
      lzx_decode data len alphabet l" for data
    unfolding lzx_decode_def huffman_consts by (rule rbind_cong) (auto dest: acc)
  ultimately show ?thesis by simp
qed

lemma odd_end: "even i \<Longrightarrow> odd n \<Longrightarrow> even len \<Longrightarrow> i + n \<le> len \<Longrightarrow> Suc (i + n) \<le> (len :: nat)"
  by (metis Suc_leI even_add le_neq_implies_less)

lemma lzx_step_getbytes:
  "lzx_step len 0 (\<lambda>x. snd x\<lparr>lzx_in := lzx_in (snd x) + (if odd n then 1 else 0)\<rparr>) l (\<lambda>data. lzx_getbytes data len wanted n l)"
  by (auto simp: lzx_step_def lzx_getbytes_def lzx_inv_def lzx_used_def rd_bytes_def window_def
      drop_take min_def not_less intro: odd_end split: if_splits)

lemma lzx_step_raw_lengths:
  "bits \<le> 16 \<Longrightarrow> lzx_step len 0 snd l (\<lambda>data. lzx_raw_lengths data len bits count l)"
proof (induction count arbitrary: l)
  case 0
  show ?case unfolding lzx_raw_lengths.simps by (rule lzx_step_return) simp
next
  case (Suc count)
  show ?case unfolding lzx_raw_lengths.simps
    by (rule lzx_step_bits [OF lzx_step_getbits [OF Suc.prems], where j = 0],
        rule lzx_step_bits [OF Suc.IH [OF Suc.prems], where j = 0]) (auto intro: lzx_step_return)
qed

lemma huffman_count_error: "huffman_count huf em lengths = Inl e \<Longrightarrow> e = Fault"
  by (induction huf em lengths rule: huffman_count.induct) (auto split: if_splits)

lemma huffman_populate_error: "huffman_populate bits h c ss = Inl e \<Longrightarrow> e = Fail"
  by (induction bits h c ss rule: huffman_populate.induct)
    (auto simp: Let_def rbind_eq_Inl split: if_splits prod.splits)

lemma huffman_fill_error: "huffman_fill huf tab r lengths = Inl e \<Longrightarrow> e = Fault"
  by (induction huf tab r lengths rule: huffman_fill.induct) (auto simp: Let_def split: if_splits)

lemma huffman_alphabet_error: "huffman_alphabet a lengths = Inl e \<Longrightarrow> e = Fail \<or> e = Fault"
  unfolding huffman_alphabet_def Let_def rbind_eq_Inl split_beta
  by (auto simp del: huffman_count.simps huffman_populate.simps huffman_fill.simps huffman_adjust.simps
      dest: huffman_count_error huffman_populate_error huffman_fill_error split: if_splits)

lemma lzx_step_raw_alphabet:
  "bits \<le> 16 \<Longrightarrow> lzx_step len 0 snd l (\<lambda>data. lzx_raw_alphabet data len count bits alphabet l)"
  unfolding lzx_raw_alphabet_def
  by (rule lzx_step_bits [OF lzx_step_raw_lengths, where j = 0], simp, rule lzx_step_pure)
    (auto simp: huffman_alphabet_error intro!: lzx_step_return)

lemma lzx_step_pretree_code: "lzx_step len 0 snd l (\<lambda>data. lzx_pretree_code data len old l)"
  unfolding lzx_pretree_code_def
  by (rule lzx_step_bits [OF lzx_step_decode, where j = 0])
    (auto intro!: lzx_step_if lzx_step_return lzx_step_fail lzx_step_bits [OF lzx_step_getbits, where j = 0]
      lzx_step_bits [OF lzx_step_decode, where j = 0])

lemma lzx_step_pretree_lengths:
  "lzx_step len 0 snd l (\<lambda>data. lzx_pretree_lengths data len dup prev lengths l)"
proof (induction lengths arbitrary: dup prev l)
  case Nil
  show ?case unfolding lzx_pretree_lengths.simps by (auto intro!: lzx_step_if lzx_step_return lzx_step_fail)
next
  case (Cons old lengths)
  show ?case unfolding lzx_pretree_lengths.simps
    by (rule lzx_step_if, rule lzx_step_bits [OF Cons.IH, where j = 0])
      (auto intro!: lzx_step_return lzx_step_bits [OF lzx_step_pretree_code, where j = 0]
        lzx_step_prod lzx_step_bits [OF Cons.IH, where j = 0])
qed

lemma lzx_step_pretree: "lzx_step len 0 snd l (\<lambda>data. lzx_pretree data len lengths l)"
  unfolding lzx_pretree_def lzx_consts
  by (rule lzx_step_bits [OF lzx_step_raw_alphabet, where j = 0], simp,
      rule lzx_step_from [OF lzx_step_pretree_lengths]) (auto simp: lzx_inv_def lzx_used_def)

lemma lzx_pretree_lengths_length:
  "lzx_pretree_lengths data len dup prev lengths l = Inr (ls, l') \<Longrightarrow> length ls = length lengths"
  by (induction data len dup prev lengths l arbitrary: ls l' rule: lzx_pretree_lengths.induct)
    (auto simp: rbind_eq_Inr split: if_splits)

lemma lzx_pretree_length: "lzx_pretree data len lengths l = Inr (ls, l') \<Longrightarrow> length ls = length lengths"
  by (auto simp: lzx_pretree_def rbind_eq_Inr dest: lzx_pretree_lengths_length)

text \<open>The bit stream operations change nothing but the position in the input and the pretree.\<close>

definition lzx_moved :: "lzx \<Rightarrow> lzx \<Rightarrow> bool" where
  "lzx_moved l l' \<longleftrightarrow> (\<exists>i a b p. l' = l\<lparr>lzx_in := i, lzx_accumulator := a, lzx_bits := b, lzx_pretree_alphabet := p\<rparr>)"

lemma lzx_moved_refl [simp]: "lzx_moved l l"
  unfolding lzx_moved_def by (metis lzx.surjective lzx.update_convs(1,4,5,9))

lemma lzx_moved_trans: "lzx_moved l l' \<Longrightarrow> lzx_moved l' l'' \<Longrightarrow> lzx_moved l l''"
  unfolding lzx_moved_def by (cases l) auto

lemma lzx_movedD:
  assumes "lzx_moved l l'"
  shows "lzx_out l' = lzx_out l" "lzx_threshold l' = lzx_threshold l" "lzx_block_type l' = lzx_block_type l"
    "lzx_repeated_offset l' = lzx_repeated_offset l" "lzx_main l' = lzx_main l" "lzx_length l' = lzx_length l"
    "lzx_literals l' = lzx_literals l" "lzx_remainder l' = lzx_remainder l"
    "lzx_length_lengths l' = lzx_length_lengths l" "lzx_alignoffset l' = lzx_alignoffset l"
  using assms by (auto simp: lzx_moved_def)

lemma lzx_moved_consume: "lzx_consume bits l = Inr l' \<Longrightarrow> lzx_moved l l'"
  by (cases l) (auto simp: lzx_consume_def lzx_moved_def split: if_splits)

lemma lzx_moved_accumulate: "lzx_accumulate data len bits l = Inr (v, l') \<Longrightarrow> lzx_moved l l'"
  by (cases l) (auto simp: lzx_accumulate_def lzx_moved_def rbind_eq_Inr split: if_splits)

lemma lzx_moved_getbits: "lzx_getbits data len bits l = Inr (v, l') \<Longrightarrow> lzx_moved l l'"
  by (auto simp: lzx_getbits_def rbind_eq_Inr dest!: lzx_moved_consume lzx_moved_accumulate intro: lzx_moved_trans)

lemma lzx_moved_decode: "lzx_decode data len alphabet l = Inr (v, l') \<Longrightarrow> lzx_moved l l'"
  by (auto simp: lzx_decode_def rbind_eq_Inr dest!: lzx_moved_consume lzx_moved_accumulate intro: lzx_moved_trans)

lemma lzx_moved_raw_lengths: "lzx_raw_lengths data len bits count l = Inr (v, l') \<Longrightarrow> lzx_moved l l'"
  by (induction data len bits count l arbitrary: v l' rule: lzx_raw_lengths.induct)
    (auto simp: rbind_eq_Inr, meson lzx_moved_getbits lzx_moved_trans)

lemma lzx_moved_raw_alphabet: "lzx_raw_alphabet data len count bits a l = Inr (v, l') \<Longrightarrow> lzx_moved l l'"
  by (auto simp: lzx_raw_alphabet_def rbind_eq_Inr dest: lzx_moved_raw_lengths)

lemma lzx_moved_pretree_code: "lzx_pretree_code data len old l = Inr (v, l') \<Longrightarrow> lzx_moved l l'"
  by (auto simp: lzx_pretree_code_def rbind_eq_Inr split: if_splits
      dest!: lzx_moved_decode lzx_moved_getbits intro: lzx_moved_trans)

lemma lzx_moved_pretree_lengths: "lzx_pretree_lengths data len dup prev lengths l = Inr (v, l') \<Longrightarrow> lzx_moved l l'"
  by (induction data len dup prev lengths l arbitrary: v l' rule: lzx_pretree_lengths.induct)
    (auto simp: rbind_eq_Inr split: if_splits, meson lzx_moved_pretree_code lzx_moved_trans)

lemma lzx_moved_pretree: "lzx_pretree data len lengths l = Inr (v, l') \<Longrightarrow> lzx_moved l l'"
proof -
  have "lzx_moved l (l\<lparr>lzx_pretree_alphabet := a\<rparr>)" for l a
    unfolding lzx_moved_def by (cases l) auto
  then show "lzx_pretree data len lengths l = Inr (v, l') \<Longrightarrow> lzx_moved l l'"
    by (auto simp: lzx_pretree_def rbind_eq_Inr dest!: lzx_moved_raw_alphabet lzx_moved_pretree_lengths)
      (meson lzx_moved_trans)
qed

section \<open>Blocks and tokens consume input\<close>

lemma lzx_step_alignoffset: "lzx_step len 0 (\<lambda>l. l) l (\<lambda>data. lzx_alignoffset_alphabet data len l)"
  unfolding lzx_alignoffset_alphabet_def lzx_consts
  by (rule lzx_step_bits [OF lzx_step_raw_alphabet, where j = 0])
    (auto intro!: lzx_step_value simp: lzx_inv_def lzx_used_def)

lemma lzx_step_length: "lzx_step len 0 (\<lambda>l. l) l (\<lambda>data. lzx_length_alphabet data len l)"
  unfolding lzx_length_alphabet_def
  by (rule lzx_step_bits [OF lzx_step_pretree, where j = 0], rule lzx_step_pure)
    (auto intro!: lzx_step_value simp: lzx_inv_def lzx_used_def huffman_alphabet_error)

text \<open>A step whose result satisfies \<open>Q\<close> may be continued by steps that rely on \<open>Q\<close>.\<close>

lemma lzx_step_cong:
  assumes "\<And>data. len \<le> length data \<Longrightarrow> even len \<Longrightarrow> lzx_inv len l \<Longrightarrow> f data = g data"
  shows "lzx_step len k st l f = lzx_step len k st l g"
proof -
  have "f data = g data \<and> f (take len data) = g (take len data)"
    if "len \<le> length data" "even len" "lzx_inv len l" for data
    using assms that by simp
  then show ?thesis unfolding lzx_step_def by (metis (no_types, lifting))
qed

lemma lzx_step_knowing:
  assumes "lzx_step len k st l f"
    and "\<And>data x. len \<le> length data \<Longrightarrow> even len \<Longrightarrow> lzx_inv len l \<Longrightarrow> f data = Inr x \<Longrightarrow> Q x"
    and "\<And>x. Q x \<Longrightarrow> lzx_step len j st' (st x) (g x)" "i \<le> k + j"
  shows "lzx_step len i st' l (\<lambda>data. rbind (f data) (\<lambda>x. g x data))"
proof -
  have "lzx_step len i st' l (\<lambda>data. rbind (f data) (\<lambda>x. if Q x then g x data else Inl Fail))"
    by (rule lzx_step_bind [OF assms(1) _ assms(4)]) (auto intro: lzx_step_if assms(3) lzx_step_fail)
  also have "?this \<longleftrightarrow> ?thesis"
    by (rule lzx_step_cong, rule rbind_cong) (use assms(2) in auto)
  finally show ?thesis .
qed

lemma lzx_step_main: "lzx_step len 0 (\<lambda>l. l) l (\<lambda>data. lzx_main_alphabet data len l)"
proof -
  have final: "lzx_step len 0 (\<lambda>l. l) l (\<lambda>data. rbind (huffman_alphabet (lzx_main l) (lits @ rest)) (\<lambda>a.
      Inr (l\<lparr>lzx_remainder := rest, lzx_main := a\<rparr>)))" if "length rest = 240" for l rest lits
    using that huffman_alphabet_memory
    by (intro lzx_step_pure lzx_step_value) (auto simp: huffman_alphabet_error lzx_inv_def lzx_used_def)
  have rest: "lzx_step len 0 (\<lambda>l. l) l (\<lambda>data. rbind (lzx_pretree data len (lzx_remainder l) (l\<lparr>lzx_literals := lits\<rparr>))
     (\<lambda>(rest, l). rbind (huffman_alphabet (lzx_main l) (lits @ rest)) (\<lambda>a. Inr (l\<lparr>lzx_remainder := rest, lzx_main := a\<rparr>))))"
    if "length lits = 256" for l lits
  proof (rule lzx_step_from [where l' = "l\<lparr>lzx_literals := lits\<rparr>"])
    show "lzx_step len 0 (\<lambda>l. l) (l\<lparr>lzx_literals := lits\<rparr>) (\<lambda>data. rbind (lzx_pretree data len (lzx_remainder l) (l\<lparr>lzx_literals := lits\<rparr>))
     (\<lambda>(rest, l). rbind (huffman_alphabet (lzx_main l) (lits @ rest)) (\<lambda>a. Inr (l\<lparr>lzx_remainder := rest, lzx_main := a\<rparr>))))"
      by (rule lzx_step_knowing [OF lzx_step_pretree, where Q = "\<lambda>(rest, l). length rest = 240" and j = 0])
        (auto simp: lzx_inv_def dest: lzx_pretree_length intro!: final)
  qed (use that in \<open>auto simp: lzx_inv_def lzx_used_def\<close>)
  show ?thesis
    unfolding lzx_main_alphabet_def
    by (rule lzx_step_knowing [OF lzx_step_pretree, where Q = "\<lambda>(lits, l). length lits = 256" and j = 0])
      (auto simp: lzx_inv_def dest: lzx_pretree_length intro!: rest)
qed

lemma lzx_main_alphabet_result:
  assumes "lzx_main_alphabet data len l = Inr l'" "lzx_inv len l"
  shows "decoder_ok (lzx_main l') 496 \<and> lzx_out l' = lzx_out l \<and> lzx_block_type l' = lzx_block_type l
     \<and> lzx_repeated_offset l' = lzx_repeated_offset l"
proof -
  obtain lits l1 rest l2 a where run: "lzx_pretree data len (lzx_literals l) l = Inr (lits, l1)"
      "lzx_pretree data len (lzx_remainder l1) (l1\<lparr>lzx_literals := lits\<rparr>) = Inr (rest, l2)"
      "huffman_alphabet (lzx_main l2) (lits @ rest) = Inr a" "l' = l2\<lparr>lzx_remainder := rest, lzx_main := a\<rparr>"
    using assms(1) by (auto simp: lzx_main_alphabet_def rbind_eq_Inr)
  note moved = lzx_movedD [OF lzx_moved_pretree [OF run(1)]] lzx_movedD [OF lzx_moved_pretree [OF run(2)]]
  have "length lits = 256" "length rest = 240"
    using lzx_pretree_length [OF run(1)] lzx_pretree_length [OF run(2)] moved assms(2) by (auto simp: lzx_inv_def)
  then have len: "length (lits @ rest) = 496" by simp
  have mem: "alphabet_memory (lzx_main l2) (length (lits @ rest))"
    unfolding len using moved assms(2) by (simp add: lzx_inv_def)
  have ne: "lits @ rest \<noteq> []" using len by (metis list.size(3) zero_neq_numeral)
  have "decoder_ok a 496" using huffman_alphabet_decoder [OF run(3) mem ne] unfolding len .
  then show ?thesis using run(4) moved by simp
qed

lemma lzx_length_alphabet_result:
  assumes "lzx_length_alphabet data len l = Inr l'"
  shows "lzx_main l' = lzx_main l \<and> lzx_out l' = lzx_out l \<and> lzx_block_type l' = lzx_block_type l
     \<and> lzx_repeated_offset l' = lzx_repeated_offset l"
  using assms by (auto simp: lzx_length_alphabet_def rbind_eq_Inr lzx_moved_def dest!: lzx_moved_pretree)

lemma lzx_alignoffset_alphabet_result:
  assumes "lzx_alignoffset_alphabet data len l = Inr l'"
  shows "lzx_out l' = lzx_out l \<and> lzx_block_type l' = lzx_block_type l
     \<and> lzx_repeated_offset l' = lzx_repeated_offset l"
  using assms by (auto simp: lzx_alignoffset_alphabet_def rbind_eq_Inr lzx_moved_def dest!: lzx_moved_raw_alphabet)

lemma lzx_step_block_len: "lzx_step len 1 snd l (\<lambda>data. lzx_block_len data len l)"
  unfolding lzx_block_len_def
  by (rule lzx_step_bits [OF lzx_step_getbits, where j = 0])
    (auto intro!: lzx_step_if lzx_step_return lzx_step_bits [OF lzx_step_getbits, where j = 0])

lemma lzx_moved_block_len: "lzx_block_len data len l = Inr (n, l') \<Longrightarrow> lzx_moved l l'"
  by (auto simp: lzx_block_len_def rbind_eq_Inr split: if_splits dest!: lzx_moved_getbits intro: lzx_moved_trans)

lemma rd32_errors: "rd32 bs i = Inl e \<Longrightarrow> e = Fail \<or> e = Fault"
  by (simp add: rd32_error)

lemma lzx_step_new_offsets: "lzx_step len 0 (\<lambda>l. l) l (\<lambda>data. lzx_new_offsets data len l)"
proof -
  have get: "lzx_step len 0 snd l (\<lambda>data. lzx_getbytes data len True 12 l)" for l
    using lzx_step_getbytes [of len 12 l True] by simp
  show ?thesis
    unfolding lzx_new_offsets_def
    by (rule lzx_step_state [OF lzx_step_align, where j = 0], rule lzx_step_bits [OF get, where j = 0])
      (auto intro!: lzx_step_pure lzx_step_value rd32_errors simp: lzx_inv_def lzx_used_def)
qed

lemma lzx_step_header: "lzx_step len 1 (\<lambda>l. l) l (\<lambda>data. lzx_block_header data len l)"
proof -
  have trees: "lzx_step len 0 (\<lambda>l. l) l (\<lambda>data. rbind (lzx_main_alphabet data len l) (\<lambda>l. lzx_length_alphabet data len l))" for l
    by (rule lzx_step_state [OF lzx_step_main lzx_step_length]) simp
  have align: "lzx_step len 0 (\<lambda>l. l) l (\<lambda>data. if c then lzx_alignoffset_alphabet data len l else Inr l)" for l c
    by (intro lzx_step_if lzx_step_alignoffset lzx_step_return) simp
  have tail: "lzx_step len 0 (\<lambda>l. l) l (\<lambda>data.
      if block_type = LZX_BLOCK_ALIGNOFFSET \<or> block_type = LZX_BLOCK_VERBATIM then
       rbind (if block_type = LZX_BLOCK_ALIGNOFFSET then lzx_alignoffset_alphabet data len l else Inr l) (\<lambda>l.
       rbind (lzx_main_alphabet data len l) (\<lambda>l. lzx_length_alphabet data len l))
      else if block_type = LZX_BLOCK_UNCOMPRESSED then lzx_new_offsets data len l
      else Inl Fail)" for block_type l
    by (rule lzx_step_if, rule lzx_step_state [OF align trees], simp)
      (intro lzx_step_if lzx_step_new_offsets lzx_step_fail)
  have inner: "lzx_step len 1 (\<lambda>l. l) l (\<lambda>data.
     rbind (lzx_block_len data len (l\<lparr>lzx_block_type := block_type\<rparr>)) (\<lambda>(block_len, l).
     let l = l\<lparr>lzx_threshold := lzx_out l + block_len\<rparr> in
     if block_type = LZX_BLOCK_ALIGNOFFSET \<or> block_type = LZX_BLOCK_VERBATIM then
       rbind (if block_type = LZX_BLOCK_ALIGNOFFSET then lzx_alignoffset_alphabet data len l else Inr l) (\<lambda>l.
       rbind (lzx_main_alphabet data len l) (\<lambda>l. lzx_length_alphabet data len l))
     else if block_type = LZX_BLOCK_UNCOMPRESSED then lzx_new_offsets data len l
     else Inl Fail))" for block_type l
    unfolding Let_def
    by (rule lzx_step_from [where l' = "l\<lparr>lzx_block_type := block_type\<rparr>"],
        rule lzx_step_bits [OF lzx_step_block_len, where j = 0], rule lzx_step_from [OF tail])
      (auto simp: lzx_inv_def lzx_used_def)
  show ?thesis
    unfolding lzx_block_header_def lzx_consts(9)
    by (rule lzx_step_bits [OF lzx_step_getbits, where j = 1]) (use inner in simp_all)
qed

lemma lzx_stepD:
  assumes "lzx_step len k st l f" "f data = Inr x" "len \<le> length data" "even len" "lzx_inv len l"
  shows "lzx_inv len (st x)" "lzx_used l + int k \<le> lzx_used (st x)"
  using assms unfolding lzx_step_def by (auto split: sum.splits)

lemma lzx_block_header_result:
  assumes "lzx_block_header data len l = Inr l'" "len \<le> length data" "even len" "lzx_inv len l"
    and "lzx_block_type l' \<noteq> LZX_BLOCK_UNCOMPRESSED"
  shows "decoder_ok (lzx_main l') 496 \<and> lzx_out l' = lzx_out l \<and> lzx_repeated_offset l' = lzx_repeated_offset l"
proof -
  obtain bt l1 n l2 where run: "lzx_getbits data len 3 l = Inr (bt, l1)"
      "lzx_block_len data len (l1\<lparr>lzx_block_type := bt\<rparr>) = Inr (n, l2)"
    using assms(1) by (auto simp: lzx_block_header_def lzx_consts rbind_eq_Inr)
  define l3 where "l3 = l2\<lparr>lzx_threshold := lzx_out l2 + n\<rparr>"
  have l3: "lzx_inv len l3" "lzx_out l3 = lzx_out l" "lzx_repeated_offset l3 = lzx_repeated_offset l" "lzx_block_type l3 = bt"
  proof -
    have "lzx_inv len (l1\<lparr>lzx_block_type := bt\<rparr>)"
      using lzx_stepD [OF lzx_step_getbits run(1) assms(2-4)] by (simp add: lzx_inv_def)
    from lzx_stepD [OF lzx_step_block_len run(2) assms(2,3) this] show "lzx_inv len l3"
      by (simp add: lzx_inv_def l3_def)
  qed (use lzx_moved_getbits [OF run(1)] lzx_moved_block_len [OF run(2)] in \<open>auto simp: lzx_moved_def l3_def\<close>)
  show ?thesis
  proof (cases "bt = 1 \<or> bt = 2")
    case True
    then obtain l4 l5 where run4: "(if bt = 2 then lzx_alignoffset_alphabet data len l3 else Inr l3) = Inr l4"
        "lzx_main_alphabet data len l4 = Inr l5" "lzx_length_alphabet data len l5 = Inr l'"
      using assms(1) run by (auto simp: lzx_block_header_def lzx_consts rbind_eq_Inr l3_def Let_def)
    have "lzx_inv len l4"
      using run4(1) lzx_stepD [OF lzx_step_alignoffset _ assms(2,3) l3(1)] l3(1) by (auto split: if_splits)
    with lzx_main_alphabet_result [OF run4(2)] lzx_length_alphabet_result [OF run4(3)] run4(1) l3
      lzx_alignoffset_alphabet_result [of data len l3 l4] show ?thesis by (auto split: if_splits)
  next
    case False
    with assms(1) run have "bt = 3" "lzx_new_offsets data len l3 = Inr l'"
      by (auto simp: lzx_block_header_def lzx_consts l3_def Let_def split: if_splits)
    then have "lzx_block_type l' = 3"
      using l3(4) by (auto simp: lzx_new_offsets_def lzx_align_def lzx_getbytes_def rbind_eq_Inr lzx_moved_def
          dest!: lzx_moved_getbits lzx_moved_consume split: if_splits)
    with assms(5) show ?thesis by (simp add: lzx_consts)
  qed
qed

lemma lzx_footer_bits_bound: "slot < 30 \<Longrightarrow> lzx_footer_bits slot \<le> 16"
  by (auto simp: lzx_footer_bits_def)

lemma lzx_decode_bound:
  assumes "decoder_ok alphabet n" "lzx_decode data len alphabet l = Inr (v, l')"
  shows "v < n"
proof -
  obtain huf l1 s where "lzx_accumulate data len 16 l = Inr (huf, l1)" "huffman_sym alphabet huf = Inr s"
      "huffman_raw alphabet s huf = Inr v"
    using assms(2) by (auto simp: lzx_decode_def huffman_consts rbind_eq_Inr)
  moreover from this(1) have "huf < 2 ^ 16" by (auto simp: lzx_accumulate_def rbind_eq_Inr)
  ultimately show ?thesis using assms(1) unfolding decoder_ok_def by force
qed

lemma lzx_step_match_length: "lzx_step len 0 snd l (\<lambda>data. lzx_match_length data len main l)"
proof -
  have "lzx_step len 0 snd l (\<lambda>data. if c then lzx_decode data len (lzx_length l) l else Inr (0, l))" for c
    by (intro lzx_step_if lzx_step_decode lzx_step_return) simp
  then show ?thesis
    unfolding lzx_match_length_def by (rule lzx_step_bits [where j = 0]) (auto intro: lzx_step_return)
qed

lemma lzx_step_match_offset:
  assumes "slot < 30"
  shows "lzx_step len 0 snd l (\<lambda>data. lzx_match_offset data len slot l)"
proof -
  have bits: "lzx_footer_bits slot - 3 \<le> 16" "lzx_footer_bits slot \<le> 16"
    using lzx_footer_bits_bound [OF assms] by auto
  have "lzx_step len 0 snd l (\<lambda>data. lzx_verbatim_offset data len slot l)"
    unfolding lzx_verbatim_offset_def Let_def
    by (intro lzx_step_if lzx_step_bits [OF lzx_step_getbits [OF bits(1)] lzx_step_bits [OF lzx_step_decode, where j = 0]]
        lzx_step_bits [OF lzx_step_getbits [OF bits(2)], where j = 0] lzx_step_return) simp_all
  then show ?thesis
    unfolding lzx_match_offset_def Let_def
    by (intro lzx_step_if lzx_step_value lzx_step_bits [where j = 0 and k = 0]) (auto simp: lzx_inv_def lzx_used_def)
qed

lemma put_bytes_error: "put_bytes out i bs = Inl e \<Longrightarrow> e = Fault"
  by (cases out) (auto simp: put_bytes_def wr_bytes_def rbind_eq_Inl split: if_splits)

lemma copy_match_error: "copy_match out n d offset = Inl e \<Longrightarrow> e = Fault"
  by (cases out) (auto simp: copy_match_def rbind_eq_Inl dest: copy_loop_error)

lemma lzx_step_token:
  assumes "decoder_ok (lzx_main l) 496"
  shows "lzx_step len 1 fst l (\<lambda>data. lzx_token data len l out)"
proof -
  have lit: "lzx_step len 0 fst l (\<lambda>data. rbind (put8 out (lzx_out l) v) (\<lambda>out. Inr (l\<lparr>lzx_out := n\<rparr>, out)))" for l v n
    by (rule lzx_step_pure) (auto simp: put8_put_bytes put_bytes_error intro!: lzx_step_value simp: lzx_inv_def lzx_used_def)
  have copy: "lzx_step len 0 fst l (\<lambda>data. rbind (copy_match out m (lzx_out l) d) (\<lambda>out. Inr (l\<lparr>lzx_out := n\<rparr>, out)))" for l m d n
    by (rule lzx_step_pure) (auto simp: copy_match_error intro!: lzx_step_value simp: lzx_inv_def lzx_used_def)
  have match: "lzx_step len 0 fst l (\<lambda>data.
       rbind (lzx_match_length data len (main - LZX_MAIN_LIT_CODES) l) (\<lambda>(match_length, l).
       rbind (lzx_match_offset data len ((main - LZX_MAIN_LIT_CODES) div 8) l) (\<lambda>(match_offset, l).
       if match_offset > lzx_out l then Inl Fail
       else rbind (copy_match out match_length (lzx_out l) match_offset) (\<lambda>out.
         Inr (l\<lparr>lzx_out := lzx_out l + match_length\<rparr>, out)))))" if "main < 496" for main l
    by (rule lzx_step_bits [OF lzx_step_match_length, where j = 0],
        rule lzx_step_bits [OF lzx_step_match_offset, where j = 0])
      (use that in \<open>auto simp: lzx_consts intro!: lzx_step_if lzx_step_fail copy\<close>)
  show ?thesis
    unfolding lzx_token_def
    by (rule lzx_step_knowing [OF lzx_decode_consumes [OF assms], where Q = "\<lambda>(main, l). main < 496" and j = 0])
      (auto dest: lzx_decode_bound [OF assms] intro!: lzx_step_if lit match)
qed

lemma lzx_moved_match_length: "lzx_match_length data len main l = Inr (n, l') \<Longrightarrow> lzx_moved l l'"
  by (auto simp: lzx_match_length_def rbind_eq_Inr split: if_splits dest: lzx_moved_decode)

lemma lzx_moved_verbatim: "lzx_verbatim_offset data len slot l = Inr (n, l') \<Longrightarrow> lzx_moved l l'"
  by (auto simp: lzx_verbatim_offset_def Let_def rbind_eq_Inr split: if_splits
      dest!: lzx_moved_decode lzx_moved_getbits intro: lzx_moved_trans)

lemma lzx_match_offset_result:
  assumes "lzx_match_offset data len slot l = Inr (r, l')"
  shows "\<exists>rs. lzx_moved (l\<lparr>lzx_repeated_offset := rs\<rparr>) l'"
proof (cases "slot < 3")
  case True
  with assms show ?thesis by (auto simp: lzx_match_offset_def lzx_consts Let_def intro: lzx_moved_refl)
next
  case False
  with assms obtain l1 where "lzx_moved l l1" "l' = l1\<lparr>lzx_repeated_offset := [r, lzx_repeated_offset l1 ! 0, lzx_repeated_offset l1 ! 1]\<rparr>"
    by (auto simp: lzx_match_offset_def lzx_consts rbind_eq_Inr dest: lzx_moved_verbatim)
  then show ?thesis by (cases l) (auto simp: lzx_moved_def)
qed

lemma lzx_token_result:
  assumes "lzx_token data len l out = Inr (l', out')"
  shows "lzx_main l' = lzx_main l \<and> lzx_threshold l' = lzx_threshold l \<and> lzx_block_type l' = lzx_block_type l"
proof -
  obtain main l1 where run: "lzx_decode data len (lzx_main l) l = Inr (main, l1)"
    and rest: "(if main < 256 then
       rbind (put8 out (lzx_out l1) (of_nat main)) (\<lambda>out. Inr (l1\<lparr>lzx_out := lzx_out l1 + 1\<rparr>, out))
     else
       rbind (lzx_match_length data len (main - 256) l1) (\<lambda>(match_length, l).
       rbind (lzx_match_offset data len ((main - 256) div 8) l) (\<lambda>(match_offset, l).
       if match_offset > lzx_out l then Inl Fail
       else rbind (copy_match out match_length (lzx_out l) match_offset) (\<lambda>out.
         Inr (l\<lparr>lzx_out := lzx_out l + match_length\<rparr>, out))))) = Inr (l', out')"
    using assms unfolding lzx_token_def lzx_consts(5) by (auto simp: rbind_eq_Inr)
  show ?thesis
    using lzx_moved_decode [OF run] rest
    by (auto simp: rbind_eq_Inr lzx_moved_def split: if_splits dest!: lzx_moved_match_length lzx_match_offset_result)
qed

lemma lzx_step_tokens:
  "decoder_ok (lzx_main l) 496 \<Longrightarrow> 8 * int len - lzx_used l < int fuel \<Longrightarrow>
   lzx_step len 0 fst l (\<lambda>data. lzx_tokens fuel data len l out)"
proof (induction fuel arbitrary: l out)
  case 0
  then have "\<not> lzx_inv len l" by (auto simp: lzx_inv_def lzx_used_def)
  then show ?case by (simp add: lzx_step_def)
next
  case (Suc fuel)
  let ?Q = "\<lambda>x :: lzx \<times> bytes option. decoder_ok (lzx_main (fst x)) 496 \<and> lzx_used l + 1 \<le> lzx_used (fst x)"
  have known: "?Q x" if "len \<le> length data" "even len" "lzx_inv len l" "lzx_token data len l out = Inr x" for data x
    using lzx_stepD(2) [OF lzx_step_token [OF Suc.prems(1)] that(4,1,2,3)] lzx_token_result [of data len l out "fst x" "snd x"]
      that(4) Suc.prems(1) by simp
  have "lzx_step len 0 fst l (\<lambda>data. rbind (lzx_token data len l out) (\<lambda>x. lzx_tokens fuel data len (fst x) (snd x)))"
    by (rule lzx_step_knowing [OF lzx_step_token [OF Suc.prems(1)], where Q = ?Q and j = 0])
      (use known Suc in auto)
  then show ?case
    unfolding lzx_tokens.simps by (intro lzx_step_if lzx_step_return) (simp_all add: case_prod_unfold)
qed

lemma lzx_step_uncompressed: "lzx_step len 0 fst l (\<lambda>data. lzx_uncompressed data len l out)"
proof -
  have "lzx_step len 0 fst l (\<lambda>data. rbind (lzx_getbytes data len w n l) (\<lambda>x. case x of (bs, l) \<Rightarrow>
      rbind (put_bytes out (lzx_out l) bs) (\<lambda>out. Inr (if odd n then l\<lparr>lzx_in := lzx_in l + 1\<rparr> else l, out))))" for w n
    by (rule lzx_step_bind [OF lzx_step_getbytes, where j = 0])
      (auto simp: split_beta put_bytes_error lzx_inv_def lzx_used_def intro!: lzx_step_pure lzx_step_value)
  from this show ?thesis unfolding lzx_uncompressed_def Let_def .
qed

lemma lzx_step_blocks:
  "8 * int len - lzx_used l < int fuel \<Longrightarrow> 0 \<le> lzx_used l \<Longrightarrow>
   lzx_step len 0 fst l (\<lambda>data. lzx_blocks fuel data len l out)"
proof (induction fuel arbitrary: l out)
  case 0
  then have "\<not> lzx_inv len l" by (auto simp: lzx_inv_def lzx_used_def)
  then show ?case by (simp add: lzx_step_def)
next
  case (Suc fuel)
  let ?body = "\<lambda>l data. if lzx_block_type l = LZX_BLOCK_UNCOMPRESSED then lzx_uncompressed data len l out
      else lzx_tokens (8 * len + 1) data len l out"
  let ?ready = "\<lambda>l'. (lzx_block_type l' \<noteq> LZX_BLOCK_UNCOMPRESSED \<longrightarrow> decoder_ok (lzx_main l') 496) \<and> lzx_used l + 1 \<le> lzx_used l'"
  have ready: "?ready l'" if "len \<le> length data" "even len" "lzx_inv len l" "lzx_block_header data len l = Inr l'" for data l'
    using lzx_stepD(2) [OF lzx_step_header that(4,1,2,3)] lzx_block_header_result [OF that(4,1,2,3)] by auto
  have body: "lzx_step len 0 fst l' (?body l')" if "?ready l'" for l'
    using that Suc.prems(2) by (intro lzx_step_if lzx_step_uncompressed lzx_step_tokens) auto
  have loop: "lzx_step len 0 fst l' (\<lambda>data. rbind (?body l' data) (\<lambda>x. lzx_blocks fuel data len (fst x) (snd x)))"
    if "?ready l'" for l'
  proof (rule lzx_step_knowing [OF body [OF that], where Q = "\<lambda>x. lzx_used l + 1 \<le> lzx_used (fst x)" and j = 0])
    fix data x assume "len \<le> length data" "even len" "lzx_inv len l'" "?body l' data = Inr x"
    with lzx_stepD(2) [OF body [OF that], of data x] that show "lzx_used l + 1 \<le> lzx_used (fst x)" by simp
  next
    fix x :: "lzx \<times> bytes option" assume "lzx_used l + 1 \<le> lzx_used (fst x)"
    then show "lzx_step len 0 fst (fst x) (\<lambda>data. lzx_blocks fuel data len (fst x) (snd x))"
      using Suc by auto
  qed simp
  have "lzx_step len 0 fst l (\<lambda>data. rbind (lzx_block_header data len l) (\<lambda>l.
      rbind (?body l data) (\<lambda>x. lzx_blocks fuel data len (fst x) (snd x))))"
    by (rule lzx_step_knowing [OF lzx_step_header, where Q = ?ready and j = 0]) (use ready loop in auto)
  then show ?case
    unfolding lzx_blocks.simps by (intro lzx_step_if lzx_step_return) (simp_all add: case_prod_unfold)
qed

lemma lzx_start_inv [simp]: "lzx_inv len lzx_start" "lzx_used lzx_start = 0"
  by (simp_all add: lzx_inv_def lzx_used_def lzx_start_def lzx_consts)

lemma lzx_blocks_start:
  assumes "len \<le> length data" "even len"
  shows "lzx_blocks (8 * len + 1) (take len data) len lzx_start out = lzx_blocks (8 * len + 1) data len lzx_start out"
    and "lzx_blocks (8 * len + 1) data len lzx_start out = Inl e \<Longrightarrow> e = Fail \<or> e = Fault"
  using lzx_step_blocks [of len lzx_start "8 * len + 1" out] assms
  by (auto simp: lzx_step_def simp del: lzx_blocks.simps split: sum.splits)

section \<open>Plain inputs\<close>

text \<open>
  An input is plain if decompressing it meets no uncompressed block. (Such a block is copied to the
  output without being counted, and replaces the repeated offsets by arbitrary values.)
\<close>

fun lzx_plain_from :: "nat \<Rightarrow> bytes \<Rightarrow> nat \<Rightarrow> lzx \<Rightarrow> bool" where
  "lzx_plain_from 0 data len l = True"
| "lzx_plain_from (Suc fuel) data len l =
     (lzx_in l < len \<longrightarrow> (case lzx_block_header data len l of Inl e \<Rightarrow> True
      | Inr l \<Rightarrow> lzx_block_type l \<noteq> LZX_BLOCK_UNCOMPRESSED \<and>
          (case lzx_tokens (8 * len + 1) data len l None of Inl e \<Rightarrow> True
           | Inr (l, _) \<Rightarrow> lzx_plain_from fuel data len l)))"

definition lzx_plain :: "bytes \<Rightarrow> nat \<Rightarrow> bool" where
  "lzx_plain data len \<longleftrightarrow> len \<le> length data \<and> lzx_plain_from (8 * len + 1) data len lzx_start"

definition lzx_offsets_ok :: "lzx \<Rightarrow> bool" where
  "lzx_offsets_ok l \<longleftrightarrow> length (lzx_repeated_offset l) = 3 \<and> (\<forall>r \<in> set (lzx_repeated_offset l). 0 < r)"

lemma lzx_position_base_ge: "3 \<le> slot \<Longrightarrow> 3 \<le> lzx_position_base slot"
proof (induction slot rule: dec_induct)
  case base
  show ?case by (simp add: numeral_3_eq_3 lzx_footer_bits_def)
qed simp

lemma lzx_verbatim_positive: "3 \<le> slot \<Longrightarrow> lzx_verbatim_offset data len slot l = Inr (r, l') \<Longrightarrow> 0 < r"
  using lzx_position_base_ge [of slot]
  by (auto simp: lzx_verbatim_offset_def Let_def rbind_eq_Inr split: if_splits)

lemma lzx_match_offset_ok:
  assumes "lzx_match_offset data len slot l = Inr (r, l')" "lzx_offsets_ok l"
  shows "0 < r \<and> lzx_offsets_ok l' \<and> lzx_out l' = lzx_out l"
proof (cases "slot < 3")
  case True
  moreover obtain a b c where "lzx_repeated_offset l = [a, b, c]"
    using assms(2) by (auto simp: lzx_offsets_ok_def numeral_3_eq_3 length_Suc_conv)
  ultimately show ?thesis
    using assms by (auto simp: lzx_match_offset_def lzx_consts Let_def lzx_offsets_ok_def numeral_3_eq_3 less_Suc_eq)
next
  case False
  with assms(1) obtain l1 where l1: "lzx_verbatim_offset data len slot l = Inr (r, l1)"
      "l' = l1\<lparr>lzx_repeated_offset := [r, lzx_repeated_offset l1 ! 0, lzx_repeated_offset l1 ! 1]\<rparr>"
    by (auto simp: lzx_match_offset_def lzx_consts rbind_eq_Inr)
  have "lzx_repeated_offset l1 = lzx_repeated_offset l" "lzx_out l1 = lzx_out l"
    using lzx_movedD [OF lzx_moved_verbatim [OF l1(1)]] by auto
  then show ?thesis
    using lzx_verbatim_positive [OF _ l1(1)] False l1(2) assms(2) by (auto simp: lzx_offsets_ok_def)
qed

lemma appends_knowing:
  assumes "appends pos p f" "\<And>b q out. f (Some b) = Inr (q, out) \<Longrightarrow> Q q"
    and "\<And>q. Q q \<Longrightarrow> appends pos' (pos q) (g q)"
  shows "appends pos' p (\<lambda>out. rbind (f out) (\<lambda>(q, out). g q out))"
proof -
  have "appends pos' p (\<lambda>out. rbind (f out) (\<lambda>(q, out). if Q q then g q out else Inl Fault))"
    by (rule appends_bind [OF assms(1)]) (auto intro: appends_if assms(3) appends_fail)
  moreover have "rbind (f (Some b)) (\<lambda>(q, out). if Q q then g q out else Inl Fault) =
      rbind (f (Some b)) (\<lambda>(q, out). g q out)" for b
    by (rule rbind_cong) (use assms(2) in auto)
  ultimately show ?thesis by (simp add: appends_def)
qed

text \<open>A write at position \<open>p\<close>, followed by the new state.\<close>

lemma appends_write:
  assumes "appends (\<lambda>p. p) p (\<lambda>out. rbind (w out) (\<lambda>out. Inr (n, out)))" "pos x = n"
  shows "appends pos p (\<lambda>out. rbind (w out) (\<lambda>out. Inr (x, out)))"
  by (rule appends_then [OF assms(1)], rule appends_return, rule assms(2))

lemma appends_lzx_token:
  assumes "lzx_offsets_ok l"
  shows "appends lzx_out (lzx_out l) (lzx_token data len l)"
  unfolding lzx_token_def
proof (rule appends_pure, rule appends_prod, rule appends_if)
  fix x main l1 assume "lzx_decode data len (lzx_main l) l = Inr x" "x = (main, l1)"
  then have l1: "lzx_moved l l1" by (auto dest: lzx_moved_decode)
  then have out: "lzx_out l1 = lzx_out l" by (simp add: lzx_movedD)
  show "appends lzx_out (lzx_out l) (\<lambda>out. rbind (put8 out (lzx_out l1) (of_nat main)) (\<lambda>out. Inr (l1\<lparr>lzx_out := lzx_out l1 + 1\<rparr>, out)))"
    unfolding out by (rule appends_write [OF appends_put8]) simp
  have copy: "appends lzx_out (lzx_out l) (\<lambda>out. if match_offset > lzx_out l3 then Inl Fail
       else rbind (copy_match out match_length (lzx_out l3) match_offset) (\<lambda>out. Inr (l3\<lparr>lzx_out := lzx_out l3 + match_length\<rparr>, out)))"
    if "lzx_match_length data len m l1 = Inr (match_length, l2)" "lzx_match_offset data len s l2 = Inr (match_offset, l3)"
    for m s match_length match_offset l2 l3
  proof -
    have "lzx_offsets_ok l2" "lzx_out l2 = lzx_out l"
      using lzx_movedD [OF lzx_moved_match_length [OF that(1)]] lzx_movedD [OF l1] assms by (auto simp: lzx_offsets_ok_def)
    with lzx_match_offset_ok [OF that(2)] have o3: "0 < match_offset" "lzx_out l3 = lzx_out l" by auto
    then show ?thesis
      by (intro appends_if appends_fail) (auto intro!: appends_write [OF appends_copy_match])
  qed
  show "appends lzx_out (lzx_out l) (\<lambda>out. rbind (lzx_match_length data len (main - LZX_MAIN_LIT_CODES) l1) (\<lambda>(match_length, l).
       rbind (lzx_match_offset data len ((main - LZX_MAIN_LIT_CODES) div 8) l) (\<lambda>(match_offset, l).
       if match_offset > lzx_out l then Inl Fail
       else rbind (copy_match out match_length (lzx_out l) match_offset) (\<lambda>out.
         Inr (l\<lparr>lzx_out := lzx_out l + match_length\<rparr>, out)))))"
    by (intro appends_pure appends_prod) (use copy in auto)
qed

lemma lzx_token_offsets:
  assumes "lzx_token data len l out = Inr (l', out')" "lzx_offsets_ok l"
  shows "lzx_offsets_ok l'"
proof -
  obtain main l1 where l1: "lzx_decode data len (lzx_main l) l = Inr (main, l1)"
    and rest: "(if main < LZX_MAIN_LIT_CODES then
       rbind (put8 out (lzx_out l1) (of_nat main)) (\<lambda>out. Inr (l1\<lparr>lzx_out := lzx_out l1 + 1\<rparr>, out))
     else
       rbind (lzx_match_length data len (main - LZX_MAIN_LIT_CODES) l1) (\<lambda>(match_length, l).
       rbind (lzx_match_offset data len ((main - LZX_MAIN_LIT_CODES) div 8) l) (\<lambda>(match_offset, l).
       if match_offset > lzx_out l then Inl Fail
       else rbind (copy_match out match_length (lzx_out l) match_offset) (\<lambda>out.
         Inr (l\<lparr>lzx_out := lzx_out l + match_length\<rparr>, out))))) = Inr (l', out')"
    using assms(1) unfolding lzx_token_def by (auto simp: rbind_eq_Inr)
  have ok1: "lzx_offsets_ok l1" using assms(2) lzx_movedD [OF lzx_moved_decode [OF l1]] by (simp add: lzx_offsets_ok_def)
  have ok2: "lzx_offsets_ok l2" if "lzx_match_length data len m l1 = Inr (n, l2)" for m n l2
    using ok1 lzx_movedD [OF lzx_moved_match_length [OF that]] by (simp add: lzx_offsets_ok_def)
  have upd: "lzx_offsets_ok (l\<lparr>lzx_out := n\<rparr>) = lzx_offsets_ok l" for l n by (simp add: lzx_offsets_ok_def)
  show ?thesis
    using rest by (auto simp: rbind_eq_Inr upd ok1 split: if_splits dest!: ok2 lzx_match_offset_ok)
qed

lemma lzx_tokens_offsets:
  "lzx_tokens fuel data len l out = Inr (l', out') \<Longrightarrow> lzx_offsets_ok l \<Longrightarrow> lzx_offsets_ok l'"
  by (induction fuel data len l out rule: lzx_tokens.induct)
    (auto simp: rbind_eq_Inr split: if_splits, metis lzx_token_offsets)

lemma appends_lzx_tokens: "lzx_offsets_ok l \<Longrightarrow> appends lzx_out (lzx_out l) (lzx_tokens fuel data len l)"
proof (induction fuel arbitrary: l)
  case 0
  show ?case unfolding lzx_tokens.simps by auto
next
  case (Suc fuel)
  show ?case
    unfolding lzx_tokens.simps
    by (intro appends_if appends_return appends_knowing [OF appends_lzx_token, where Q = lzx_offsets_ok])
      (use Suc in \<open>auto dest: lzx_token_offsets\<close>)
qed

lemma appends_lzx_blocks:
  assumes "len \<le> length data" "even len"
  shows "lzx_inv len l \<Longrightarrow> lzx_offsets_ok l \<Longrightarrow> lzx_plain_from fuel data len l \<Longrightarrow> 0 \<le> lzx_used l \<Longrightarrow>
     appends lzx_out (lzx_out l) (lzx_blocks fuel data len l)"
proof (induction fuel arbitrary: l)
  case 0
  show ?case unfolding lzx_blocks.simps by auto
next
  case (Suc fuel)
  have block: "appends lzx_out (lzx_out l) (\<lambda>out. rbind (if lzx_block_type l1 = LZX_BLOCK_UNCOMPRESSED
        then lzx_uncompressed data len l1 out else lzx_tokens (8 * len + 1) data len l1 out)
      (\<lambda>(l, out). lzx_blocks fuel data len l out))"
    if l1: "lzx_block_header data len l = Inr l1" "lzx_in l < len" for l1
  proof -
    have plain: "lzx_block_type l1 \<noteq> LZX_BLOCK_UNCOMPRESSED" using Suc.prems(3) l1 by auto
    note res = lzx_block_header_result [OF l1(1) assms Suc.prems(1) plain]
    have inv: "lzx_inv len l1" "0 \<le> lzx_used l1"
      using lzx_stepD [OF lzx_step_header l1(1) assms Suc.prems(1)] Suc.prems(4) by auto
    have tok: "lzx_step len 0 fst l1 (\<lambda>data. lzx_tokens (8 * len + 1) data len l1 out)" for out
      using res inv by (intro lzx_step_tokens) auto
    have out: "lzx_out l = lzx_out l1" "lzx_offsets_ok l1" using res Suc.prems(2) by (auto simp: lzx_offsets_ok_def)
    show ?thesis
      unfolding if_not_P [OF plain] out(1)
    proof (rule appends_knowing [OF appends_lzx_tokens [OF out(2)], where Q = "\<lambda>l2. lzx_inv len l2 \<and> lzx_offsets_ok l2
        \<and> lzx_plain_from fuel data len l2 \<and> 0 \<le> lzx_used l2"])
      fix b l2 o' assume run: "lzx_tokens (8 * len + 1) data len l1 (Some b) = Inr (l2, o')"
      have "lzx_tokens (8 * len + 1) data len l1 None = Inr (l2, None)"
        by (rule echoesD(1) [OF echoes_lzx_tokens run])
      then have "lzx_plain_from fuel data len l2" using Suc.prems(3) l1 by (auto simp del: lzx_tokens.simps)
      then show "lzx_inv len l2 \<and> lzx_offsets_ok l2 \<and> lzx_plain_from fuel data len l2 \<and> 0 \<le> lzx_used l2"
        using lzx_stepD [OF tok run assms inv(1)] inv(2) lzx_tokens_offsets [OF run out(2)] by auto
    qed (use Suc.IH in auto)
  qed
  show ?case
    unfolding lzx_blocks.simps by (intro appends_if appends_return appends_pure) (use block in auto)
qed

text \<open>The jump translation works on the output alone.\<close>

lemma rd32_defined: "i + 3 < length b \<Longrightarrow> \<exists>v. rd32 b i = Inr v"
  using rd16_defined [of i b] rd16_defined [of "i + 2" b] by (auto simp: rd32_def)

lemma rd32_append: "i + 3 < length xs \<Longrightarrow> rd32 (xs @ ys) i = rd32 xs i"
  by (simp add: rd32_def rd16_def rd8_def nth_append)

lemma overlay_append: "i + length bs \<le> length xs \<Longrightarrow> overlay i bs (xs @ ys) = overlay i bs xs @ ys"
  by (simp add: overlay_def)

lemma lzx_translate_from_output:
  "length xs = n \<Longrightarrow> \<exists>t. length t = n \<and> (\<forall>ys. lzx_translate_from n offset (xs @ ys) = Inr (t @ ys))"
proof (induction "n - offset" arbitrary: offset xs rule: less_induct)
  case less
  show ?case
  proof (cases "offset < n - 10")
    case False
    then show ?thesis using less.prems by (intro exI [of _ xs]) (simp add: lzx_translate_from.simps [of n offset])
  next
    case True
    then have "offset < length xs" using less.prems by simp
    then have rd: "rd8 (xs @ ys) offset = Inr (xs ! offset)" for ys
      by (simp add: rd8_def nth_append)
    show ?thesis
    proof (cases "xs ! offset = 0xe8")
      case False
      have step: "lzx_translate_from n offset (xs @ ys) = lzx_translate_from n (offset + 1) (xs @ ys)" for ys
        unfolding lzx_translate_from.simps [of n offset "xs @ ys"] rd using True False by simp
      have "n - (offset + 1) < n - offset" using True by simp
      from less.hyps [OF this less.prems] show ?thesis unfolding step .
    next
      case jump: True
      have room: "offset + 1 + 3 < length xs" using True less.prems by linarith
      from rd32_defined [OF this] obtain v where v: "rd32 xs (offset + 1) = Inr v" by blast
      have v': "rd32 (xs @ ys) (offset + 1) = Inr v" for ys
        using rd32_append [OF room] v by simp
      let ?bs = "le32 (unat (lzx_translate_target offset (of_nat v)))"
      have ov: "offset + 1 + length ?bs \<le> length xs" using True less.prems by simp
      have w: "wr_bytes (xs @ ys) (offset + 1) ?bs = Inr (overlay (offset + 1) ?bs xs @ ys)" for ys
        using ov overlay_append [OF ov] by (simp add: wr_bytes_def)
      have step: "lzx_translate_from n offset (xs @ ys) =
          lzx_translate_from n (offset + 5) (overlay (offset + 1) ?bs xs @ ys)" for ys
        unfolding lzx_translate_from.simps [of n offset "xs @ ys"] rd using True jump v' w by simp
      have "n - (offset + 5) < n - offset" "length (overlay (offset + 1) ?bs xs) = n"
        using True less.prems length_overlay [OF ov] by auto
      from less.hyps [OF this] show ?thesis unfolding step .
    qed
  qed
qed

lemma lzx_translate_jumps_output:
  "length xs = n \<Longrightarrow> \<exists>t. length t = n \<and> (\<forall>ys. lzx_translate_jumps n (xs @ ys) = Inr (t @ ys))"
  using lzx_translate_from_output [of xs n 0] by (auto simp: lzx_translate_jumps_def)

lemma appends_lzx_decompress:
  assumes "lzx_plain data len"
  shows "appends (\<lambda>n. n) 0 (lzx_decompress data len)"
proof (cases "odd len")
  case True
  then show ?thesis unfolding lzx_decompress_def [abs_def] by auto
next
  case False
  let ?f = "lzx_blocks (8 * len + 1) data len lzx_start"
  have "lzx_offsets_ok lzx_start" "lzx_out lzx_start = 0"
    by (simp_all add: lzx_offsets_ok_def lzx_start_def lzx_consts)
  then have f: "appends lzx_out 0 ?f"
    using appends_lzx_blocks [of len data lzx_start "8 * len + 1"] assms False
    by (simp add: lzx_plain_def del: lzx_blocks.simps lzx_plain_from.simps)
  show ?thesis
  proof (rule appendsI)
    fix xs ys :: bytes and n out
    assume xs: "length xs = 0" and run: "lzx_decompress data len (Some (xs @ ys)) = Inr (n, out)"
    then obtain l o1 where l: "?f (Some ([] @ ys)) = Inr (l, o1)" "n = lzx_out l"
      using False by (auto simp: lzx_decompress_def rbind_eq_Inr simp del: lzx_blocks.simps)
    from appendsD [OF f _ l(1)] obtain zs where zs: "n = length zs" "length zs \<le> length ys"
      "\<And>ys'. length zs \<le> length ys' \<Longrightarrow> ?f (Some ys') = Inr (l, Some (zs @ drop (length zs) ys'))"
      using l(2) by auto
    from lzx_translate_jumps_output [OF zs(1) [symmetric]] obtain t where t: "length t = n"
      "\<And>ys. lzx_translate_jumps n (zs @ ys) = Inr (t @ ys)" by blast
    have "lzx_decompress data len (Some ys') = Inr (n, Some (t @ drop (length t) ys'))" if "length t \<le> length ys'" for ys'
      using zs(3) [of ys'] that t zs(1) False l(2)
      by (simp add: lzx_decompress_def del: lzx_blocks.simps)
    with xs t zs show "\<exists>zs. n = 0 + length zs \<and> length zs \<le> length ys \<and> (\<forall>ys'. length zs \<le> length ys' \<longrightarrow>
        lzx_decompress data len (Some (xs @ ys')) = Inr (n, Some (xs @ zs @ drop (length zs) ys')))"
      by (intro exI [of _ t]) auto
  qed
qed

interpretation lzx_stream: stream_decompressor lzx_decompress lzx_plain
  by unfold_locales (rule appends_lzx_decompress)

section \<open>Uncompressed blocks\<close>

lemma lzx_moved_out: "lzx_moved l l' \<Longrightarrow> lzx_out l' = lzx_out l"
  by (rule lzx_movedD)

lemma lzx_header_uncompressed:
  assumes "lzx_block_header data len l = Inr l'" "lzx_block_type l' = LZX_BLOCK_UNCOMPRESSED"
  shows "lzx_out l' = lzx_out l"
proof -
  obtain bt l1 n l2 where run: "lzx_getbits data len 3 l = Inr (bt, l1)"
      "lzx_block_len data len (l1\<lparr>lzx_block_type := bt\<rparr>) = Inr (n, l2)"
    using assms(1) by (auto simp: lzx_block_header_def lzx_consts rbind_eq_Inr)
  define l3 where "l3 = l2\<lparr>lzx_threshold := lzx_out l2 + n\<rparr>"
  have l3: "lzx_out l3 = lzx_out l" "lzx_block_type l3 = bt"
    using lzx_movedD [OF lzx_moved_getbits [OF run(1)]] lzx_movedD [OF lzx_moved_block_len [OF run(2)]] by (simp_all add: l3_def)
  show ?thesis
  proof (cases "bt = 1 \<or> bt = 2")
    case True
    then obtain l4 l5 where run4: "(if bt = 2 then lzx_alignoffset_alphabet data len l3 else Inr l3) = Inr l4"
        "lzx_main_alphabet data len l4 = Inr l5" "lzx_length_alphabet data len l5 = Inr l'"
      using assms(1) run by (auto simp: lzx_block_header_def lzx_consts rbind_eq_Inr l3_def Let_def)
    show ?thesis
      using run4 l3(1)
      by (auto simp: lzx_main_alphabet_def lzx_length_alphabet_def lzx_alignoffset_alphabet_def rbind_eq_Inr
          dest!: lzx_moved_pretree lzx_moved_raw_alphabet lzx_moved_out split: if_splits)
  next
    case False
    with assms(1) run have "lzx_new_offsets data len l3 = Inr l'"
      by (auto simp: lzx_block_header_def lzx_consts l3_def Let_def split: if_splits)
    then show ?thesis
      using l3(1) by (auto simp: lzx_new_offsets_def lzx_align_def lzx_getbytes_def rbind_eq_Inr
          dest!: lzx_moved_getbits lzx_moved_consume lzx_moved_out split: if_splits)
  qed
qed

lemma lzx_uncompressed_copies:
  assumes "lzx_threshold l = lzx_out l + n" "lzx_in l + n \<le> len" "len \<le> length data"
  shows "lzx_uncompressed data len l None = Inr (l\<lparr>lzx_in := lzx_in l + n + n mod 2\<rparr>, None)"
    "lzx_out l + n \<le> length b \<Longrightarrow> lzx_uncompressed data len l (Some b) =
      Inr (l\<lparr>lzx_in := lzx_in l + n + n mod 2\<rparr>, Some (overlay (lzx_out l) (window (lzx_in l) n data) b))"
proof -
  have "n mod 2 = (if odd n then 1 else 0)" by presburger
  then show "lzx_uncompressed data len l None = Inr (l\<lparr>lzx_in := lzx_in l + n + n mod 2\<rparr>, None)"
    "lzx_out l + n \<le> length b \<Longrightarrow> lzx_uncompressed data len l (Some b) =
      Inr (l\<lparr>lzx_in := lzx_in l + n + n mod 2\<rparr>, Some (overlay (lzx_out l) (window (lzx_in l) n data) b))"
    using assms by (simp_all add: lzx_uncompressed_def lzx_getbytes_def rd_bytes_def put_bytes_def wr_bytes_def Let_def)
qed

section \<open>Properties\<close>

text \<open>
  C19: LZX decompression terminates and never uses data beyond the length it is given: its result is that
  for the data cut off at the length, and it is a value, an error of its own or an access out of
  bounds of the output buffer or of the table of Huffman code lengths.
\<close>

theorem lzx_decompress_input:
  assumes "len \<le> length data"
  shows "lzx_decompress (take len data) len out = lzx_decompress data len out
     \<and> lzx_decompress data len out \<noteq> Inl Fuel"
proof (cases "odd len")
  case False
  have "e = Fail \<or> e = Fault" if "lzx_decompress data len out = Inl e" for e
    using that lzx_blocks_start(2) [OF assms] False
    by (auto simp: lzx_decompress_def rbind_eq_Inl lzx_translate_jumps_def split: if_splits option.splits
        simp del: lzx_blocks.simps dest: lzx_translate_from_error)
  moreover have "lzx_decompress (take len data) len out = lzx_decompress data len out"
    unfolding lzx_decompress_def using lzx_blocks_start(1) [OF assms] False by simp
  ultimately show ?thesis by blast
qed (simp add: lzx_decompress_def)

theorem lzx_decompress_input_witness:
  "lzx_decompress (take 4 [0, 0x60, 0, 0x40, 1, 2]) 4 None = lzx_decompress [0, 0x60, 0, 0x40, 1, 2] 4 None
     \<and> lzx_decompress [0, 0x60, 0, 0x40, 1, 2] 4 None \<noteq> Inl Fuel"
  by (rule lzx_decompress_input) simp

text \<open>
  C20: With and without a buffer, LZX decompression reports the same length; and on an input without
  uncompressed blocks it writes that many bytes to the start of the buffer and nothing else, the
  same bytes for every buffer that is large enough.
\<close>

theorem lzx_decompress_two_pass:
  assumes "lzx_decompress data len (Some b) = Inr (n, Some b')"
  shows "lzx_decompress data len None = Inr (n, None) \<and> length b' = length b \<and> (lzx_plain data len \<longrightarrow>
      n \<le> length b \<and> drop n b' = drop n b
      \<and> (\<forall>c. n \<le> length c \<longrightarrow> lzx_decompress data len (Some c) = Inr (n, Some (take n b' @ drop n c))))"
  using lzx_dec.measured [OF assms] lzx_stream.two_pass [OF _ assms] by auto

text \<open>The input of a single uncompressed block with the four bytes \<open>abcd\<close>.\<close>

definition lzx_raw_input :: bytes where
  "lzx_raw_input = [0x00, 0x60, 0x00, 0x40, 1, 0, 0, 0, 1, 0, 0, 0, 1, 0, 0, 0, 0x61, 0x62, 0x63, 0x64]"

lemma lzx_raw_run: "lzx_decompress lzx_raw_input 20 (Some [9, 9, 9, 9, 9]) = Inr (0, Some [0x61, 0x62, 0x63, 0x64, 9])"
  by code_simp

theorem lzx_decompress_two_pass_witness:
  "lzx_decompress lzx_raw_input 20 None = Inr (0, None) \<and> lzx_plain [] 0
     \<and> lzx_decompress [] 0 (Some [5]) = Inr (0, Some [5])"
proof -
  have "lzx_plain [] 0" by (simp add: lzx_plain_def)
  moreover have "lzx_decompress [] 0 (Some [7]) = Inr (0, Some [7])"
    by (simp add: lzx_decompress_def lzx_start_def lzx_translate_jumps_def)
  ultimately show ?thesis
    using lzx_decompress_two_pass [OF lzx_raw_run] lzx_decompress_two_pass [of "[]" 0 "[7]" 0 "[7]"] by simp
qed

text \<open>
  C26: An uncompressed block of \<open>n\<close> bytes is copied to the output buffer but not counted. Wherever the loop meets it, it
  writes the \<open>n\<close> bytes at the position of the output and goes on with the following block at that same position, which
  therefore overwrites them; and if the input ends with the block, the length that is reported is that before the block, while
  the buffer has been written beyond it.
\<close>

theorem lzx_uncompressed_not_counted:
  assumes "lzx_in l0 < len" "len \<le> length data"
    and "lzx_block_header data len l0 = Inr l" "lzx_block_type l = LZX_BLOCK_UNCOMPRESSED"
    and "lzx_threshold l = lzx_out l + n" "lzx_in l + n \<le> len" "lzx_out l + n \<le> length b"
    and "l' = l\<lparr>lzx_in := lzx_in l + n + n mod 2\<rparr>" "b' = overlay (lzx_out l0) (window (lzx_in l) n data) b"
  shows "lzx_blocks (Suc fuel) data len l0 None = lzx_blocks fuel data len l' None
    \<and> lzx_blocks (Suc fuel) data len l0 (Some b) = lzx_blocks fuel data len l' (Some b')
    \<and> lzx_out l' = lzx_out l0
    \<and> (len \<le> lzx_in l' \<and> 0 < fuel \<longrightarrow> lzx_blocks (Suc fuel) data len l0 None = Inr (l', None)
      \<and> lzx_blocks (Suc fuel) data len l0 (Some b) = Inr (l', Some b'))"
proof -
  have out: "lzx_out l = lzx_out l0" by (rule lzx_header_uncompressed [OF assms(3,4)])
  have run: "lzx_blocks (Suc fuel) data len l0 None = lzx_blocks fuel data len l' None"
    "lzx_blocks (Suc fuel) data len l0 (Some b) = lzx_blocks fuel data len l' (Some b')"
    using assms(1,3,4,7) lzx_uncompressed_copies [OF assms(5,6,2)] by (simp_all add: assms(8,9) out)
  moreover have "lzx_blocks fuel data len l' o' = Inr (l', o')" if "len \<le> lzx_in l'" "0 < fuel" for o'
    using that by (cases fuel) simp_all
  ultimately show ?thesis using out assms(8) by simp
qed

text \<open>The state after the header of the example.\<close>

lemma lzx_raw_header:
  "\<exists>l. lzx_block_header lzx_raw_input 20 lzx_start = Inr l \<and> lzx_block_type l = LZX_BLOCK_UNCOMPRESSED
    \<and> lzx_in l = 16 \<and> lzx_out l = 0 \<and> lzx_threshold l = 4"
proof -
  have "(case lzx_block_header lzx_raw_input 20 lzx_start of Inl e \<Rightarrow> False | Inr l \<Rightarrow> lzx_block_type l = LZX_BLOCK_UNCOMPRESSED
    \<and> lzx_in l = 16 \<and> lzx_out l = 0 \<and> lzx_threshold l = 4)" by code_simp
  then show ?thesis by (auto split: sum.splits)
qed

theorem lzx_uncompressed_not_counted_witness:
  "\<exists>l. lzx_blocks 2 lzx_raw_input 20 lzx_start None = Inr (l, None) \<and> lzx_out l = 0
    \<and> lzx_blocks 2 lzx_raw_input 20 lzx_start (Some [9, 9, 9, 9, 9]) = Inr (l, Some [0x61, 0x62, 0x63, 0x64, 9])"
proof -
  obtain l where l: "lzx_block_header lzx_raw_input 20 lzx_start = Inr l" "lzx_block_type l = LZX_BLOCK_UNCOMPRESSED"
    "lzx_in l = 16" "lzx_out l = 0" "lzx_threshold l = 4" using lzx_raw_header by blast
  have start: "lzx_in lzx_start = 0" "lzx_out lzx_start = 0" by (simp_all add: lzx_start_def)
  have over: "overlay 0 (window 16 4 lzx_raw_input) [9, 9, 9, 9, 9] = [0x61, 0x62, 0x63, 0x64, 9]" "length lzx_raw_input = 20"
    by (simp_all add: lzx_raw_input_def window_def overlay_def)
  have "lzx_threshold l = lzx_out l + 4" "lzx_in l + 4 \<le> 20" "lzx_out l + 4 \<le> length [9 :: u8, 9, 9, 9, 9]" "lzx_in lzx_start < 20" "20 \<le> length lzx_raw_input"
    using l over start by simp_all
  note run = lzx_uncompressed_not_counted [OF this(4,5) l(1,2) this(1-3) refl refl, of 1]
  have two: "(4 :: nat) mod Suc (Suc 0) = 0" by (simp flip: numeral_2_eq_2)
  show ?thesis
    using run l start over two by (intro exI [of _ "l\<lparr>lzx_in := 20\<rparr>"]) (auto simp: numeral_2_eq_2 simp del: lzx_blocks.simps)
qed

text \<open>
  The translation of jump targets by the compressor: a target relative to \<open>offset\<close> that lies within the
  assumed size of the file becomes absolute, one that would lie beyond it wraps to the targets that
  are left over.
\<close>

definition lzx_encode_target :: "int \<Rightarrow> int \<Rightarrow> int" where
  "lzx_encode_target offset rel =
     (if - offset \<le> rel \<and> rel < LZX_WIM_MAGIC_FILESIZE - offset then rel + offset
      else if LZX_WIM_MAGIC_FILESIZE - offset \<le> rel \<and> rel < LZX_WIM_MAGIC_FILESIZE then rel - LZX_WIM_MAGIC_FILESIZE
      else rel)"

lemma sint_word_of_int: "- (2 ^ 31) \<le> x \<Longrightarrow> x < 2 ^ 31 \<Longrightarrow> sint (word_of_int x :: u32) = x"
  by (simp add: signed_of_int signed_take_bit_int_eq_self)

lemma lzx_translate_target_sint:
  assumes "offset < 2 ^ 30" "- (2 ^ 31) \<le> x" "x < 2 ^ 31"
  shows "lzx_translate_target offset (word_of_int x) = word_of_int
     (if 0 \<le> x then (if x < LZX_WIM_MAGIC_FILESIZE then x - int offset else x)
      else if x \<ge> - int offset then x + LZX_WIM_MAGIC_FILESIZE else x)"
proof -
  have off: "sint (of_nat offset :: u32) = int offset"
    using sint_word_of_int [of "int offset"] assms(1) by simp
  show ?thesis
    unfolding lzx_translate_target_def off sint_word_of_int [OF assms(2,3)]
    by (simp add: word_of_int_minus)
qed

text \<open>
  The translation of a jump target undoes the translation of the compressor, for every offset below
  the assumed file size and every 32-bit relative target.
\<close>

theorem lzx_translate_target_roundtrip:
  assumes "offset < 12000000" "- (2 ^ 31) \<le> rel" "rel < 2 ^ 31"
  shows "lzx_translate_target offset (word_of_int (lzx_encode_target (int offset) rel)) = word_of_int rel"
proof -
  let ?x = "lzx_encode_target (int offset) rel"
  have "- (2 ^ 31) \<le> ?x" "?x < 2 ^ 31" using assms by (auto simp: lzx_encode_target_def lzx_consts)
  moreover have "offset < 2 ^ 30" using assms by simp
  ultimately show ?thesis
    using assms lzx_translate_target_sint [of offset ?x] by (auto simp: lzx_encode_target_def lzx_consts)
qed

theorem lzx_translate_target_roundtrip_witness:
  "lzx_encode_target 100 (-60) = 40 \<and> lzx_translate_target 100 (word_of_int 40) = word_of_int (-60)
     \<and> lzx_encode_target 100 11999950 = - 50
     \<and> lzx_translate_target 100 (word_of_int (- 50)) = word_of_int 11999950"
  using lzx_translate_target_roundtrip [of 100 "-60"] lzx_translate_target_roundtrip [of 100 11999950]
  by (simp add: lzx_encode_target_def lzx_consts)

text \<open>
  C27: A pretree code 18 or 19 that follows a code 19 takes the code length below zero, unless the old length is large enough: the loop over
  the lengths does not refuse it, but stores a byte above 16 and goes on with repeating it; and every alphabet
  that is built from a table with this length indexes outside the symbol sets.
\<close>

theorem lzx_delta_out_of_range:
  assumes "lzx_decode data len (lzx_pretree_alphabet l) l = Inr (19, l1)" "lzx_getbits data len 1 l1 = Inr (dup, l2)"
    and "lzx_decode data len (lzx_pretree_alphabet l2) l2 = Inr (code, l3)" "code < LZX_PRETREE_CODES" "old + 17 < code"
  shows "\<exists>bad > 16. lzx_pretree_lengths data len 0 prev (old # lengths) l
      = rbind (lzx_pretree_lengths data len (dup + 3) bad lengths l3) (\<lambda>(ls, l). Inr (bad # ls, l))
    \<and> (\<forall>before ls alphabet. huffman_alphabet alphabet (before @ bad # ls) = Inl Fault)"
proof (intro exI [of _ "lzx_delta old code"] conjI allI)
  have "old = 0 \<and> code = 18 \<or> old = 0 \<and> code = 19 \<or> old = 1 \<and> code = 19"
    using assms(4,5) by (auto simp: lzx_consts)
  then show bad: "16 < lzx_delta old code" by (auto simp: lzx_delta_def)
  show "lzx_pretree_lengths data len 0 prev (old # lengths) l
      = rbind (lzx_pretree_lengths data len (dup + 3) (lzx_delta old code) lengths l3) (\<lambda>(ls, l). Inr (lzx_delta old code # ls, l))"
    using assms(1-3) by (simp add: lzx_pretree_code_def)
  show "huffman_alphabet alphabet (before @ lzx_delta old code # ls) = Inl Fault" for before ls alphabet
    using bad by (intro huffman_alphabet_long) simp
qed

definition lzx_delta_input :: bytes where
  "lzx_delta_input = [0, 0, 0, 0, 0, 0, 0, 0, 0x11, 0, 0, 0x80]"

text \<open>The words of the input, read by the bit stream.\<close>

lemma lzx_delta_words:
  "rd16 lzx_delta_input 0 = Inr 0" "rd16 lzx_delta_input 2 = Inr 0" "rd16 lzx_delta_input 4 = Inr 0" "rd16 lzx_delta_input 6 = Inr 0"
  "rd16 lzx_delta_input 8 = Inr 0x11" "rd16 lzx_delta_input 10 = Inr 0x8000"
  by (simp_all add: rd16_def rd8_def lzx_delta_input_def)

lemma lzx_raw_lengths_numeral:
  "lzx_raw_lengths data len bits (numeral k) l =
     rbind (lzx_getbits data len bits l) (\<lambda>(v, l).
     rbind (lzx_raw_lengths data len bits (pred_numeral k) l) (\<lambda>(vs, l). Inr (v # vs, l)))"
  by (simp add: numeral_eq_Suc)

lemma lzx_delta_lengths:
  "lzx_raw_lengths lzx_delta_input 12 LZX_PRETREE_BITS LZX_PRETREE_CODES lzx_start = Inr (replicate 18 0 @ [1, 1], lzx_start\<lparr>lzx_in := 10, lzx_accumulator := 0, lzx_bits := 0\<rparr>)"
proof -
  have start: "lzx_in lzx_start = 0" "lzx_bits lzx_start = 0" "lzx_accumulator lzx_start = 0" by (simp_all add: lzx_start_def)
  show ?thesis
    by (simp add: lzx_consts lzx_raw_lengths_numeral lzx_raw_lengths.simps(2) [of _ _ _ 0] lzx_getbits_def lzx_accumulate_def lzx_consume_def start lzx_delta_words replicate_numeral del: lzx_raw_lengths.simps(2) add_2_eq_Suc add_2_eq_Suc')
qed

lemma lzx_delta_alphabet:
  "\<exists>a. huffman_alphabet (zero_alphabet 20) (replicate 18 0 @ [1, 1]) = Inr a
    \<and> (\<exists>s. huffman_sym a 0x8000 = Inr s \<and> huffman_raw a s 0x8000 = Inr 19 \<and> huffman_len s = 1)
    \<and> (\<exists>s. huffman_sym a 0 = Inr s \<and> huffman_raw a s 0 = Inr 18 \<and> huffman_len s = 1)"
proof -
  let ?L = "replicate 18 0 @ [1, 1] :: nat list"
  have "kraft_complete ?L" by code_simp
  then obtain a where a: "huffman_alphabet (zero_alphabet 20) ?L = Inr a"
    using huffman_alphabet_used [of ?L "zero_alphabet 20"] by (auto simp: zero_alphabet_def huffman_consts)
  have codes: "canonical_code ?L 18 = 0" "canonical_code ?L 19 = 1" by code_simp+
  have used: "\<not> (\<forall>l \<in> set ?L. l = 0)" by simp
  have symbol: "i = 18 \<or> i = 19" if "i < length ?L" "1 \<le> ?L ! i" for i
    using that by (auto simp: nth_append split: if_splits)
  have one: "?L ! 18 = 1" "?L ! 19 = 1" by (simp_all add: nth_append)
  have room: "alphabet_room (zero_alphabet 20) ?L" by simp
  have "\<exists>s. huffman_sym a huf = Inr s \<and> huffman_raw a s huf = Inr i \<and> huffman_len s = 1"
    if h: "huf < 2 ^ 16" "huf div 2 ^ 15 = i - 18" "i = 18 \<or> i = 19" for huf i
  proof -
    obtain s k where s: "huffman_sym a huf = Inr s" "huffman_raw a s huf = Inr k" "1 \<le> huffman_len s"
      "k < length ?L" "?L ! k = huffman_len s" "huf div 2 ^ (16 - huffman_len s) = canonical_code ?L k"
      using huffman_lookup_total [OF room a h(1)] unfolding if_not_P [OF used] by blast
    then have k: "k = 18 \<or> k = 19" using symbol [of k] by simp
    then have len: "huffman_len s = 1" using s(5) one by metis
    have "huf div 2 ^ 15 = canonical_code ?L k" using s(6) unfolding len by simp
    then have "k = i" using k h(2,3) codes by fastforce
    with s len show ?thesis by blast
  qed
  from this [of "0x8000" 19] this [of 0 18] a show ?thesis by auto
qed

theorem lzx_delta_out_of_range_witness:
  "\<exists>bad > 16. \<exists>l'. lzx_pretree lzx_delta_input 12 [0, 0, 0, 0] lzx_start = Inr ([bad, bad, bad, bad], l')
    \<and> (\<forall>before ls alphabet. huffman_alphabet alphabet (before @ bad # ls) = Inl Fault)"
proof -
  obtain a s19 s18 where a: "huffman_alphabet (zero_alphabet 20) (replicate 18 0 @ [1, 1]) = Inr a"
    and s: "huffman_sym a 0x8000 = Inr s19" "huffman_raw a s19 0x8000 = Inr 19" "huffman_len s19 = 1"
      "huffman_sym a 0 = Inr s18" "huffman_raw a s18 0 = Inr 18" "huffman_len s18 = 1"
    using lzx_delta_alphabet by auto
  define l where "l = lzx_start\<lparr>lzx_in := 10, lzx_accumulator := 0, lzx_bits := 0, lzx_pretree_alphabet := a\<rparr>"
  have pre: "lzx_pretree lzx_delta_input 12 [0, 0, 0, 0] lzx_start = lzx_pretree_lengths lzx_delta_input 12 0 0 [0, 0, 0, 0] l"
    using a lzx_delta_lengths by (simp add: lzx_pretree_def lzx_raw_alphabet_def l_def lzx_start_def lzx_consts)
  have "lzx_decode lzx_delta_input 12 (lzx_pretree_alphabet l) l = Inr (19, l\<lparr>lzx_in := 12, lzx_accumulator := 0, lzx_bits := 15\<rparr>)"
    "lzx_getbits lzx_delta_input 12 1 (l\<lparr>lzx_in := 12, lzx_accumulator := 0, lzx_bits := 15\<rparr>) = Inr (0, l\<lparr>lzx_in := 12, lzx_accumulator := 0, lzx_bits := 14\<rparr>)"
    "lzx_decode lzx_delta_input 12 (lzx_pretree_alphabet (l\<lparr>lzx_in := 12, lzx_accumulator := 0, lzx_bits := 14\<rparr>))
      (l\<lparr>lzx_in := 12, lzx_accumulator := 0, lzx_bits := 14\<rparr>) = Inr (18, l\<lparr>lzx_in := 12, lzx_accumulator := 0, lzx_bits := 13\<rparr>)"
    using s by (simp_all add: l_def lzx_decode_def lzx_getbits_def lzx_accumulate_def lzx_consume_def lzx_delta_words huffman_consts
        del: add_2_eq_Suc add_2_eq_Suc')
  from lzx_delta_out_of_range [OF this, of 0 0 "[0, 0, 0]"] show ?thesis unfolding pre by (auto simp: lzx_consts)
qed

end
