(* ===== verification/Cstring.thy ===== *)
theory Cstring
  imports Prelude
begin

text \<open>
  The string and memory functions of the program (\<open>string.c\<close>, \<open>ctype.h\<close>, \<open>wctype.h\<close>, \<open>wchar.h\<close>).

  The copying functions act on one memory, in which source and destination are offsets, because
  the areas may overlap; the instruction \<open>rep movs\<close> is the loop it stands for. A pointer into a string
  is the list of the characters from there on, a string that is not terminated within it is
  \<open>Fault\<close>. Characters are signed bytes, as on x86; \<open>unsigned long\<close> has \<open>w\<close> bits, where \<open>w\<close> is a
  parameter, since the program is built for 32 and for 64 bits.
\<close>

section \<open>Memory\<close>

text \<open>\<open>rep movsl\<close> and \<open>rep movsb\<close>: copy \<open>n\<close> elements of \<open>c\<close> bytes in ascending order.\<close>

fun rep_movs :: "nat \<Rightarrow> nat \<Rightarrow> nat \<Rightarrow> nat \<Rightarrow> bytes \<Rightarrow> bytes result" where
  "rep_movs c 0 edi esi mem = Inr mem"
| "rep_movs c (Suc n) edi esi mem =
     rbind (rd_bytes mem esi c) (\<lambda>bs. rbind (wr_bytes mem edi bs) (\<lambda>mem.
     rep_movs c n (edi + c) (esi + c) mem))"

definition memcpy :: "bytes \<Rightarrow> nat \<Rightarrow> nat \<Rightarrow> nat \<Rightarrow> bytes result" where
  "memcpy mem dest src len =
     rbind (rep_movs 4 (len div 4) dest src mem) (\<lambda>mem.
     rep_movs 1 (len mod 4) (dest + 4 * (len div 4)) (src + 4 * (len div 4)) mem)"

text \<open>\<open>std; rep movsb\<close>: copy \<open>n\<close> bytes in descending order.\<close>

fun memcpy_reverse :: "bytes \<Rightarrow> nat \<Rightarrow> nat \<Rightarrow> nat \<Rightarrow> bytes result" where
  "memcpy_reverse mem dest src 0 = Inr mem"
| "memcpy_reverse mem dest src (Suc n) =
     rbind (rd8 mem (src + n)) (\<lambda>v. rbind (wr8 mem (dest + n) v) (\<lambda>mem. memcpy_reverse mem dest src n))"

definition memmove :: "bytes \<Rightarrow> nat \<Rightarrow> nat \<Rightarrow> nat \<Rightarrow> bytes result" where
  "memmove mem dest src len =
     (if dest \<le> src then memcpy mem dest src len else memcpy_reverse mem dest src len)"

fun memset :: "bytes \<Rightarrow> nat \<Rightarrow> u8 \<Rightarrow> nat \<Rightarrow> bytes result" where
  "memset mem dest c 0 = Inr mem"
| "memset mem dest c (Suc n) = rbind (wr8 mem dest c) (\<lambda>mem. memset mem (dest + 1) c n)"

fun memcmp :: "bytes \<Rightarrow> bytes \<Rightarrow> nat \<Rightarrow> int result" where
  "memcmp src1 src2 0 = Inr 0"
| "memcmp src1 src2 (Suc n) =
     rbind (rd8 src1 0) (\<lambda>c1. rbind (rd8 src2 0) (\<lambda>c2.
     let diff = uint c1 - uint c2
     in if diff \<noteq> 0 then Inr diff else memcmp (tl src1) (tl src2) n))"

section \<open>Characters\<close>

definition islower :: "int \<Rightarrow> bool" where
  "islower c \<longleftrightarrow> 97 \<le> c \<and> c \<le> 122"

definition isupper :: "int \<Rightarrow> bool" where
  "isupper c \<longleftrightarrow> 65 \<le> c \<and> c \<le> 90"

definition toupper :: "int \<Rightarrow> int" where
  "toupper c = (if islower c then c - (97 - 65) else c)"

definition isspace :: "int \<Rightarrow> bool" where
  "isspace c \<longleftrightarrow> c = 32 \<or> c = 12 \<or> c = 10 \<or> c = 13 \<or> c = 9 \<or> c = 11"

definition towupper :: "u16 \<Rightarrow> int" where
  "towupper c = toupper (uint c)"

section \<open>Strings\<close>

text \<open>
  The common loop of the comparisons, for a conversion \<open>f\<close> of the characters to integers:
  \<open>do { c1 = f(*(str1++)); c2 = f(*(str2++)); } while ( c1 && ( c1 == c2 ) )\<close>.
\<close>

fun str_compare :: "('c::len word \<Rightarrow> int) \<Rightarrow> 'c word list \<Rightarrow> 'c word list \<Rightarrow> int result" where
  "str_compare f [] str2 = Inl Fault"
| "str_compare f (c1 # str1) [] = Inl Fault"
| "str_compare f (c1 # str1) (c2 # str2) =
     (if f c1 \<noteq> 0 \<and> f c1 = f c2 then str_compare f str1 str2 else Inr (f c1 - f c2))"

definition strcmp :: "bytes \<Rightarrow> bytes \<Rightarrow> int result" where
  "strcmp str1 str2 = str_compare sint str1 str2"

definition strcasecmp :: "bytes \<Rightarrow> bytes \<Rightarrow> int result" where
  "strcasecmp str1 str2 = str_compare (\<lambda>c. toupper (sint c)) str1 str2"

definition wcscasecmp :: "u16 list \<Rightarrow> u16 list \<Rightarrow> int result" where
  "wcscasecmp str1 str2 = str_compare towupper str1 str2"

fun str_length :: "'c::len word list \<Rightarrow> nat result" where
  "str_length [] = Inl Fault"
| "str_length (c # str) = (if c \<noteq> 0 then rbind (str_length str) (\<lambda>n. Inr (n + 1)) else Inr 0)"

definition strlen :: "bytes \<Rightarrow> nat result" where
  "strlen str = str_length str"

definition wcslen :: "u16 list \<Rightarrow> nat result" where
  "wcslen str = str_length str"

text \<open>The result is the offset of the first occurrence, or \<open>None\<close> for the null pointer.\<close>

fun wcschr :: "u16 list \<Rightarrow> u16 \<Rightarrow> nat option result" where
  "wcschr [] c = Inl Fault"
| "wcschr (d # str) c =
     (if d = 0 then Inr None else if d = c then Inr (Some 0)
      else rbind (wcschr str c) (\<lambda>r. Inr (map_option Suc r)))"

section \<open>Numbers\<close>

definition strtoul_digit :: "u8 \<Rightarrow> u32" where
  "strtoul_digit c =
     (let digit = scast c in
      if digit \<ge> 97 then digit - 97 + 10
      else if digit \<ge> 65 then digit - 65 + 10
      else if digit \<le> 57 then digit - 48
      else digit)"

fun strtoul_digits :: "nat \<Rightarrow> nat \<Rightarrow> nat \<Rightarrow> bytes \<Rightarrow> (nat \<times> bytes) result" where
  "strtoul_digits w base val [] = Inl Fault"
| "strtoul_digits w base val (c # str) =
     (let digit = unat (strtoul_digit c) in
      if digit \<ge> base then Inr (val, c # str)
      else strtoul_digits w base ((val * base + digit) mod 2 ^ w) str)"

fun skip_space :: "bytes \<Rightarrow> bytes result" where
  "skip_space [] = Inl Fault"
| "skip_space (c # str) = (if isspace (sint c) then skip_space str else Inr (c # str))"

definition strtoul_sign :: "bytes \<Rightarrow> (bool \<times> bytes) result" where
  "strtoul_sign str =
     rbind (rd8 str 0) (\<lambda>c. if c = 43 then Inr (False, tl str) else if c = 45 then Inr (True, tl str)
       else Inr (False, str))"

definition strtoul_base :: "nat \<Rightarrow> bytes \<Rightarrow> (nat \<times> bytes) result" where
  "strtoul_base base str =
     (if base = 0 then
        rbind (rd8 str 0) (\<lambda>c.
        if c = 48 then
          rbind (rd8 str 1) (\<lambda>x. if x OR 0x20 = 120 then Inr (16, tl (tl str)) else Inr (8, tl str))
        else Inr (10, str))
      else Inr (base, str))"

text \<open>Yields the value and the rest of the string, to which \<open>*endptr\<close> is set.\<close>

definition strtoul :: "nat \<Rightarrow> bytes \<Rightarrow> nat \<Rightarrow> (nat \<times> bytes) result" where
  "strtoul w nptr base =
     rbind (skip_space nptr) (\<lambda>nptr.
     rbind (strtoul_sign nptr) (\<lambda>(negate, nptr).
     rbind (strtoul_base base nptr) (\<lambda>(base, nptr).
     rbind (strtoul_digits w base 0 nptr) (\<lambda>(val, nptr).
     Inr (if negate then (2 ^ w - val) mod 2 ^ w else val, nptr)))))"

text \<open>Convert a wide character to a byte: only the ASCII range is kept.\<close>

definition wcrtomb :: "u16 \<Rightarrow> bytes" where
  "wcrtomb wc = [ucast wc]"

section \<open>Copying\<close>

lemma overlay_overlay:
  assumes "a + length xs \<le> length mem" "a + length xs + length ys \<le> length mem"
  shows "overlay (a + length xs) ys (overlay a xs mem) = overlay a (xs @ ys) mem"
  using assms by (simp add: overlay_def ac_simps)

lemma window_split: "window off (m + n) xs = window off m xs @ window (off + m) n xs"
  by (simp add: window_def take_add add.commute)

lemma window_overlay_above:
  "a + length bs \<le> off \<Longrightarrow> a + length bs \<le> length mem \<Longrightarrow> window off n (overlay a bs mem) = window off n mem"
  by (simp add: window_def drop_overlay)

lemma rep_movs_up:
  "edi \<le> esi \<Longrightarrow> esi + c * n \<le> length mem \<Longrightarrow>
   rep_movs c n edi esi mem = Inr (overlay edi (window esi (c * n) mem) mem)"
proof (induction n arbitrary: edi esi mem)
  case 0
  then show ?case by (simp add: overlay_def window_def)
next
  case (Suc n)
  let ?A = "window esi c mem"
  let ?mem = "overlay edi ?A mem"
  have len: "length ?A = c" "edi + c \<le> length mem" using Suc.prems by auto
  have "rep_movs c (Suc n) edi esi mem = rep_movs c n (edi + c) (esi + c) ?mem"
    using Suc.prems len by (simp add: rd_bytes_def wr_bytes_def)
  also have "\<dots> = Inr (overlay (edi + c) (window (esi + c) (c * n) ?mem) ?mem)"
    using Suc.prems len by (intro Suc.IH) auto
  also have "window (esi + c) (c * n) ?mem = window (esi + c) (c * n) mem"
    using Suc.prems len by (intro window_overlay_above) auto
  also have "overlay (edi + c) (window (esi + c) (c * n) mem) ?mem = overlay edi (window esi (c * Suc n) mem) mem"
    using overlay_overlay [of edi ?A mem "window (esi + c) (c * n) mem"] len Suc.prems window_split [of esi c "c * n" mem]
    by simp
  finally show ?case .
qed

lemma memcpy_up:
  assumes "dest \<le> src" "src + len \<le> length mem"
  shows "memcpy mem dest src len = Inr (overlay dest (window src len mem) mem)"
proof -
  let ?n = "4 * (len div 4)" and ?r = "len mod 4"
  have split: "len = ?n + ?r" by simp
  let ?A = "window src ?n mem"
  let ?mem = "overlay dest ?A mem"
  have len: "length ?A = ?n" "dest + ?n + ?r \<le> length mem" "src + ?n + ?r \<le> length mem" using assms split by auto
  have bulk: "rep_movs 4 (len div 4) dest src mem = Inr ?mem"
    using assms len by (intro rep_movs_up) auto
  have "rep_movs 1 ?r (dest + ?n) (src + ?n) ?mem = Inr (overlay (dest + ?n) (window (src + ?n) (1 * ?r) ?mem) ?mem)"
    using assms len by (intro rep_movs_up) auto
  also have "window (src + ?n) (1 * ?r) ?mem = window (src + ?n) ?r mem"
    using assms len window_overlay_above [of dest ?A "src + ?n" mem ?r] by simp
  also have "overlay (dest + ?n) (window (src + ?n) ?r mem) ?mem = overlay dest (window src len mem) mem"
    using overlay_overlay [of dest ?A mem "window (src + ?n) ?r mem"] len window_split [of src ?n ?r mem] by simp
  finally show ?thesis by (simp add: memcpy_def bulk)
qed

lemma memcpy_reverse_down:
  "src \<le> dest \<Longrightarrow> dest + len \<le> length mem \<Longrightarrow>
   memcpy_reverse mem dest src len = Inr (overlay dest (window src len mem) mem)"
proof (induction len arbitrary: mem)
  case 0
  then show ?case by (simp add: overlay_def window_def)
next
  case (Suc n)
  let ?v = "mem ! (src + n)"
  let ?mem = "mem[dest + n := ?v]"
  have "memcpy_reverse mem dest src (Suc n) = memcpy_reverse ?mem dest src n"
    using Suc.prems by (simp add: rd8_def wr8_def)
  also have "\<dots> = Inr (overlay dest (window src n ?mem) ?mem)"
    using Suc.prems by (intro Suc.IH) auto
  also have "window src n ?mem = window src n mem"
    using Suc.prems by (intro nth_equalityI) (auto simp: nth_window nth_list_update)
  also have "overlay dest (window src n mem) ?mem = overlay dest (window src (Suc n) mem) mem"
    using Suc.prems by (intro nth_equalityI) (auto simp: nth_overlay nth_window nth_list_update)
  finally show ?case .
qed

section \<open>Terminated strings\<close>

definition terminated :: "'c::len word list \<Rightarrow> bool" where
  "terminated str \<longleftrightarrow> 0 \<in> set str"

definition cstring :: "'c::len word list \<Rightarrow> 'c word list" where
  "cstring str = takeWhile (\<lambda>c. c \<noteq> 0) str"

lemma terminated_simps [simp]: "\<not> terminated []" "terminated (c # str) \<longleftrightarrow> c = 0 \<or> terminated str"
  by (auto simp: terminated_def)

lemma cstring_simps [simp]: "cstring [] = []" "cstring (c # str) = (if c \<noteq> 0 then c # cstring str else [])"
  by (simp_all add: cstring_def)

lemma cstring_append_0 [simp]: "0 \<notin> set str \<Longrightarrow> cstring (str @ 0 # rest) = str"
  by (induction str) auto

lemma terminated_append_0 [simp]: "terminated (str @ 0 # rest)"
  by (simp add: terminated_def)

lemma str_compare_equal:
  assumes "\<And>c. f c = 0 \<longleftrightarrow> c = 0"
  shows "terminated str1 \<Longrightarrow> terminated str2 \<Longrightarrow>
     \<exists>d. str_compare f str1 str2 = Inr d \<and> (d = 0 \<longleftrightarrow> map f (cstring str1) = map f (cstring str2))"
proof (induction str1 arbitrary: str2)
  case (Cons c1 str1)
  then obtain c2 str2' where str2: "str2 = c2 # str2'" by (cases str2) auto
  show ?case
  proof (cases "f c1 \<noteq> 0 \<and> f c1 = f c2")
    case True
    with Cons.prems str2 assms have "terminated str1" "terminated str2'" "c1 \<noteq> 0" "c2 \<noteq> 0" by fastforce+
    with Cons.IH [of str2'] True str2 show ?thesis by simp
  next
    case False
    with assms [of c1] assms [of c2] str2 show ?thesis by auto
  qed
qed simp

lemma sint_0_iff [simp]: "sint (c :: u8) = 0 \<longleftrightarrow> c = 0"
  using signed_word_eqI [of c 0] by auto

lemma strcmp_equal:
  assumes "terminated str1" "terminated str2"
  shows "\<exists>d. strcmp str1 str2 = Inr d \<and> (d = 0 \<longleftrightarrow> cstring str1 = cstring str2)"
proof -
  have "inj (sint :: u8 \<Rightarrow> int)" by (rule injI) (rule signed_word_eqI)
  with str_compare_equal [of sint str1 str2] assms show ?thesis
    by (auto simp: strcmp_def inj_map_eq_map)
qed

lemma str_length_terminated: "terminated str \<Longrightarrow> str_length str = Inr (length (cstring str))"
  by (induction str) auto

section \<open>Parsing numbers\<close>

text \<open>The value of a list of digits.\<close>

definition digits_value :: "nat \<Rightarrow> nat \<Rightarrow> bytes \<Rightarrow> nat" where
  "digits_value base v ds = fold (\<lambda>c v. v * base + unat (strtoul_digit c)) ds v"

lemma digits_value_simps [simp]:
  "digits_value base v [] = v"
  "digits_value base v (c # ds) = digits_value base (v * base + unat (strtoul_digit c)) ds"
  "digits_value base v (ds @ [c]) = digits_value base v ds * base + unat (strtoul_digit c)"
  by (simp_all add: digits_value_def)

lemma digits_value_mod: "digits_value base (v mod m) ds mod m = digits_value base v ds mod m"
proof (induction ds arbitrary: v)
  case (Cons c ds)
  have "(v mod m * base + unat (strtoul_digit c)) mod m = (v * base + unat (strtoul_digit c)) mod m"
    by (metis mod_add_left_eq mod_mult_left_eq)
  then show ?case using Cons.IH [of "v mod m * base + unat (strtoul_digit c)"] Cons.IH [of "v * base + unat (strtoul_digit c)"]
    by (metis digits_value_simps(2))
qed simp

lemma strtoul_digits_value:
  assumes "unat (strtoul_digit stop) \<ge> base"
  shows "\<forall>c \<in> set ds. unat (strtoul_digit c) < base \<Longrightarrow> v < 2 ^ w \<Longrightarrow>
     strtoul_digits w base v (ds @ stop # rest) = Inr (digits_value base v ds mod 2 ^ w, stop # rest)"
proof (induction ds arbitrary: v)
  case Nil
  with assms show ?case by simp
next
  case (Cons c ds)
  then show ?case by (simp add: Let_def digits_value_mod)
qed

text \<open>Hexadecimal fields, as archives hold them: \<open>m\<close> digits, most significant first.\<close>

definition hexdigit :: "nat \<Rightarrow> u8" where
  "hexdigit k = (if k < 10 then of_nat (48 + k) else of_nat (55 + k))"

fun hexfield :: "nat \<Rightarrow> nat \<Rightarrow> bytes" where
  "hexfield 0 n = []"
| "hexfield (Suc m) n = hexfield m (n div 16) @ [hexdigit (n mod 16)]"

lemma length_hexfield [simp]: "length (hexfield m n) = m"
  by (induction m arbitrary: n) auto

lemma less_16_cases: "(k::nat) < 16 \<Longrightarrow> k \<in> {0, 1, 2, 3, 4, 5, 6, 7, 8, 9, 10, 11, 12, 13, 14, 15}"
  by (simp add: numeral_eq_Suc less_Suc_eq)

lemma strtoul_hexdigit: "k < 16 \<Longrightarrow> unat (strtoul_digit (hexdigit k)) = k"
  by (drule less_16_cases) (elim insertE emptyE; hypsubst; simp add: strtoul_digit_def hexdigit_def Let_def)

lemma hexdigit_plain: "k < 16 \<Longrightarrow> \<not> isspace (sint (hexdigit k)) \<and> hexdigit k \<noteq> 43 \<and> hexdigit k \<noteq> 45"
  by (drule less_16_cases) (elim insertE emptyE; hypsubst; simp add: isspace_def hexdigit_def)

lemma hexfield_digits: "c \<in> set (hexfield m n) \<Longrightarrow> \<exists>k < 16. c = hexdigit k"
  by (induction m arbitrary: n) (auto intro: exI [of _ "_ mod 16"])

lemma hexfield_value: "n < 16 ^ m \<Longrightarrow> digits_value 16 0 (hexfield m n) = n"
  by (induction m arbitrary: n) (auto simp: strtoul_hexdigit less_mult_imp_div_less)

lemma strtoul_hexfield_value:
  assumes "n < 16 ^ m" "n < 2 ^ w" "0 < m" "unat (strtoul_digit stop) \<ge> 16"
  shows "strtoul w (hexfield m n @ stop # rest) 16 = Inr (n, stop # rest)"
proof -
  have "hexfield m n \<noteq> []" using assms(3) length_hexfield [of m n] by fastforce
  then obtain c str where first: "hexfield m n = c # str" by (auto simp: neq_Nil_conv)
  obtain k where k: "k < 16" "c = hexdigit k" using hexfield_digits [of c m n] first by auto
  have digits: "\<forall>c \<in> set (hexfield m n). unat (strtoul_digit c) < 16"
    by (auto dest!: hexfield_digits simp: strtoul_hexdigit)
  have "strtoul_digits w 16 0 (hexfield m n @ stop # rest) = Inr (n, stop # rest)"
    using strtoul_digits_value [OF assms(4) digits, of 0 w rest] assms(2) unfolding hexfield_value [OF assms(1)]
    by (simp del: strtoul_digits.simps)
  then show ?thesis
    using hexdigit_plain [OF k(1)] unfolding first k(2)
    by (simp add: strtoul_def strtoul_sign_def strtoul_base_def rd8_def del: strtoul_digits.simps)
qed

section \<open>Properties\<close>

text \<open>
  C8: \<open>memmove\<close> copies correctly for every overlap of source and destination, although the forward
  direction copies four bytes at a time: the destination holds the original contents of the source,
  and the rest of the memory is unchanged.
\<close>

theorem memmove_correct:
  assumes "dest + len \<le> length mem" "src + len \<le> length mem"
  shows "memmove mem dest src len = Inr (overlay dest (window src len mem) mem)"
proof (cases "dest \<le> src")
  case True
  then show ?thesis using memcpy_up [OF True assms(2)] by (simp add: memmove_def)
next
  case False
  then show ?thesis using memcpy_reverse_down [of src dest len mem] assms by (simp add: memmove_def)
qed

theorem memmove_correct_witness:
  "memmove [1, 2, 3, 4, 5, 6, 7] 0 1 6 = Inr [2, 3, 4, 5, 6, 7, 7]
     \<and> memmove [1, 2, 3, 4, 5, 6, 7] 1 0 6 = Inr [1, 1, 2, 3, 4, 5, 6]"
  using memmove_correct [of 0 6 "[1, 2, 3, 4, 5, 6, 7]" 1] memmove_correct [of 1 6 "[1, 2, 3, 4, 5, 6, 7]" 0]
  by (simp add: overlay_def window_def)

text \<open>
  Comparing two terminated strings terminates within them, and yields zero exactly if the strings up
  to their terminators are equal.
\<close>

theorem strcmp_zero_iff:
  assumes "terminated str1" "terminated str2"
  shows "\<exists>d. strcmp str1 str2 = Inr d \<and> (d = 0 \<longleftrightarrow> cstring str1 = cstring str2)"
  using assms by (rule strcmp_equal)

theorem strcmp_zero_iff_witness:
  "\<exists>d. strcmp [0x61, 0x62, 0, 7] [0x61, 0x62, 0] = Inr d \<and> d = 0"
  using strcmp_zero_iff [of "[0x61, 0x62, 0, 7]" "[0x61, 0x62, 0]"] by simp

text \<open>
  Parsing a hexadecimal field of any width yields the number that it was printed from, and stops at
  the first character after the field.
\<close>

theorem strtoul_hexfield:
  assumes "n < 16 ^ m" "n < 2 ^ w" "0 < m"
  shows "strtoul w (hexfield m n @ 0 # rest) 16 = Inr (n, 0 # rest)"
  by (rule strtoul_hexfield_value [OF assms]) (simp add: strtoul_digit_def)

theorem strtoul_hexfield_witness:
  "hexfield 8 0xBEEF = [48, 48, 48, 48, 66, 69, 69, 70] \<and> strtoul 32 (hexfield 8 0xBEEF @ [0, 1]) 16 = Inr (0xBEEF, [0, 1])"
proof -
  have "hexfield 8 0xBEEF = [48, 48, 48, 48, 66, 69, 69, 70]" by code_simp
  moreover have "strtoul 32 (hexfield 8 0xBEEF @ 0 # [1]) 16 = Inr (0xBEEF, 0 # [1])"
    by (rule strtoul_hexfield) simp_all
  ultimately show ?thesis by simp
qed

end
