(* ===== verification/Sha1.thy ===== *)
theory Sha1
  imports Prelude
begin

text \<open>
  SHA-1 (\<open>sha1.c\<close>, \<open>sha1.h\<close>, with \<open>rotate.h\<close> and \<open>byteswap.h\<close>). The context holds the digest and the data
  block as the 84 bytes they occupy in memory; the code reads and writes them as little-endian
  dwords and swaps their bytes.

  The reference is the definition of the Secure Hash Standard: message schedule, rounds and
  padding as functions of the message. The property states that initialising a context, adding the
  message to it in any number of pieces and finishing it yields that digest, for messages whose
  length is within a \<open>size_t\<close>: the length in the context has \<open>w\<close> bits and wraps.
\<close>

section \<open>Words in memory\<close>

definition rol32 :: "u32 \<Rightarrow> nat \<Rightarrow> u32" where
  "rol32 data rotation = push_bit rotation data OR drop_bit (32 - rotation) data"

definition bytes32 :: "u32 \<Rightarrow> bytes" where
  "bytes32 x = [ucast x, ucast (drop_bit 8 x), ucast (drop_bit 16 x), ucast (drop_bit 24 x)]"

definition word32 :: "bytes \<Rightarrow> u32" where
  "word32 bs = ucast (bs ! 0) OR push_bit 8 (ucast (bs ! 1)) OR push_bit 16 (ucast (bs ! 2))
     OR push_bit 24 (ucast (bs ! 3))"

text \<open>The macro for constants, and the instruction \<open>bswapl\<close> that the code uses for variables.\<close>

definition bswap_constant_32 :: "u32 \<Rightarrow> u32" where
  "bswap_constant_32 x = push_bit 24 (x AND 0x000000ff) OR push_bit 8 (x AND 0x0000ff00)
     OR drop_bit 8 (x AND 0x00ff0000) OR drop_bit 24 (x AND 0xff000000)"

definition bswap_variable_32 :: "u32 \<Rightarrow> u32" where
  "bswap_variable_32 x = word32 (rev (bytes32 x))"

definition bytes64_be :: "u64 \<Rightarrow> bytes" where
  "bytes64_be x = map (\<lambda>i. ucast (drop_bit (56 - 8 * i) x)) [0..<8]"

text \<open>The dword at index \<open>i\<close> of a memory area.\<close>

definition dword :: "bytes \<Rightarrow> nat \<Rightarrow> u32" where
  "dword mem i = word32 (window (4 * i) 4 mem)"

section \<open>The algorithm\<close>

record sha1_variables =
  var_a :: u32
  var_b :: u32
  var_c :: u32
  var_d :: u32
  var_e :: u32

definition sha1_f_0_19 :: "sha1_variables \<Rightarrow> u32" where
  "sha1_f_0_19 v = (var_b v AND var_c v) OR (NOT (var_b v) AND var_d v)"

definition sha1_f_20_39_60_79 :: "sha1_variables \<Rightarrow> u32" where
  "sha1_f_20_39_60_79 v = (var_b v XOR var_c v XOR var_d v)"

definition sha1_f_40_59 :: "sha1_variables \<Rightarrow> u32" where
  "sha1_f_40_59 v = (var_b v AND var_c v) OR (var_b v AND var_d v) OR (var_c v AND var_d v)"

definition sha1_steps :: "((sha1_variables \<Rightarrow> u32) \<times> u32) list" where
  "sha1_steps = [(sha1_f_0_19, 0x5a827999), (sha1_f_20_39_60_79, 0x6ed9eba1),
     (sha1_f_40_59, 0x8f1bbcdc), (sha1_f_20_39_60_79, 0xca62c1d6)]"

record sha1_context =
  ctx_len :: nat
  ctx_ddd :: bytes

definition sha1_init :: "bytes \<Rightarrow> sha1_context" where
  "sha1_init mem = \<lparr>ctx_len = 0,
     ctx_ddd = concat (map (\<lambda>h. bytes32 (bswap_constant_32 h))
       [0x67452301, 0xefcdab89, 0x98badcfe, 0x10325476, 0xc3d2e1f0]) @ drop 20 mem\<rparr>"

text \<open>The loop that extends \<open>w[0..15]\<close> to \<open>w[0..79]\<close>.\<close>

definition sha1_expand :: "u32 list \<Rightarrow> u32 list" where
  "sha1_expand w = fold (\<lambda>i w. w @ [rol32 (w ! (i - 3) XOR w ! (i - 8) XOR w ! (i - 14) XOR w ! (i - 16)) 1])
     [16..<80] w"

definition sha1_step :: "u32 list \<Rightarrow> nat \<Rightarrow> sha1_variables \<Rightarrow> sha1_variables" where
  "sha1_step w i v =
     (let step = sha1_steps ! (i div 20);
          f = fst step v; k = snd step;
          temp = rol32 (var_a v) 5 + f + var_e v + k + w ! i
      in \<lparr>var_a = temp, var_b = var_a v, var_c = rol32 (var_b v) 30, var_d = var_c v, var_e = var_d v\<rparr>)"

definition sha1_digest :: "sha1_context \<Rightarrow> sha1_context" where
  "sha1_digest context =
     (let dwords = map (\<lambda>i. bswap_variable_32 (dword (ctx_ddd context) i)) [0..<21];
          w = sha1_expand (drop 5 dwords);
          v = fold (sha1_step w) [0..<80] \<lparr>var_a = dwords ! 0, var_b = dwords ! 1, var_c = dwords ! 2,
                var_d = dwords ! 3, var_e = dwords ! 4\<rparr>;
          h = [bswap_variable_32 (dwords ! 0 + var_a v), bswap_variable_32 (dwords ! 1 + var_b v),
               bswap_variable_32 (dwords ! 2 + var_c v), bswap_variable_32 (dwords ! 3 + var_d v),
               bswap_variable_32 (dwords ! 4 + var_e v)]
      in context\<lparr>ctx_ddd := concat (map bytes32 (h @ drop 5 dwords))\<rparr>)"

text \<open>The amount of data is a \<open>size_t\<close> of \<open>w\<close> bits.\<close>

definition sha1_byte :: "nat \<Rightarrow> sha1_context \<Rightarrow> u8 \<Rightarrow> sha1_context" where
  "sha1_byte w context byte =
     (let offset = ctx_len context mod 64;
          context = \<lparr>ctx_len = (ctx_len context + 1) mod 2 ^ w, ctx_ddd = (ctx_ddd context)[20 + offset := byte]\<rparr>
      in if ctx_len context mod 64 = 0 then sha1_digest context else context)"

definition sha1_update :: "nat \<Rightarrow> sha1_context \<Rightarrow> bytes \<Rightarrow> sha1_context" where
  "sha1_update w context data = foldl (sha1_byte w) context data"

text \<open>The loop that pads the data; it ends after at most 64 bytes.\<close>

fun sha1_pad :: "nat \<Rightarrow> nat \<Rightarrow> u8 \<Rightarrow> sha1_context \<Rightarrow> sha1_context result" where
  "sha1_pad w 0 pad context = Inl Fuel"
| "sha1_pad w (Suc fuel) pad context =
     (let context = sha1_update w context [pad]
      in if ctx_len context mod 64 \<noteq> 56 then sha1_pad w fuel 0 context else Inr context)"

definition sha1_final :: "nat \<Rightarrow> sha1_context \<Rightarrow> bytes result" where
  "sha1_final w context =
     (let len_bits = bytes64_be (of_nat (ctx_len context) * 8) in
      rbind (sha1_pad w 64 0x80 context) (\<lambda>context.
      let context = sha1_update w context len_bits in Inr (take 20 (ctx_ddd context))))"

section \<open>The standard\<close>

function sha1_W :: "u32 list \<Rightarrow> nat \<Rightarrow> u32" where
  "sha1_W M t = (if t < 16 then M ! t
     else rol32 (sha1_W M (t - 3) XOR sha1_W M (t - 8) XOR sha1_W M (t - 14) XOR sha1_W M (t - 16)) 1)"
  by pat_completeness auto
termination by (relation "measure snd") auto

declare sha1_W.simps [simp del]

type_synonym sha1_hash = "u32 \<times> u32 \<times> u32 \<times> u32 \<times> u32"

definition sha1_K :: "nat \<Rightarrow> u32" where
  "sha1_K t = (if t < 20 then 0x5a827999 else if t < 40 then 0x6ed9eba1
     else if t < 60 then 0x8f1bbcdc else 0xca62c1d6)"

definition sha1_F :: "nat \<Rightarrow> u32 \<Rightarrow> u32 \<Rightarrow> u32 \<Rightarrow> u32" where
  "sha1_F t x y z =
     (if t < 20 then (x AND y) XOR (NOT x AND z)
      else if 40 \<le> t \<and> t < 60 then (x AND y) XOR (x AND z) XOR (y AND z)
      else x XOR y XOR z)"

definition sha1_round :: "(nat \<Rightarrow> u32) \<Rightarrow> nat \<Rightarrow> sha1_hash \<Rightarrow> sha1_hash" where
  "sha1_round W t = (\<lambda>(a, b, c, d, e).
     (rol32 a 5 + sha1_F t b c d + e + sha1_K t + W t, a, rol32 b 30, c, d))"

definition sha1_add :: "sha1_hash \<Rightarrow> sha1_hash \<Rightarrow> sha1_hash" where
  "sha1_add = (\<lambda>(a, b, c, d, e) (a', b', c', d', e'). (a + a', b + b', c + c', d + d', e + e'))"

text \<open>Words of the message are big-endian.\<close>

definition be_words :: "nat \<Rightarrow> bytes \<Rightarrow> u32 list" where
  "be_words n bs = map (\<lambda>i. word32 (rev (window (4 * i) 4 bs))) [0..<n]"

definition sha1_block :: "bytes \<Rightarrow> sha1_hash \<Rightarrow> sha1_hash" where
  "sha1_block block H = sha1_add H (fold (sha1_round (sha1_W (be_words 16 block))) [0..<80] H)"

definition sha1_H0 :: sha1_hash where
  "sha1_H0 = (0x67452301, 0xefcdab89, 0x98badcfe, 0x10325476, 0xc3d2e1f0)"

definition sha1_blocks :: "bytes \<Rightarrow> sha1_hash" where
  "sha1_blocks msg = fold (\<lambda>i. sha1_block (window (64 * i) 64 msg)) [0..<length msg div 64] sha1_H0"

definition hash_bytes :: "sha1_hash \<Rightarrow> bytes" where
  "hash_bytes = (\<lambda>(a, b, c, d, e). concat (map (\<lambda>x. rev (bytes32 x)) [a, b, c, d, e]))"

definition sha1_padding :: "bytes \<Rightarrow> bytes" where
  "sha1_padding msg = msg @ 0x80 # replicate ((119 - length msg mod 64) mod 64) 0 @ bytes64_be (of_nat (length msg) * 8)"

definition sha1_spec :: "bytes \<Rightarrow> bytes" where
  "sha1_spec msg = hash_bytes (sha1_blocks (sha1_padding msg))"

section \<open>Bytes of words\<close>

lemma bytes32_word32: "length bs = 4 \<Longrightarrow> bytes32 (word32 bs) = bs"
proof -
  assume "length bs = 4"
  then obtain a b c d where bs: "bs = [a, b, c, d]"
    by (auto simp: numeral_eq_Suc length_Suc_conv)
  show ?thesis
    unfolding bs bytes32_def word32_def
    by (auto simp: bit_eq_iff bit_simps dest: bit_imp_le_length)
qed

lemma word32_bytes32: "word32 (bytes32 x) = x"
proof (rule bit_word_eqI)
  fix n assume "n < LENGTH(32)"
  then consider "n < 8" | "8 \<le> n" "n < 16" | "16 \<le> n" "n < 24" | "24 \<le> n" "n < 32" by fastforce
  then show "bit (word32 (bytes32 x)) n = bit x n"
    by cases (auto simp: bytes32_def word32_def bit_simps dest: bit_imp_le_length)
qed

lemma length_bytes32 [simp]: "length (bytes32 x) = 4"
  by (simp add: bytes32_def)

lemma bswap_word32: "length bs = 4 \<Longrightarrow> bswap_variable_32 (word32 bs) = word32 (rev bs)"
  by (simp add: bswap_variable_32_def bytes32_word32)

lemma bytes32_bswap: "bytes32 (bswap_variable_32 x) = rev (bytes32 x)"
  by (simp add: bswap_variable_32_def bytes32_word32)

lemma bswap_twice [simp]: "bswap_variable_32 (bswap_variable_32 x) = x"
  by (simp add: bswap_variable_32_def [of "bswap_variable_32 x"] bytes32_bswap word32_bytes32)

lemma byte_masks:
  "(0x000000ff :: u32) = mask 8" "(0x0000ff00 :: u32) = push_bit 8 (mask 8)"
  "(0x00ff0000 :: u32) = push_bit 16 (mask 8)" "(0xff000000 :: u32) = push_bit 24 (mask 8)"
  by (simp_all add: mask_eq_exp_minus_1 push_bit_eq_mult)

lemma bswap_constant_eq: "bswap_constant_32 x = bswap_variable_32 x"
proof (rule bit_word_eqI)
  fix n assume "n < LENGTH(32)"
  then consider "n < 8" | "8 \<le> n" "n < 16" | "16 \<le> n" "n < 24" | "24 \<le> n" "n < 32" by fastforce
  then show "bit (bswap_constant_32 x) n = bit (bswap_variable_32 x) n"
    unfolding bswap_constant_32_def byte_masks
    by cases (auto simp: bswap_variable_32_def bytes32_def word32_def bit_simps dest: bit_imp_le_length)
qed

section \<open>The code computes the standard\<close>

definition vars_hash :: "sha1_variables \<Rightarrow> sha1_hash" where
  "vars_hash v = (var_a v, var_b v, var_c v, var_d v, var_e v)"

lemma sha1_f_eq:
  "sha1_f_0_19 v = (var_b v AND var_c v) XOR (NOT (var_b v) AND var_d v)"
  "sha1_f_40_59 v = (var_b v AND var_c v) XOR (var_b v AND var_d v) XOR (var_c v AND var_d v)"
  by (rule bit_word_eqI, auto simp: sha1_f_0_19_def sha1_f_40_59_def bit_simps)+

lemma sha1_step_round:
  assumes "i < 80" "w ! i = W i"
  shows "vars_hash (sha1_step w i v) = sha1_round W i (vars_hash v)"
proof -
  have "i div 20 = (if i < 20 then 0 else if i < 40 then 1 else if i < 60 then 2 else 3)" using assms(1) by auto
  then show ?thesis
    using assms unfolding sha1_step_def Let_def
    by (auto simp: vars_hash_def sha1_round_def sha1_F_def sha1_K_def sha1_steps_def sha1_f_eq
        sha1_f_20_39_60_79_def)
qed

lemma sha1_rounds:
  assumes "\<forall>i < 80. w ! i = W i"
  shows "n \<le> 80 \<Longrightarrow> vars_hash (fold (sha1_step w) [0..<n] v) = fold (sha1_round W) [0..<n] (vars_hash v)"
  by (induction n) (simp_all add: sha1_step_round assms)

lemma sha1_expand_prefix:
  assumes "length M = 16"
  shows "16 \<le> n \<Longrightarrow> fold (\<lambda>i w. w @ [rol32 (w ! (i - 3) XOR w ! (i - 8) XOR w ! (i - 14) XOR w ! (i - 16)) 1]) [16..<n] M
     = map (sha1_W M) [0..<n]"
proof (induction n rule: dec_induct)
  case base
  have "map (sha1_W M) [0..<16] = map ((!) M) [0..<16]"
    by (rule map_cong) (auto simp: sha1_W.simps [of M])
  also have "\<dots> = M" using assms map_nth [of M] by simp
  finally show ?case by simp
next
  case (step n)
  then show ?case by (simp add: sha1_W.simps [of M n])
qed

lemma sha1_expand_W: "length M = 16 \<Longrightarrow> sha1_expand M = map (sha1_W M) [0..<80]"
  unfolding sha1_expand_def by (rule sha1_expand_prefix) simp_all

text \<open>A context after some full blocks: the digest so far and the bytes of the block in memory.\<close>

lemma length_hash_bytes [simp]: "length (hash_bytes H) = 20"
  by (cases H) (simp add: hash_bytes_def)

lemma dword_data: "dword (hash_bytes H @ data) (5 + i) = word32 (window (4 * i) 4 data)"
  by (simp add: dword_def window_def)

lemma upt_21: "[0..<21] = [0, 1, 2, 3, 4] @ map (\<lambda>i. 5 + i) [0..<16]"
  by (simp add: upt_rec)

lemma dword_hash:
  assumes "length data = 64"
  shows "map (\<lambda>i. bswap_variable_32 (dword (hash_bytes (a, b, c, d, e) @ data) i)) [0..<21] =
     [a, b, c, d, e] @ be_words 16 data"
proof -
  have "bswap_variable_32 (word32 (window (4 * i) 4 data)) = word32 (rev (window (4 * i) 4 data))" if "i < 16" for i
    using assms that by (intro bswap_word32) simp
  then have "map (\<lambda>i. bswap_variable_32 (dword (hash_bytes (a, b, c, d, e) @ data) (5 + i))) [0..<16] = be_words 16 data"
    by (simp add: be_words_def dword_data)
  moreover have "map (\<lambda>i. bswap_variable_32 (dword (hash_bytes (a, b, c, d, e) @ data) i)) [0, 1, 2, 3, 4] = [a, b, c, d, e]"
    by (simp add: dword_def window_def hash_bytes_def bswap_word32 word32_bytes32)
  ultimately show ?thesis unfolding upt_21 map_append map_map comp_def by simp
qed

lemma sha1_digest_block:
  assumes "length data = 64" "ctx_ddd ctx = hash_bytes H @ data"
  shows "\<exists>data'. length data' = 64 \<and> sha1_digest ctx = ctx\<lparr>ctx_ddd := hash_bytes (sha1_block data H) @ data'\<rparr>"
proof -
  obtain a b c d e where H: "H = (a, b, c, d, e)" by (cases H)
  let ?M = "be_words 16 data"
  let ?init = "\<lparr>var_a = a, var_b = b, var_c = c, var_d = d, var_e = e\<rparr>"
  let ?v = "fold (sha1_step (sha1_expand ?M)) [0..<80] ?init"
  have M: "length ?M = 16" by (simp add: be_words_def)
  have "vars_hash ?v = fold (sha1_round (sha1_W ?M)) [0..<80] (vars_hash ?init)"
    by (rule sha1_rounds) (simp_all add: sha1_expand_W [OF M])
  then have block: "sha1_block data H = sha1_add H (vars_hash ?v)"
    by (simp add: sha1_block_def H vars_hash_def)
  have dw: "map (\<lambda>i. bswap_variable_32 (dword (ctx_ddd ctx) i)) [0..<21] = [a, b, c, d, e] @ ?M"
    unfolding assms(2) H by (rule dword_hash [OF assms(1)])
  have "sha1_digest ctx = ctx\<lparr>ctx_ddd := hash_bytes (sha1_block data H) @ concat (map bytes32 ?M)\<rparr>"
    unfolding sha1_digest_def dw Let_def block
    by (simp add: H hash_bytes_def sha1_add_def vars_hash_def bytes32_bswap)
  moreover have "length (concat (map bytes32 ?M)) = 64"
    using M by (simp add: length_concat comp_def sum_list_triv)
  ultimately show ?thesis by blast
qed

section \<open>Contexts and messages\<close>

text \<open>The length is that of the message modulo the size of the type; for \<open>w \<ge> 6\<close> this does not change its place within a block.\<close>

definition sha1_ctx :: "nat \<Rightarrow> bytes \<Rightarrow> sha1_context \<Rightarrow> bool" where
  "sha1_ctx w msg ctx \<longleftrightarrow> 6 \<le> w \<and> ctx_len ctx = length msg mod 2 ^ w \<and>
     (\<exists>data. length data = 64 \<and> ctx_ddd ctx = hash_bytes (sha1_blocks msg) @ data
        \<and> take (length msg mod 64) data = drop (64 * (length msg div 64)) msg)"

lemma length_mod_64: "6 \<le> w \<Longrightarrow> n mod 2 ^ w mod 64 = n mod (64 :: nat)"
  using mod_mod_cancel [of "2 ^ 6" "2 ^ w" n] le_imp_power_dvd [of 6 w "2 :: nat"] by simp

lemma sha1_init_ctx: "6 \<le> w \<Longrightarrow> length mem = 84 \<Longrightarrow> sha1_ctx w [] (sha1_init mem)"
  by (auto simp: sha1_ctx_def sha1_init_def sha1_blocks_def sha1_H0_def hash_bytes_def
      bswap_constant_eq bytes32_bswap intro!: exI [of _ "drop 20 mem"])

lemma block_full:
  assumes "Suc m mod 64 = 0"
  shows "Suc m div 64 = Suc (m div 64)" "Suc (m mod 64) = 64" "64 * (m div 64) + 64 = Suc m"
    "64 * (Suc m div 64) = Suc m"
proof -
  show "Suc m div 64 = Suc (m div 64)" using assms by (simp add: div_Suc)
  show "Suc (m mod 64) = 64" using assms by (simp add: mod_Suc split: if_splits)
  then show "64 * (m div 64) + 64 = Suc m" using mult_div_mod_eq [of 64 m] by linarith
  show "64 * (Suc m div 64) = Suc m" using assms mult_div_mod_eq [of 64 "Suc m"] by linarith
qed

lemma block_partial:
  assumes "Suc m mod 64 \<noteq> 0"
  shows "Suc m div 64 = m div 64" "Suc m mod 64 = Suc (m mod 64)"
  using assms by (simp add: div_Suc) (use assms in \<open>simp add: mod_Suc split: if_splits\<close>)

lemma sha1_blocks_snoc:
  "sha1_blocks (msg @ [b]) = (if Suc (length msg) mod 64 = 0
     then sha1_block (drop (64 * (length msg div 64)) (msg @ [b])) (sha1_blocks msg) else sha1_blocks msg)"
proof -
  let ?n = "length msg div 64"
  have old: "fold (\<lambda>i. sha1_block (window (64 * i) 64 (msg @ [b]))) [0..<?n] sha1_H0 = sha1_blocks msg"
    unfolding sha1_blocks_def
  proof (rule fold_cong)
    fix i assume "i \<in> set [0..<?n]"
    then have "64 * i + 64 \<le> length msg" by auto
    then show "sha1_block (window (64 * i) 64 (msg @ [b])) = sha1_block (window (64 * i) 64 msg)"
      by (simp add: window_def)
  qed simp_all
  show ?thesis
  proof (cases "Suc (length msg) mod 64 = 0")
    case True
    have last: "window (64 * ?n) 64 (msg @ [b]) = drop (64 * ?n) (msg @ [b])"
      unfolding window_def by (rule take_all) (use block_full(3) [OF True] in simp)
    have "sha1_blocks (msg @ [b]) = fold (\<lambda>i. sha1_block (window (64 * i) 64 (msg @ [b]))) [0..<Suc ?n] sha1_H0"
      unfolding sha1_blocks_def length_append_singleton block_full(1) [OF True] ..
    also have "\<dots> = sha1_block (drop (64 * ?n) (msg @ [b])) (sha1_blocks msg)"
      unfolding last [symmetric] old [symmetric] by simp
    finally show ?thesis using True by simp
  next
    case False
    from block_partial [OF this] False old show ?thesis by (simp add: sha1_blocks_def)
  qed
qed

lemma sha1_byte_ctx:
  assumes "sha1_ctx w msg ctx"
  shows "sha1_ctx w (msg @ [b]) (sha1_byte w ctx b)"
proof -
  let ?off = "length msg mod 64"
  obtain data where data: "length data = 64" "ctx_ddd ctx = hash_bytes (sha1_blocks msg) @ data"
      "take ?off data = drop (64 * (length msg div 64)) msg" and len: "ctx_len ctx = length msg mod 2 ^ w" and w: "6 \<le> w"
    using assms by (auto simp: sha1_ctx_def)
  let ?data = "data[?off := b]"
  let ?ctx = "\<lparr>ctx_len = Suc (length msg) mod 2 ^ w, ctx_ddd = hash_bytes (sha1_blocks msg) @ ?data\<rparr>"
  have byte: "sha1_byte w ctx b = (if Suc (length msg) mod 64 = 0 then sha1_digest ?ctx else ?ctx)"
    by (simp add: sha1_byte_def len data(2) list_update_append length_mod_64 [OF w] mod_Suc_eq)
  have off: "?off < 64" by simp
  have "64 * (length msg div 64) \<le> length msg" by simp
  then have "drop (64 * (length msg div 64)) (msg @ [b]) = take ?off data @ [b]" using data(3) by simp
  also have "\<dots> = take (Suc ?off) ?data" using data(1) off by (simp add: take_Suc_conv_app_nth)
  finally have tail: "drop (64 * (length msg div 64)) (msg @ [b]) = take (Suc ?off) ?data" .
  show ?thesis
  proof (cases "Suc (length msg) mod 64 = 0")
    case True
    then have "Suc ?off = 64" by (rule block_full)
    then have full: "drop (64 * (length msg div 64)) (msg @ [b]) = ?data" using tail data(1) by simp
    have "length ?data = 64" using data(1) by simp
    from sha1_digest_block [OF this, of ?ctx "sha1_blocks msg"] obtain data' where "length data' = 64"
      "sha1_digest ?ctx = ?ctx\<lparr>ctx_ddd := hash_bytes (sha1_block ?data (sha1_blocks msg)) @ data'\<rparr>" by auto
    moreover have "64 * (Suc (length msg) div 64) = Suc (length msg)" using True by (rule block_full)
    ultimately show ?thesis using True full using w by (auto simp: sha1_ctx_def byte sha1_blocks_snoc)
  next
    case False
    from block_partial [OF this] False tail data(1) show ?thesis using w by (auto simp: sha1_ctx_def byte sha1_blocks_snoc)
  qed
qed

lemma sha1_update_ctx: "sha1_ctx w msg ctx \<Longrightarrow> sha1_ctx w (msg @ data) (sha1_update w ctx data)"
  unfolding sha1_update_def
proof (induction data arbitrary: msg ctx)
  case (Cons b data)
  from Cons.IH [OF sha1_byte_ctx [OF Cons.prems, of b]] show ?case by simp
qed simp

lemma sha1_updates_ctx:
  "sha1_ctx w msg ctx \<Longrightarrow> sha1_ctx w (msg @ concat pieces) (foldl (sha1_update w) ctx pieces)"
proof (induction pieces arbitrary: msg ctx)
  case (Cons p pieces)
  from Cons.IH [OF sha1_update_ctx [OF Cons.prems, of p]] show ?case by simp
qed simp

text \<open>The number of zero bytes in the padding, as the data grows by one byte.\<close>

lemma pad_mod: "r < 64 \<Longrightarrow> (119 - r) mod 64 = (if r \<le> 55 then 55 - r else 119 - r)" for r :: nat
proof (cases "r \<le> 55")
  case True
  then have "119 - r = 64 + (55 - r)" by simp
  then have "(119 - r) mod 64 = (55 - r) mod 64" by (simp only: mod_add_self1)
  with True show ?thesis by simp
qed simp

lemma pad_count:
  assumes "r < 64"
  shows "if Suc r mod 64 = 56 then (119 - r) mod 64 = 0
     else (119 - r) mod 64 = Suc ((119 - Suc r mod 64) mod 64)"
proof (cases "r = 63")
  case False
  then have "Suc r mod 64 = Suc r" "Suc r < 64" using assms by simp_all
  with assms show ?thesis by (auto simp only: pad_mod split: if_splits)
qed simp

lemma sha1_pad_ctx:
  assumes "sha1_ctx w msg ctx" "(119 - length msg mod 64) mod 64 < fuel"
  shows "\<exists>ctx'. sha1_pad w fuel pad ctx = Inr ctx' \<and>
     sha1_ctx w (msg @ pad # replicate ((119 - length msg mod 64) mod 64) 0) ctx'"
  using assms
proof (induction fuel arbitrary: pad msg ctx)
  case (Suc fuel)
  let ?n = "(119 - length msg mod 64) mod 64"
  have ctx: "sha1_ctx w (msg @ [pad]) (sha1_update w ctx [pad])" using sha1_update_ctx [OF Suc.prems(1)] .
  then have len: "ctx_len (sha1_update w ctx [pad]) mod 64 = Suc (length msg) mod 64" by (simp add: sha1_ctx_def length_mod_64)
  have count: "if Suc (length msg) mod 64 = 56 then ?n = 0
      else ?n = Suc ((119 - length (msg @ [pad]) mod 64) mod 64)"
    using pad_count [of "length msg mod 64"] by (simp add: mod_Suc_eq)
  show ?case
  proof (cases "Suc (length msg) mod 64 = 56")
    case True
    with count ctx len show ?thesis by simp
  next
    case False
    with count have n: "?n = Suc ((119 - length (msg @ [pad]) mod 64) mod 64)" by simp
    with Suc.IH [OF ctx, of 0] Suc.prems(2) False len show ?thesis by simp
  qed
qed simp

lemma length_bytes64_be [simp]: "length (bytes64_be x) = 8"
  by (simp add: bytes64_be_def)

lemma sha1_final_ctx:
  assumes ctx: "sha1_ctx w msg context" and short: "length msg < 2 ^ w"
  shows "sha1_final w context = Inr (sha1_spec msg)"
proof -
  have len: "ctx_len context = length msg" using ctx short by (simp add: sha1_ctx_def)
  obtain ctx' where "sha1_pad w 64 0x80 context = Inr ctx'"
      "sha1_ctx w (msg @ 0x80 # replicate ((119 - length msg mod 64) mod 64) 0) ctx'"
    using sha1_pad_ctx [OF ctx, of 64 "0x80"] by auto
  moreover from sha1_update_ctx [OF this(2), of "bytes64_be (of_nat (length msg) * 8)"]
  have "sha1_ctx w (sha1_padding msg) (sha1_update w ctx' (bytes64_be (of_nat (length msg) * 8)))"
    by (simp add: sha1_padding_def)
  ultimately show ?thesis
    by (auto simp: sha1_final_def len sha1_ctx_def sha1_spec_def simp del: sha1_pad.simps)
qed

section \<open>Properties\<close>

text \<open>
  C24: For any message whose length is within a \<open>size_t\<close> of \<open>w\<close> bits (32 in the BIOS loader), given in any number of
  pieces and on any initial memory, initialising a context, adding the pieces to it and finishing it terminates and
  yields the SHA-1 digest of the message.
\<close>

theorem sha1_refines_spec:
  assumes "length mem = 84" "6 \<le> w" "length (concat pieces) < 2 ^ w"
  shows "sha1_final w (foldl (sha1_update w) (sha1_init mem) pieces) = Inr (sha1_spec (concat pieces))"
  using sha1_updates_ctx [OF sha1_init_ctx [OF assms(2,1)], of pieces] assms(3) by (simp add: sha1_final_ctx)

theorem sha1_refines_spec_witness:
  "sha1_final 32 (sha1_update 32 (sha1_update 32 (sha1_init (replicate 84 0)) [0x61]) [0x62, 0x63]) = Inr (sha1_spec [0x61, 0x62, 0x63])"
  using sha1_refines_spec [of "replicate 84 0" 32 "[[0x61], [0x62, 0x63]]"] by simp

end
