(* ===== verification/Cpio.thy ===== *)
theory Cpio
  imports Cstring
begin

text \<open>
  CPIO archives (\<open>cpio.c\<close>, \<open>cpio.h\<close>), as the 32-bit loader unpacks its initrd. A pointer is the list of
  bytes from there on; lengths are 32-bit, with the wrap-around of \<open>size_t\<close> written out. The
  handler for a file is a function of a state of the caller, the pointers to the name and to the
  data, and the length; it fails with an error as the C function does with a non-zero status.

  The round trip is stated for the archives that \<open>cpio_archive\<close> builds. An entry whose length wraps
  around to zero makes the loop repeat for ever; the loop is therefore given a bound.
\<close>

section \<open>Extraction\<close>

definition cpio_align :: "nat \<Rightarrow> nat" where
  "cpio_align len = (len + 3) mod 2 ^ 32 div 4 * 4"

definition cpio_value :: "bytes \<Rightarrow> nat \<Rightarrow> nat result" where
  "cpio_value data field =
     rbind (rd_bytes data field 8) (\<lambda>buf. rbind (strtoul 32 (buf @ [0]) 16) (\<lambda>(val, endp). Inr val))"

definition CPIO_MAGIC :: bytes where
  "CPIO_MAGIC = [0x30, 0x37, 0x30, 0x37, 0x30, 0x31]"

definition CPIO_TRAILER :: bytes where
  "CPIO_TRAILER = [0x54, 0x52, 0x41, 0x49, 0x4c, 0x45, 0x52, 0x21, 0x21, 0x21, 0]"

text \<open>The size of the header and the offsets of the two members that are used.\<close>

definition cpio_header_size :: nat where "cpio_header_size = 6 + 13 * 8"
definition c_filesize :: nat where "c_filesize = 6 + 6 * 8"
definition c_namesize :: nat where "c_namesize = 6 + 11 * 8"

lemmas cpio_offsets = cpio_header_size_def c_filesize_def c_namesize_def

function cpio_skip :: "bytes \<Rightarrow> nat \<Rightarrow> (bytes \<times> nat) result" where
  "cpio_skip data len =
     (if len \<ge> 4 then
        rbind (rd32 data 0) (\<lambda>pad. if pad \<noteq> 0 then Inr (data, len) else cpio_skip (drop 4 data) (len - 4))
      else Inr (data, len))"
  by pat_completeness auto
termination by (relation "measure snd") auto

declare cpio_skip.simps [simp del]

text \<open>The parameters of the entry at \<open>data\<close>: offset of the data, length of the data, length of the entry.\<close>

definition cpio_entry :: "bytes \<Rightarrow> nat \<Rightarrow> (nat \<times> nat \<times> nat) result" where
  "cpio_entry data len =
     (if len < cpio_header_size then Inl Fail
      else rbind (memcmp data CPIO_MAGIC 6) (\<lambda>diff.
        if diff \<noteq> 0 then Inl Fail
        else rbind (cpio_value data c_namesize) (\<lambda>file_name_len.
          rbind (cpio_value data c_filesize) (\<lambda>file_len.
          let file_data = cpio_align ((cpio_header_size + file_name_len) mod 2 ^ 32);
              cpio_len = (file_data + file_len) mod 2 ^ 32;
              cpio_len = (if cpio_len < len then cpio_align cpio_len else cpio_len)
          in if cpio_len > len then Inl Fail else Inr (file_data, file_len, cpio_len)))))"

fun cpio_extract :: "nat \<Rightarrow> bytes \<Rightarrow> nat \<Rightarrow> ('s \<Rightarrow> bytes \<Rightarrow> nat \<Rightarrow> bytes \<Rightarrow> nat \<Rightarrow> 's result) \<Rightarrow> 's \<Rightarrow> 's result" where
  "cpio_extract 0 data len file s = Inl Fuel"
| "cpio_extract (Suc fuel) data len file s =
     rbind (cpio_skip data len) (\<lambda>(data, len).
     if len = 0 then Inr s
     else rbind (cpio_entry data len) (\<lambda>(file_data, file_len, cpio_len).
       let file_name = drop cpio_header_size data in
       rbind (strcmp file_name CPIO_TRAILER) (\<lambda>diff.
       if diff = 0 then Inr s
       else rbind (file s data cpio_header_size (drop file_data data) file_len) (\<lambda>s.
         cpio_extract fuel (drop cpio_len data) (len - cpio_len) file s))))"

section \<open>Archives\<close>

text \<open>Zero bytes up to the next multiple of four.\<close>

definition pad4 :: "bytes \<Rightarrow> bytes" where
  "pad4 bs = bs @ replicate ((4 - length bs mod 4) mod 4) 0"

definition cpio_header :: "nat \<Rightarrow> nat \<Rightarrow> bytes" where
  "cpio_header namesize filesize = CPIO_MAGIC @ concat (replicate 6 (hexfield 8 0)) @ hexfield 8 filesize
     @ concat (replicate 4 (hexfield 8 0)) @ hexfield 8 namesize @ hexfield 8 0"

definition cpio_file :: "bytes \<times> bytes \<Rightarrow> bytes" where
  "cpio_file = (\<lambda>(name, contents).
     pad4 (cpio_header (length name + 1) (length contents) @ name @ [0]) @ pad4 contents)"

definition cpio_archive :: "(bytes \<times> bytes) list \<Rightarrow> bytes" where
  "cpio_archive files = concat (map cpio_file files) @ cpio_file (butlast CPIO_TRAILER, [])"

definition cpio_name_ok :: "bytes \<Rightarrow> bool" where
  "cpio_name_ok name \<longleftrightarrow> 0 \<notin> set name \<and> name \<noteq> butlast CPIO_TRAILER"

lemma length_pad4: "length (pad4 bs) = (length bs + 3) div 4 * 4"
proof -
  obtain q r where n: "length bs = 4 * q + r" "r < 4" using mult_div_mod_eq [of 4 "length bs"] by (metis mod_less_divisor zero_less_numeral)
  then have "r = 0 \<or> r = 1 \<or> r = 2 \<or> r = 3" by linarith
  with n(1) show ?thesis by (auto simp: pad4_def)
qed

lemma cpio_align_small: "n + 3 < 2 ^ 32 \<Longrightarrow> cpio_align n = (n + 3) div 4 * 4"
  by (simp add: cpio_align_def)

lemma length_CPIO_MAGIC [simp]: "length CPIO_MAGIC = 6"
  by (simp add: CPIO_MAGIC_def)

lemma length_fields: "length (concat (replicate k (hexfield 8 0))) = k * 8"
  by (induction k) simp_all

lemma length_cpio_header [simp]: "length (cpio_header m n) = 110"
  by (simp add: cpio_header_def length_fields)

lemma window_middle: "length xs = off \<Longrightarrow> length ys = n \<Longrightarrow> window off n (xs @ ys @ zs) = ys"
  by (simp add: window_def)

lemma cpio_header_fields:
  "window c_namesize 8 (cpio_header m n @ rest) = hexfield 8 m"
  "window c_filesize 8 (cpio_header m n @ rest) = hexfield 8 n"
  "take 6 (cpio_header m n @ rest) = CPIO_MAGIC"
proof -
  have "cpio_header m n @ rest = (CPIO_MAGIC @ concat (replicate 6 (hexfield 8 0)) @ hexfield 8 n
     @ concat (replicate 4 (hexfield 8 0))) @ hexfield 8 m @ (hexfield 8 0 @ rest)"
    by (simp add: cpio_header_def)
  then show "window c_namesize 8 (cpio_header m n @ rest) = hexfield 8 m"
    by (simp only:) (rule window_middle, simp_all add: length_fields c_namesize_def)
  have "cpio_header m n @ rest = (CPIO_MAGIC @ concat (replicate 6 (hexfield 8 0))) @ hexfield 8 n
     @ (concat (replicate 4 (hexfield 8 0)) @ hexfield 8 m @ hexfield 8 0 @ rest)"
    by (simp add: cpio_header_def)
  then show "window c_filesize 8 (cpio_header m n @ rest) = hexfield 8 n"
    by (simp only:) (rule window_middle, simp_all add: length_fields c_filesize_def)
  show "take 6 (cpio_header m n @ rest) = CPIO_MAGIC" by (simp add: cpio_header_def)
qed

lemma memcmp_prefix: "length m = n \<Longrightarrow> take n data = m \<Longrightarrow> memcmp data m n = Inr 0"
proof (induction n arbitrary: data m)
  case (Suc n)
  then obtain c m' d where "m = c # m'" "data = c # d" by (cases m; cases data) auto
  with Suc show ?case by (simp add: rd8_def)
qed simp

lemma cpio_value_field:
  assumes "window field 8 data = hexfield 8 n" "field + 8 \<le> length data" "n < 2 ^ 32"
  shows "cpio_value data field = Inr n"
proof -
  have "strtoul 32 (hexfield 8 n @ 0 # []) 16 = Inr (n, [0])"
    using assms(3) by (intro strtoul_hexfield_value) (simp_all add: strtoul_digit_def)
  with assms(1,2) show ?thesis by (simp add: cpio_value_def rd_bytes_def)
qed

lemma cpio_skip_magic:
  assumes "take 6 data = CPIO_MAGIC" "4 \<le> len"
  shows "cpio_skip data len = Inr (data, len)"
proof -
  have "length data \<ge> 6" using assms(1) by (metis length_CPIO_MAGIC length_take min.bounded_iff order_refl)
  moreover have "data ! 0 = 0x30" using assms(1) by (metis CPIO_MAGIC_def nth_Cons_0 nth_take zero_less_numeral)
  moreover have "data \<noteq> []" using calculation(1) by auto
  ultimately obtain pad where "rd32 data 0 = Inr pad" "pad \<noteq> 0"
    by (simp add: rd32_def rd16_def rd8_def)
  with assms(2) show ?thesis by (simp add: cpio_skip.simps [of data len])
qed

lemma align4_add: "(4 * k + n + 3) div 4 * 4 = 4 * k + (n + 3) div 4 * 4" for n :: nat
proof -
  have "(4 * k + (n + 3)) div 4 = k + (n + 3) div 4" by (rule div_mult_self4) simp
  then show ?thesis by (simp add: add.assoc)
qed

lemma cpio_file_split:
  "cpio_file (name, contents) = pad4 (cpio_header (length name + 1) (length contents) @ name @ [0]) @ pad4 contents"
  by (simp add: cpio_file_def)

lemma cpio_file_starts: "cpio_file (name, contents) @ rest = cpio_header (length name + 1) (length contents) @ name @ 0 #
    replicate ((4 - length (cpio_header (length name + 1) (length contents) @ name @ [0]) mod 4) mod 4) 0 @ pad4 contents @ rest"
  by (simp add: cpio_file_split pad4_def)

lemma cpio_entry_file:
  assumes "length (cpio_file (name, contents)) \<le> len" "len < 2 ^ 32 - 4"
  shows "cpio_entry (cpio_file (name, contents) @ rest) len =
     Inr (length (pad4 (cpio_header (length name + 1) (length contents) @ name @ [0])), length contents,
          length (cpio_file (name, contents)))"
proof -
  let ?data = "cpio_file (name, contents) @ rest"
  define fd where "fd = length (pad4 (cpio_header (length name + 1) (length contents) @ name @ [0]))"
  define total where "total = length (cpio_file (name, contents))"
  have fd: "fd = (length name + 114) div 4 * 4" by (simp add: fd_def length_pad4)
  have total: "total = fd + (length contents + 3) div 4 * 4"
    by (simp add: total_def fd_def cpio_file_split length_pad4)
  have small: "length name + 114 < 2 ^ 32" "fd + length contents + 3 < 2 ^ 32" "fd + length contents \<le> len"
    using assms total fd by (unfold total_def [symmetric]) linarith+
  have len: "110 \<le> len" "110 \<le> length ?data" using assms(1) total fd unfolding total_def [symmetric] by (auto simp: cpio_file_starts)
  note fields = cpio_header_fields [of "length name + 1" "length contents"]
  have "cpio_value ?data c_namesize = Inr (length name + 1)" "cpio_value ?data c_filesize = Inr (length contents)"
    using small len(2) fields unfolding cpio_file_starts
    by (intro cpio_value_field; simp add: cpio_offsets)+
  moreover have "memcmp ?data CPIO_MAGIC 6 = Inr 0"
    using fields by (intro memcmp_prefix) (simp_all add: cpio_file_starts)
  moreover have "cpio_align (cpio_header_size + (length name + 1)) = fd"
    using small fd by (simp add: cpio_align_small cpio_offsets)
  moreover have "(if fd + length contents < len then cpio_align (fd + length contents) else fd + length contents) =
      total"
  proof (cases "fd + length contents < len")
    case True
    have "cpio_align (fd + length contents) = (fd + length contents + 3) div 4 * 4"
      by (rule cpio_align_small) (use small in simp)
    also have "\<dots> = fd + (length contents + 3) div 4 * 4"
      unfolding fd using align4_add [of "(length name + 114) div 4" "length contents"] by (simp add: mult.commute)
    finally show ?thesis using True total by simp
  next
    case False
    then show ?thesis using assms(1) total small(3) unfolding total_def [symmetric] by simp
  qed
  ultimately show ?thesis
    using assms small len(1) unfolding fd_def [symmetric] total_def [symmetric] cpio_entry_def Let_def
    by (auto simp: cpio_header_size_def split: if_splits)
qed

section \<open>Properties\<close>

text \<open>A handler that only looks at the name and the contents of a file.\<close>

definition on_file :: "('s \<Rightarrow> bytes \<Rightarrow> bytes \<Rightarrow> 's result) \<Rightarrow> 's \<Rightarrow> bytes \<Rightarrow> nat \<Rightarrow> bytes \<Rightarrow> nat \<Rightarrow> 's result" where
  "on_file h s entry name data len = h s (cstring (drop name entry)) (take len data)"

text \<open>The files of an archive, handled one after the other up to the first error.\<close>

fun handle_files :: "('s \<Rightarrow> bytes \<Rightarrow> bytes \<Rightarrow> 's result) \<Rightarrow> (bytes \<times> bytes) list \<Rightarrow> 's \<Rightarrow> 's result" where
  "handle_files h [] s = Inr s"
| "handle_files h ((name, contents) # files) s = rbind (h s name contents) (\<lambda>s. handle_files h files s)"

lemma cpio_step_any:
  assumes "0 \<notin> set name" "length (cpio_file (name, contents) @ rest) < 2 ^ 32 - 4"
  defines "data \<equiv> cpio_file (name, contents) @ rest"
  shows "\<exists>zeros. drop cpio_header_size data = name @ 0 # zeros \<and>
     cpio_extract (Suc fuel) data (length data) file s =
       (if name = butlast CPIO_TRAILER then Inr s
        else rbind (file s data cpio_header_size (pad4 contents @ rest) (length contents))
          (\<lambda>s. cpio_extract fuel rest (length rest) file s))"
proof -
  define n where "n = length (cpio_file (name, contents))"
  let ?hd = "pad4 (cpio_header (length name + 1) (length contents) @ name @ [0])"
  have skip: "cpio_skip data (length data) = Inr (data, length data)"
    using cpio_header_fields(3) by (intro cpio_skip_magic) (auto simp: data_def cpio_file_starts)
  have entry: "cpio_entry data (length data) = Inr (length ?hd, length contents, n)"
    unfolding data_def n_def using assms(2) by (intro cpio_entry_file) auto
  obtain zeros where zeros: "drop cpio_header_size data = name @ 0 # zeros"
    by (simp add: data_def cpio_file_starts cpio_header_size_def)
  then have name: "cstring (drop cpio_header_size data) = name" "terminated (drop cpio_header_size data)"
    using assms(1) by simp_all
  have trailer: "terminated CPIO_TRAILER" "cstring CPIO_TRAILER = butlast CPIO_TRAILER"
    by (simp_all add: CPIO_TRAILER_def)
  obtain d where d: "strcmp (drop cpio_header_size data) CPIO_TRAILER = Inr d" "d = 0 \<longleftrightarrow> name = butlast CPIO_TRAILER"
    using strcmp_equal [OF name(2) trailer(1)] name(1) trailer(2) by metis
  have body: "drop (length ?hd) data = pad4 contents @ rest" by (simp add: data_def cpio_file_split)
  have rest: "drop n data = rest" "length data - n = length rest" by (simp_all add: data_def n_def)
  have "data \<noteq> []" by (simp add: data_def cpio_file_starts flip: length_greater_0_conv)
  with skip entry d body rest zeros show ?thesis by (simp add: Let_def)
qed

lemma cpio_step:
  assumes "0 \<notin> set name" "length (cpio_file (name, contents) @ rest) < 2 ^ 32 - 4"
  shows "cpio_extract (Suc fuel) (cpio_file (name, contents) @ rest) (length (cpio_file (name, contents) @ rest)) (on_file h) s =
     (if name = butlast CPIO_TRAILER then Inr s
      else rbind (h s name contents) (\<lambda>s. cpio_extract fuel rest (length rest) (on_file h) s))"
proof -
  have "take (length contents) (pad4 contents @ rest) = contents" by (simp add: pad4_def)
  with cpio_step_any [OF assms, of fuel "on_file h" s] assms(1) show ?thesis
    by (auto simp: on_file_def simp del: cpio_extract.simps)
qed

lemma cpio_extract_files:
  "length (cpio_archive files) < 2 ^ 32 - 4 \<Longrightarrow> \<forall>(name, contents) \<in> set files. cpio_name_ok name \<Longrightarrow>
   length files < fuel \<Longrightarrow>
   cpio_extract fuel (cpio_archive files) (length (cpio_archive files)) (on_file h) s = handle_files h files s"
proof (induction files arbitrary: fuel s)
  case Nil
  then obtain f where "fuel = Suc f" by (cases fuel) auto
  with Nil cpio_step [of "butlast CPIO_TRAILER" "[]" "[]" f h s] show ?case
    by (simp add: cpio_archive_def CPIO_TRAILER_def)
next
  case (Cons entry files)
  obtain name contents where entry: "entry = (name, contents)" by (cases entry)
  obtain f where f: "fuel = Suc f" "length files < f" using Cons.prems(3) by (cases fuel) auto
  have arch: "cpio_archive ((name, contents) # files) = cpio_file (name, contents) @ cpio_archive files"
    by (simp add: cpio_archive_def)
  have ok: "0 \<notin> set name" "name \<noteq> butlast CPIO_TRAILER" using Cons.prems(2) entry by (auto simp: cpio_name_ok_def)
  have IH: "cpio_extract f (cpio_archive files) (length (cpio_archive files)) (on_file h) s' = handle_files h files s'" for s'
    using Cons.prems f arch entry by (intro Cons.IH) auto
  have "length (cpio_file (name, contents) @ cpio_archive files) < 2 ^ 32 - 4" using Cons.prems(1) arch entry by simp
  from cpio_step [OF ok(1) this, of f h s] ok(2) show ?case
    unfolding entry f(1) unfolding arch IH handle_files.simps by simp
qed

text \<open>
  C25: Extracting an archive that was built from a list of files, of less than 4 GiB in all, calls the handler
  for each of them in order, with its name and its contents, stops at the first error of the
  handler, and ends at the trailer.
\<close>

theorem cpio_extract_roundtrip:
  assumes "length (cpio_archive files) < 2 ^ 32 - 4" "\<forall>(name, contents) \<in> set files. cpio_name_ok name"
  shows "cpio_extract (length files + 1) (cpio_archive files) (length (cpio_archive files)) (on_file h) s
     = handle_files h files s"
  using assms by (rule cpio_extract_files) simp

theorem cpio_extract_roundtrip_witness:
  "cpio_extract 3 (cpio_archive [([0x61], [1, 2, 3]), ([0x62], [])])
     (length (cpio_archive [([0x61], [1, 2, 3]), ([0x62], [])]))
     (on_file (\<lambda>s name contents. Inr (s @ [(name, length contents)]))) [] = Inr [([0x61], 3), ([0x62], 0)]"
proof -
  let ?files = "[([0x61], [1, 2, 3]), ([0x62], [])] :: (bytes \<times> bytes) list"
  have "length (cpio_archive ?files) < 2 ^ 32 - 4"
    by (simp add: cpio_archive_def cpio_file_split length_pad4 CPIO_TRAILER_def)
  moreover have "\<forall>(name, contents) \<in> set ?files. cpio_name_ok name"
    by (simp add: cpio_name_ok_def CPIO_TRAILER_def)
  ultimately have "cpio_extract (length ?files + 1) (cpio_archive ?files) (length (cpio_archive ?files))
      (on_file (\<lambda>s name contents. Inr (s @ [(name, length contents)]))) []
      = handle_files (\<lambda>s name contents. Inr (s @ [(name, length contents)])) ?files []"
    by (rule cpio_extract_roundtrip)
  then show ?thesis by (simp add: numeral_3_eq_3 del: cpio_extract.simps)
qed




end
