(* ===== verification/Cmdline.thy ===== *)
theory Cmdline
  imports Cstring
begin

text \<open>
  The command line (\<open>cmdline.c\<close>, \<open>cmdline.h\<close>).

  The buffer that holds the command line is a list of bytes, pointers into it are indices. Arguments
  are cut out in place, by writing terminators over the separators, and the separators are put
  back after the argument was processed; the model writes and restores them as the code does. The
  variables of the component are the fields of a record. \<open>w\<close> is the width of \<open>unsigned long\<close>.

  The specification \<open>cmdline_args\<close>, \<open>apply_args\<close> works on lists and modifies nothing.
\<close>

section \<open>Parsing\<close>

record options =
  cmdline_rawbcd :: int
  cmdline_rawwim :: int
  cmdline_quiet :: int
  cmdline_gui :: int
  cmdline_pause :: int
  cmdline_pause_quiet :: int
  cmdline_linear :: int
  cmdline_index :: nat

text \<open>The variables before the command line is processed.\<close>

definition cmdline_initial :: options where
  "cmdline_initial = \<lparr>cmdline_rawbcd = 0, cmdline_rawwim = 0, cmdline_quiet = 0, cmdline_gui = 0,
     cmdline_pause = 0, cmdline_pause_quiet = 0, cmdline_linear = 0, cmdline_index = 0\<rparr>"

function cmdline_skip :: "bytes \<Rightarrow> nat \<Rightarrow> nat result" where
  "cmdline_skip buf tmp =
     rbind (rd8 buf tmp) (\<lambda>chr. if isspace (sint chr) then cmdline_skip buf (tmp + 1) else Inr tmp)"
  by auto
termination by (relation "measure (\<lambda>(buf, tmp). length buf - tmp)") auto

text \<open>Find the value, if any, and the end of the argument.\<close>

function cmdline_scan :: "bytes \<Rightarrow> nat \<Rightarrow> nat option \<Rightarrow> (bytes \<times> nat \<times> nat option \<times> u8) result" where
  "cmdline_scan buf tmp val =
     rbind (rd8 buf tmp) (\<lambda>chr.
     if chr = 0 then Inr (buf, tmp, val, chr)
     else if isspace (sint chr) then Inr (buf[tmp := 0], tmp + 1, val, chr)
     else if chr = 0x3d \<and> val = None then cmdline_scan (buf[tmp := 0]) (tmp + 1) (Some (tmp + 1))
     else cmdline_scan buf (tmp + 1) val)"
  by auto
termination by (relation "measure (\<lambda>(buf, tmp, val). length buf - tmp)") auto

declare cmdline_skip.simps [simp del] cmdline_scan.simps [simp del]

definition streq :: "bytes \<Rightarrow> string \<Rightarrow> bool result" where
  "streq str lit = rbind (strcmp str (ascii lit @ [0])) (\<lambda>d. Inr (d = 0))"

text \<open>Process one argument: the initial one may have any name.\<close>

definition cmdline_argument :: "nat \<Rightarrow> bool \<Rightarrow> bytes \<Rightarrow> bytes option \<Rightarrow> options \<Rightarrow> options result" where
  "cmdline_argument w initial key val opts =
     rbind (streq key ''rawbcd'') (\<lambda>b. if b then Inr (opts\<lparr>cmdline_rawbcd := 1\<rparr>) else
     rbind (streq key ''rawwim'') (\<lambda>b. if b then Inr (opts\<lparr>cmdline_rawwim := 1\<rparr>) else
     rbind (streq key ''gui'') (\<lambda>b. if b then Inr (opts\<lparr>cmdline_gui := 1\<rparr>) else
     rbind (streq key ''linear'') (\<lambda>b. if b then Inr (opts\<lparr>cmdline_linear := 1\<rparr>) else
     rbind (streq key ''quiet'') (\<lambda>b. if b then Inr (opts\<lparr>cmdline_quiet := 1\<rparr>) else
     rbind (streq key ''pause'') (\<lambda>b. if b then
       (let opts = opts\<lparr>cmdline_pause := 1\<rparr> in
        case val of None \<Rightarrow> Inr opts
        | Some v \<Rightarrow> rbind (streq v ''quiet'') (\<lambda>q. Inr (if q then opts\<lparr>cmdline_pause_quiet := 1\<rparr> else opts))) else
     rbind (streq key ''index'') (\<lambda>b. if b then
       (case val of None \<Rightarrow> Inl Died
        | Some v \<Rightarrow> rbind (rd8 v 0) (\<lambda>c. if c = 0 then Inl Died else
            rbind (strtoul w v 0) (\<lambda>(index, endp). rbind (rd8 endp 0) (\<lambda>c.
            if c \<noteq> 0 then Inl Died else Inr (opts\<lparr>cmdline_index := index mod 2 ^ 32\<rparr>))))) else
     rbind (streq key ''initrdfile'') (\<lambda>b. if b then Inr opts
     else if initial then Inr opts
     else Inl Died))))))))"

text \<open>The body of the main loop: the buffer, the position and the options after one argument.\<close>

definition cmdline_next :: "nat \<Rightarrow> bytes \<Rightarrow> nat \<Rightarrow> options \<Rightarrow> (bytes \<times> nat \<times> options) result" where
  "cmdline_next w buf tmp opts =
     rbind (cmdline_skip buf tmp) (\<lambda>key.
     rbind (cmdline_scan buf key None) (\<lambda>(buf, tmp, val, chr).
     rbind (cmdline_argument w (key = 0) (drop key buf) (map_option (\<lambda>i. drop i buf) val) opts) (\<lambda>opts.
     rbind (if chr \<noteq> 0 then wr8 buf (tmp - 1) chr else Inr buf) (\<lambda>buf.
     rbind (case val of Some i \<Rightarrow> wr8 buf (i - 1) 0x3d | None \<Rightarrow> Inr buf) (\<lambda>buf.
     Inr (buf, tmp, opts))))))"

lemma cmdline_skip_forward: "cmdline_skip buf tmp = Inr key \<Longrightarrow> tmp \<le> key"
  by (induction buf tmp rule: cmdline_skip.induct)
     (subst (asm) (2) cmdline_skip.simps, auto simp: rbind_eq_Inr split: if_splits dest: Suc_leD)

lemma cmdline_skip_stop: "cmdline_skip buf tmp = Inr key \<Longrightarrow> key < length buf \<and> \<not> isspace (sint (buf ! key))"
  by (induction buf tmp rule: cmdline_skip.induct)
     (subst (asm) (2) cmdline_skip.simps, auto simp: rbind_eq_Inr split: if_splits)

lemma cmdline_scan_forward:
  "cmdline_scan buf tmp val = Inr (buf', tmp', val', chr) \<Longrightarrow>
   tmp < length buf \<and> length buf' = length buf \<and> tmp \<le> tmp' \<and> (buf ! tmp \<noteq> 0 \<longrightarrow> tmp < tmp')"
proof (induction buf tmp val rule: cmdline_scan.induct)
  case (1 buf tmp val)
  from "1.prems" have "tmp < length buf" by (subst (asm) cmdline_scan.simps) (auto simp: rbind_eq_Inr)
  with 1 show ?case
    using "1.prems" [unfolded cmdline_scan.simps [of buf tmp val]]
    by (fastforce simp: rbind_eq_Inr split: if_splits)
qed

lemma cmdline_next_forward:
  assumes "cmdline_next w buf tmp opts = Inr (buf', tmp', opts')" "tmp < length buf" "buf ! tmp \<noteq> 0"
  shows "length buf' = length buf \<and> tmp < tmp'"
proof -
  from assms(1) obtain key buf1 val chr where
    key: "cmdline_skip buf tmp = Inr key" and scan: "cmdline_scan buf key None = Inr (buf1, tmp', val, chr)"
    and len: "length buf' = length buf1"
    by (auto simp: cmdline_next_def rbind_eq_Inr split: if_splits option.splits)
  have "tmp < tmp'"
    using cmdline_skip_forward [OF key] cmdline_scan_forward [OF scan] assms(3) by (cases "key = tmp") auto
  with len cmdline_scan_forward [OF scan] show ?thesis by simp
qed

function cmdline_loop :: "nat \<Rightarrow> bytes \<Rightarrow> nat \<Rightarrow> options \<Rightarrow> (bytes \<times> options) result" where
  "cmdline_loop w buf tmp opts =
     rbind (rd8 buf tmp) (\<lambda>chr. if chr = 0 then Inr (buf, opts)
     else rbind (cmdline_next w buf tmp opts) (\<lambda>(buf, tmp, opts). cmdline_loop w buf tmp opts))"
  by auto
termination
  by (relation "measure (\<lambda>(w, buf, tmp, opts). length buf - tmp)") (auto dest: cmdline_next_forward)

declare cmdline_loop.simps [simp del]

text \<open>The null pointer is \<open>None\<close>.\<close>

definition process_cmdline :: "nat \<Rightarrow> bytes option \<Rightarrow> options \<Rightarrow> (bytes option \<times> options) result" where
  "process_cmdline w cmdline opts =
     (case cmdline of None \<Rightarrow> Inr (None, opts)
      | Some buf \<Rightarrow> rbind (rd8 buf 0) (\<lambda>chr. if chr = 0 then Inr (Some buf, opts) else
          rbind (cmdline_loop w buf 0 opts) (\<lambda>(buf, opts). Inr (Some buf, opts))))"

section \<open>Specification\<close>

abbreviation space :: "u8 \<Rightarrow> bool" where
  "space c \<equiv> isspace (sint c)"

text \<open>An argument is cut at its first equals sign.\<close>

definition cut_argument :: "bytes \<Rightarrow> bytes \<times> bytes option" where
  "cut_argument a = (takeWhile (\<lambda>c. c \<noteq> 0x3d) a, if 0x3d \<in> set a then Some (tl (dropWhile (\<lambda>c. c \<noteq> 0x3d) a)) else None)"

text \<open>
  The arguments of a command line: each is preceded by any number of spaces and followed by at most
  one, so that two spaces at the end give a last argument that is empty.
\<close>

function cmdline_args :: "bytes \<Rightarrow> (bytes \<times> bytes option) list" where
  "cmdline_args s =
     (if s = [] then [] else
      let t = dropWhile space s
      in cut_argument (takeWhile (\<lambda>c. \<not> space c) t) # cmdline_args (tl (dropWhile (\<lambda>c. \<not> space c) t)))"
  by auto
termination
proof (relation "measure length", goal_cases)
  case (2 s t)
  have "length (dropWhile P s) \<le> length s" for P by (rule length_dropWhile_le)
  then have "length (tl (dropWhile (\<lambda>c. \<not> space c) t)) \<le> length s - 1"
    using length_dropWhile_le [of "\<lambda>c. \<not> space c" t] 2(2) by (metis diff_le_mono le_trans length_tl)
  with 2 show ?case by (cases s) auto
qed simp

declare cmdline_args.simps [simp del]

definition apply_arg :: "nat \<Rightarrow> bool \<Rightarrow> bytes \<times> bytes option \<Rightarrow> options \<Rightarrow> options result" where
  "apply_arg w initial = (\<lambda>(key, val) opts.
     if key = ascii ''rawbcd'' then Inr (opts\<lparr>cmdline_rawbcd := 1\<rparr>)
     else if key = ascii ''rawwim'' then Inr (opts\<lparr>cmdline_rawwim := 1\<rparr>)
     else if key = ascii ''gui'' then Inr (opts\<lparr>cmdline_gui := 1\<rparr>)
     else if key = ascii ''linear'' then Inr (opts\<lparr>cmdline_linear := 1\<rparr>)
     else if key = ascii ''quiet'' then Inr (opts\<lparr>cmdline_quiet := 1\<rparr>)
     else if key = ascii ''pause'' then
       Inr (opts\<lparr>cmdline_pause := 1,
         cmdline_pause_quiet := if val = Some (ascii ''quiet'') then 1 else cmdline_pause_quiet opts\<rparr>)
     else if key = ascii ''index'' then
       (case val of None \<Rightarrow> Inl Died
        | Some v \<Rightarrow> if v = [] then Inl Died else
           rbind (strtoul w (v @ [0]) 0) (\<lambda>(n, rest).
            if rest = [0] then Inr (opts\<lparr>cmdline_index := n mod 2 ^ 32\<rparr>) else Inl Died))
     else if key = ascii ''initrdfile'' \<or> initial then Inr opts
     else Inl Died)"

primrec apply_args :: "nat \<Rightarrow> bool \<Rightarrow> (bytes \<times> bytes option) list \<Rightarrow> options \<Rightarrow> options result" where
  "apply_args w initial [] opts = Inr opts"
| "apply_args w initial (a # as) opts =
     rbind (apply_arg w initial a opts) (\<lambda>opts. apply_args w False as opts)"

section \<open>Refinement\<close>

lemma skip_space_text: "0 \<notin> set v \<Longrightarrow> skip_space (v @ 0 # rest) = Inr (dropWhile space v @ 0 # rest)"
  by (induction v) (auto simp: isspace_def)

lemma strtoul_sign_text:
  assumes "0 \<notin> set v"
  shows "\<exists>b u. 0 \<notin> set u \<and> (\<forall>rest. strtoul_sign (v @ 0 # rest) = Inr (b, u @ 0 # rest))"
proof (cases "v \<noteq> [] \<and> hd v \<in> {43, 45}")
  case True
  then obtain c v' where "v = c # v'" "c = 43 \<or> c = 45" by (cases v) auto
  with assms have "0 \<notin> set v' \<and> (\<forall>rest. strtoul_sign (v @ 0 # rest) = Inr (c = 45, v' @ 0 # rest))"
    by (auto simp: strtoul_sign_def rd8_def)
  then show ?thesis by blast
next
  case False
  with assms have "0 \<notin> set v \<and> (\<forall>rest. strtoul_sign (v @ 0 # rest) = Inr (False, v @ 0 # rest))"
    by (cases v) (auto simp: strtoul_sign_def rd8_def)
  then show ?thesis by blast
qed

lemma strtoul_base_text:
  assumes "0 \<notin> set v"
  shows "\<exists>b u. b \<le> 16 \<and> 0 \<notin> set u \<and> (\<forall>rest. strtoul_base 0 (v @ 0 # rest) = Inr (b, u @ 0 # rest))"
proof (cases "v \<noteq> [] \<and> hd v = 48")
  case True
  then obtain v' where v: "v = 48 # v'" by (cases v) auto
  show ?thesis
  proof (cases "v' \<noteq> [] \<and> hd v' OR 0x20 = 120")
    case True
    then obtain d v'' where "v' = d # v''" "d OR 0x20 = 120" by (cases v') auto
    with v assms have "0 \<notin> set v'' \<and> (\<forall>rest. strtoul_base 0 (v @ 0 # rest) = Inr (16, v'' @ 0 # rest))"
      by (auto simp: strtoul_base_def rd8_def)
    then show ?thesis by (intro exI [of _ 16] exI [of _ v'']) simp
  next
    case False
    with v assms have "0 \<notin> set v' \<and> (\<forall>rest. strtoul_base 0 (v @ 0 # rest) = Inr (8, v' @ 0 # rest))"
      by (cases v') (auto simp: strtoul_base_def rd8_def)
    then show ?thesis by (intro exI [of _ 8] exI [of _ v']) simp
  qed
next
  case False
  with assms have "0 \<notin> set v \<and> (\<forall>rest. strtoul_base 0 (v @ 0 # rest) = Inr (10, v @ 0 # rest))"
    by (cases v) (auto simp: strtoul_base_def rd8_def)
  then show ?thesis by (intro exI [of _ 10] exI [of _ v]) simp
qed

lemma strtoul_digits_text:
  assumes "base \<le> 16"
  shows "0 \<notin> set v \<Longrightarrow> \<exists>n u. 0 \<notin> set u \<and> (\<forall>rest. strtoul_digits w base val (v @ 0 # rest) = Inr (n, u @ 0 # rest))"
proof (induction v arbitrary: val)
  case Nil
  have "unat (strtoul_digit 0) \<ge> 16" by (simp add: strtoul_digit_def)
  with assms show ?case by force
next
  case (Cons c v)
  show ?case
  proof (cases "unat (strtoul_digit c) \<ge> base")
    case True
    with Cons.prems have "0 \<notin> set (c # v) \<and> (\<forall>rest. strtoul_digits w base val ((c # v) @ 0 # rest) = Inr (val, (c # v) @ 0 # rest))"
      by simp
    then show ?thesis by blast
  next
    case False
    with Cons show ?thesis by simp
  qed
qed

text \<open>A number is parsed within its string, whatever follows the terminator.\<close>

lemma strtoul_text:
  assumes "0 \<notin> set v"
  shows "\<exists>n u. 0 \<notin> set u \<and> (\<forall>rest. strtoul w (v @ 0 # rest) 0 = Inr (n, u @ 0 # rest))"
proof -
  have "0 \<notin> set (dropWhile space v)" using assms by (auto dest: set_dropWhileD)
  then obtain b1 u1 where u1: "0 \<notin> set u1" "\<And>rest. strtoul_sign (dropWhile space v @ 0 # rest) = Inr (b1, u1 @ 0 # rest)"
    using strtoul_sign_text by blast
  then obtain b2 u2 where u2: "0 \<notin> set u2" "b2 \<le> 16" "\<And>rest. strtoul_base 0 (u1 @ 0 # rest) = Inr (b2, u2 @ 0 # rest)"
    using strtoul_base_text by blast
  then obtain n u3 where u3: "0 \<notin> set u3" "\<And>rest. strtoul_digits w b2 0 (u2 @ 0 # rest) = Inr (n, u3 @ 0 # rest)"
    using strtoul_digits_text by blast
  from assms u1(2) u2(3) u3 show ?thesis by (auto simp: strtoul_def skip_space_text)
qed

lemma streq_text:
  assumes "0 \<notin> set k" "0 \<notin> set (ascii lit)"
  shows "streq (k @ 0 # rest) lit = Inr (k = ascii lit)"
  using strcmp_equal [of "k @ 0 # rest" "ascii lit @ [0]"] assms by (auto simp: streq_def)

lemma keywords_text [simp]:
  "0 \<notin> set (ascii ''rawbcd'')" "0 \<notin> set (ascii ''rawwim'')" "0 \<notin> set (ascii ''gui'')"
  "0 \<notin> set (ascii ''linear'')" "0 \<notin> set (ascii ''quiet'')" "0 \<notin> set (ascii ''pause'')"
  "0 \<notin> set (ascii ''index'')" "0 \<notin> set (ascii ''initrdfile'')"
  by (simp_all add: ascii_def)

lemma cmdline_argument_text:
  assumes "0 \<notin> set k" "rel_option (\<lambda>str v. \<exists>rest. str = v @ 0 # rest \<and> 0 \<notin> set v) val val'"
  shows "cmdline_argument w initial (k @ 0 # rest) val opts = apply_arg w initial (k, val') opts"
proof (cases val')
  case None
  with assms show ?thesis
    by (simp add: cmdline_argument_def apply_arg_def streq_text)
next
  case (Some v)
  with assms obtain r where val: "val = Some (v @ 0 # r)" "0 \<notin> set v" by (auto simp: option_rel_Some2)
  then obtain n u where "0 \<notin> set u" "\<And>rest. strtoul w (v @ 0 # rest) 0 = Inr (n, u @ 0 # rest)"
    using strtoul_text by blast
  moreover have "(v @ 0 # r) ! 0 = 0 \<longleftrightarrow> v = []" using val(2) by (cases v) auto
  moreover have "(u @ 0 # r) ! 0 = 0 \<longleftrightarrow> u = []" using \<open>0 \<notin> set u\<close> by (cases u) auto
  ultimately show ?thesis using assms(1) Some val
    by (simp add: cmdline_argument_def apply_arg_def streq_text rd8_def)
qed

lemma cmdline_skip_text:
  "0 \<notin> set s \<Longrightarrow> cmdline_skip (pre @ s @ 0 # rest) (length pre) = Inr (length (pre @ takeWhile space s))"
proof (induction s arbitrary: pre)
  case Nil
  then show ?case by (subst cmdline_skip.simps) (simp add: rd8_def isspace_def)
next
  case (Cons c s)
  from Cons.IH [of "pre @ [c]"] Cons.prems show ?case
    by (subst cmdline_skip.simps) (simp add: rd8_def)
qed

text \<open>An argument, without the separators.\<close>

abbreviation solid :: "bytes \<Rightarrow> bool" where
  "solid a \<equiv> (\<forall>c \<in> set a. c \<noteq> 0 \<and> \<not> space c)"

lemma cmdline_scan_plain:
  assumes "c = 0 \<or> space c"
  shows "solid a \<Longrightarrow> val \<noteq> None \<or> 0x3d \<notin> set a \<Longrightarrow>
     cmdline_scan (pre @ a @ c # r) (length pre) val =
       Inr (pre @ a @ 0 # r, length (pre @ a) + (if c = 0 then 0 else 1), val, c)"
proof (induction a arbitrary: pre)
  case Nil
  with assms show ?case by (subst cmdline_scan.simps) (auto simp: rd8_def)
next
  case (Cons d a)
  from Cons.IH [of "pre @ [d]"] Cons.prems show ?case
    by (subst cmdline_scan.simps) (auto simp: rd8_def)
qed

lemma cmdline_scan_key:
  "solid a \<Longrightarrow> 0x3d \<notin> set a \<Longrightarrow>
     cmdline_scan (pre @ a @ 0x3d # r) (length pre) None = cmdline_scan (pre @ a @ 0 # r) (length (pre @ a @ [0])) (Some (length (pre @ a @ [0])))"
proof (induction a arbitrary: pre)
  case Nil
  show ?case by (subst cmdline_scan.simps) (simp add: rd8_def isspace_def)
next
  case (Cons d a)
  from Cons.IH [of "pre @ [d]"] Cons.prems show ?case
    by (subst cmdline_scan.simps) (auto simp: rd8_def)
qed

lemma cut_argument_plain: "0x3d \<notin> set a \<Longrightarrow> cut_argument a = (a, None)"
  by (auto simp: cut_argument_def takeWhile_eq_all_conv)

lemma cut_argument_value: "0x3d \<notin> set k \<Longrightarrow> cut_argument (k @ 0x3d # v) = (k, Some v)"
  by (simp add: cut_argument_def takeWhile_append dropWhile_append)

lemma cmdline_next_text:
  assumes skip: "cmdline_skip (pre @ a @ c # r) tmp = Inr (length pre)"
    and a: "solid a" and c: "c = 0 \<or> space c"
  shows "cmdline_next w (pre @ a @ c # r) tmp opts =
     rbind (apply_arg w (pre = []) (cut_argument a) opts)
       (\<lambda>opts. Inr (pre @ a @ c # r, length (pre @ a) + (if c = 0 then 0 else 1), opts))"
proof (cases "0x3d \<in> set a")
  case False
  have "cmdline_argument w (pre = []) (a @ 0 # r) None opts = apply_arg w (pre = []) (a, None) opts"
    using a by (intro cmdline_argument_text) auto
  with False skip cmdline_scan_plain [OF c a, of None pre r] show ?thesis
    by (auto simp: cmdline_next_def cut_argument_plain wr8_def rbind_def list_update_append split: sum.splits)
next
  case True
  then obtain k v where kv: "a = k @ 0x3d # v" "0x3d \<notin> set k" by (meson split_list_first)
  with a have "solid k" "solid v" by auto
  then have scan: "cmdline_scan (pre @ a @ c # r) (length pre) None =
      Inr (pre @ k @ 0 # v @ 0 # r, length (pre @ a) + (if c = 0 then 0 else 1), Some (length (pre @ k @ [0])), c)"
    using cmdline_scan_key [of k pre "v @ c # r"] cmdline_scan_plain [OF c, of v "Some (length (pre @ k @ [0]))" "pre @ k @ [0]" r] kv
    by simp
  have "cmdline_argument w (pre = []) (k @ 0 # v @ 0 # r) (Some (v @ 0 # r)) opts = apply_arg w (pre = []) (k, Some v) opts"
    using \<open>solid k\<close> \<open>solid v\<close> by (intro cmdline_argument_text) auto
  with scan skip kv show ?thesis
    by (auto simp: cmdline_next_def cut_argument_value wr8_def rbind_def list_update_append split: sum.splits)
qed

lemma cmdline_loop_text:
  "0 \<notin> set s \<Longrightarrow> cmdline_loop w (pre @ s @ 0 # rest) (length pre) opts =
     rbind (apply_args w (pre = [] \<and> takeWhile space s = []) (cmdline_args s) opts) (\<lambda>opts. Inr (pre @ s @ 0 # rest, opts))"
proof (induction s arbitrary: pre opts rule: cmdline_args.induct)
  case (1 s)
  show ?case
  proof (cases "s = []")
    case True
    then show ?thesis by (subst cmdline_loop.simps) (simp add: rd8_def cmdline_args.simps)
  next
    case False
    define sp t a u where sp: "sp = takeWhile space s" and t: "t = dropWhile space s"
      and a: "a = takeWhile (\<lambda>c. \<not> space c) t" and u: "u = dropWhile (\<lambda>c. \<not> space c) t"
    define c r where c: "c = hd (u @ [0])" and r: "r = tl (u @ 0 # rest)"
    have s: "s = sp @ a @ u" by (simp add: sp t a u)
    have cr: "u @ 0 # rest = c # r" by (cases u) (simp_all add: c r)
    have args: "cmdline_args s = cut_argument a # cmdline_args (tl u)"
      using False by (simp add: cmdline_args.simps [of s] t a u Let_def)
    have csep: "c = 0 \<or> space c" 
    proof (cases u)
      case (Cons d u')
      then show ?thesis using hd_dropWhile [of "\<lambda>c. \<not> space c" t] by (simp add: c u [symmetric])
    qed (simp add: c)
    have "solid a" using "1.prems" by (auto simp: a t dest!: set_takeWhileD set_dropWhileD)
    have "cmdline_next w (pre @ s @ 0 # rest) (length pre) opts =
       rbind (apply_arg w (pre @ sp = []) (cut_argument a) opts)
         (\<lambda>opts. Inr (pre @ s @ 0 # rest, length (pre @ sp @ a) + (if c = 0 then 0 else 1), opts))"
    proof -
      have "cmdline_skip (pre @ s @ 0 # rest) (length pre) = Inr (length (pre @ sp))"
        using cmdline_skip_text [OF "1.prems", of pre rest] unfolding sp .
      moreover have "pre @ s @ 0 # rest = (pre @ sp) @ a @ c # r" by (simp add: s cr)
      ultimately show ?thesis
        using cmdline_next_text [OF _ \<open>solid a\<close> csep, of "pre @ sp" r "length pre" w opts] by simp
    qed
    moreover have "s ! 0 \<noteq> 0" using "1.prems" False by (cases s) auto
    ultimately have step: "cmdline_loop w (pre @ s @ 0 # rest) (length pre) opts =
       rbind (apply_arg w (pre @ sp = []) (cut_argument a) opts)
         (\<lambda>opts. cmdline_loop w (pre @ s @ 0 # rest) (length (pre @ sp @ a) + (if c = 0 then 0 else 1)) opts)"
      using False by (subst cmdline_loop.simps) (auto simp: rd8_def nth_append rbind_def split: sum.splits)
    have rec: "cmdline_loop w (pre @ s @ 0 # rest) (length (pre @ sp @ a) + (if c = 0 then 0 else 1)) opts' =
        rbind (apply_args w False (cmdline_args (tl u)) opts') (\<lambda>opts. Inr (pre @ s @ 0 # rest, opts))" for opts'
    proof (cases u)
      case Nil
      then have "c = 0" "tl u = []" by (simp_all add: c)
      then show ?thesis using s Nil by (subst cmdline_loop.simps) (simp add: rd8_def nth_append cmdline_args.simps)
    next
      case (Cons d u')
      have "0 \<notin> set u" using "1.prems" s by auto
      then have "c = d" "d \<noteq> 0" "0 \<notin> set u'" using Cons by (auto simp: c)
      with "1.IH" [OF False t, folded u, of "pre @ sp @ a @ [d]" opts'] Cons show ?thesis by (simp add: s)
    qed
    show ?thesis using step args rec by (auto simp: sp rbind_def split: sum.splits)
  qed
qed

lemma process_cmdline_text:
  assumes "0 \<notin> set s"
  shows "process_cmdline w (Some (s @ 0 # rest)) opts =
     rbind (apply_args w (takeWhile space s = []) (cmdline_args s) opts) (\<lambda>opts. Inr (Some (s @ 0 # rest), opts))"
proof (cases s)
  case Nil
  then show ?thesis by (simp add: process_cmdline_def rd8_def cmdline_args.simps)
next
  case (Cons c s')
  with assms cmdline_loop_text [OF assms, of w "[]" rest opts] show ?thesis
    by (auto simp: process_cmdline_def rd8_def rbind_def split: sum.splits)
qed

section \<open>White space at the end\<close>








section \<open>Properties\<close>

text \<open>
  C31: Processing a command line terminates within its buffer. It sets the options that the arguments of the
  command line say, one after the other, and puts every byte of the command line back in place. It ends in
  \<open>die()\<close> exactly for the arguments that the specification rejects; an unknown first argument is ignored.
\<close>

theorem process_cmdline_refines:
  assumes "0 \<notin> set s"
  shows "process_cmdline w (Some (s @ 0 # rest)) opts =
     rbind (apply_args w (takeWhile space s = []) (cmdline_args s) opts) (\<lambda>opts. Inr (Some (s @ 0 # rest), opts))"
  using assms by (rule process_cmdline_text)

theorem process_cmdline_refines_witness:
  "\<exists>opts. process_cmdline 32 (Some (ascii ''wimboot pause=quiet index=0x12'' @ [0])) cmdline_initial = Inr (Some (ascii ''wimboot pause=quiet index=0x12'' @ [0]), opts)
     \<and> cmdline_index opts = 18 \<and> cmdline_pause_quiet opts = 1"
proof -
  let ?s = "ascii ''wimboot pause=quiet index=0x12''"
  have "0 \<notin> set ?s" by (simp add: ascii_def)
  from process_cmdline_refines [OF this, of 32 "[]" cmdline_initial]
  have "process_cmdline 32 (Some (?s @ [0])) cmdline_initial =
     rbind (apply_args 32 (takeWhile space ?s = []) (cmdline_args ?s) cmdline_initial) (\<lambda>opts. Inr (Some (?s @ [0]), opts))" .
  moreover have "apply_args 32 (takeWhile space ?s = []) (cmdline_args ?s) cmdline_initial =
     Inr (cmdline_initial\<lparr>cmdline_pause := 1, cmdline_pause_quiet := 1, cmdline_index := 18\<rparr>)"
    by code_simp
  ultimately show ?thesis by simp
qed



end
