(* ===== verification/State.thy ===== *)
theory State
  imports Prelude
begin

text \<open>
  Operations on the static variables of the program: an operation yields a result, which may be an
  error, and the variables after it.
\<close>

type_synonym ('s, 'a) stateful = "'s \<Rightarrow> 'a result \<times> 's"

definition wret :: "'a result \<Rightarrow> ('s, 'a) stateful" where
  "wret r s = (r, s)"

definition wbind :: "('s, 'a) stateful \<Rightarrow> ('a \<Rightarrow> ('s, 'b) stateful) \<Rightarrow> ('s, 'b) stateful" where
  "wbind m f s = (case m s of (Inl e, s) \<Rightarrow> (Inl e, s) | (Inr x, s) \<Rightarrow> f x s)"

lemma wbind_wret: "wbind (wret (Inr x)) f = f x" "wbind (wret (Inl e)) f = wret (Inl e)"
  by (simp_all add: wbind_def wret_def fun_eq_iff)

lemma wbind_Inr: "m s = (Inr x, s') \<Longrightarrow> wbind m f s = f x s'"
  by (simp add: wbind_def)

lemma wbind_Inl: "m s = (Inl e, s') \<Longrightarrow> wbind m f s = (Inl e, s')"
  by (simp add: wbind_def)

lemma wret_Pair: "wret r s = (r, s)"
  by (simp add: wret_def)

text \<open>An operation that succeeds with a value and keeps an invariant of the state.\<close>

definition returns :: "('s \<Rightarrow> bool) \<Rightarrow> ('s, 'a) stateful \<Rightarrow> 'a \<Rightarrow> bool" where
  "returns good m x \<longleftrightarrow> (\<forall>s. good s \<longrightarrow> fst (m s) = Inr x \<and> good (snd (m s)))"

lemma returns_wret: "returns good (wret (Inr x)) x"
  by (simp add: returns_def wret_def)

lemma returns_bind: "returns good m x \<Longrightarrow> returns good (f x) y \<Longrightarrow> returns good (wbind m f) y"
  by (auto simp: returns_def wbind_def split: prod.split sum.split)

end
