(* ===== verification/Struct.thy ===== *)
theory Struct
  imports Cstring
begin

text \<open>
  Packed C structures: a structure is the list of its members with their sizes in bytes, in the order of
  the declaration. The offset of a member and the size of the structure follow from it, and members
  are read and written in a buffer in little-endian byte order.
\<close>

type_synonym layout = "(string \<times> nat) list"

named_theorems layout_simps \<open>offsets of members and sizes of structures\<close>

fun offset_of :: "layout \<Rightarrow> string \<Rightarrow> nat" where
  "offset_of [] f = 0"
| "offset_of ((g, n) # fs) f = (if f = g then 0 else n + offset_of fs f)"

definition sizeof :: "layout \<Rightarrow> nat" where
  "sizeof fs = sum_list (map snd fs)"

lemma sizeof_simps [simp]: "sizeof [] = 0" "sizeof ((g, n) # fs) = n + sizeof fs"
  by (simp_all add: sizeof_def)

lemma offset_of_le: "offset_of fs f \<le> sizeof fs"
  by (induction fs f rule: offset_of.induct) simp_all

definition wr16 :: "bytes \<Rightarrow> nat \<Rightarrow> nat \<Rightarrow> bytes result" where
  "wr16 buf i v = wr_bytes buf i (le16 v)"

definition wr32 :: "bytes \<Rightarrow> nat \<Rightarrow> nat \<Rightarrow> bytes result" where
  "wr32 buf i v = wr_bytes buf i (le32 v)"

definition wr64 :: "bytes \<Rightarrow> nat \<Rightarrow> nat \<Rightarrow> bytes result" where
  "wr64 buf i v = wr_bytes buf i (le64 v)"

lemma wr_bytes_eq_Inr [result_simps]:
  "wr_bytes buf off bs = Inr b \<longleftrightarrow> off + length bs \<le> length buf \<and> b = overlay off bs buf"
  by (auto simp: wr_bytes_def)

lemma overlay_single: "i < length buf \<Longrightarrow> overlay i [v] buf = buf[i := v]"
  by (simp add: overlay_def upd_conv_take_nth_drop)

lemma overlay_Nil [simp]: "overlay off [] xs = xs"
  by (simp add: overlay_def)

lemma overlay_0: "overlay 0 bs xs = bs @ drop (length bs) xs"
  by (simp add: overlay_def)

text \<open>\<open>memset\<close> is one write.\<close>

lemma memset_overlay:
  "dest + n \<le> length mem \<Longrightarrow> memset mem dest c n = Inr (overlay dest (replicate n c) mem)"
proof (induction n arbitrary: dest mem)
  case (Suc n)
  have "memset mem dest c (Suc n) = memset (mem[dest := c]) (dest + 1) c n"
    using Suc.prems by (simp add: wr8_def)
  also have "\<dots> = Inr (overlay (dest + 1) (replicate n c) (mem[dest := c]))"
    using Suc.prems by (intro Suc.IH) simp
  also have "overlay (dest + 1) (replicate n c) (mem[dest := c]) = overlay dest (replicate (Suc n) c) mem"
    using overlay_overlay [of dest "[c]" mem "replicate n c"] Suc.prems by (simp add: overlay_single)
  finally show ?case .
qed simp

text \<open>Writes within a prefix of a buffer leave the rest of it alone.\<close>

lemma overlay_prefix:
  "off + length bs \<le> length xs \<Longrightarrow> overlay off bs (xs @ ys) = overlay off bs xs @ ys"
  by (simp add: overlay_def)

lemma wr_bytes_prefix:
  "off + length bs \<le> length xs \<Longrightarrow> wr_bytes (xs @ ys) off bs = Inr (overlay off bs xs @ ys)"
  by (simp add: wr_bytes_def overlay_prefix)

lemma rd_bytes_prefix:
  "off + n \<le> length xs \<Longrightarrow> rd_bytes (xs @ ys) off n = rd_bytes xs off n"
  by (simp add: rd_bytes_def window_def)

lemma le16_eq_iff: "a < 65536 \<Longrightarrow> rd16 (le16 a) 0 = Inr a"
  by (simp add: le16_def rd16_def rd8_def unat_of_nat)

lemma rd16_le16 [simp]: "rd16 (le16 a @ xs) 0 = Inr (a mod 65536)"
proof -
  have "a mod 256 + 256 * (a div 256 mod 256) = a mod 65536"
    using mod_mult2_eq [of a 256 256] by simp
  then show ?thesis by (simp add: le16_def rd16_def rd8_def unat_of_nat)
qed

lemma rd8_shift: "rd8 (xs @ ys) (length xs + i) = rd8 ys i"
  by (simp add: rd8_def)

lemma rd16_shift: "rd16 (xs @ ys) (length xs + i) = rd16 ys i"
  using rd8_shift [of xs ys i] rd8_shift [of xs ys "i + 1"] by (simp add: rd16_def add.assoc)

lemma rd32_shift: "rd32 (xs @ ys) (length xs + i) = rd32 ys i"
  using rd16_shift [of xs ys i] rd16_shift [of xs ys "i + 2"] by (simp add: rd32_def add.assoc)

lemma rd64_shift: "rd64 (xs @ ys) (length xs + i) = rd64 ys i"
  using rd32_shift [of xs ys i] rd32_shift [of xs ys "i + 4"] by (simp add: rd64_def add.assoc)

lemma rd32_le32 [simp]: "rd32 (le32 a @ xs) 0 = Inr (a mod 2 ^ 32)"
proof -
  have "a mod 65536 + 65536 * (a div 65536 mod 65536) = a mod 2 ^ 32"
    using mod_mult2_eq [of a 65536 65536] by simp
  moreover have "rd16 (le32 a @ xs) 2 = Inr (a div 65536 mod 65536)"
    using rd16_shift [of "le16 a" "le16 (a div 65536) @ xs" 0] by (simp add: le32_def)
  moreover have "rd16 (le32 a @ xs) 0 = Inr (a mod 65536)" by (simp add: le32_def)
  ultimately show ?thesis by (simp only: rd32_def add_0 rbind_Inr)
qed

lemma rd64_le64 [simp]: "rd64 (le64 a @ xs) 0 = Inr (a mod 2 ^ 64)"
proof -
  have "a mod 4294967296 + 4294967296 * (a div 4294967296 mod 4294967296) = a mod 2 ^ 64"
    using mod_mult2_eq [of a 4294967296 4294967296] by simp
  moreover have "rd32 (le64 a @ xs) 4 = Inr (a div 4294967296 mod 4294967296)"
    using rd32_shift [of "le32 a" "le32 (a div 4294967296) @ xs" 0] by (simp add: le64_def)
  moreover have "rd32 (le64 a @ xs) 0 = Inr (a mod 4294967296)" by (simp add: le64_def)
  ultimately show ?thesis by (simp only: rd64_def add_0 rbind_Inr)
qed

section \<open>Contents of structures\<close>

text \<open>The bytes of a structure from its members; those that are not given are zero.\<close>

definition member_of :: "(string \<rightharpoonup> bytes) \<Rightarrow> string \<times> nat \<Rightarrow> bytes" where
  "member_of m = (\<lambda>(f, n). case m f of Some v \<Rightarrow> v | None \<Rightarrow> replicate n 0)"

definition render :: "layout \<Rightarrow> (string \<rightharpoonup> bytes) \<Rightarrow> bytes" where
  "render s m = concat (map (member_of m) s)"

definition fits :: "layout \<Rightarrow> (string \<rightharpoonup> bytes) \<Rightarrow> bool" where
  "fits s m \<longleftrightarrow> list_all (\<lambda>(f, n). length (member_of m (f, n)) = n) s"

lemma member_of_empty [simp]: "member_of Map.empty (f, n) = replicate n 0"
  by (simp add: member_of_def)

lemma member_of_update [simp]: "member_of (m(f \<mapsto> v)) (g, n) = (if g = f then v else member_of m (g, n))"
  by (simp add: member_of_def)

lemma render_simps [simp]: "render [] m = []" "render (fn # s) m = member_of m fn @ render s m"
  by (simp_all add: render_def)

lemma fits_simps [simp]: "fits [] m" "fits ((f, n) # s) m \<longleftrightarrow> length (member_of m (f, n)) = n \<and> fits s m"
  by (simp_all add: fits_def)

lemma render_empty: "render s Map.empty = replicate (sizeof s) 0"
  by (induction s) (auto simp: replicate_add)

lemma fits_empty: "fits s Map.empty"
  by (induction s) auto

lemma render_other: "f \<notin> fst ` set s \<Longrightarrow> render s (m(f \<mapsto> v)) = render s m"
  by (induction s) auto

lemma fits_other: "f \<notin> fst ` set s \<Longrightarrow> fits s (m(f \<mapsto> v)) = fits s m"
  by (induction s) auto

text \<open>Writing into a member.\<close>

lemma wr_bytes_render:
  assumes "distinct (map fst s)" "fits s m" "(f, n) \<in> set s" "k + length bs \<le> n"
  shows "wr_bytes (render s m @ rest) (offset_of s f + k) bs =
     Inr (render s (m(f \<mapsto> overlay k bs (member_of m (f, n)))) @ rest) \<and> fits s (m(f \<mapsto> overlay k bs (member_of m (f, n))))"
  using assms
proof (induction s)
  case (Cons gl s)
  obtain g l where gl: "gl = (g, l)" by (cases gl)
  define m' where "m' = m(f \<mapsto> overlay k bs (member_of m (f, n)))"
  have len: "length (member_of m (g, l)) = l" and fit: "fits s m" using Cons.prems gl by simp_all
  show ?case unfolding m'_def [symmetric]
  proof (cases "f = g")
    case True
    with Cons.prems gl have f: "f \<notin> fst ` set s" "n = l" by (auto simp: image_iff)
    then have "render s m' = render s m" "fits s m' = fits s m" "member_of m' (g, l) = overlay k bs (member_of m (g, l))"
      unfolding m'_def using True by (simp_all add: render_other fits_other)
    with True f(2) Cons.prems(4) gl len fit
    show "wr_bytes (render (gl # s) m @ rest) (offset_of (gl # s) f + k) bs = Inr (render (gl # s) m' @ rest) \<and> fits (gl # s) m'"
      by (simp add: wr_bytes_prefix)
  next
    case False
    then have "(f, n) \<in> set s" "member_of m' (g, l) = member_of m (g, l)"
      using Cons.prems gl by (auto simp: m'_def)
    moreover have "wr_bytes (render s m @ rest) (offset_of s f + k) bs = Inr (render s m' @ rest) \<and> fits s m'"
      unfolding m'_def by (rule Cons.IH) (use Cons.prems(1,4) fit \<open>(f, n) \<in> set s\<close> in simp_all)
    moreover have "wr_bytes (xs @ ys) (length xs + i) bs = rbind (wr_bytes ys i bs) (\<lambda>zs. Inr (xs @ zs))" for xs ys i
      by (simp add: wr_bytes_def overlay_def)
    note this [of "member_of m (g, l)" "render s m @ rest" "offset_of s f + k"]
    ultimately show "wr_bytes (render (gl # s) m @ rest) (offset_of (gl # s) f + k) bs = Inr (render (gl # s) m' @ rest) \<and> fits (gl # s) m'"
      using False gl len by (simp add: add.assoc)
  qed
qed simp

lemma wr8_render:
  assumes "distinct (map fst s)" "fits s m" "(f, n) \<in> set s" "k < n"
  shows "wr8 (render s m @ rest) (offset_of s f + k) v =
     Inr (render s (m(f \<mapsto> (member_of m (f, n))[k := v])) @ rest) \<and> fits s (m(f \<mapsto> (member_of m (f, n))[k := v]))"
proof -
  have w: "wr8 buf i v = wr_bytes buf i [v]" for buf i
    by (simp add: wr8_def wr_bytes_def overlay_single)
  have "length (member_of m (f, n)) = n" using assms(2,3) by (auto simp: fits_def list_all_iff)
  then have "overlay k [v] (member_of m (f, n)) = (member_of m (f, n))[k := v]" using assms(4) by (simp add: overlay_single)
  with wr_bytes_render [OF assms(1-3), of k "[v]" rest] assms(4) show ?thesis by (simp add: w)
qed

section \<open>Arrays\<close>

text \<open>A list of elements of \<open>m\<close> bytes.\<close>

abbreviation uniform :: "nat \<Rightarrow> 'a list list \<Rightarrow> bool" where
  "uniform m es \<equiv> (\<forall>e \<in> set es. length e = m)"

lemma length_concat_uniform: "uniform m es \<Longrightarrow> length (concat es) = m * length es"
  by (induction es) auto

end
