(* ===== verification/Wim.thy ===== *)
theory Wim
  imports State Lzx Xca Struct
begin

text \<open>
  WIM images (\<open>wim.c\<close>, \<open>wim.h\<close>): resources that are split into compressed chunks, the lookup table, and the
  directory tree of an image.

  The file that holds the image is given by its identity (the pointer), its length and what its read
  method yields for an offset and a length. Members of the structures are 64-bit; \<open>w\<close> is the width of
  \<open>size_t\<close>, to which they are cut where the code stores them in such a variable.

  \<open>wim_read\<close> keeps the last chunk in a static buffer. All functions that read are therefore functions
  of that cache, which is kept when an operation fails.
\<close>

section \<open>Structures\<close>

record wim_resource_header =
  zlen__flags :: nat
  res_offset :: nat
  res_len :: nat

definition struct_wim_resource_header :: layout where
  "struct_wim_resource_header = [(''zlen__flags'', 8), (''offset'', 8), (''len'', 8)]"

definition WIM_RESHDR_ZLEN_MASK :: u64 where "WIM_RESHDR_ZLEN_MASK = 0x00ffffffffffffff"
definition WIM_RESHDR_METADATA :: u64 where "WIM_RESHDR_METADATA = push_bit 56 0x02"
definition WIM_RESHDR_COMPRESSED :: u64 where "WIM_RESHDR_COMPRESSED = push_bit 56 0x04"
definition WIM_RESHDR_PACKED_STREAMS :: u64 where "WIM_RESHDR_PACKED_STREAMS = push_bit 56 0x10"

record wim_header =
  wim_signature :: bytes
  wim_header_len :: nat
  wim_version :: nat
  wim_flags :: nat
  wim_chunk_len :: nat
  wim_guid :: bytes
  wim_part :: nat
  wim_parts :: nat
  wim_images :: nat
  wim_lookup :: wim_resource_header
  wim_xml :: wim_resource_header
  wim_boot :: wim_resource_header
  wim_boot_index :: nat
  wim_integrity :: wim_resource_header
  wim_reserved :: bytes

definition struct_wim_header :: layout where
  "struct_wim_header = [(''signature'', 8), (''header_len'', 4), (''version'', 4), (''flags'', 4), (''chunk_len'', 4),
     (''guid'', 16), (''part'', 2), (''parts'', 2), (''images'', 4),
     (''lookup'', sizeof struct_wim_resource_header), (''xml'', sizeof struct_wim_resource_header),
     (''boot'', sizeof struct_wim_resource_header), (''boot_index'', 4),
     (''integrity'', sizeof struct_wim_resource_header), (''reserved'', 60)]"

definition WIM_HDR_XPRESS :: u32 where "WIM_HDR_XPRESS = 0x00020000"
definition WIM_HDR_LZX :: u32 where "WIM_HDR_LZX = 0x00040000"

record wim_lookup_entry =
  entry_resource :: wim_resource_header
  entry_part :: nat
  entry_refcnt :: nat
  entry_hash :: bytes

definition struct_wim_hash :: layout where
  "struct_wim_hash = [(''sha1'', 20)]"

definition struct_wim_lookup_entry :: layout where
  "struct_wim_lookup_entry = [(''resource'', sizeof struct_wim_resource_header), (''part'', 2), (''refcnt'', 4),
     (''hash'', sizeof struct_wim_hash)]"

definition WIM_CHUNK_LEN :: nat where "WIM_CHUNK_LEN = 32768"

definition struct_wim_security_header :: layout where
  "struct_wim_security_header = [(''len'', 4), (''count'', 4)]"

definition struct_wim_directory_entry :: layout where
  "struct_wim_directory_entry = [(''len'', 8), (''attributes'', 4), (''security'', 4), (''subdir'', 8), (''reserved1'', 16),
     (''created'', 8), (''accessed'', 8), (''written'', 8), (''hash'', sizeof struct_wim_hash), (''reserved2'', 12),
     (''streams'', 2), (''short_name_len'', 2), (''name_len'', 2)]"

definition parse_resource :: "bytes \<Rightarrow> nat \<Rightarrow> wim_resource_header result" where
  "parse_resource data i =
     (let s = struct_wim_resource_header in
      rbind (rd64 data (i + offset_of s ''zlen__flags'')) (\<lambda>zlen.
      rbind (rd64 data (i + offset_of s ''offset'')) (\<lambda>off.
      rbind (rd64 data (i + offset_of s ''len'')) (\<lambda>len.
      Inr \<lparr>zlen__flags = zlen, res_offset = off, res_len = len\<rparr>))))"

definition parse_wim_header :: "bytes \<Rightarrow> wim_header result" where
  "parse_wim_header data =
     (let s = struct_wim_header in
      rbind (rd_bytes data (offset_of s ''signature'') 8) (\<lambda>signature.
      rbind (rd32 data (offset_of s ''header_len'')) (\<lambda>header_len.
      rbind (rd32 data (offset_of s ''version'')) (\<lambda>version.
      rbind (rd32 data (offset_of s ''flags'')) (\<lambda>flags.
      rbind (rd32 data (offset_of s ''chunk_len'')) (\<lambda>chunk_len.
      rbind (rd_bytes data (offset_of s ''guid'') 16) (\<lambda>guid.
      rbind (rd16 data (offset_of s ''part'')) (\<lambda>part.
      rbind (rd16 data (offset_of s ''parts'')) (\<lambda>parts.
      rbind (rd32 data (offset_of s ''images'')) (\<lambda>images.
      rbind (parse_resource data (offset_of s ''lookup'')) (\<lambda>lookup.
      rbind (parse_resource data (offset_of s ''xml'')) (\<lambda>xml.
      rbind (parse_resource data (offset_of s ''boot'')) (\<lambda>boot.
      rbind (rd32 data (offset_of s ''boot_index'')) (\<lambda>boot_index.
      rbind (parse_resource data (offset_of s ''integrity'')) (\<lambda>integrity.
      rbind (rd_bytes data (offset_of s ''reserved'') 60) (\<lambda>reserved.
      Inr \<lparr>wim_signature = signature, wim_header_len = header_len, wim_version = version, wim_flags = flags,
        wim_chunk_len = chunk_len, wim_guid = guid, wim_part = part, wim_parts = parts, wim_images = images,
        wim_lookup = lookup, wim_xml = xml, wim_boot = boot, wim_boot_index = boot_index,
        wim_integrity = integrity, wim_reserved = reserved\<rparr>))))))))))))))))"

definition parse_lookup_entry :: "bytes \<Rightarrow> wim_lookup_entry result" where
  "parse_lookup_entry data =
     (let s = struct_wim_lookup_entry in
      rbind (parse_resource data (offset_of s ''resource'')) (\<lambda>resource.
      rbind (rd16 data (offset_of s ''part'')) (\<lambda>part.
      rbind (rd32 data (offset_of s ''refcnt'')) (\<lambda>refcnt.
      rbind (rd_bytes data (offset_of s ''hash'') 20) (\<lambda>hash.
      Inr \<lparr>entry_resource = resource, entry_part = part, entry_refcnt = refcnt, entry_hash = hash\<rparr>)))))"

section \<open>Resources\<close>

text \<open>The file that holds the image.\<close>

record source =
  src_file :: nat
  src_len :: nat
  src_read :: "nat \<Rightarrow> nat \<Rightarrow> bytes result"

definition wim_header :: "source \<Rightarrow> wim_header result" where
  "wim_header src =
     (if sizeof struct_wim_header > src_len src then Inl Fail
      else rbind (src_read src 0 (sizeof struct_wim_header)) parse_wim_header)"

definition zlen_of :: "wim_resource_header \<Rightarrow> nat" where
  "zlen_of res = unat (word_of_nat (zlen__flags res) AND WIM_RESHDR_ZLEN_MASK)"

definition has_flag :: "u64 \<Rightarrow> wim_resource_header \<Rightarrow> bool" where
  "has_flag flags res \<longleftrightarrow> word_of_nat (zlen__flags res) AND flags \<noteq> 0"

text \<open>The number of chunks, as an \<open>unsigned int\<close>.\<close>

definition wim_chunks :: "wim_resource_header \<Rightarrow> nat" where
  "wim_chunks res = (res_len res + WIM_CHUNK_LEN - 1) mod 2 ^ 64 div WIM_CHUNK_LEN mod 2 ^ 32"

definition wim_chunk_offset :: "nat \<Rightarrow> source \<Rightarrow> wim_resource_header \<Rightarrow> nat \<Rightarrow> nat result" where
  "wim_chunk_offset w src res chunk =
     (let zlen = zlen_of res mod 2 ^ w in
      if res_len res = 0 then Inr 0 else
      let chunks = wim_chunks res;
          offset_len = (if res_len res > 0xffffffff then 8 else 4);
          chunks_len = (chunks + (2 ^ 32 - 1)) mod 2 ^ 32 * offset_len mod 2 ^ w
      in if chunks_len > zlen then Inl Fail
         else if chunk = 0 then Inr chunks_len
         else if chunk \<ge> chunks then Inr zlen
         else
           let offset_offset = (chunk - 1) * offset_len mod 2 ^ w in
           rbind (src_read src ((res_offset res + offset_offset) mod 2 ^ w) offset_len) (\<lambda>u.
           rbind (if offset_len = 8 then rd64 u 0 else rd32 u 0) (\<lambda>v.
           let offset = (chunks_len + v) mod 2 ^ w in
           if offset > zlen then Inl Fail else Inr offset)))"

definition expected_out_len :: "wim_resource_header \<Rightarrow> nat \<Rightarrow> nat" where
  "expected_out_len res chunk =
     (if chunk \<ge> (wim_chunks res + (2 ^ 32 - 1)) mod 2 ^ 32
      then WIM_CHUNK_LEN - (2 ^ 64 - res_len res) mod WIM_CHUNK_LEN else WIM_CHUNK_LEN)"

text \<open>
  Decompress in two passes. The status of the second pass is ignored by the code; it can only fail
  with an access out of bounds.
\<close>

definition decompress_chunk :: "(bytes \<Rightarrow> nat \<Rightarrow> bytes option \<Rightarrow> (nat \<times> bytes option) result) \<Rightarrow> bytes \<Rightarrow> nat \<Rightarrow> nat \<Rightarrow> bytes \<Rightarrow> bytes result" where
  "decompress_chunk decompress zbuf len expected buf =
     rbind (decompress zbuf len None) (\<lambda>(out_len, _).
     if out_len \<noteq> expected then Inl Fail else
     rbind (decompress zbuf len (Some buf)) (\<lambda>(_, out). case out of Some buf \<Rightarrow> Inr buf | None \<Rightarrow> Inl Fault))"

definition wim_decompress :: "nat \<Rightarrow> bytes \<Rightarrow> nat \<Rightarrow> nat \<Rightarrow> bytes \<Rightarrow> bytes result" where
  "wim_decompress flags zbuf len expected buf =
     (let flags = word_of_nat flags :: u32 in
      if flags AND WIM_HDR_LZX \<noteq> 0 then decompress_chunk lzx_decompress zbuf len expected buf
      else if flags AND WIM_HDR_XPRESS \<noteq> 0 then decompress_chunk xca_decompress zbuf len expected buf
      else Inl Fail)"

definition wim_chunk :: "nat \<Rightarrow> source \<Rightarrow> wim_header \<Rightarrow> wim_resource_header \<Rightarrow> nat \<Rightarrow> bytes \<Rightarrow> bytes result" where
  "wim_chunk w src header res chunk buf =
     rbind (wim_chunk_offset w src res chunk) (\<lambda>offset.
     rbind (wim_chunk_offset w src res ((chunk + 1) mod 2 ^ 32)) (\<lambda>next_offset.
     let len = (next_offset + (2 ^ w - offset)) mod 2 ^ w;
         expected = expected_out_len res chunk;
         pos = (res_offset res + offset) mod 2 ^ w
     in if res_len res = 0 then Inl Died
        else if len = expected then rbind (src_read src pos len) (wr_bytes buf 0)
        else rbind (src_read src pos len) (\<lambda>zbuf. wim_decompress (wim_flags header) zbuf len expected buf)))"

text \<open>The static variables: \<open>None\<close> is the null pointer.\<close>

record wim_cache =
  cached_file :: "nat option"
  cached_resource_offset :: nat
  cached_chunk :: nat
  wim_chunk_buffer :: bytes

definition wim_cache_initial :: wim_cache where
  "wim_cache_initial = \<lparr>cached_file = None, cached_resource_offset = 0, cached_chunk = 0,
     wim_chunk_buffer = replicate WIM_CHUNK_LEN 0\<rparr>"

type_synonym 'a wim = "(wim_cache, 'a) stateful"

text \<open>Bring a chunk into the buffer, if it is not cached.\<close>

definition wim_load :: "nat \<Rightarrow> source \<Rightarrow> wim_header \<Rightarrow> wim_resource_header \<Rightarrow> nat \<Rightarrow> bytes wim" where
  "wim_load w src header res chunk s =
     (if cached_file s \<noteq> Some (src_file src) \<or> res_offset res \<noteq> cached_resource_offset s \<or> chunk \<noteq> cached_chunk s then
        (case wim_chunk w src header res chunk (wim_chunk_buffer s) of Inl e \<Rightarrow> (Inl e, s)
         | Inr buf \<Rightarrow> (Inr buf, \<lparr>cached_file = Some (src_file src), cached_resource_offset = res_offset res mod 2 ^ w,
             cached_chunk = chunk, wim_chunk_buffer = buf\<rparr>))
      else (Inr (wim_chunk_buffer s), s))"

text \<open>The loop over the chunks: yields the bytes that are copied to the data buffer.\<close>

function wim_read_chunks :: "nat \<Rightarrow> source \<Rightarrow> wim_header \<Rightarrow> wim_resource_header \<Rightarrow> nat \<Rightarrow> nat \<Rightarrow> bytes wim" where
  "wim_read_chunks w src header res offset len =
     (if len = 0 then wret (Inr []) else
      let chunk = offset div WIM_CHUNK_LEN mod 2 ^ 32;
          skip_len = offset mod WIM_CHUNK_LEN;
          frag_len = min (WIM_CHUNK_LEN - skip_len) len
      in wbind (wim_load w src header res chunk) (\<lambda>buf.
         wbind (wret (rd_bytes buf skip_len frag_len)) (\<lambda>frag.
         wbind (wim_read_chunks w src header res ((offset + frag_len) mod 2 ^ w) (len - frag_len)) (\<lambda>rest.
         wret (Inr (frag @ rest))))))"
  by auto
termination
  by (relation "measure (\<lambda>(w, src, header, res, offset, len). len)") (auto simp: WIM_CHUNK_LEN_def)

declare wim_read_chunks.simps [simp del]

definition wim_read :: "nat \<Rightarrow> source \<Rightarrow> wim_header \<Rightarrow> wim_resource_header \<Rightarrow> nat \<Rightarrow> nat \<Rightarrow> bytes wim" where
  "wim_read w src header res offset len =
     (let zlen = zlen_of res mod 2 ^ w in
      if (offset + len) mod 2 ^ w > res_len res then wret (Inl Fail)
      else if (res_offset res + zlen) mod 2 ^ 64 > src_len src then wret (Inl Fail)
      else if \<not> has_flag (WIM_RESHDR_COMPRESSED OR WIM_RESHDR_PACKED_STREAMS) res
        then wret (src_read src ((res_offset res + offset) mod 2 ^ w) len)
      else wim_read_chunks w src header res offset len)"

section \<open>Lookup table\<close>

text \<open>
  The loop over the entries of the lookup table: \<open>step\<close> either ends it with a result or goes on with a
  new state, from which \<open>finish\<close> gives the result at the end of the table.
\<close>

fun wim_scan :: "nat \<Rightarrow> nat \<Rightarrow> source \<Rightarrow> wim_header \<Rightarrow> (wim_lookup_entry \<Rightarrow> 'a \<Rightarrow> 'b result + 'a) \<Rightarrow> ('a \<Rightarrow> 'b result)
      \<Rightarrow> nat \<Rightarrow> 'a \<Rightarrow> 'b wim" where
  "wim_scan 0 w src header step finish offset acc = wret (Inl Fuel)"
| "wim_scan (Suc fuel) w src header step finish offset acc =
     (if (offset + sizeof struct_wim_lookup_entry) mod 2 ^ w \<le> res_len (wim_lookup header) then
        wbind (wim_read w src header (wim_lookup header) offset (sizeof struct_wim_lookup_entry)) (\<lambda>data.
        wbind (wret (parse_lookup_entry data)) (\<lambda>entry.
        case step entry acc of Inl r \<Rightarrow> wret r
        | Inr acc \<Rightarrow> wim_scan fuel w src header step finish ((offset + sizeof struct_wim_lookup_entry) mod 2 ^ w) acc))
      else wret (finish acc))"

declare wim_scan.simps [simp del]

text \<open>Each iteration moves by the size of an entry within the table.\<close>

definition scan_fuel :: "wim_header \<Rightarrow> nat" where
  "scan_fuel header = res_len (wim_lookup header) div sizeof struct_wim_lookup_entry + 1"

definition wim_count :: "nat \<Rightarrow> source \<Rightarrow> wim_header \<Rightarrow> nat wim" where
  "wim_count w src header =
     wim_scan (scan_fuel header) w src header
       (\<lambda>entry count. Inr (if has_flag WIM_RESHDR_METADATA (entry_resource entry) then (count + 1) mod 2 ^ 32 else count))
       Inr 0 0"

definition wim_metadata :: "nat \<Rightarrow> source \<Rightarrow> wim_header \<Rightarrow> nat \<Rightarrow> wim_resource_header wim" where
  "wim_metadata w src header index =
     (if index = 0 then wret (Inr (wim_boot header)) else
      wim_scan (scan_fuel header) w src header
        (\<lambda>entry found.
           if has_flag WIM_RESHDR_METADATA (entry_resource entry) then
             if (found + 1) mod 2 ^ 32 = index then Inl (Inr (entry_resource entry)) else Inr ((found + 1) mod 2 ^ 32)
           else Inr found)
        (\<lambda>_. Inl Fail) 0 0)"

section \<open>Directories\<close>

text \<open>The members of a directory entry that are used.\<close>

record wim_directory_entry =
  dir_len :: nat
  dir_subdir :: nat
  dir_hash :: bytes
  dir_name_len :: nat

definition parse_directory_entry :: "bytes \<Rightarrow> wim_directory_entry result" where
  "parse_directory_entry data =
     (let s = struct_wim_directory_entry in
      rbind (rd64 data (offset_of s ''len'')) (\<lambda>len.
      rbind (rd64 data (offset_of s ''subdir'')) (\<lambda>subdir.
      rbind (rd_bytes data (offset_of s ''hash'') 20) (\<lambda>hash.
      rbind (rd16 data (offset_of s ''name_len'')) (\<lambda>name_len.
      Inr \<lparr>dir_len = len, dir_subdir = subdir, dir_hash = hash, dir_name_len = name_len\<rparr>)))))"

text \<open>An array of wide characters in memory.\<close>

fun wchars :: "bytes \<Rightarrow> u16 list" where
  "wchars (a # b # bs) = (word_of_nat (unat a + 256 * unat b)) # wchars bs"
| "wchars _ = []"

text \<open>
  Yields the offset of the entry and the entry. \<open>name\<close> is the wide string with its terminator; the
  name in the image is read into a buffer of the same size.
\<close>

fun wim_direntry :: "nat \<Rightarrow> nat \<Rightarrow> source \<Rightarrow> wim_header \<Rightarrow> wim_resource_header \<Rightarrow> u16 list \<Rightarrow> nat
      \<Rightarrow> (nat \<times> wim_directory_entry) wim" where
  "wim_direntry 0 w src header meta name offset = wret (Inl Fuel)"
| "wim_direntry (Suc fuel) w src header meta name offset =
     wbind (wret (wcslen name)) (\<lambda>n.
     let size = 2 * (n + 1) in
     wbind (wim_read w src header meta offset 8) (\<lambda>data.
     wbind (wret (rd64 data 0)) (\<lambda>len.
     if len = 0 then wret (Inl Fail) else
     wbind (wim_read w src header meta offset (sizeof struct_wim_directory_entry)) (\<lambda>data.
     wbind (wret (parse_directory_entry data)) (\<lambda>direntry.
     if dir_name_len direntry > size then wim_direntry fuel w src header meta name ((offset + dir_len direntry) mod 2 ^ w) else
     wbind (wim_read w src header meta ((offset + sizeof struct_wim_directory_entry) mod 2 ^ w) size) (\<lambda>name_buf.
     wbind (wret (wcscasecmp name (wchars name_buf))) (\<lambda>d.
     if d \<noteq> 0 then wim_direntry fuel w src header meta name ((offset + dir_len direntry) mod 2 ^ w)
     else wret (Inr (offset, direntry)))))))))"

declare wim_direntry.simps [simp del]

text \<open>
  The offsets within the metadata bound the iterations: after more than these, an offset was visited
  twice, and the loop does not end.
\<close>

definition dir_fuel :: "wim_resource_header \<Rightarrow> nat" where
  "dir_fuel meta = res_len meta + 2"

lemma wcschr_less: "wcschr path c = Inr (Some i) \<Longrightarrow> i < length path"
  by (induction path c arbitrary: i rule: wcschr.induct) (auto simp: rbind_eq_Inr split: if_splits)

text \<open>
  The loop over the components of a path, which are cut at the backslashes in place. \<open>subdir\<close> is the
  member of the directory entry from the previous component.
\<close>

function wim_components :: "nat \<Rightarrow> source \<Rightarrow> wim_header \<Rightarrow> wim_resource_header \<Rightarrow> u16 list \<Rightarrow> nat
      \<Rightarrow> (nat \<times> wim_directory_entry) wim" where
  "wim_components w src header meta path subdir =
     (case wcschr path 0x5c of
        Inl e \<Rightarrow> wret (Inl e)
      | Inr None \<Rightarrow> wim_direntry (dir_fuel meta) w src header meta path (subdir mod 2 ^ w)
      | Inr (Some i) \<Rightarrow>
          wbind (wim_direntry (dir_fuel meta) w src header meta (path[i := 0]) (subdir mod 2 ^ w)) (\<lambda>(offset, direntry).
          wim_components w src header meta (drop (i + 1) path) (dir_subdir direntry)))"
  by auto
termination
  by (relation "measure (\<lambda>(w, src, header, meta, path, subdir). length path)") (auto dest: wcschr_less)

declare wim_components.simps [simp del]

definition wim_path :: "nat \<Rightarrow> source \<Rightarrow> wim_header \<Rightarrow> wim_resource_header \<Rightarrow> u16 list \<Rightarrow> (nat \<times> wim_directory_entry) wim" where
  "wim_path w src header meta path =
     wbind (wim_read w src header meta 0 (sizeof struct_wim_security_header)) (\<lambda>data.
     wbind (wret (rd32 data (offset_of struct_wim_security_header ''len''))) (\<lambda>security_len.
     wim_components w src header meta path ((security_len + 8 - 1) mod 2 ^ w div 8 * 8)))"

definition wim_file :: "nat \<Rightarrow> source \<Rightarrow> wim_header \<Rightarrow> wim_resource_header \<Rightarrow> u16 list \<Rightarrow> wim_resource_header wim" where
  "wim_file w src header meta path =
     wbind (wim_path w src header meta path) (\<lambda>(_, direntry).
     wim_scan (scan_fuel header) w src header
       (\<lambda>entry acc. case memcmp (entry_hash entry) (dir_hash direntry) 20 of
          Inl e \<Rightarrow> Inl (Inl e)
        | Inr d \<Rightarrow> if d = 0 then Inl (Inr (entry_resource entry)) else Inr acc)
       (\<lambda>_. Inl Fail) 0 ())"

fun wim_dir_len_loop :: "nat \<Rightarrow> nat \<Rightarrow> source \<Rightarrow> wim_header \<Rightarrow> wim_resource_header \<Rightarrow> nat \<Rightarrow> nat \<Rightarrow> nat wim" where
  "wim_dir_len_loop 0 w src header meta offset len = wret (Inl Fuel)"
| "wim_dir_len_loop (Suc fuel) w src header meta offset len =
     wbind (wim_read w src header meta ((offset + len) mod 2 ^ w) 8) (\<lambda>data.
     wbind (wret (rd64 data 0)) (\<lambda>entry_len.
     if entry_len = 0 then wret (Inr len)
     else wim_dir_len_loop fuel w src header meta offset ((len + entry_len) mod 2 ^ w)))"

declare wim_dir_len_loop.simps [simp del]

definition wim_dir_len :: "nat \<Rightarrow> source \<Rightarrow> wim_header \<Rightarrow> wim_resource_header \<Rightarrow> nat \<Rightarrow> nat wim" where
  "wim_dir_len w src header meta offset = wim_dir_len_loop (dir_fuel meta) w src header meta offset 0"

end
