(* ===== verification/Wim_Read.thy ===== *)
theory Wim_Read
  imports Wim
begin

text \<open>
  Reading from a WIM resource: the chunk cache of \<open>wim_read\<close> does not matter, and reading a range yields
  that range of the uncompressed resource.
\<close>

section \<open>Chunks\<close>

text \<open>The uncompressed bytes of a chunk.\<close>

definition chunk_bytes :: "nat \<Rightarrow> source \<Rightarrow> wim_header \<Rightarrow> wim_resource_header \<Rightarrow> nat \<Rightarrow> bytes result" where
  "chunk_bytes w src header res chunk =
     rbind (wim_chunk w src header res chunk (replicate WIM_CHUNK_LEN 0)) (\<lambda>buf.
     Inr (take (expected_out_len res chunk) buf))"

text \<open>A chunk is stable if what the buffer held before does not matter.\<close>

definition agrees :: "nat \<Rightarrow> bytes result \<Rightarrow> bytes result \<Rightarrow> bool" where
  "agrees n r r' \<longleftrightarrow> (case r of Inl e \<Rightarrow> r' = Inl e
     | Inr b \<Rightarrow> \<exists>b'. r' = Inr b' \<and> length b = WIM_CHUNK_LEN \<and> length b' = WIM_CHUNK_LEN \<and> take n b = take n b')"

definition chunk_stable :: "nat \<Rightarrow> source \<Rightarrow> wim_header \<Rightarrow> wim_resource_header \<Rightarrow> nat \<Rightarrow> bool" where
  "chunk_stable w src header res chunk \<longleftrightarrow>
     (\<forall>buf. length buf = WIM_CHUNK_LEN \<longrightarrow>
        agrees (expected_out_len res chunk) (wim_chunk w src header res chunk (replicate WIM_CHUNK_LEN 0)) (wim_chunk w src header res chunk buf))"

lemma agrees_refl_Inl [simp]: "agrees n (Inl e) (Inl e')  \<longleftrightarrow> e = e'"
  by (auto simp: agrees_def)

lemma agrees_bind: "(\<And>x. r = Inr x \<Longrightarrow> agrees n (f x) (g x)) \<Longrightarrow> agrees n (rbind r f) (rbind r g)"
  by (cases r) simp_all

text \<open>What a client of a stream decompressor gets from the two passes.\<close>

context stream_decompressor
begin

lemma two_passes:
  assumes "plain data len" "length b = length c" "decompress_chunk decompress data len n b = Inr b'"
  shows "\<exists>c'. decompress_chunk decompress data len n c = Inr c' \<and> length b' = length b \<and> length c' = length c \<and> take n b' = take n c'"
proof -
  from assms(3) obtain o1 m where 1: "decompress data len None = Inr (n, o1)" "decompress data len (Some b) = Inr (m, Some b')"
    by (auto simp: decompress_chunk_def rbind_eq_Inr split: if_splits option.splits)
  from two_pass [OF assms(1) 1(2)] 1(1) have n: "m = n" "n \<le> length b"
    "\<And>c. n \<le> length c \<Longrightarrow> decompress data len (Some c) = Inr (n, Some (take n b' @ drop n c))" by auto
  from measured [OF 1(2)] have "length b' = length b" by auto
  with n 1(1) assms(2) show ?thesis by (auto simp: decompress_chunk_def)
qed

lemma second_pass_error:
  assumes "decompress data len None = Inr (n, out)" "decompress_chunk decompress data len n b = Inl e"
  shows "e = Fault"
proof -
  have "decompress data len None = Inr (n, None)" using assms(1) echoes_None [OF same_length assms(1)] by simp
  from buffered_outcome [OF this, of b] assms show ?thesis
    by (auto simp: decompress_chunk_def)
qed

lemma two_passes_agree:
  assumes "plain data len" "length b = WIM_CHUNK_LEN" "length c = WIM_CHUNK_LEN"
  shows "agrees n (decompress_chunk decompress data len n b) (decompress_chunk decompress data len n c)"
proof (cases "decompress_chunk decompress data len n b")
  case (Inr b')
  with two_passes [OF assms(1) _ Inr, of c] assms(2,3) show ?thesis by (auto simp: agrees_def)
next
  case (Inl e)
  show ?thesis
  proof (cases "decompress_chunk decompress data len n c")
    case (Inr c')
    with two_passes [OF assms(1) _ Inr, of b] assms(2,3) Inl show ?thesis by auto
  next
    case inl: (Inl e')
    show ?thesis
    proof (cases "\<exists>out. decompress data len None = Inr (n, out)")
      case True
      then have "e = Fault" "e' = Fault" using second_pass_error Inl inl by blast+
      with Inl inl show ?thesis by simp
    next
      case False
      with Inl inl show ?thesis by (auto simp: decompress_chunk_def rbind_eq_Inl)
    qed
  qed
qed

end

text \<open>
  The chunks that are decompressed with LZX have to be plain: an uncompressed block (which the code does not count)
  would leave bytes of the previous chunk in the buffer.
\<close>

definition chunk_plain :: "nat \<Rightarrow> source \<Rightarrow> wim_header \<Rightarrow> wim_resource_header \<Rightarrow> nat \<Rightarrow> bool" where
  "chunk_plain w src header res chunk \<longleftrightarrow>
     (\<forall>offset next_offset zbuf. wim_chunk_offset w src res chunk = Inr offset \<longrightarrow>
        wim_chunk_offset w src res ((chunk + 1) mod 2 ^ 32) = Inr next_offset \<longrightarrow>
        src_read src ((res_offset res + offset) mod 2 ^ w) ((next_offset + (2 ^ w - offset)) mod 2 ^ w) = Inr zbuf \<longrightarrow>
        (word_of_nat (wim_flags header) :: u32) AND WIM_HDR_LZX \<noteq> 0 \<longrightarrow>
        lzx_plain zbuf ((next_offset + (2 ^ w - offset)) mod 2 ^ w))"

definition reads_length :: "source \<Rightarrow> bool" where
  "reads_length src \<longleftrightarrow> (\<forall>off n bs. src_read src off n = Inr bs \<longrightarrow> length bs = n)"

lemma expected_out_len_le: "expected_out_len res chunk \<le> WIM_CHUNK_LEN"
  by (simp add: expected_out_len_def)

lemma chunk_plain_stable:
  assumes "chunk_plain w src header res chunk" "reads_length src"
  shows "chunk_stable w src header res chunk"
  unfolding chunk_stable_def wim_chunk_def Let_def
proof (intro allI impI agrees_bind)
  fix buf :: bytes and offset next_offset
  assume buf: "length buf = WIM_CHUNK_LEN" and off: "wim_chunk_offset w src res chunk = Inr offset"
    "wim_chunk_offset w src res ((chunk + 1) mod 2 ^ 32) = Inr next_offset"
  define len where "len = (next_offset + (2 ^ w - offset)) mod 2 ^ w"
  define pos where "pos = (res_offset res + offset) mod 2 ^ w"
  let ?n = "expected_out_len res chunk" and ?z = "replicate WIM_CHUNK_LEN (0 :: u8)"
  have raw: "agrees ?n (rbind (src_read src pos len) (wr_bytes ?z 0)) (rbind (src_read src pos len) (wr_bytes buf 0))" if "len = ?n"
  proof (rule agrees_bind)
    fix bs assume "src_read src pos len = Inr bs"
    then have "length bs = ?n" using assms(2) that by (simp add: reads_length_def)
    then show "agrees ?n (wr_bytes ?z 0 bs) (wr_bytes buf 0 bs)"
      using buf expected_out_len_le [of res chunk] by (auto simp: agrees_def wr_bytes_def overlay_0)
  qed
  have "agrees ?n (wim_decompress (wim_flags header) zbuf len ?n ?z) (wim_decompress (wim_flags header) zbuf len ?n buf)"
    if "src_read src pos len = Inr zbuf" for zbuf
    using assms(1) off that buf lzx_stream.two_passes_agree [where data = zbuf and len = len and b = ?z and c = buf and n = ?n]
      xca_dec.two_passes_agree [where data = zbuf and len = len and b = ?z and c = buf and n = ?n]
    by (auto simp: wim_decompress_def Let_def chunk_plain_def len_def pos_def)
  with raw show "agrees ?n
      (if res_len res = 0 then Inl Died else if len = ?n then rbind (src_read src pos len) (wr_bytes ?z 0)
       else rbind (src_read src pos len) (\<lambda>zbuf. wim_decompress (wim_flags header) zbuf len ?n ?z))
      (if res_len res = 0 then Inl Died else if len = ?n then rbind (src_read src pos len) (wr_bytes buf 0)
       else rbind (src_read src pos len) (\<lambda>zbuf. wim_decompress (wim_flags header) zbuf len ?n buf))"
    by (auto intro: agrees_bind)
qed

section \<open>The cache\<close>

text \<open>
  The cache is keyed by the file and the offset of the resource. It is right for a set of resources if
  what it holds is the chunk of every resource of the set that has this key.
\<close>

definition cache_ok :: "nat \<Rightarrow> source \<Rightarrow> wim_header \<Rightarrow> wim_resource_header set \<Rightarrow> wim_cache \<Rightarrow> bool" where
  "cache_ok w src header R s \<longleftrightarrow> length (wim_chunk_buffer s) = WIM_CHUNK_LEN \<and>
     (cached_file s = Some (src_file src) \<longrightarrow> (\<forall>res \<in> R. res_offset res = cached_resource_offset s \<longrightarrow>
        chunk_bytes w src header res (cached_chunk s) = Inr (take (expected_out_len res (cached_chunk s)) (wim_chunk_buffer s))))"

lemma cache_ok_initial: "cache_ok w src header R wim_cache_initial"
  by (simp add: cache_ok_def wim_cache_initial_def)

lemma wim_load_cached:
  assumes "cache_ok w src header R s" "res \<in> R" "inj_on res_offset R" "chunk_stable w src header res chunk" "\<forall>res \<in> R. res_offset res < 2 ^ w"
  shows "(\<exists>e. chunk_bytes w src header res chunk = Inl e \<and> wim_load w src header res chunk s = (Inl e, s))
    \<or> (\<exists>bs buf s'. chunk_bytes w src header res chunk = Inr bs \<and> wim_load w src header res chunk s = (Inr buf, s')
        \<and> length buf = WIM_CHUNK_LEN \<and> bs = take (expected_out_len res chunk) buf \<and> cache_ok w src header R s')"
proof (cases "cached_file s \<noteq> Some (src_file src) \<or> res_offset res \<noteq> cached_resource_offset s \<or> chunk \<noteq> cached_chunk s")
  case False
  with assms(1,2) show ?thesis by (auto simp: wim_load_def cache_ok_def)
next
  case True
  have "length (wim_chunk_buffer s) = WIM_CHUNK_LEN" using assms(1) by (simp add: cache_ok_def)
  then have agree: "agrees (expected_out_len res chunk) (wim_chunk w src header res chunk (replicate WIM_CHUNK_LEN 0))
      (wim_chunk w src header res chunk (wim_chunk_buffer s))"
    using assms(4) by (simp add: chunk_stable_def)
  show ?thesis
  proof (cases "wim_chunk w src header res chunk (replicate WIM_CHUNK_LEN 0)")
    case (Inl e)
    with agree True show ?thesis by (simp add: chunk_bytes_def wim_load_def agrees_def)
  next
    case (Inr b)
    with agree obtain b' where b': "wim_chunk w src header res chunk (wim_chunk_buffer s) = Inr b'" "length b' = WIM_CHUNK_LEN"
      "take (expected_out_len res chunk) b = take (expected_out_len res chunk) b'" by (auto simp: agrees_def)
    let ?s = "\<lparr>cached_file = Some (src_file src), cached_resource_offset = res_offset res mod 2 ^ w, cached_chunk = chunk, wim_chunk_buffer = b'\<rparr>"
    have "cache_ok w src header R ?s"
      unfolding cache_ok_def
    proof (intro conjI impI ballI)
      fix res' assume "res' \<in> R" "res_offset res' = cached_resource_offset ?s"
      then have "res' = res" using assms(2,3,5) by (auto simp: inj_on_def)
      with Inr b'(3) show "chunk_bytes w src header res' (cached_chunk ?s) = Inr (take (expected_out_len res' (cached_chunk ?s)) (wim_chunk_buffer ?s))"
        by (simp add: chunk_bytes_def)
    qed (simp add: b'(2))
    with True Inr b' show ?thesis by (auto simp: chunk_bytes_def wim_load_def)
  qed
qed

section \<open>Reading without a cache\<close>

function read_chunks :: "nat \<Rightarrow> source \<Rightarrow> wim_header \<Rightarrow> wim_resource_header \<Rightarrow> nat \<Rightarrow> nat \<Rightarrow> bytes result" where
  "read_chunks w src header res offset len =
     (if len = 0 then Inr [] else
      let skip_len = offset mod WIM_CHUNK_LEN;
          frag_len = min (WIM_CHUNK_LEN - skip_len) len
      in rbind (chunk_bytes w src header res (offset div WIM_CHUNK_LEN)) (\<lambda>bs.
         rbind (rd_bytes bs skip_len frag_len) (\<lambda>frag.
         rbind (read_chunks w src header res (offset + frag_len) (len - frag_len)) (\<lambda>rest.
         Inr (frag @ rest)))))"
  by auto
termination
  by (relation "measure (\<lambda>(w, src, header, res, offset, len). len)") (auto simp: WIM_CHUNK_LEN_def)

declare read_chunks.simps [simp del]

text \<open>The reference: the same checks, and every chunk is decompressed anew.\<close>

definition read_resource :: "nat \<Rightarrow> source \<Rightarrow> wim_header \<Rightarrow> wim_resource_header \<Rightarrow> nat \<Rightarrow> nat \<Rightarrow> bytes result" where
  "read_resource w src header res offset len =
     (if offset + len > res_len res then Inl Fail
      else if res_offset res + zlen_of res > src_len src then Inl Fail
      else if \<not> has_flag (WIM_RESHDR_COMPRESSED OR WIM_RESHDR_PACKED_STREAMS) res then src_read src (res_offset res + offset) len
      else read_chunks w src header res offset len)"

text \<open>The length of the last chunk.\<close>

lemma chunks_of_length:
  assumes "0 < res_len res" "res_len res < 2 ^ 47 - 2 ^ 15"
  shows "wim_chunks res = (res_len res - 1) div WIM_CHUNK_LEN + 1"
    "expected_out_len res ((res_len res - 1) div WIM_CHUNK_LEN) = (res_len res - 1) mod WIM_CHUNK_LEN + 1"
    "chunk < (res_len res - 1) div WIM_CHUNK_LEN \<Longrightarrow> expected_out_len res chunk = WIM_CHUNK_LEN"
proof -
  obtain m where m: "res_len res = Suc m" using assms(1) by (cases "res_len res") simp_all
  define q r where "q = m div 32768" and "r = m mod 32768"
  have qr: "m = 32768 * q + r" "r < 32768" by (simp_all add: q_def r_def)
  have q: "q + 1 < 2 ^ 32" using assms(2) m qr by simp
  have "(res_len res + WIM_CHUNK_LEN - 1) mod 2 ^ 64 = m + 32768" using assms(2) m by (simp add: WIM_CHUNK_LEN_def)
  then show c: "wim_chunks res = (res_len res - 1) div WIM_CHUNK_LEN + 1"
  proof -
    assume a: "(res_len res + WIM_CHUNK_LEN - 1) mod 2 ^ 64 = m + 32768"
    have "(m + 32768) div 32768 = q + 1" by (simp add: q_def)
    with a q m show ?thesis by (simp only: wim_chunks_def) (simp add: WIM_CHUNK_LEN_def q_def)
  qed
  have last: "(wim_chunks res + (2 ^ 32 - 1)) mod 2 ^ 32 = q"
  proof -
    have "wim_chunks res + (2 ^ 32 - 1) = q + 2 ^ 32" using c m by (simp add: WIM_CHUNK_LEN_def q_def)
    then show ?thesis using q by (simp only: mod_add_self2) simp
  qed
  have "(2 ^ 64 - res_len res) mod 32768 = 32767 - r"
  proof -
    have "2 ^ 64 - res_len res = 32768 * (2 ^ 49 - q - 1) + (32767 - r)" using m qr assms(2) by simp
    then have "(2 ^ 64 - res_len res) mod 32768 = (32767 - r) mod 32768" by (simp only: mod_mult_self4)
    then show ?thesis by simp
  qed
  then show "expected_out_len res ((res_len res - 1) div WIM_CHUNK_LEN) = (res_len res - 1) mod WIM_CHUNK_LEN + 1"
    using m qr(2) last unfolding expected_out_len_def by (simp add: WIM_CHUNK_LEN_def q_def [symmetric] r_def [symmetric])
  show "chunk < (res_len res - 1) div WIM_CHUNK_LEN \<Longrightarrow> expected_out_len res chunk = WIM_CHUNK_LEN"
    using m last unfolding expected_out_len_def by (simp add: WIM_CHUNK_LEN_def q_def [symmetric])
qed

text \<open>A fragment that lies in the resource lies in its chunk.\<close>

lemma fragment_in_chunk:
  assumes "0 < len" "offset + len \<le> res_len res" "res_len res < 2 ^ 47 - 2 ^ 15"
  shows "offset mod WIM_CHUNK_LEN + min (WIM_CHUNK_LEN - offset mod WIM_CHUNK_LEN) len \<le> expected_out_len res (offset div WIM_CHUNK_LEN)"
    "offset div WIM_CHUNK_LEN < 2 ^ 32"
proof -
  let ?q = "(res_len res - 1) div WIM_CHUNK_LEN" and ?c = "offset div WIM_CHUNK_LEN"
  have le: "?c \<le> ?q" using assms(1,2) by (intro div_le_mono) simp
  have "?q < 2 ^ 32" using assms(3) by (simp add: WIM_CHUNK_LEN_def less_mult_imp_div_less)
  with le show "?c < 2 ^ 32" by simp
  show "offset mod WIM_CHUNK_LEN + min (WIM_CHUNK_LEN - offset mod WIM_CHUNK_LEN) len \<le> expected_out_len res ?c"
  proof (cases "?c = ?q")
    case False
    have "offset mod WIM_CHUNK_LEN < WIM_CHUNK_LEN" by (simp add: WIM_CHUNK_LEN_def)
    with False le chunks_of_length(3) [of res ?c] assms show ?thesis by (auto simp: min_def)
  next
    case True
    have 1: "offset = WIM_CHUNK_LEN * ?q + offset mod WIM_CHUNK_LEN" using mult_div_mod_eq [of WIM_CHUNK_LEN offset] True by simp
    have 2: "res_len res - 1 = WIM_CHUNK_LEN * ?q + (res_len res - 1) mod WIM_CHUNK_LEN" by simp
    have "offset mod WIM_CHUNK_LEN + len \<le> (res_len res - 1) mod WIM_CHUNK_LEN + 1"
      using 1 2 assms(1,2) by linarith
    with chunks_of_length(2) [of res] assms True show ?thesis by simp
  qed
qed

text \<open>A resource of moderate size, whose chunks do not depend on the buffer.\<close>

definition resource_ok :: "nat \<Rightarrow> source \<Rightarrow> wim_header \<Rightarrow> wim_resource_header \<Rightarrow> bool" where
  "resource_ok w src header res \<longleftrightarrow> res_len res < 2 ^ w \<and> res_len res < 2 ^ 47 - 2 ^ 15 \<and> res_offset res + zlen_of res < 2 ^ w \<and>
     (\<not> has_flag (WIM_RESHDR_COMPRESSED OR WIM_RESHDR_PACKED_STREAMS) res \<longrightarrow> res_offset res + res_len res < 2 ^ w) \<and>
     (\<forall>chunk. chunk_stable w src header res chunk)"

definition resources_ok :: "nat \<Rightarrow> source \<Rightarrow> wim_header \<Rightarrow> wim_resource_header set \<Rightarrow> bool" where
  "resources_ok w src header R \<longleftrightarrow> inj_on res_offset R \<and> (\<forall>res \<in> R. resource_ok w src header res)"

lemma wim_read_chunks_cached:
  assumes R: "resources_ok w src header R" "res \<in> R"
  shows "offset + len \<le> res_len res \<Longrightarrow> cache_ok w src header R s \<Longrightarrow>
    \<exists>s'. wim_read_chunks w src header res offset len s = (read_chunks w src header res offset len, s') \<and> cache_ok w src header R s'"
proof (induction len arbitrary: offset s rule: less_induct)
  case (less len)
  show ?case
  proof (cases "len = 0")
    case True
    with less.prems show ?thesis by (simp add: wim_read_chunks.simps read_chunks.simps wret_def)
  next
    case False
    let ?skip = "offset mod WIM_CHUNK_LEN" and ?chunk = "offset div WIM_CHUNK_LEN"
    define frag where "frag = min (WIM_CHUNK_LEN - ?skip) len"
    have res: "res_len res < 2 ^ w" "res_len res < 2 ^ 47 - 2 ^ 15" "chunk_stable w src header res ?chunk" "\<forall>res \<in> R. res_offset res < 2 ^ w"
      using R by (auto simp: resources_ok_def resource_ok_def)
    have chunk: "?skip + frag \<le> expected_out_len res ?chunk" "?chunk mod 2 ^ 32 = ?chunk"
      using fragment_in_chunk [of len offset res] False less.prems(1) res(2) by (simp_all add: frag_def)
    have frag: "0 < frag" "frag \<le> len" using False by (auto simp: frag_def WIM_CHUNK_LEN_def)
    have off: "(offset + frag) mod 2 ^ w = offset + frag" using frag(2) less.prems(1) res(1) by simp
    have unfold: "wim_read_chunks w src header res offset len =
        wbind (wim_load w src header res ?chunk) (\<lambda>buf. wbind (wret (rd_bytes buf ?skip frag)) (\<lambda>bs.
        wbind (wim_read_chunks w src header res (offset + frag) (len - frag)) (\<lambda>rest. wret (Inr (bs @ rest)))))"
      using False chunk(2) off by (subst wim_read_chunks.simps) (simp add: Let_def frag_def)
    have unfold': "read_chunks w src header res offset len = rbind (chunk_bytes w src header res ?chunk) (\<lambda>buf.
        rbind (rd_bytes buf ?skip frag) (\<lambda>bs. rbind (read_chunks w src header res (offset + frag) (len - frag)) (\<lambda>rest. Inr (bs @ rest))))"
      using False by (subst read_chunks.simps) (simp add: Let_def frag_def)
    have load: "(\<exists>e. chunk_bytes w src header res ?chunk = Inl e \<and> wim_load w src header res ?chunk s = (Inl e, s))
        \<or> (\<exists>bs buf s'. chunk_bytes w src header res ?chunk = Inr bs \<and> wim_load w src header res ?chunk s = (Inr buf, s')
          \<and> length buf = WIM_CHUNK_LEN \<and> bs = take (expected_out_len res ?chunk) buf \<and> cache_ok w src header R s')"
      using R res by (intro wim_load_cached [OF less.prems(2) R(2)]) (auto simp: resources_ok_def)
    then show ?thesis
    proof (elim disjE exE conjE)
      fix e assume "chunk_bytes w src header res ?chunk = Inl e" "wim_load w src header res ?chunk s = (Inl e, s)"
      with less.prems(2) show ?thesis unfolding unfold unfold' by (simp add: wbind_def)
    next
      fix bs buf s1
      assume b: "chunk_bytes w src header res ?chunk = Inr bs" "wim_load w src header res ?chunk s = (Inr buf, s1)"
        "length buf = WIM_CHUNK_LEN" "bs = take (expected_out_len res ?chunk) buf" "cache_ok w src header R s1"
      have rd: "rd_bytes bs ?skip frag = rd_bytes buf ?skip frag" "\<exists>xs. rd_bytes buf ?skip frag = Inr xs"
        using b(3,4) chunk(1) expected_out_len_le [of res ?chunk] by (auto simp: rd_bytes_take) (simp add: rd_bytes_def)
      from less.IH [of "len - frag" "offset + frag" s1] frag less.prems(1) b(5) obtain s2 where
        "wim_read_chunks w src header res (offset + frag) (len - frag) s1 = (read_chunks w src header res (offset + frag) (len - frag), s2)"
        "cache_ok w src header R s2" by auto
      with b rd show ?thesis unfolding unfold unfold'
        by (cases "read_chunks w src header res (offset + frag) (len - frag)") (auto simp: wbind_def wret_def)
    qed
  qed
qed

lemma wim_read_cached:
  assumes R: "resources_ok w src header R" "res \<in> R" and "offset + len < 2 ^ w" "cache_ok w src header R s" and w: "w \<le> 64"
  shows "\<exists>s'. wim_read w src header res offset len s = (read_resource w src header res offset len, s') \<and> cache_ok w src header R s'"
proof -
  have res: "res_len res < 2 ^ w" "res_offset res + zlen_of res < 2 ^ w" using R by (auto simp: resources_ok_def resource_ok_def)
  have "(2 :: nat) ^ w \<le> 2 ^ 64" using w by (intro power_increasing) simp_all
  then have m: "zlen_of res mod 2 ^ w = zlen_of res" "(res_offset res + zlen_of res) mod 2 ^ 64 = res_offset res + zlen_of res"
    "(offset + len) mod 2 ^ w = offset + len" using res assms(3) by simp_all
  show ?thesis
  proof (cases "has_flag (WIM_RESHDR_COMPRESSED OR WIM_RESHDR_PACKED_STREAMS) res")
    case False
    then have "res_offset res + res_len res < 2 ^ w" using R by (auto simp: resources_ok_def resource_ok_def)
    then have "(res_offset res + offset) mod 2 ^ w = res_offset res + offset" if "offset + len \<le> res_len res" using that by simp
    with False assms(4) show ?thesis unfolding wim_read_def read_resource_def Let_def m by (auto simp: wret_def)
  next
    case True
    with wim_read_chunks_cached [OF R _ assms(4), of offset len] show ?thesis
      using assms(4) unfolding wim_read_def read_resource_def Let_def m by (auto simp: wret_def)
  qed
qed

section \<open>The content of a resource\<close>

text \<open>The chunks from \<open>c\<close> on.\<close>

fun all_chunks :: "nat \<Rightarrow> source \<Rightarrow> wim_header \<Rightarrow> wim_resource_header \<Rightarrow> nat \<Rightarrow> nat \<Rightarrow> bytes list result" where
  "all_chunks w src header res c 0 = Inr []"
| "all_chunks w src header res c (Suc n) =
     rbind (chunk_bytes w src header res c) (\<lambda>b. rbind (all_chunks w src header res (c + 1) n) (\<lambda>bs. Inr (b # bs)))"

definition resource_bytes :: "nat \<Rightarrow> source \<Rightarrow> wim_header \<Rightarrow> wim_resource_header \<Rightarrow> bytes result" where
  "resource_bytes w src header res =
     (if \<not> has_flag (WIM_RESHDR_COMPRESSED OR WIM_RESHDR_PACKED_STREAMS) res then src_read src (res_offset res) (res_len res)
      else if res_len res = 0 then Inr []
      else rbind (all_chunks w src header res 0 (wim_chunks res)) (\<lambda>bs. Inr (concat bs)))"

lemma all_chunks_nth:
  "all_chunks w src header res c n = Inr bs \<Longrightarrow> length bs = n \<and> (\<forall>i < n. chunk_bytes w src header res (c + i) = Inr (bs ! i))"
proof (induction n arbitrary: c bs)
  case (Suc n)
  then obtain b bs' where "bs = b # bs'" "chunk_bytes w src header res c = Inr b" "all_chunks w src header res (c + 1) n = Inr bs'"
    by (auto simp: rbind_eq_Inr)
  with Suc.IH [of "c + 1" bs'] show ?case by (auto simp: less_Suc_eq_0_disj)
qed simp

lemma length_chunk_bytes:
  assumes "chunk_stable w src header res chunk" "chunk_bytes w src header res chunk = Inr b"
  shows "length b = expected_out_len res chunk"
proof -
  obtain buf where "wim_chunk w src header res chunk (replicate WIM_CHUNK_LEN 0) = Inr buf" "b = take (expected_out_len res chunk) buf"
    using assms(2) by (auto simp: chunk_bytes_def rbind_eq_Inr)
  moreover from this have "length buf = WIM_CHUNK_LEN"
    using assms(1) [unfolded chunk_stable_def, rule_format, of "replicate WIM_CHUNK_LEN 0"] by (simp add: agrees_def)
  ultimately show ?thesis using expected_out_len_le [of res chunk] by simp
qed

lemma window_concat:
  assumes "i < length bs" "\<forall>j < i. length (bs ! j) = m" "off + n \<le> length (bs ! i)"
  shows "window (m * i + off) n (concat bs) = window off n (bs ! i)"
proof -
  have "concat bs = concat (take i bs) @ bs ! i @ concat (drop (Suc i) bs)"
    using assms(1) by (metis concat.simps(2) concat_append id_take_nth_drop)
  moreover have "length (concat (take i bs)) = m * i"
  proof -
    have "uniform m (take i bs)" using assms(1,2) by (auto simp: in_set_conv_nth)
    from length_concat_uniform [OF this] have "length (concat (take i bs)) = m * length (take i bs)" .
    then show ?thesis using assms(1) by simp
  qed
  ultimately show ?thesis using assms(3) by (simp add: window_def)
qed

lemma read_chunks_window:
  assumes "\<forall>chunk. chunk_stable w src header res chunk" "all_chunks w src header res 0 (wim_chunks res) = Inr bs"
    and len: "0 < res_len res" "res_len res < 2 ^ 47 - 2 ^ 15"
  shows "offset + n \<le> res_len res \<Longrightarrow> read_chunks w src header res offset n = Inr (window offset n (concat bs))"
proof (induction n arbitrary: offset rule: less_induct)
  case (less n)
  show ?case
  proof (cases "n = 0")
    case True
    then show ?thesis by (simp add: read_chunks.simps window_def)
  next
    case False
    let ?skip = "offset mod WIM_CHUNK_LEN" and ?c = "offset div WIM_CHUNK_LEN" and ?q = "(res_len res - 1) div WIM_CHUNK_LEN"
    define frag where "frag = min (WIM_CHUNK_LEN - ?skip) n"
    have frag: "0 < frag" "frag \<le> n" "?skip + frag \<le> expected_out_len res ?c"
      using False fragment_in_chunk(1) [of n offset res] less.prems len by (auto simp: frag_def WIM_CHUNK_LEN_def)
    have bs: "length bs = ?q + 1" "\<And>i. i \<le> ?q \<Longrightarrow> chunk_bytes w src header res i = Inr (bs ! i)"
      using all_chunks_nth [OF assms(2)] chunks_of_length(1) [OF len] by auto
    have c: "?c \<le> ?q" using False less.prems by (intro div_le_mono) simp
    have lens: "length (bs ! i) = expected_out_len res i" if "i \<le> ?q" for i
      using length_chunk_bytes [OF assms(1) [rule_format] bs(2) [OF that]] .
    have "window (WIM_CHUNK_LEN * ?c + ?skip) frag (concat bs) = window ?skip frag (bs ! ?c)"
      using c bs(1) lens chunks_of_length(3) [OF len] frag(3) by (intro window_concat) auto
    then have win: "window offset frag (concat bs) = window ?skip frag (bs ! ?c)" by simp
    have rd: "rd_bytes (bs ! ?c) ?skip frag = Inr (window ?skip frag (bs ! ?c))"
      using frag(3) lens [OF c] by (simp add: rd_bytes_def)
    have "read_chunks w src header res (offset + frag) (n - frag) = Inr (window (offset + frag) (n - frag) (concat bs))"
      using frag less.prems by (intro less.IH) auto
    moreover have "window offset n (concat bs) = window offset frag (concat bs) @ window (offset + frag) (n - frag) (concat bs)"
      using window_split [of offset frag "n - frag" "concat bs"] frag(2) by simp
    ultimately show ?thesis
      using False bs(2) [OF c] rd win by (subst read_chunks.simps) (simp add: Let_def frag_def [symmetric])
  qed
qed

text \<open>A file whose reads are windows of each other.\<close>

definition reads_windows :: "source \<Rightarrow> bool" where
  "reads_windows src \<longleftrightarrow> (\<forall>off n bs. src_read src off n = Inr bs \<longrightarrow> length bs = n \<and>
     (\<forall>i m. i + m \<le> n \<longrightarrow> src_read src (off + i) m = Inr (window i m bs)))"

lemma read_resource_window:
  assumes "resource_ok w src header res" "reads_windows src" "resource_bytes w src header res = Inr bs"
    "res_offset res + zlen_of res \<le> src_len src" "offset + n \<le> res_len res"
  shows "read_resource w src header res offset n = Inr (window offset n bs)"
proof (cases "has_flag (WIM_RESHDR_COMPRESSED OR WIM_RESHDR_PACKED_STREAMS) res")
  case False
  with assms show ?thesis by (auto simp: resource_bytes_def read_resource_def reads_windows_def)
next
  case True
  show ?thesis
  proof (cases "res_len res = 0")
    case True
    with assms(3,4,5) \<open>has_flag _ res\<close> show ?thesis
      by (auto simp: resource_bytes_def read_resource_def read_chunks.simps window_def)
  next
    case False
    with True assms obtain cs where cs: "all_chunks w src header res 0 (wim_chunks res) = Inr cs" "bs = concat cs"
      by (auto simp: resource_bytes_def rbind_eq_Inr)
    with read_chunks_window [OF _ cs(1), of offset n] assms True False show ?thesis
      by (auto simp: read_resource_def resource_ok_def)
  qed
qed

section \<open>Properties\<close>

text \<open>
  C30: The chunk cache of \<open>wim_read\<close> is transparent: for resources of one image at distinct offsets, a
  read yields, errors included, what decompressing the chunks anew yields, whatever was read
  before; and the cache stays right for the next read.
\<close>

theorem wim_read_uncached:
  assumes "resources_ok w src header R" "res \<in> R" "offset + len < 2 ^ w" "w \<le> 64" "cache_ok w src header R s"
  shows "\<exists>s'. wim_read w src header res offset len s = (read_resource w src header res offset len, s')
    \<and> cache_ok w src header R s'"
  using wim_read_cached [OF assms(1-3,5,4)] .

text \<open>An image in memory, with a compressed resource whose only chunk is stored.\<close>

definition memory_source :: "bytes \<Rightarrow> source" where
  "memory_source img = \<lparr>src_file = 0, src_len = length img, src_read = rd_bytes img\<rparr>"

definition stored_resource :: wim_resource_header where
  "stored_resource = \<lparr>zlen__flags = 4 * 2 ^ 56 + 5, res_offset = 3, res_len = 5\<rparr>"

definition some_header :: wim_header where
  "some_header = \<lparr>wim_signature = [], wim_header_len = 208, wim_version = 0, wim_flags = 0, wim_chunk_len = 32768,
     wim_guid = [], wim_part = 1, wim_parts = 1, wim_images = 1, wim_lookup = stored_resource, wim_xml = stored_resource,
     wim_boot = stored_resource, wim_boot_index = 1, wim_integrity = stored_resource, wim_reserved = []\<rparr>"

lemma memory_source_windows: "reads_windows (memory_source img)"
  by (auto simp: reads_windows_def memory_source_def rd_bytes_def window_def ac_simps min_def take_drop)

lemma reads_windows_length: "reads_windows src \<Longrightarrow> reads_length src"
  by (simp add: reads_windows_def reads_length_def)

lemma stored_zlen: "zlen_of stored_resource = 5" "has_flag (WIM_RESHDR_COMPRESSED OR WIM_RESHDR_PACKED_STREAMS) stored_resource"
  by (simp_all add: zlen_of_def has_flag_def stored_resource_def WIM_RESHDR_ZLEN_MASK_def WIM_RESHDR_COMPRESSED_def WIM_RESHDR_PACKED_STREAMS_def)

lemma stored_resource_ok: "resource_ok 32 (memory_source img) some_header stored_resource"
proof -
  have "chunk_plain 32 (memory_source img) some_header stored_resource chunk" for chunk
    by (simp add: chunk_plain_def some_header_def)
  with chunk_plain_stable reads_windows_length [OF memory_source_windows] show ?thesis
    by (simp add: resource_ok_def stored_zlen) (simp add: stored_resource_def)
qed

lemma stored_resource_bytes:
  assumes "8 \<le> length img"
  shows "resource_bytes 32 (memory_source img) some_header stored_resource = Inr (window 3 5 img)"
proof -
  have chunks: "wim_chunks stored_resource = 1" "expected_out_len stored_resource 0 = 5" by code_simp+
  have off: "wim_chunk_offset 32 (memory_source img) stored_resource 0 = Inr 0" "wim_chunk_offset 32 (memory_source img) stored_resource 1 = Inr 5"
    using chunks(1) stored_zlen(1) by (simp_all add: wim_chunk_offset_def stored_resource_def)
  have "wim_chunk 32 (memory_source img) some_header stored_resource 0 buf = rbind (rd_bytes img 3 5) (wr_bytes buf 0)" for buf
    using off chunks(2) by (simp add: wim_chunk_def memory_source_def stored_resource_def)
  then have "chunk_bytes 32 (memory_source img) some_header stored_resource 0 = Inr (window 3 5 img)"
    using assms chunks(2) by (simp add: chunk_bytes_def rd_bytes_def wr_bytes_def WIM_CHUNK_LEN_def overlay_0)
  then show ?thesis using chunks(1) stored_zlen(2) by (simp add: resource_bytes_def) (simp add: stored_resource_def)
qed

theorem wim_read_uncached_witness:
  "\<exists>s'. wim_read 32 (memory_source [9, 8, 7, 1, 2, 3, 4, 5, 6]) some_header stored_resource 1 3 wim_cache_initial =
       (read_resource 32 (memory_source [9, 8, 7, 1, 2, 3, 4, 5, 6]) some_header stored_resource 1 3, s')
     \<and> read_resource 32 (memory_source [9, 8, 7, 1, 2, 3, 4, 5, 6]) some_header stored_resource 1 3 = Inr [2, 3, 4]"
proof -
  let ?img = "[9, 8, 7, 1, 2, 3, 4, 5, 6]"
  have "resources_ok 32 (memory_source ?img) some_header {stored_resource}"
    using stored_resource_ok by (simp add: resources_ok_def)
  from wim_read_uncached [OF this _ _ _ cache_ok_initial, of stored_resource 1 3] obtain s' where
    "wim_read 32 (memory_source ?img) some_header stored_resource 1 3 wim_cache_initial =
       (read_resource 32 (memory_source ?img) some_header stored_resource 1 3, s')" by auto
  moreover have "read_resource 32 (memory_source ?img) some_header stored_resource 1 3 = Inr (window 1 3 (window 3 5 ?img))"
    using stored_zlen(1) by (intro read_resource_window [OF stored_resource_ok memory_source_windows stored_resource_bytes])
      (auto simp: stored_resource_def memory_source_def)
  ultimately show ?thesis by (simp add: window_def)
qed

text \<open>
  C29: Reading any range of a resource, in any order and from any state of the cache, yields that
  range of the resource's uncompressed content.
\<close>

theorem wim_read_content:
  assumes "resources_ok w src header R" "res \<in> R" "w \<le> 64" "cache_ok w src header R s"
    and "reads_windows src" "resource_bytes w src header res = Inr bs" "res_offset res + zlen_of res \<le> src_len src"
    and "offset + len \<le> res_len res"
  shows "fst (wim_read w src header res offset len s) = Inr (window offset len bs)"
proof -
  have ok: "resource_ok w src header res" using assms(1,2) by (simp add: resources_ok_def)
  then have "offset + len < 2 ^ w" using assms(8) by (simp add: resource_ok_def)
  with wim_read_cached [OF assms(1,2) _ assms(4,3)] read_resource_window [OF ok assms(5-8)] show ?thesis by force
qed

theorem wim_read_content_witness:
  "fst (wim_read 32 (memory_source [9, 8, 7, 1, 2, 3, 4, 5, 6]) some_header stored_resource 1 3 wim_cache_initial) = Inr [2, 3, 4]"
proof -
  let ?img = "[9, 8, 7, 1, 2, 3, 4, 5, 6]"
  have "resources_ok 32 (memory_source ?img) some_header {stored_resource}"
    using stored_resource_ok by (simp add: resources_ok_def)
  from wim_read_content [OF this _ _ cache_ok_initial memory_source_windows stored_resource_bytes, of 1 3]
  show ?thesis using stored_zlen(1) by (simp add: window_def stored_resource_def memory_source_def)
qed

end
