(* ===== verification/Vdisk.thy ===== *)
theory Vdisk
  imports State Struct
begin

text \<open>
  The virtual disk (\<open>vdisk.c\<close>, \<open>vdisk.h\<close>): a FAT32 file system that is generated as it is read.

  The data buffer of a read is the list of bytes from the pointer on. Sector numbers are 64-bit,
  counts are 32-bit, and \<open>w\<close> is the width of \<open>size_t\<close> and \<open>unsigned long\<close> (32 for the BIOS part of the
  program, 32 or 64 for its UEFI part); wrap-around is written out where a value can reach the width. A
  pointer to a read or patch method is a token; \<open>call_read\<close> and \<open>call_patch\<close> say what the function behind
  the token does. A method may change the file that it is given (a patch method sets its length), so the
  array of files is passed through a read.
\<close>

section \<open>Geometry\<close>

definition VDISK_CYLINDERS :: nat where "VDISK_CYLINDERS = 1024"
definition VDISK_HEADS :: nat where "VDISK_HEADS = 255"
definition VDISK_SECTORS_PER_TRACK :: nat where "VDISK_SECTORS_PER_TRACK = 63"
definition VDISK_SECTOR_SIZE :: nat where "VDISK_SECTOR_SIZE = 512"
definition VDISK_PARTITION_LBA :: nat where "VDISK_PARTITION_LBA = 128"
definition VDISK_CLUSTER_COUNT :: nat where "VDISK_CLUSTER_COUNT = 64"
definition VDISK_CLUSTER_SIZE :: nat where "VDISK_CLUSTER_SIZE = VDISK_CLUSTER_COUNT * VDISK_SECTOR_SIZE"
definition VDISK_CLUSTERS :: nat where "VDISK_CLUSTERS = 0x03ffc000"
definition VDISK_MAX_FILES :: nat where "VDISK_MAX_FILES = VDISK_CLUSTER_COUNT - 1"
definition VDISK_FILE_COUNT :: nat where "VDISK_FILE_COUNT = 0x800000"
definition VDISK_FILE_CLUSTERS :: nat where "VDISK_FILE_CLUSTERS = VDISK_FILE_COUNT div VDISK_CLUSTER_COUNT"

definition VDISK_FILE_LBA :: "nat \<Rightarrow> int \<Rightarrow> nat" where
  "VDISK_FILE_LBA w idx = nat ((idx + 1) * int VDISK_FILE_COUNT mod 2 ^ w)"

definition VDISK_FILE_IDX :: "nat \<Rightarrow> nat" where
  "VDISK_FILE_IDX lba = (lba div VDISK_FILE_COUNT + (2 ^ 64 - 1)) mod 2 ^ 64"

definition VDISK_FILE_OFFSET :: "nat \<Rightarrow> nat" where
  "VDISK_FILE_OFFSET lba = lba mod VDISK_FILE_COUNT * VDISK_SECTOR_SIZE"

definition VDISK_FILE_DIRENT_IDX :: "nat \<Rightarrow> nat" where
  "VDISK_FILE_DIRENT_IDX lba = (lba + (2 ^ 64 - 1)) mod 2 ^ 64 mod VDISK_CLUSTER_COUNT"

definition VDISK_SECTORS_PER_FAT :: nat where
  "VDISK_SECTORS_PER_FAT =
     (VDISK_CLUSTERS * 4 + VDISK_CLUSTER_SIZE - 1) div VDISK_CLUSTER_SIZE * VDISK_CLUSTER_COUNT"

definition VDISK_RESERVED_COUNT :: nat where "VDISK_RESERVED_COUNT = VDISK_CLUSTER_COUNT"

definition VDISK_FILE_CLUSTER :: "nat \<Rightarrow> nat" where
  "VDISK_FILE_CLUSTER idx =
     (VDISK_FILE_COUNT - VDISK_PARTITION_LBA - VDISK_RESERVED_COUNT - VDISK_SECTORS_PER_FAT) div
       VDISK_CLUSTER_COUNT + 2 + idx * VDISK_FILE_CLUSTERS"

definition VDISK_PARTITION_COUNT :: nat where
  "VDISK_PARTITION_COUNT = VDISK_RESERVED_COUNT + VDISK_SECTORS_PER_FAT + VDISK_CLUSTERS * VDISK_CLUSTER_COUNT"

definition VDISK_COUNT :: nat where "VDISK_COUNT = VDISK_PARTITION_LBA + VDISK_PARTITION_COUNT"

definition VDISK_CLUSTER_SECTOR :: "nat \<Rightarrow> nat" where
  "VDISK_CLUSTER_SECTOR cluster = (cluster - 2) * VDISK_CLUSTER_COUNT + VDISK_RESERVED_COUNT + VDISK_SECTORS_PER_FAT"

section \<open>Structures\<close>

definition VDISK_MBR_LBA :: nat where "VDISK_MBR_LBA = 0"
definition VDISK_MBR_COUNT :: nat where "VDISK_MBR_COUNT = 1"

definition struct_vdisk_partition :: layout where
  "struct_vdisk_partition = [(''bootable'', 1), (''chs_start'', 3), (''type'', 1), (''chs_end'', 3),
     (''start'', 4), (''length'', 4)]"

definition struct_vdisk_mbr :: layout where
  "struct_vdisk_mbr = [(''code'', 440), (''signature'', 4), (''pad'', 2),
     (''partitions'', 4 * sizeof struct_vdisk_partition), (''magic'', 2)]"

definition VDISK_MBR_BOOTABLE :: u8 where "VDISK_MBR_BOOTABLE = 0x80"
definition VDISK_MBR_TYPE_FAT32 :: u8 where "VDISK_MBR_TYPE_FAT32 = 0x0c"
definition VDISK_MBR_SIGNATURE :: nat where "VDISK_MBR_SIGNATURE = 0xc0ffeeee"
definition VDISK_MBR_MAGIC :: nat where "VDISK_MBR_MAGIC = 0xaa55"

definition VDISK_VBR_LBA :: nat where "VDISK_VBR_LBA = VDISK_PARTITION_LBA"
definition VDISK_VBR_COUNT :: nat where "VDISK_VBR_COUNT = 1"

definition struct_vdisk_vbr :: layout where
  "struct_vdisk_vbr = [(''jump'', 3), (''oemid'', 8), (''bytes_per_sector'', 2), (''sectors_per_cluster'', 1),
     (''reserved_sectors'', 2), (''fats'', 1), (''root_directory_entries'', 2), (''sectors_short'', 2),
     (''media'', 1), (''sectors_per_fat_short'', 2), (''sectors_per_track'', 2), (''heads'', 2),
     (''hidden_sectors'', 4), (''sectors'', 4),
     (''sectors_per_fat'', 4), (''flags'', 2), (''version'', 2), (''root'', 4), (''fsinfo'', 2),
     (''backup'', 2), (''reserved'', 12), (''drive'', 1), (''nt_flags'', 1), (''signature'', 1),
     (''serial'', 4), (''label'', 11), (''system'', 8), (''code'', 420), (''magic'', 2)]"

definition VDISK_VBR_JUMP_WTF_MS :: u8 where "VDISK_VBR_JUMP_WTF_MS = 0xe9"
definition VDISK_VBR_OEMID :: bytes where "VDISK_VBR_OEMID = ascii ''wimboot'' @ [0]"
definition VDISK_VBR_MEDIA :: nat where "VDISK_VBR_MEDIA = 0xf8"
definition VDISK_VBR_SIGNATURE :: u8 where "VDISK_VBR_SIGNATURE = 0x29"
definition VDISK_VBR_SERIAL :: nat where "VDISK_VBR_SERIAL = 0xf00df00d"
definition VDISK_VBR_LABEL :: bytes where "VDISK_VBR_LABEL = ascii ''wimboot    ''"
definition VDISK_VBR_SYSTEM :: bytes where "VDISK_VBR_SYSTEM = ascii ''FAT32   ''"
definition VDISK_VBR_MAGIC :: nat where "VDISK_VBR_MAGIC = 0xaa55"

definition VDISK_FSINFO_SECTOR :: nat where "VDISK_FSINFO_SECTOR = 1"
definition VDISK_FSINFO_LBA :: nat where "VDISK_FSINFO_LBA = VDISK_VBR_LBA + VDISK_FSINFO_SECTOR"
definition VDISK_FSINFO_COUNT :: nat where "VDISK_FSINFO_COUNT = 1"

definition struct_vdisk_fsinfo :: layout where
  "struct_vdisk_fsinfo = [(''magic1'', 4), (''reserved_1'', 480), (''magic2'', 4), (''free_count'', 4),
     (''next_free'', 4), (''reserved_2'', 12), (''magic3'', 4)]"

definition VDISK_FSINFO_MAGIC1 :: nat where "VDISK_FSINFO_MAGIC1 = 0x41615252"
definition VDISK_FSINFO_MAGIC2 :: nat where "VDISK_FSINFO_MAGIC2 = 0x61417272"
definition VDISK_FSINFO_NEXT_FREE :: nat where "VDISK_FSINFO_NEXT_FREE = 0xffffffff"
definition VDISK_FSINFO_MAGIC3 :: nat where "VDISK_FSINFO_MAGIC3 = 0xaa550000"

definition VDISK_BACKUP_VBR_SECTOR :: nat where "VDISK_BACKUP_VBR_SECTOR = 6"
definition VDISK_BACKUP_VBR_LBA :: nat where "VDISK_BACKUP_VBR_LBA = VDISK_VBR_LBA + VDISK_BACKUP_VBR_SECTOR"
definition VDISK_BACKUP_VBR_COUNT :: nat where "VDISK_BACKUP_VBR_COUNT = 1"

definition VDISK_FAT_SECTOR :: nat where "VDISK_FAT_SECTOR = VDISK_RESERVED_COUNT"
definition VDISK_FAT_LBA :: nat where "VDISK_FAT_LBA = VDISK_VBR_LBA + VDISK_FAT_SECTOR"
definition VDISK_FAT_COUNT :: nat where "VDISK_FAT_COUNT = VDISK_SECTORS_PER_FAT"
definition VDISK_FAT_END_MARKER :: nat where "VDISK_FAT_END_MARKER = 0x0ffffff8"

definition struct_vdisk_short_filename :: layout where
  "struct_vdisk_short_filename = [(''filename'', 8 + 3), (''attr'', 1), (''reserved'', 1),
     (''created_deciseconds'', 1), (''created_time'', 2), (''created_date'', 2), (''accessed_date'', 2),
     (''cluster_high'', 2), (''modified_time'', 2), (''modified_date'', 2), (''cluster_low'', 2), (''size'', 4)]"

definition struct_vdisk_long_filename :: layout where
  "struct_vdisk_long_filename = [(''sequence'', 1), (''name_1'', 5 * 2), (''attr'', 1), (''type'', 1),
     (''checksum'', 1), (''name_2'', 6 * 2), (''reserved'', 2), (''name_3'', 2 * 2)]"

definition VDISK_READ_ONLY :: u8 where "VDISK_READ_ONLY = 0x01"
definition VDISK_HIDDEN :: u8 where "VDISK_HIDDEN = 0x02"
definition VDISK_SYSTEM :: u8 where "VDISK_SYSTEM = 0x04"
definition VDISK_VOLUME_LABEL :: u8 where "VDISK_VOLUME_LABEL = 0x08"
definition VDISK_DIRECTORY :: u8 where "VDISK_DIRECTORY = 0x10"
definition VDISK_LFN_END :: u8 where "VDISK_LFN_END = 0x40"

definition VDISK_LFN_ATTR :: u8 where
  "VDISK_LFN_ATTR = VDISK_READ_ONLY OR VDISK_HIDDEN OR VDISK_SYSTEM OR VDISK_VOLUME_LABEL"

definition VDISK_DIRENT_DELETED :: u8 where "VDISK_DIRENT_DELETED = 0xe5"

text \<open>The size of the union is that of either member.\<close>

definition vdisk_directory_entry_size :: nat where
  "vdisk_directory_entry_size = max (sizeof struct_vdisk_short_filename) (sizeof struct_vdisk_long_filename)"

definition VDISK_DIRENT_PER_SECTOR :: nat where
  "VDISK_DIRENT_PER_SECTOR = VDISK_SECTOR_SIZE div vdisk_directory_entry_size"

definition VDISK_ROOT_CLUSTER :: nat where "VDISK_ROOT_CLUSTER = 2"
definition VDISK_ROOT_LBA :: nat where "VDISK_ROOT_LBA = VDISK_VBR_LBA + VDISK_CLUSTER_SECTOR VDISK_ROOT_CLUSTER"
definition VDISK_BOOT_CLUSTER :: nat where "VDISK_BOOT_CLUSTER = 3"
definition VDISK_BOOT_LBA :: nat where "VDISK_BOOT_LBA = VDISK_VBR_LBA + VDISK_CLUSTER_SECTOR VDISK_BOOT_CLUSTER"
definition VDISK_SOURCES_CLUSTER :: nat where "VDISK_SOURCES_CLUSTER = 4"
definition VDISK_SOURCES_LBA :: nat where "VDISK_SOURCES_LBA = VDISK_VBR_LBA + VDISK_CLUSTER_SECTOR VDISK_SOURCES_CLUSTER"
definition VDISK_FONTS_CLUSTER :: nat where "VDISK_FONTS_CLUSTER = 5"
definition VDISK_FONTS_LBA :: nat where "VDISK_FONTS_LBA = VDISK_VBR_LBA + VDISK_CLUSTER_SECTOR VDISK_FONTS_CLUSTER"
definition VDISK_RESOURCES_CLUSTER :: nat where "VDISK_RESOURCES_CLUSTER = 6"
definition VDISK_RESOURCES_LBA :: nat where
  "VDISK_RESOURCES_LBA = VDISK_VBR_LBA + VDISK_CLUSTER_SECTOR VDISK_RESOURCES_CLUSTER"
definition VDISK_EFI_CLUSTER :: nat where "VDISK_EFI_CLUSTER = 7"
definition VDISK_EFI_LBA :: nat where "VDISK_EFI_LBA = VDISK_VBR_LBA + VDISK_CLUSTER_SECTOR VDISK_EFI_CLUSTER"
definition VDISK_MICROSOFT_CLUSTER :: nat where "VDISK_MICROSOFT_CLUSTER = 8"
definition VDISK_MICROSOFT_LBA :: nat where
  "VDISK_MICROSOFT_LBA = VDISK_VBR_LBA + VDISK_CLUSTER_SECTOR VDISK_MICROSOFT_CLUSTER"

definition VDISK_NAME_LEN :: nat where "VDISK_NAME_LEN = 31"

text \<open>
  A virtual file: \<open>opaque\<close> is the private pointer of the methods, and a null method is \<open>None\<close>. The file name is
  the string that \<open>filename\<close> points to, with its terminator.
\<close>

record ('o, 'r, 'p) vdisk_file =
  vf_name :: bytes
  vf_filename :: bytes
  vf_opaque :: 'o
  vf_len :: nat
  vf_xlen :: nat
  vf_read :: "'r option"
  vf_patch :: "'p option"

section \<open>Boot records\<close>

text \<open>Assign a member of a structure at the start of the buffer.\<close>

definition set8 :: "layout \<Rightarrow> string \<Rightarrow> u8 \<Rightarrow> bytes \<Rightarrow> bytes result" where
  "set8 s f v data = wr8 data (offset_of s f) v"

definition set16 :: "layout \<Rightarrow> string \<Rightarrow> nat \<Rightarrow> bytes \<Rightarrow> bytes result" where
  "set16 s f v data = wr16 data (offset_of s f) v"

definition set32 :: "layout \<Rightarrow> string \<Rightarrow> nat \<Rightarrow> bytes \<Rightarrow> bytes result" where
  "set32 s f v data = wr32 data (offset_of s f) v"

definition set_bytes :: "layout \<Rightarrow> string \<Rightarrow> bytes \<Rightarrow> bytes \<Rightarrow> bytes result" where
  "set_bytes s f v data = wr_bytes data (offset_of s f) v"

text \<open>Run assignments in order.\<close>

primrec assign :: "(bytes \<Rightarrow> bytes result) list \<Rightarrow> bytes \<Rightarrow> bytes result" where
  "assign [] data = Inr data"
| "assign (f # fs) data = rbind (f data) (assign fs)"

definition vdisk_mbr :: "nat \<Rightarrow> nat \<Rightarrow> bytes \<Rightarrow> bytes result" where
  "vdisk_mbr lba count data =
     (let partition = offset_of struct_vdisk_mbr ''partitions'' in
      rbind (memset data 0 0 (sizeof struct_vdisk_mbr)) (assign [
        \<lambda>data. wr8 data (partition + offset_of struct_vdisk_partition ''bootable'') VDISK_MBR_BOOTABLE,
        \<lambda>data. wr8 data (partition + offset_of struct_vdisk_partition ''type'') VDISK_MBR_TYPE_FAT32,
        \<lambda>data. wr32 data (partition + offset_of struct_vdisk_partition ''start'') VDISK_PARTITION_LBA,
        \<lambda>data. wr32 data (partition + offset_of struct_vdisk_partition ''length'') VDISK_PARTITION_COUNT,
        set32 struct_vdisk_mbr ''signature'' VDISK_MBR_SIGNATURE,
        set16 struct_vdisk_mbr ''magic'' VDISK_MBR_MAGIC]))"

definition vdisk_vbr :: "nat \<Rightarrow> nat \<Rightarrow> bytes \<Rightarrow> bytes result" where
  "vdisk_vbr lba count data =
     rbind (memset data 0 0 (sizeof struct_vdisk_vbr)) (assign [
       set8 struct_vdisk_vbr ''jump'' VDISK_VBR_JUMP_WTF_MS,
       set_bytes struct_vdisk_vbr ''oemid'' VDISK_VBR_OEMID,
       set16 struct_vdisk_vbr ''bytes_per_sector'' VDISK_SECTOR_SIZE,
       set8 struct_vdisk_vbr ''sectors_per_cluster'' (word_of_nat VDISK_CLUSTER_COUNT),
       set16 struct_vdisk_vbr ''reserved_sectors'' VDISK_RESERVED_COUNT,
       set8 struct_vdisk_vbr ''fats'' 1,
       set8 struct_vdisk_vbr ''media'' (word_of_nat VDISK_VBR_MEDIA),
       set16 struct_vdisk_vbr ''sectors_per_track'' VDISK_SECTORS_PER_TRACK,
       set16 struct_vdisk_vbr ''heads'' VDISK_HEADS,
       set32 struct_vdisk_vbr ''hidden_sectors'' VDISK_VBR_LBA,
       set32 struct_vdisk_vbr ''sectors'' VDISK_PARTITION_COUNT,
       set32 struct_vdisk_vbr ''sectors_per_fat'' VDISK_SECTORS_PER_FAT,
       set32 struct_vdisk_vbr ''root'' VDISK_ROOT_CLUSTER,
       set16 struct_vdisk_vbr ''fsinfo'' VDISK_FSINFO_SECTOR,
       set16 struct_vdisk_vbr ''backup'' VDISK_BACKUP_VBR_SECTOR,
       set8 struct_vdisk_vbr ''signature'' VDISK_VBR_SIGNATURE,
       set32 struct_vdisk_vbr ''serial'' VDISK_VBR_SERIAL,
       set_bytes struct_vdisk_vbr ''label'' VDISK_VBR_LABEL,
       set_bytes struct_vdisk_vbr ''system'' VDISK_VBR_SYSTEM,
       set16 struct_vdisk_vbr ''magic'' VDISK_VBR_MAGIC])"

definition vdisk_fsinfo :: "nat \<Rightarrow> nat \<Rightarrow> bytes \<Rightarrow> bytes result" where
  "vdisk_fsinfo lba count data =
     rbind (memset data 0 0 (sizeof struct_vdisk_fsinfo)) (assign [
       set32 struct_vdisk_fsinfo ''magic1'' VDISK_FSINFO_MAGIC1,
       set32 struct_vdisk_fsinfo ''magic2'' VDISK_FSINFO_MAGIC2,
       set32 struct_vdisk_fsinfo ''next_free'' VDISK_FSINFO_NEXT_FREE,
       set32 struct_vdisk_fsinfo ''magic3'' VDISK_FSINFO_MAGIC3])"

section \<open>File allocation table\<close>

text \<open>\<open>next[i]\<close>, where the pointer \<open>next\<close> was moved back by \<open>start\<close> entries.\<close>

definition fat_set :: "nat \<Rightarrow> nat \<Rightarrow> nat \<Rightarrow> bytes \<Rightarrow> bytes result" where
  "fat_set start i v data = (if start \<le> i then wr32 data (4 * (i - start)) v else Inl Fault)"

text \<open>\<open>for ( ; i < i + n ; i++ ) next[i] = f(i)\<close>\<close>

fun fat_fill :: "nat \<Rightarrow> (nat \<Rightarrow> nat) \<Rightarrow> nat \<Rightarrow> nat \<Rightarrow> bytes \<Rightarrow> bytes result" where
  "fat_fill start f i 0 data = Inr data"
| "fat_fill start f i (Suc n) data = rbind (fat_set start i (f i) data) (fat_fill start f (i + 1) n)"

text \<open>The last cluster of a file.\<close>

definition file_end_marker :: "nat \<Rightarrow> nat \<Rightarrow> ('o, 'r, 'p) vdisk_file \<Rightarrow> nat" where
  "file_end_marker w i vf =
     (VDISK_FILE_CLUSTER i + (vf_xlen vf + (2 ^ w - 1)) mod 2 ^ w div VDISK_CLUSTER_SIZE) mod 2 ^ 32"

fun fat_markers :: "nat \<Rightarrow> nat \<Rightarrow> nat \<Rightarrow> nat \<Rightarrow> ('o, 'r, 'p) vdisk_file list \<Rightarrow> bytes \<Rightarrow> bytes result" where
  "fat_markers w start fin i [] data = Inr data"
| "fat_markers w start fin i (vf # vfs) data =
     rbind (if vf_read vf \<noteq> None \<and> file_end_marker w i vf \<ge> start \<and> file_end_marker w i vf < fin
            then fat_set start (file_end_marker w i vf) VDISK_FAT_END_MARKER data else Inr data)
       (fat_markers w start fin (i + 1) vfs)"

definition fat_first_marker :: nat where
  "fat_first_marker = unat (((word_of_nat VDISK_FAT_END_MARKER :: u32) AND NOT 0xff) OR word_of_nat VDISK_VBR_MEDIA)"

definition vdisk_fat :: "nat \<Rightarrow> ('o, 'r, 'p) vdisk_file list \<Rightarrow> nat \<Rightarrow> nat \<Rightarrow> bytes \<Rightarrow> bytes result" where
  "vdisk_fat w files lba count data =
     (let start = (lba + (2 ^ 64 - VDISK_FAT_LBA)) mod 2 ^ 64 * (VDISK_SECTOR_SIZE div 4) mod 2 ^ 32;
          fin = (start + count * (VDISK_SECTOR_SIZE div 4)) mod 2 ^ 32
      in rbind (fat_fill start (\<lambda>i. i + 1) start (fin - start) data) (\<lambda>data.
         rbind (if start = 0 then
             rbind (fat_set start 0 fat_first_marker data)
               (fat_fill start (\<lambda>i. VDISK_FAT_END_MARKER) 1 (VDISK_SECTOR_SIZE div 4 - 1))
           else Inr data)
         (fat_markers w start fin 0 files)))"

section \<open>Directories\<close>

fun mark_deleted :: "nat \<Rightarrow> nat \<Rightarrow> bytes \<Rightarrow> bytes result" where
  "mark_deleted i 0 data = Inr data"
| "mark_deleted i (Suc n) data =
     rbind (wr8 data (i * vdisk_directory_entry_size) VDISK_DIRENT_DELETED) (mark_deleted (i + 1) n)"

text \<open>Yields the directory and the index of its last entry. A pointer to an entry is its index.\<close>

definition vdisk_empty_dir :: "bytes \<Rightarrow> (bytes \<times> int) result" where
  "vdisk_empty_dir data =
     rbind (memset data 0 0 (VDISK_DIRENT_PER_SECTOR * vdisk_directory_entry_size)) (\<lambda>data.
     rbind (mark_deleted 0 VDISK_DIRENT_PER_SECTOR data) (\<lambda>data.
     Inr (data, int VDISK_DIRENT_PER_SECTOR - 1)))"

definition entry_base :: "int \<Rightarrow> nat result" where
  "entry_base e = (if e < 0 then Inl Fault else Inr (nat e * vdisk_directory_entry_size))"

definition vdisk_checksum :: "bytes \<Rightarrow> u8" where
  "vdisk_checksum raw =
     fold (\<lambda>b checksum. (push_bit 7 (checksum AND 1) OR drop_bit 1 checksum) + b) raw 0"

text \<open>Initialise a long filename entry, if necessary.\<close>

definition vdisk_lfn_init :: "u8 \<Rightarrow> nat \<Rightarrow> nat \<Rightarrow> bytes \<Rightarrow> (nat \<times> bytes) result" where
  "vdisk_lfn_init checksum e sequence data =
     (let s = struct_vdisk_long_filename in
      rbind (rd8 data (e + offset_of s ''attr'')) (\<lambda>attr.
      if attr \<noteq> VDISK_LFN_ATTR then
        rbind (wr8 data (e + offset_of s ''sequence'') (word_of_nat sequence)) (\<lambda>data.
        rbind (memset data (e + offset_of s ''name_1'') 0xff (5 * 2)) (\<lambda>data.
        rbind (wr8 data (e + offset_of s ''attr'') VDISK_LFN_ATTR) (\<lambda>data.
        rbind (wr8 data (e + offset_of s ''checksum'') checksum) (\<lambda>data.
        rbind (memset data (e + offset_of s ''name_2'') 0xff (6 * 2)) (\<lambda>data.
        rbind (memset data (e + offset_of s ''name_3'') 0xff (2 * 2)) (\<lambda>data.
        Inr (sequence + 1, data)))))))
      else Inr (sequence, data)))"

text \<open>The next character: \<open>pos\<close> is the offset of the current one within its entry.\<close>

definition vdisk_lfn_next :: "int \<Rightarrow> nat \<Rightarrow> int \<times> nat" where
  "vdisk_lfn_next lfn pos =
     (let s = struct_vdisk_long_filename in
      if pos = offset_of s ''name_1'' + 4 * 2 then (lfn, offset_of s ''name_2'')
      else if pos = offset_of s ''name_2'' + 5 * 2 then (lfn, offset_of s ''name_3'')
      else if pos = offset_of s ''name_3'' + 1 * 2 then (lfn - 1, offset_of s ''name_1'')
      else (lfn, pos + 2))"

fun vdisk_lfn :: "u8 \<Rightarrow> bytes \<Rightarrow> int \<Rightarrow> nat \<Rightarrow> nat \<Rightarrow> bytes \<Rightarrow> (bytes \<times> int) result" where
  "vdisk_lfn checksum [] lfn pos sequence data = Inl Fault"
| "vdisk_lfn checksum (c # name) lfn pos sequence data =
     rbind (entry_base lfn) (\<lambda>e.
     rbind (vdisk_lfn_init checksum e sequence data) (\<lambda>(sequence, data).
     rbind (wr16 data (e + pos) (unat (scast c :: u16))) (\<lambda>data.
     if c = 0 then
       (let seq = e + offset_of struct_vdisk_long_filename ''sequence'' in
        rbind (rd8 data seq) (\<lambda>v. rbind (wr8 data seq (v OR VDISK_LFN_END)) (\<lambda>data.
        Inr (data, lfn - 1))))
     else
       let (lfn, pos) = vdisk_lfn_next lfn pos
       in vdisk_lfn checksum name lfn pos sequence data)))"

declare vdisk_lfn.simps [simp del]

definition vdisk_directory_entry ::
    "int \<Rightarrow> bytes \<Rightarrow> nat \<Rightarrow> u8 \<Rightarrow> nat \<Rightarrow> bytes \<Rightarrow> (bytes \<times> int) result" where
  "vdisk_directory_entry dirent name len attr cluster data =
     (let s = struct_vdisk_short_filename in
      rbind (entry_base dirent) (\<lambda>e.
      rbind (memset data (e + offset_of s ''filename'') 0x20 11) (\<lambda>data.
      rbind (wr8 data (e + offset_of s ''attr'') attr) (\<lambda>data.
      rbind (wr32 data (e + offset_of s ''size'') len) (\<lambda>data.
      rbind (wr16 data (e + offset_of s ''cluster_high'') (cluster div 2 ^ 16)) (\<lambda>data.
      rbind (wr16 data (e + offset_of s ''cluster_low'') (cluster mod 2 ^ 16)) (\<lambda>data.
      rbind (rd_bytes data (e + offset_of s ''filename'') 11) (\<lambda>raw.
      vdisk_lfn (vdisk_checksum raw) name (dirent - 1) (offset_of struct_vdisk_long_filename ''name_1'') 1 data))))))))"

text \<open>A directory sector with a list of subdirectories.\<close>

fun vdisk_subdirs :: "(string \<times> nat) list \<Rightarrow> int \<Rightarrow> bytes \<Rightarrow> bytes result" where
  "vdisk_subdirs [] dirent data = Inr data"
| "vdisk_subdirs ((name, cluster) # ds) dirent data =
     rbind (vdisk_directory_entry dirent (ascii name @ [0]) 0 VDISK_DIRECTORY cluster data) (\<lambda>(data, dirent).
     vdisk_subdirs ds dirent data)"

definition vdisk_subdir_sector :: "(string \<times> nat) list \<Rightarrow> bytes \<Rightarrow> bytes result" where
  "vdisk_subdir_sector ds data = rbind (vdisk_empty_dir data) (\<lambda>(data, dirent). vdisk_subdirs ds dirent data)"

definition vdisk_root :: "nat \<Rightarrow> nat \<Rightarrow> bytes \<Rightarrow> bytes result" where
  "vdisk_root lba count = vdisk_subdir_sector
     [(''BOOT'', VDISK_BOOT_CLUSTER), (''SOURCES'', VDISK_SOURCES_CLUSTER), (''EFI'', VDISK_EFI_CLUSTER)]"

definition vdisk_boot :: "nat \<Rightarrow> nat \<Rightarrow> bytes \<Rightarrow> bytes result" where
  "vdisk_boot lba count = vdisk_subdir_sector [(''FONTS'', VDISK_FONTS_CLUSTER), (''RESOURCES'', VDISK_RESOURCES_CLUSTER)]"

definition vdisk_sources :: "nat \<Rightarrow> nat \<Rightarrow> bytes \<Rightarrow> bytes result" where
  "vdisk_sources lba count = vdisk_subdir_sector []"

definition vdisk_fonts :: "nat \<Rightarrow> nat \<Rightarrow> bytes \<Rightarrow> bytes result" where
  "vdisk_fonts lba count = vdisk_subdir_sector []"

definition vdisk_resources :: "nat \<Rightarrow> nat \<Rightarrow> bytes \<Rightarrow> bytes result" where
  "vdisk_resources lba count = vdisk_subdir_sector []"

definition vdisk_efi :: "nat \<Rightarrow> nat \<Rightarrow> bytes \<Rightarrow> bytes result" where
  "vdisk_efi lba count = vdisk_subdir_sector [(''BOOT'', VDISK_BOOT_CLUSTER), (''MICROSOFT'', VDISK_MICROSOFT_CLUSTER)]"

definition vdisk_microsoft :: "nat \<Rightarrow> nat \<Rightarrow> bytes \<Rightarrow> bytes result" where
  "vdisk_microsoft lba count = vdisk_subdir_sector [(''BOOT'', VDISK_BOOT_CLUSTER)]"

text \<open>One iteration of the loop over the sectors of the files of a directory.\<close>

definition vdisk_dir_file :: "('o, 'r, 'p) vdisk_file list \<Rightarrow> nat \<Rightarrow> bytes \<Rightarrow> bytes result" where
  "vdisk_dir_file files lba data =
     rbind (vdisk_empty_dir data) (\<lambda>(data, _).
     let idx = VDISK_FILE_DIRENT_IDX lba in
     if length files \<le> idx then Inl Died
     else if vf_read (files ! idx) = None then Inr data
     else rbind (vdisk_directory_entry (int VDISK_DIRENT_PER_SECTOR - 1) (vf_filename (files ! idx))
            (vf_xlen (files ! idx)) VDISK_READ_ONLY (VDISK_FILE_CLUSTER idx) data) (\<lambda>(data, _). Inr data))"

fun vdisk_dir_files :: "('o, 'r, 'p) vdisk_file list \<Rightarrow> nat \<Rightarrow> nat \<Rightarrow> bytes \<Rightarrow> bytes result" where
  "vdisk_dir_files files lba 0 data = Inr data"
| "vdisk_dir_files files lba (Suc count) data =
     rbind (vdisk_dir_file files lba data) (\<lambda>data.
     rbind (vdisk_dir_files files (lba + 1) count (drop VDISK_SECTOR_SIZE data)) (\<lambda>rest.
     Inr (take VDISK_SECTOR_SIZE data @ rest)))"

section \<open>Files\<close>

text \<open>
  What the methods behind the pointers do: \<open>call_read\<close> yields the bytes that are stored at the buffer,
  \<open>call_patch\<close> the files and the buffer, which is \<open>None\<close> for the null pointer. A pointer to a file is an index into
  the array of files, which the methods can see; both methods can use and change static variables of the program.
\<close>

type_synonym ('o, 'r, 'p, 's) read_method = "'r \<Rightarrow> ('o, 'r, 'p) vdisk_file list \<Rightarrow> nat \<Rightarrow> nat \<Rightarrow> nat \<Rightarrow> ('s, bytes) stateful"

type_synonym ('o, 'r, 'p, 's) patch_method =
  "'p \<Rightarrow> ('o, 'r, 'p) vdisk_file list \<Rightarrow> nat \<Rightarrow> bytes option \<Rightarrow> nat \<Rightarrow> nat \<Rightarrow> ('s, ('o, 'r, 'p) vdisk_file list \<times> bytes option) stateful"

definition vdisk_file_build ::
    "('o, 'r, 'p, 's) read_method \<Rightarrow> ('o, 'r, 'p, 's) patch_method \<Rightarrow> ('o, 'r, 'p) vdisk_file list \<Rightarrow> nat \<Rightarrow> nat \<Rightarrow> bytes
      \<Rightarrow> ('s, ('o, 'r, 'p) vdisk_file list \<times> bytes) stateful" where
  "vdisk_file_build call_read call_patch files lba count data =
     (let idx = VDISK_FILE_IDX lba in
      if length files \<le> idx then wret (Inl Fault) else
      let vf = files ! idx;
          offset = VDISK_FILE_OFFSET lba;
          len = count * VDISK_SECTOR_SIZE mod 2 ^ 32;
          copy_len = min (vf_len vf - offset) len
      in wbind (if copy_len \<noteq> 0 then
             (case vf_read vf of None \<Rightarrow> wret (Inl Fault)
              | Some r \<Rightarrow> wbind (call_read r files idx offset copy_len) (\<lambda>bs. wret (wr_bytes data 0 bs)))
           else wret (Inr data)) (\<lambda>data.
         wbind (wret (memset data copy_len 0 (len - copy_len))) (\<lambda>data.
         let patch_len = min (vf_xlen vf - offset) len in
         case vf_patch vf of None \<Rightarrow> wret (Inr (files, data))
         | Some p \<Rightarrow> wbind (call_patch p files idx (Some data) offset patch_len) (\<lambda>(files, data).
             wret (case data of None \<Rightarrow> Inl Fault | Some data \<Rightarrow> Inr (files, data))))))"

section \<open>Reading\<close>

record vdisk_region =
  reg_name :: string
  reg_lba :: nat
  reg_count :: nat
  reg_build :: "nat \<Rightarrow> nat \<Rightarrow> bytes \<Rightarrow> bytes result"

definition VDISK_REGION :: "string \<Rightarrow> (nat \<Rightarrow> nat \<Rightarrow> bytes \<Rightarrow> bytes result) \<Rightarrow> nat \<Rightarrow> nat \<Rightarrow> vdisk_region" where
  "VDISK_REGION name build lba count = \<lparr>reg_name = name, reg_lba = lba, reg_count = count, reg_build = build\<rparr>"

definition VDISK_DIRECTORY_REGION ::
    "('o, 'r, 'p) vdisk_file list \<Rightarrow> string \<Rightarrow> (nat \<Rightarrow> nat \<Rightarrow> bytes \<Rightarrow> bytes result) \<Rightarrow> nat \<Rightarrow> vdisk_region list" where
  "VDISK_DIRECTORY_REGION files name build_subdirs lba =
     [\<lparr>reg_name = name @ '' subdirs'', reg_lba = lba, reg_count = 1, reg_build = build_subdirs\<rparr>,
      \<lparr>reg_name = name @ '' files'', reg_lba = lba + 1, reg_count = VDISK_CLUSTER_COUNT - 1,
       reg_build = vdisk_dir_files files\<rparr>]"

definition vdisk_regions :: "nat \<Rightarrow> ('o, 'r, 'p) vdisk_file list \<Rightarrow> vdisk_region list" where
  "vdisk_regions w files =
     [VDISK_REGION ''MBR'' vdisk_mbr VDISK_MBR_LBA VDISK_MBR_COUNT,
      VDISK_REGION ''VBR'' vdisk_vbr VDISK_VBR_LBA VDISK_VBR_COUNT,
      VDISK_REGION ''FSInfo'' vdisk_fsinfo VDISK_FSINFO_LBA VDISK_FSINFO_COUNT,
      VDISK_REGION ''VBR Backup'' vdisk_vbr VDISK_BACKUP_VBR_LBA VDISK_BACKUP_VBR_COUNT,
      VDISK_REGION ''FAT'' (vdisk_fat w files) VDISK_FAT_LBA VDISK_FAT_COUNT] @
     VDISK_DIRECTORY_REGION files ''Root'' vdisk_root VDISK_ROOT_LBA @
     VDISK_DIRECTORY_REGION files ''Boot'' vdisk_boot VDISK_BOOT_LBA @
     VDISK_DIRECTORY_REGION files ''Sources'' vdisk_sources VDISK_SOURCES_LBA @
     VDISK_DIRECTORY_REGION files ''Fonts'' vdisk_fonts VDISK_FONTS_LBA @
     VDISK_DIRECTORY_REGION files ''Resources'' vdisk_resources VDISK_RESOURCES_LBA @
     VDISK_DIRECTORY_REGION files ''EFI'' vdisk_efi VDISK_EFI_LBA @
     VDISK_DIRECTORY_REGION files ''Microsoft'' vdisk_microsoft VDISK_MICROSOFT_LBA"

text \<open>Truncate a fragment to region boundaries, and find the region that it lies in.\<close>

fun vdisk_find :: "nat \<Rightarrow> nat \<Rightarrow> vdisk_region list \<Rightarrow> nat \<times> (nat \<Rightarrow> nat \<Rightarrow> bytes \<Rightarrow> bytes result) option" where
  "vdisk_find frag_start frag_end [] = (frag_end, None)"
| "vdisk_find frag_start frag_end (region # regions) =
     (let region_start = reg_lba region;
          region_end = region_start + reg_count region;
          frag_end = (if frag_start < region_start \<and> frag_end > region_start then region_start else frag_end)
      in if frag_start \<ge> region_end \<or> frag_end \<le> region_start then vdisk_find frag_start frag_end regions
         else (min frag_end region_end, Some (reg_build region)))"

text \<open>The index of the file at a sector, as a signed 32-bit integer.\<close>

definition vdisk_file_idx :: "nat \<Rightarrow> int" where
  "vdisk_file_idx lba = signed_take_bit 31 (int (VDISK_FILE_IDX lba))"

text \<open>The end of a fragment and the number of sectors in it, as a 32-bit integer.\<close>

definition frag_count :: "nat \<Rightarrow> nat \<Rightarrow> nat" where
  "frag_count frag_start frag_end = (frag_end + (2 ^ 64 - frag_start)) mod 2 ^ 32"

text \<open>Generate one fragment.\<close>

definition vdisk_fragment ::
    "nat \<Rightarrow> ('o, 'r, 'p, 's) read_method \<Rightarrow> ('o, 'r, 'p, 's) patch_method \<Rightarrow> ('o, 'r, 'p) vdisk_file list \<Rightarrow> nat \<Rightarrow> nat \<Rightarrow> bytes
      \<Rightarrow> ('s, nat \<times> ('o, 'r, 'p) vdisk_file list \<times> bytes) stateful" where
  "vdisk_fragment w call_read call_patch files frag_start fin data =
     (let file_idx = vdisk_file_idx frag_start
      in if file_idx \<ge> 0 then
           let file_end = VDISK_FILE_LBA w (file_idx + 1);
               frag_end = (if fin > file_end then file_end else fin);
               n = frag_count frag_start frag_end
           in if file_idx < int VDISK_MAX_FILES
              then wbind (vdisk_file_build call_read call_patch files frag_start n data) (\<lambda>(files, data). wret (Inr (n, files, data)))
              else wret (rbind (memset data 0 0 (n * VDISK_SECTOR_SIZE mod 2 ^ 32)) (\<lambda>data. Inr (n, files, data)))
         else
           let (frag_end, build) = vdisk_find frag_start fin (vdisk_regions w files);
               n = frag_count frag_start frag_end
           in wret (rbind (case build of Some build \<Rightarrow> build frag_start n data
                | None \<Rightarrow> memset data 0 0 (n * VDISK_SECTOR_SIZE mod 2 ^ 32)) (\<lambda>data. Inr (n, files, data))))"

fun vdisk_fragments ::
    "nat \<Rightarrow> nat \<Rightarrow> ('o, 'r, 'p, 's) read_method \<Rightarrow> ('o, 'r, 'p, 's) patch_method \<Rightarrow> ('o, 'r, 'p) vdisk_file list \<Rightarrow> nat \<Rightarrow> nat \<Rightarrow> bytes
      \<Rightarrow> ('s, ('o, 'r, 'p) vdisk_file list \<times> bytes) stateful" where
  "vdisk_fragments 0 w call_read call_patch files frag_start fin data = wret (Inl Fuel)"
| "vdisk_fragments (Suc fuel) w call_read call_patch files frag_start fin data =
     wbind (vdisk_fragment w call_read call_patch files frag_start fin data) (\<lambda>(n, files, data).
     let frag_start = (frag_start + n) mod 2 ^ 64;
         len = n * VDISK_SECTOR_SIZE mod 2 ^ 32
     in if length data < len then wret (Inl Fault)
        else if frag_start = fin then wret (Inr (files, data))
        else wbind (vdisk_fragments fuel w call_read call_patch files frag_start fin (drop len data))
               (\<lambda>(files, rest). wret (Inr (files, take len data @ rest))))"

text \<open>Every fragment of a range has at least one sector, which bounds their number.\<close>

definition vdisk_read ::
    "nat \<Rightarrow> ('o, 'r, 'p, 's) read_method \<Rightarrow> ('o, 'r, 'p, 's) patch_method \<Rightarrow> ('o, 'r, 'p) vdisk_file list \<Rightarrow> nat \<Rightarrow> nat \<Rightarrow> bytes
      \<Rightarrow> ('s, ('o, 'r, 'p) vdisk_file list \<times> bytes) stateful" where
  "vdisk_read w call_read call_patch files lba count data =
     vdisk_fragments (count + 1) w call_read call_patch files lba ((lba + count) mod 2 ^ 64) data"

section \<open>Adding files\<close>

text \<open>The files and the number of those that are in use.\<close>

record ('o, 'r, 'p) vdisk =
  vdisk_files :: "('o, 'r, 'p) vdisk_file list"
  vdisk_index :: nat

definition vdisk_file_empty :: "'o \<Rightarrow> ('o, 'r, 'p) vdisk_file" where
  "vdisk_file_empty null = \<lparr>vf_name = replicate (VDISK_NAME_LEN + 1) 0, vf_filename = [], vf_opaque = null,
     vf_len = 0, vf_xlen = 0, vf_read = None, vf_patch = None\<rparr>"

definition vdisk_initial :: "'o \<Rightarrow> ('o, 'r, 'p) vdisk" where
  "vdisk_initial null = \<lparr>vdisk_files = replicate VDISK_MAX_FILES (vdisk_file_empty null), vdisk_index = 0\<rparr>"

text \<open>
  \<open>snprintf ( file->name, sizeof ( file->name ), "%s", name )\<close>: the name is cut to fit, the terminator is
  always stored.
\<close>

definition vdisk_set_name :: "bytes \<Rightarrow> bytes \<Rightarrow> bytes result" where
  "vdisk_set_name buf name =
     (if terminated name then wr_bytes buf 0 (take VDISK_NAME_LEN (cstring name) @ [0]) else Inl Fault)"

definition vdisk_add_file ::
    "bytes \<Rightarrow> 'o \<Rightarrow> nat \<Rightarrow> 'r \<Rightarrow> ('o, 'r, 'p) vdisk \<Rightarrow> (nat \<times> ('o, 'r, 'p) vdisk) result" where
  "vdisk_add_file name opaque len read v =
     (let index = vdisk_index v in
      if index \<ge> VDISK_MAX_FILES then Inl Died else
      let vf = vdisk_files v ! index in
      rbind (vdisk_set_name (vf_name vf) name) (\<lambda>name.
      let vf = vf\<lparr>vf_name := name, vf_filename := name, vf_opaque := opaque, vf_len := len, vf_xlen := len,
                  vf_read := Some read\<rparr>
      in Inr (index, v\<lparr>vdisk_files := (vdisk_files v)[index := vf], vdisk_index := index + 1\<rparr>)))"

definition vdisk_patch_file ::
    "('o, 'r, 'p, 's) patch_method \<Rightarrow> nat \<Rightarrow> 'p \<Rightarrow> ('o, 'r, 'p) vdisk \<Rightarrow> ('s, ('o, 'r, 'p) vdisk) stateful" where
  "vdisk_patch_file call_patch idx patch v =
     (if length (vdisk_files v) \<le> idx then wret (Inl Fault) else
      let files = (vdisk_files v)[idx := (vdisk_files v ! idx)\<lparr>vf_patch := Some patch\<rparr>] in
      wbind (call_patch patch files idx None 0 0) (\<lambda>(files, _). wret (Inr (v\<lparr>vdisk_files := files\<rparr>))))"

end
