(* ===== verification/Vdisk_Tables.thy ===== *)
theory Vdisk_Tables
  imports Vdisk
begin

text \<open>
  The tables of the virtual disk: what the file allocation table and the directories contain, and that the
  functions of \<open>vdisk.c\<close> write it. The table is a function from clusters to entries; a directory is a list of
  32-byte entries, in which a file has the entries of its long name (last part first) and then its short entry.
\<close>

section \<open>Arrays in buffers\<close>

text \<open>Writing into one element of an array of elements of \<open>m\<close> bytes.\<close>

lemma concat_update:
  assumes "uniform m es" "i < length es"
  shows "concat es = concat (take i es) @ es ! i @ concat (drop (Suc i) es)" "length (concat (take i es)) = m * i"
proof -
  from assms(2) have "es = take i es @ es ! i # drop (Suc i) es" by (simp add: id_take_nth_drop)
  then show "concat es = concat (take i es) @ es ! i @ concat (drop (Suc i) es)"
    by (metis concat.simps(2) concat_append)
  show "length (concat (take i es)) = m * i"
    using assms by (subst length_concat_uniform [where m = m]) (auto dest: in_set_takeD)
qed

lemma overlay_element:
  assumes "uniform m es" "i < length es" "off + length bs \<le> m"
  shows "overlay (m * i + off) bs (concat es @ rest) = concat (es[i := overlay off bs (es ! i)]) @ rest"
proof -
  let ?A = "concat (take i es)" and ?B = "concat (drop (Suc i) es)"
  have "concat (es[i := overlay off bs (es ! i)]) = ?A @ overlay off bs (es ! i) @ ?B"
    using assms(2) by (simp add: upd_conv_take_nth_drop)
  moreover have "length (es ! i) = m" using assms by simp
  ultimately show ?thesis
    using concat_update [OF assms(1,2)] assms(3) by (simp add: overlay_def)
qed

lemma wr_bytes_element:
  assumes "uniform m es" "i < length es" "off + length bs \<le> m"
  shows "wr_bytes (concat es @ rest) (m * i + off) bs = Inr (concat (es[i := overlay off bs (es ! i)]) @ rest)"
proof -
  have "m * i + m \<le> m * length es" using assms(2) by (metis Suc_leI mult_Suc_right mult_le_mono2 add.commute)
  then show ?thesis
    using overlay_element [OF assms] assms(3) length_concat_uniform [OF assms(1)] by (simp add: wr_bytes_def)
qed

lemma wr8_element:
  assumes "uniform m es" "i < length es" "off < m"
  shows "wr8 (concat es @ rest) (m * i + off) v = Inr (concat (es[i := (es ! i)[off := v]]) @ rest)"
proof -
  have *: "length (es ! i) = m" "m * i + off < length (concat es @ rest)"
    using assms concat_update [OF assms(1,2)] by auto
  then show ?thesis
    using overlay_element [OF assms(1,2), of off "[v]" rest] overlay_single [OF *(2), of v] overlay_single [of off "es ! i" v] assms(3)
    by (simp add: wr8_def)
qed

lemma memset_element:
  assumes "uniform m es" "i < length es" "off + n \<le> m"
  shows "memset (concat es @ rest) (m * i + off) c n = Inr (concat (es[i := overlay off (replicate n c) (es ! i)]) @ rest)"
proof -
  have "m * i + off + n \<le> length (concat es @ rest)" using assms concat_update [OF assms(1,2)] by auto
  then show ?thesis
    using overlay_element [OF assms(1,2), of off "replicate n c" rest] assms(3) by (simp add: memset_overlay)
qed

lemma rd8_element:
  assumes "uniform m es" "i < length es" "off < m"
  shows "rd8 (concat es @ rest) (m * i + off) = Inr (es ! i ! off)"
proof -
  have "length (es ! i) = m" using assms by simp
  then show ?thesis using assms concat_update [OF assms(1,2)] by (simp add: rd8_def nth_append)
qed

lemma rd_bytes_element:
  assumes "uniform m es" "i < length es" "off + n \<le> m"
  shows "rd_bytes (concat es @ rest) (m * i + off) n = Inr (window off n (es ! i))"
proof -
  have "length (es ! i) = m" using assms by simp
  then show ?thesis using assms concat_update [OF assms(1,2)] by (simp add: rd_bytes_def window_def)
qed

section \<open>Values\<close>

lemma vdisk_numbers:
  "VDISK_SECTOR_SIZE = 512" "VDISK_CLUSTER_COUNT = 64" "VDISK_CLUSTER_SIZE = 32768" "VDISK_MAX_FILES = 63"
  "VDISK_FILE_COUNT = 0x800000" "VDISK_FILE_CLUSTERS = 0x20000" "VDISK_SECTORS_PER_FAT = 0x7ff80"
  "VDISK_RESERVED_COUNT = 64" "VDISK_PARTITION_LBA = 128" "VDISK_PARTITION_COUNT = 0xfff7ffc0" "VDISK_COUNT = 0xfff80040"
  "VDISK_MBR_LBA = 0" "VDISK_MBR_COUNT = 1" "VDISK_VBR_LBA = 128" "VDISK_VBR_COUNT = 1" "VDISK_FSINFO_LBA = 129"
  "VDISK_FSINFO_COUNT = 1" "VDISK_BACKUP_VBR_LBA = 134" "VDISK_BACKUP_VBR_COUNT = 1" "VDISK_FAT_LBA = 192"
  "VDISK_FAT_COUNT = 0x7ff80" "VDISK_ROOT_LBA = 0x80040" "VDISK_BOOT_LBA = 0x80080" "VDISK_SOURCES_LBA = 0x800c0"
  "VDISK_FONTS_LBA = 0x80100" "VDISK_RESOURCES_LBA = 0x80140" "VDISK_EFI_LBA = 0x80180" "VDISK_MICROSOFT_LBA = 0x801c0"
  "vdisk_directory_entry_size = 32" "VDISK_DIRENT_PER_SECTOR = 16"
  by code_simp+

lemma VDISK_FILE_CLUSTER_value: "VDISK_FILE_CLUSTER idx = 0x1e001 + idx * 0x20000"
  by (simp add: VDISK_FILE_CLUSTER_def vdisk_numbers)

section \<open>The file allocation table\<close>

text \<open>The clusters at which a list of files ends, where the first file has index \<open>i\<close>.\<close>

definition ends_at :: "nat \<Rightarrow> nat \<Rightarrow> ('o, 'r, 'p) vdisk_file list \<Rightarrow> nat \<Rightarrow> bool" where
  "ends_at w i vfs j \<longleftrightarrow> (\<exists>k < length vfs. vf_read (vfs ! k) \<noteq> None \<and> file_end_marker w (i + k) (vfs ! k) = j)"

lemma ends_at_simps [simp]:
  "\<not> ends_at w i [] j"
  "ends_at w i (vf # vfs) j \<longleftrightarrow> (vf_read vf \<noteq> None \<and> file_end_marker w i vf = j) \<or> ends_at w (i + 1) vfs j"
  unfolding ends_at_def by (simp, subst length_Cons, subst Ex_less_Suc2, simp)

text \<open>The entry of a cluster.\<close>

definition fat_entry :: "nat \<Rightarrow> ('o, 'r, 'p) vdisk_file list \<Rightarrow> nat \<Rightarrow> nat" where
  "fat_entry w files i =
     (if ends_at w 0 files i then VDISK_FAT_END_MARKER
      else if i = 0 then fat_first_marker else if i < 128 then VDISK_FAT_END_MARKER else i + 1)"

definition words32 :: "nat list \<Rightarrow> bytes" where
  "words32 vs = concat (map le32 vs)"

lemma length_words32 [simp]: "length (words32 vs) = 4 * length vs"
  by (simp add: words32_def length_concat_uniform [where m = 4])

lemma words32_append [simp]: "words32 (us @ vs) = words32 us @ words32 vs"
  by (simp add: words32_def)

lemma words32_cong: "(\<And>j. j \<in> set js \<Longrightarrow> f j = g j) \<Longrightarrow> words32 (map f js) = words32 (map g js)"
  by (simp add: words32_def comp_def cong: map_cong)

lemma fat_set_words:
  assumes "start \<le> i" "i < fin"
  shows "fat_set start i v (words32 (map f [start..<fin]) @ rest) = Inr (words32 (map (f(i := v)) [start..<fin]) @ rest)"
proof -
  let ?es = "map (\<lambda>i. le32 (f i)) [start..<fin]"
  have "overlay 0 (le32 v) (le32 (f i)) = le32 v" by (simp add: overlay_def)
  moreover have "?es[i - start := le32 v] = map (\<lambda>j. le32 ((f(i := v)) j)) [start..<fin]"
    using assms by (intro nth_equalityI) (auto simp: nth_list_update)
  ultimately show ?thesis
    using assms wr_bytes_element [where m = 4, of ?es "i - start" 0 "le32 v" rest]
    by (simp add: fat_set_def wr32_def words32_def comp_def)
qed

lemma fat_fill_words:
  "start \<le> i \<Longrightarrow> i + n \<le> fin \<Longrightarrow>
   fat_fill start g i n (words32 (map f [start..<fin]) @ rest) =
     Inr (words32 (map (\<lambda>j. if i \<le> j \<and> j < i + n then g j else f j) [start..<fin]) @ rest)"
proof (induction n arbitrary: i f)
  case (Suc n)
  have "fat_fill start g i (Suc n) (words32 (map f [start..<fin]) @ rest) =
      fat_fill start g (i + 1) n (words32 (map (f(i := g i)) [start..<fin]) @ rest)"
    using Suc.prems by (simp add: fat_set_words)
  also have "\<dots> = Inr (words32 (map (\<lambda>j. if i + 1 \<le> j \<and> j < i + 1 + n then g j else (f(i := g i)) j) [start..<fin]) @ rest)"
    using Suc.prems by (intro Suc.IH) auto
  also have "(\<lambda>j. if i + 1 \<le> j \<and> j < i + 1 + n then g j else (f(i := g i)) j) = (\<lambda>j. if i \<le> j \<and> j < i + Suc n then g j else f j)"
    by auto
  finally show ?case .
qed (auto intro!: words32_cong)

lemma fat_fill_fresh:
  "4 * (i - start + n) \<le> length data \<Longrightarrow> start \<le> i \<Longrightarrow>
   fat_fill start g i n data = Inr (overlay (4 * (i - start)) (words32 (map g [i..<i + n])) data)"
proof (induction n arbitrary: i data)
  case (Suc n)
  let ?data = "overlay (4 * (i - start)) (le32 (g i)) data"
  have "fat_fill start g i (Suc n) data = fat_fill start g (i + 1) n ?data"
    using Suc.prems by (auto simp: fat_set_def wr32_def wr_bytes_def)
  also have "\<dots> = Inr (overlay (4 * (i + 1 - start)) (words32 (map g [i + 1..<i + 1 + n])) ?data)"
    using Suc.prems by (intro Suc.IH) auto
  also have "overlay (4 * (i + 1 - start)) (words32 (map g [i + 1..<i + 1 + n])) ?data =
      overlay (4 * (i - start)) (words32 (map g [i..<i + Suc n])) data"
  proof -
    define W where "W = words32 (map g [i + 1..<i + 1 + n])"
    have "[i..<i + Suc n] = i # [i + 1..<i + 1 + n]" by (subst upt_conv_Cons) simp_all
    then have split: "words32 (map g [i..<i + Suc n]) = le32 (g i) @ W" by (simp add: W_def words32_def del: upt_Suc)
    have "length W = 4 * n" by (simp add: W_def)
    with Suc.prems overlay_overlay [of "4 * (i - start)" "le32 (g i)" data W] show ?thesis
      unfolding split W_def [symmetric] by (simp add: Suc_diff_le add.commute)
  qed
  finally show ?case .
qed (simp add: words32_def)

lemma fat_markers_words:
  "fat_markers w start fin i vfs (words32 (map f [start..<fin]) @ rest) =
     Inr (words32 (map (\<lambda>j. if ends_at w i vfs j then VDISK_FAT_END_MARKER else f j) [start..<fin]) @ rest)"
proof (induction vfs arbitrary: i f)
  case (Cons vf vfs)
  let ?m = "file_end_marker w i vf"
  define f' where "f' = (if vf_read vf \<noteq> None then f(?m := VDISK_FAT_END_MARKER) else f)"
  have "fat_markers w start fin i (vf # vfs) (words32 (map f [start..<fin]) @ rest) =
      fat_markers w start fin (i + 1) vfs (words32 (map f' [start..<fin]) @ rest)"
  proof (cases "vf_read vf \<noteq> None \<and> start \<le> ?m \<and> ?m < fin")
    case True
    then show ?thesis by (simp add: fat_set_words f'_def)
  next
    case False
    then have "words32 (map f [start..<fin]) = words32 (map f' [start..<fin])"
      by (intro words32_cong) (auto simp: f'_def)
    with False show ?thesis by auto
  qed
  also have "\<dots> = Inr (words32 (map (\<lambda>j. if ends_at w (i + 1) vfs j then VDISK_FAT_END_MARKER else f' j) [start..<fin]) @ rest)"
    by (rule Cons.IH)
  also have "(\<lambda>j. if ends_at w (i + 1) vfs j then VDISK_FAT_END_MARKER else f' j) =
      (\<lambda>j. if ends_at w i (vf # vfs) j then VDISK_FAT_END_MARKER else f j)"
    by (rule ext) (auto simp: f'_def)
  finally show ?case .
qed simp

text \<open>A sector of the table.\<close>

definition fat_sector :: "nat \<Rightarrow> ('o, 'r, 'p) vdisk_file list \<Rightarrow> nat \<Rightarrow> bytes" where
  "fat_sector w files s = words32 (map (fat_entry w files) [128 * s..<128 * s + 128])"

lemma fat_sectors:
  "words32 (map (fat_entry w files) [128 * s..<128 * (s + n)]) = concat (map (fat_sector w files) [s..<s + n])"
proof (induction n)
  case (Suc n)
  have "[128 * s..<128 * (s + Suc n)] = [128 * s..<128 * (s + n)] @ [128 * (s + n)..<128 * (s + n) + 128]"
    using upt_add_eq_append [of "128 * s" "128 * (s + n)" 128] by (simp add: algebra_simps)
  with Suc.IH show ?case by (simp add: fat_sector_def)
qed (simp add: words32_def)

lemma vdisk_fat_build:
  assumes "s + count \<le> 0x7ff80" "0 < count" "512 * count \<le> length data"
  shows "vdisk_fat w files (VDISK_FAT_LBA + s) count data =
     Inr (concat (map (fat_sector w files) [s..<s + count]) @ drop (512 * count) data)"
proof -
  let ?start = "128 * s" and ?fin = "128 * (s + count)" and ?rest = "drop (512 * count) data"
  have start: "(VDISK_FAT_LBA + s + (2 ^ 64 - VDISK_FAT_LBA)) mod 2 ^ 64 * (VDISK_SECTOR_SIZE div 4) mod 2 ^ 32 = ?start"
    using assms(1) by (simp add: vdisk_numbers)
  have fin: "(?start + count * (VDISK_SECTOR_SIZE div 4)) mod 2 ^ 32 = ?fin"
    using assms(1) by (simp add: vdisk_numbers algebra_simps)
  have 1: "fat_fill ?start (\<lambda>i. i + 1) ?start (?fin - ?start) data = Inr (words32 (map (\<lambda>i. i + 1) [?start..<?fin]) @ ?rest)"
    using assms(3) by (simp add: fat_fill_fresh overlay_0 algebra_simps)
  define f where "f i = (if i = 0 then fat_first_marker else if i < 128 then VDISK_FAT_END_MARKER else i + 1)" for i
  have 2: "(if ?start = 0 then
             rbind (fat_set ?start 0 fat_first_marker (words32 (map (\<lambda>i. i + 1) [?start..<?fin]) @ ?rest))
               (fat_fill ?start (\<lambda>i. VDISK_FAT_END_MARKER) 1 (VDISK_SECTOR_SIZE div 4 - 1))
           else Inr (words32 (map (\<lambda>i. i + 1) [?start..<?fin]) @ ?rest)) = Inr (words32 (map f [?start..<?fin]) @ ?rest)"
  proof (cases "s = 0")
    case True
    with assms(2) show ?thesis
      by (auto simp: fat_set_words fat_fill_words vdisk_numbers f_def intro!: words32_cong)
  next
    case False
    then show ?thesis by (auto simp: f_def intro!: words32_cong)
  qed
  have "vdisk_fat w files (VDISK_FAT_LBA + s) count data = fat_markers w ?start ?fin 0 files (words32 (map f [?start..<?fin]) @ ?rest)"
    unfolding vdisk_fat_def Let_def start fin 1 rbind_Inr 2 ..
  also have "\<dots> = Inr (words32 (map (fat_entry w files) [?start..<?fin]) @ ?rest)"
    
  proof -
    have "(\<lambda>j. if ends_at w 0 files j then VDISK_FAT_END_MARKER else f j) = fat_entry w files"
      by (rule ext) (simp add: fat_entry_def f_def)
    then show ?thesis by (simp only: fat_markers_words)
  qed
  finally show ?thesis by (simp only: fat_sectors)
qed

section \<open>Directory entries\<close>

definition blank_entry :: bytes where
  "blank_entry = VDISK_DIRENT_DELETED # replicate 31 0"

definition dos_entry :: "u8 \<Rightarrow> nat \<Rightarrow> nat \<Rightarrow> bytes" where
  "dos_entry attr cluster len = replicate 11 0x20 @ [attr] @ replicate 8 0 @ le16 (cluster div 2 ^ 16) @ replicate 4 0 @
     le16 cluster @ le32 len"

definition units :: "u16 list \<Rightarrow> bytes" where
  "units cs = concat (map (\<lambda>c. le16 (unat c)) cs)"

text \<open>A long filename entry with its thirteen characters.\<close>

definition lfn_entry :: "u8 \<Rightarrow> u8 \<Rightarrow> u16 list \<Rightarrow> bytes" where
  "lfn_entry sequence checksum cs =
     [sequence] @ units (take 5 cs) @ [VDISK_LFN_ATTR, 0, checksum] @ units (take 6 (drop 5 cs)) @ [0, 0] @ units (drop 11 cs)"

definition lfn_pad :: "u16 list \<Rightarrow> u16 list" where
  "lfn_pad cs = cs @ replicate (13 - length cs) 0xffff"

text \<open>The entries for the characters of a name, the first characters first.\<close>

function lfn_entries :: "u8 \<Rightarrow> nat \<Rightarrow> u16 list \<Rightarrow> bytes list" where
  "lfn_entries checksum sequence cs =
     (if length cs \<le> 13 then [lfn_entry (word_of_nat sequence OR VDISK_LFN_END) checksum (lfn_pad cs)]
      else lfn_entry (word_of_nat sequence) checksum (take 13 cs) # lfn_entries checksum (sequence + 1) (drop 13 cs))"
  by auto
termination by (relation "measure (\<lambda>(checksum, sequence, cs). length cs)") auto

declare lfn_entries.simps [simp del]

definition name_units :: "bytes \<Rightarrow> u16 list" where
  "name_units name = map scast name @ [0]"

text \<open>The position of a character in its entry.\<close>

definition lfn_pos :: "nat \<Rightarrow> nat" where
  "lfn_pos j = (if j < 5 then 1 + 2 * j else if j < 11 then 4 + 2 * j else 6 + 2 * j)"

lemma lfn_offsets [layout_simps]:
  "offset_of struct_vdisk_long_filename ''sequence'' = 0" "offset_of struct_vdisk_long_filename ''name_1'' = 1"
  "offset_of struct_vdisk_long_filename ''attr'' = 11" "offset_of struct_vdisk_long_filename ''checksum'' = 13"
  "offset_of struct_vdisk_long_filename ''name_2'' = 14" "offset_of struct_vdisk_long_filename ''name_3'' = 28"
  by (simp_all add: struct_vdisk_long_filename_def)

lemma dos_offsets [layout_simps]:
  "offset_of struct_vdisk_short_filename ''filename'' = 0" "offset_of struct_vdisk_short_filename ''attr'' = 11"
  "offset_of struct_vdisk_short_filename ''cluster_high'' = 20" "offset_of struct_vdisk_short_filename ''cluster_low'' = 26"
  "offset_of struct_vdisk_short_filename ''size'' = 28"
  by (simp_all add: struct_vdisk_short_filename_def)

lemma length_units [simp]: "length (units cs) = 2 * length cs"
  by (induction cs) (simp_all add: units_def)

lemma length_entries [simp]:
  "length blank_entry = 32" "length (dos_entry attr cluster len) = 32"
  "length cs = 13 \<Longrightarrow> length (lfn_entry sequence checksum cs) = 32"
  by (simp_all add: blank_entry_def dos_entry_def lfn_entry_def)

lemma length_lfn_pad [simp]: "length cs \<le> 13 \<Longrightarrow> length (lfn_pad cs) = 13"
  by (simp add: lfn_pad_def)

lemma less_13: "j < 13 \<longleftrightarrow> j = 0 \<or> j = 1 \<or> j = 2 \<or> j = 3 \<or> j = 4 \<or> j = 5 \<or> j = 6 \<or> j = 7 \<or> j = 8 \<or> j = 9 \<or>
    j = 10 \<or> j = 11 \<or> j = (12 :: nat)"
  by arith

lemma lfn_next_pos:
  assumes "j < 13"
  shows "vdisk_lfn_next lfn (lfn_pos j) = (if j = 12 then (lfn - 1, lfn_pos 0) else (lfn, lfn_pos (j + 1)))"
  using assms unfolding less_13
  by (elim disjE; hypsubst) (simp_all add: vdisk_lfn_next_def lfn_pos_def layout_simps Let_def)

lemma list13:
  assumes "length cs = 13"
  obtains c0 c1 c2 c3 c4 c5 c6 c7 c8 c9 c10 c11 c12 where "cs = [c0, c1, c2, c3, c4, c5, c6, c7, c8, c9, c10, c11, c12]"
  using assms by (auto simp: length_Suc_conv numeral_eq_Suc)

lemma lfn_entry_char:
  assumes "length cs = 13" "j < 13"
  shows "overlay (lfn_pos j) (le16 (unat c)) (lfn_entry sequence checksum cs) = lfn_entry sequence checksum (cs[j := c])"
proof -
  obtain c0 c1 c2 c3 c4 c5 c6 c7 c8 c9 c10 c11 c12 where "cs = [c0, c1, c2, c3, c4, c5, c6, c7, c8, c9, c10, c11, c12]"
    using list13 [OF assms(1)] .
  then show ?thesis using assms(2) unfolding less_13
    by (elim disjE; hypsubst) (simp_all add: lfn_entry_def lfn_pos_def units_def overlay_def le16_def)
qed

lemma lfn_pad_char:
  assumes "length cs < 13"
  shows "(lfn_pad cs)[length cs := c] = lfn_pad (cs @ [c])"
proof -
  have "replicate (13 - length cs) (0xffff :: u16) = 0xffff # replicate (13 - length (cs @ [c])) 0xffff"
    using assms by (simp flip: replicate_Suc add: Suc_diff_Suc)
  then show ?thesis by (simp add: lfn_pad_def)
qed

lemma lfn_pad_full: "length cs = 13 \<Longrightarrow> lfn_pad cs = cs"
  by (simp add: lfn_pad_def)

lemma lfn_entry_attr: "length cs = 13 \<Longrightarrow> lfn_entry sequence checksum cs ! 11 = VDISK_LFN_ATTR"
  by (simp add: lfn_entry_def nth_append)

lemma lfn_entry_last: "(lfn_entry sequence checksum cs)[0 := v] = lfn_entry v checksum cs" "lfn_entry sequence checksum cs ! 0 = sequence"
  by (simp_all add: lfn_entry_def)

lemma blank_entry_lfn:
  "overlay 28 (replicate 4 0xff) (overlay 14 (replicate 12 0xff)
     ((overlay 1 (replicate 10 0xff) (blank_entry[0 := sequence]))[11 := VDISK_LFN_ATTR, 13 := checksum])) =
   lfn_entry sequence checksum (lfn_pad [])"
  by (simp add: blank_entry_def lfn_pad_def lfn_entry_def overlay_def units_def le16_def replicate_numeral)

lemma blank_entry_attr: "blank_entry ! 11 \<noteq> VDISK_LFN_ATTR"
  by code_simp

lemma lfn_init_blank:
  assumes "uniform 32 es" "i < length es" "es ! i = blank_entry"
  shows "vdisk_lfn_init checksum (32 * i) sequence (concat es @ rest) =
     Inr (sequence + 1, concat (es[i := lfn_entry (word_of_nat sequence) checksum (lfn_pad [])]) @ rest)"
proof -
  have len: "i < length (es[i := e])" for e using assms(2) by simp
  have uni: "length e = 32 \<Longrightarrow> uniform 32 (es[i := e])" for e
    using assms(1) by (auto dest: set_update_subset_insert [THEN subsetD])
  note w8 = wr8_element [OF uni len] and ms = memset_element [OF uni len]
  have rd: "rd8 (concat es @ rest) (32 * i + 11) = Inr (blank_entry ! 11)"
    using rd8_element [OF assms(1,2), of 11 rest] assms(3) by simp
  have wr: "wr8 (concat es @ rest) (32 * i + 0) v = Inr (concat (es[i := blank_entry[0 := v]]) @ rest)" for v
    using wr8_element [OF assms(1,2), of 0 rest v] assms(3) by simp
  have "vdisk_lfn_init checksum (32 * i) sequence (concat es @ rest) =
     Inr (sequence + 1, concat (es[i := overlay 28 (replicate 4 0xff) (overlay 14 (replicate 12 0xff)
       ((overlay 1 (replicate 10 0xff) (blank_entry[0 := word_of_nat sequence]))[11 := VDISK_LFN_ATTR, 13 := checksum]))]) @ rest)"
    unfolding vdisk_lfn_init_def Let_def lfn_offsets rd wr rbind_Inr if_P [OF blank_entry_attr]
    using assms(2) by (simp add: w8 ms ms [where off = 1, simplified])
  then show ?thesis by (simp only: blank_entry_lfn)
qed

lemma lfn_init_used:
  assumes "uniform 32 es" "i < length es" "es ! i = lfn_entry sq checksum cs" "length cs = 13"
  shows "vdisk_lfn_init checksum (32 * i) sequence (concat es @ rest) = Inr (sequence, concat es @ rest)"
proof -
  have "rd8 (concat es @ rest) (32 * i + 11) = Inr VDISK_LFN_ATTR"
    using rd8_element [OF assms(1,2), of 11 rest] assms(3,4) by (simp add: lfn_entry_attr)
  then show ?thesis unfolding vdisk_lfn_init_def Let_def lfn_offsets by (simp only: rbind_Inr) simp
qed

lemma uniform_update: "uniform m es \<Longrightarrow> length e = m \<Longrightarrow> uniform m (es[i := e])"
  by (auto dest: set_update_subset_insert [THEN subsetD])

text \<open>
  The state of the loop: \<open>cs\<close> are the characters that the current entry holds. If there are none yet, the
  entry is not initialised, otherwise its sequence number was taken.
\<close>

definition lfn_state :: "u8 \<Rightarrow> nat \<Rightarrow> u16 list \<Rightarrow> nat \<Rightarrow> bytes \<Rightarrow> bool" where
  "lfn_state checksum k cs sequence e \<longleftrightarrow>
     (if cs = [] then e = blank_entry \<and> sequence = k
      else e = lfn_entry (word_of_nat k) checksum (lfn_pad cs) \<and> sequence = k + 1)"

lemma vdisk_lfn_step:
  assumes "uniform 32 es" "i < length es" "lfn_state checksum k cs sequence (es ! i)" "length cs < 13"
  shows "vdisk_lfn checksum (c # name) (int i) (lfn_pos (length cs)) sequence (concat es @ rest) =
     (let es = es[i := lfn_entry (word_of_nat k) checksum (lfn_pad (cs @ [scast c]))] in
      if c = 0 then
        Inr (concat (es[i := lfn_entry (word_of_nat k OR VDISK_LFN_END) checksum (lfn_pad (cs @ [scast c]))]) @ rest, int i - 1)
      else if length cs = 12 then vdisk_lfn checksum name (int i - 1) (lfn_pos 0) (k + 1) (concat es @ rest)
      else vdisk_lfn checksum name (int i) (lfn_pos (length cs + 1)) (k + 1) (concat es @ rest))"
proof -
  let ?part = "\<lambda>cs. lfn_entry (word_of_nat k) checksum (lfn_pad cs)"
  let ?u = "scast c :: u16"
  have part: "length (?part cs') = 32" if "length cs' \<le> 13" for cs' using that by simp
  have init: "vdisk_lfn_init checksum (32 * i) sequence (concat es @ rest) = Inr (k + 1, concat (es[i := ?part cs]) @ rest)"
  proof (cases "cs = []")
    case True
    with assms show ?thesis by (simp add: lfn_state_def lfn_init_blank)
  next
    case False
    then have "es ! i = ?part cs" "sequence = k + 1" using assms(3) by (simp_all add: lfn_state_def)
    moreover from this have "es[i := ?part cs] = es" by (metis list_update_id)
    ultimately show ?thesis using assms by (simp add: lfn_init_used)
  qed
  have uni: "uniform 32 (es[i := ?part cs'])" if "length cs' \<le> 13" for cs'
    using uniform_update [OF assms(1) part [OF that]] .
  have "lfn_pos (length cs) + length (le16 (unat ?u)) \<le> 32" using assms(4) by (simp add: lfn_pos_def)
  then have "wr_bytes (concat (es[i := ?part cs]) @ rest) (32 * i + lfn_pos (length cs)) (le16 (unat ?u)) =
      Inr (concat (es[i := overlay (lfn_pos (length cs)) (le16 (unat ?u)) (?part cs)]) @ rest)"
    using wr_bytes_element [OF uni, of cs i "lfn_pos (length cs)" "le16 (unat ?u)" rest] assms(2,4) by simp
  then have wr: "wr16 (concat (es[i := ?part cs]) @ rest) (32 * i + lfn_pos (length cs)) (unat ?u) = Inr (concat (es[i := ?part (cs @ [?u])]) @ rest)"
    using assms(4) by (simp add: wr16_def lfn_entry_char lfn_pad_char)
  have uni': "uniform 32 (es[i := ?part (cs @ [?u])])" using assms(4) by (intro uni) simp
  have rd: "rd8 (concat (es[i := ?part (cs @ [?u])]) @ rest) (32 * i + 0) = Inr (word_of_nat k)"
    using rd8_element [OF uni', of i 0 rest] assms(2) by (simp add: lfn_entry_last)
  have fin: "wr8 (concat (es[i := ?part (cs @ [?u])]) @ rest) (32 * i + 0) v =
      Inr (concat (es[i := lfn_entry v checksum (lfn_pad (cs @ [?u]))]) @ rest)" for v
    using wr8_element [OF uni', of i 0 rest v] assms(2) by (simp add: lfn_entry_last)
  have base: "entry_base (int i) = Inr (32 * i)" by (simp add: entry_base_def vdisk_numbers)
  show ?thesis
    unfolding vdisk_lfn.simps base rbind_Inr init case_prod_conv wr lfn_offsets Let_def rd fin
    using assms(4) by (simp add: lfn_next_pos)
qed

lemma overlay_update:
  "a \<le> i \<Longrightarrow> i < a + length xs \<Longrightarrow> a + length xs \<le> length es \<Longrightarrow> overlay a xs (es[i := e]) = overlay a xs es"
  by (simp add: overlay_def)

lemma overlay_snoc:
  "a + length xs < length es \<Longrightarrow> overlay a xs (es[a + length xs := e]) = overlay a (xs @ [e]) es"
  by (simp add: overlay_def drop_update_swap) (simp add: Cons_nth_drop_Suc [symmetric])

text \<open>The number of entries below the current one that the remaining characters need.\<close>

lemma vdisk_lfn_entries:
  assumes "0 \<notin> set n"
  shows "uniform 32 es \<Longrightarrow> i < length es \<Longrightarrow> lfn_state checksum k cs sequence (es ! i) \<Longrightarrow> length cs < 13 \<Longrightarrow>
     (length cs + length n) div 13 \<le> i \<Longrightarrow>
     (\<And>j. i - (length cs + length n) div 13 \<le> j \<Longrightarrow> j < i \<Longrightarrow> es ! j = blank_entry) \<Longrightarrow>
     us = cs @ name_units n \<Longrightarrow>
     d = (length cs + length n) div 13 \<Longrightarrow>
     vdisk_lfn checksum (n @ 0 # t) (int i) (lfn_pos (length cs)) sequence (concat es @ rest) =
       Inr (concat (overlay (i - d) (rev (lfn_entries checksum k us)) es) @ rest, int (i - d) - 1)
     \<and> length (lfn_entries checksum k us) = d + 1"
  using assms
proof (induction n arbitrary: es i k cs sequence us d)
  case Nil
  then have "lfn_entries checksum k us = [lfn_entry (word_of_nat k OR VDISK_LFN_END) checksum (lfn_pad (cs @ [0]))]" "d = 0"
    by (simp_all add: lfn_entries.simps name_units_def)
  with Nil show ?case by (simp add: vdisk_lfn_step Let_def overlay_single)
next
  case (Cons c n)
  let ?u = "scast c :: u16"
  let ?es = "es[i := lfn_entry (word_of_nat k) checksum (lfn_pad (cs @ [?u]))]"
  have c: "c \<noteq> 0" "0 \<notin> set n" using Cons.prems by auto
  have uni: "uniform 32 ?es" using Cons.prems by (intro uniform_update) auto
  have us: "us = (cs @ [?u]) @ name_units n" using Cons.prems by (simp add: name_units_def)
  show ?case
  proof (cases "length cs = 12")
    case False
    have "lfn_state checksum k (cs @ [?u]) (k + 1) (?es ! i)" using Cons.prems by (simp add: lfn_state_def)
    with Cons.IH [OF uni _ this _ _ _ us, of d] Cons.prems c False
    have "vdisk_lfn checksum (n @ 0 # t) (int i) (lfn_pos (length cs + 1)) (k + 1) (concat ?es @ rest) =
       Inr (concat (overlay (i - d) (rev (lfn_entries checksum k us)) ?es) @ rest, int (i - d) - 1)
     \<and> length (lfn_entries checksum k us) = d + 1" by simp
    moreover have "overlay (i - d) (rev (lfn_entries checksum k us)) ?es = overlay (i - d) (rev (lfn_entries checksum k us)) es"
      if "length (lfn_entries checksum k us) = d + 1"
      using that Cons.prems(2,5,8) by (intro overlay_update) simp_all
    ultimately show ?thesis using Cons.prems c False by (simp add: vdisk_lfn_step Let_def)
  next
    case True
    have d: "d = (0 + length n) div 13 + 1" using Cons.prems True by simp
    have i: "i = Suc (i - 1)" using Cons.prems(5,8) d by simp
    have len: "length (cs @ [?u]) = 13" using True by simp
    have ents: "lfn_entries checksum k us = lfn_entry (word_of_nat k) checksum (cs @ [?u]) # lfn_entries checksum (k + 1) (name_units n)"
      using len us by (subst lfn_entries.simps) (simp add: name_units_def)
    have "?es ! (i - 1) = blank_entry" using Cons.prems(5,6,8) d i by (simp add: nth_list_update)
    then have st: "lfn_state checksum (k + 1) [] (k + 1) (?es ! (i - 1))" by (simp add: lfn_state_def)
    have "vdisk_lfn checksum (n @ 0 # t) (int (i - 1)) (lfn_pos (length ([] :: u16 list))) (k + 1) (concat ?es @ rest) =
       Inr (concat (overlay (i - 1 - (d - 1)) (rev (lfn_entries checksum (k + 1) (name_units n))) ?es) @ rest, int (i - 1 - (d - 1)) - 1)
     \<and> length (lfn_entries checksum (k + 1) (name_units n)) = d - 1 + 1"
      using Cons.prems i d c by (intro Cons.IH [OF uni _ st]) (auto simp: nth_list_update)
    moreover have "overlay (i - d) (rev (lfn_entries checksum (k + 1) (name_units n))) ?es =
        overlay (i - d) (rev (lfn_entries checksum k us)) es"
      if "length (lfn_entries checksum (k + 1) (name_units n)) = d"
    proof -
      define xs where "xs = rev (lfn_entries checksum (k + 1) (name_units n))"
      have "i = i - d + length xs" using that Cons.prems(5,8) by (simp add: xs_def)
      then have "overlay (i - d) xs (es[i := lfn_entry (word_of_nat k) checksum (cs @ [?u])]) =
          overlay (i - d) (xs @ [lfn_entry (word_of_nat k) checksum (cs @ [?u])]) es"
        using overlay_snoc [of "i - d" xs es] Cons.prems(2) by metis
      then show ?thesis unfolding ents lfn_pad_full [OF len] xs_def [symmetric] by (simp add: xs_def)
    qed
    moreover have "vdisk_lfn checksum ((c # n) @ 0 # t) (int i) (lfn_pos (length cs)) sequence (concat es @ rest) =
        vdisk_lfn checksum (n @ 0 # t) (int (i - 1)) (lfn_pos (length ([] :: u16 list))) (k + 1) (concat ?es @ rest)"
    proof -
      have "int (i - 1) = int i - 1" using Cons.prems(5,8) d by linarith
      then show ?thesis using vdisk_lfn_step [OF Cons.prems(1-4), of c "n @ 0 # t" rest] c True by (simp add: Let_def)
    qed
    moreover have "i - 1 - (d - 1) = i - d" "d - 1 + 1 = d" using d by simp_all
    moreover have "length (lfn_entries checksum k us) = length (lfn_entries checksum (k + 1) (name_units n)) + 1"
      unfolding ents by simp
    ultimately show ?thesis by metis
  qed
qed

text \<open>The entries of a directory for one file, and a directory with a list of files (the first one at the end).\<close>

definition lfn_checksum :: u8 where
  "lfn_checksum = vdisk_checksum (replicate 11 0x20)"

definition file_entries :: "bytes \<Rightarrow> nat \<Rightarrow> u8 \<Rightarrow> nat \<Rightarrow> bytes list" where
  "file_entries name len attr cluster =
     rev (lfn_entries lfn_checksum 1 (name_units name)) @ [dos_entry attr cluster len]"

definition dir_sector :: "bytes list list \<Rightarrow> bytes" where
  "dir_sector fs = (let es = concat (rev fs) in concat (replicate (16 - length es) blank_entry @ es))"

lemma le16_mod: "le16 (v mod 65536) = le16 v"
proof -
  have "(v mod 65536) mod 256 = v mod 256" "v mod 65536 div 256 mod 256 = v div 256 mod 256"
    using mod_mult2_eq [of v 256 256] by (simp_all add: mod_mod_cancel)
  then show ?thesis by (simp add: le16_def of_nat_inverse word_of_nat_eq_iff take_bit_nat_def)
qed

lemma blank_entry_dos:
  "overlay 26 (le16 (cluster mod 2 ^ 16)) (overlay 20 (le16 (cluster div 2 ^ 16)) (overlay 28 (le32 len)
     ((overlay 0 (replicate 11 0x20) blank_entry)[11 := attr]))) = dos_entry attr cluster len"
  unfolding dos_entry_def by (simp add: le16_mod) (simp add: blank_entry_def overlay_def le16_def le32_def replicate_numeral)

lemma window_dos_name: "window 0 11 (dos_entry attr cluster len) = replicate 11 0x20"
  by (simp add: window_def dos_entry_def)

lemma dos_entry_written:
  assumes "uniform 32 es" "i < length es" "es ! i = blank_entry"
  shows "vdisk_directory_entry (int i) name len attr cluster (concat es @ rest) =
     vdisk_lfn lfn_checksum name (int i - 1) (lfn_pos 0) 1 (concat (es[i := dos_entry attr cluster len]) @ rest)"
proof -
  have len: "i < length (es[i := e])" for e using assms(2) by simp
  have uni: "length e = 32 \<Longrightarrow> uniform 32 (es[i := e])" for e
    using assms(1) by (rule uniform_update)
  note w8 = wr8_element [OF uni len] and wb = wr_bytes_element [OF uni len]
  have ms: "memset (concat es @ rest) (32 * i + 0) 0x20 11 = Inr (concat (es[i := overlay 0 (replicate 11 0x20) blank_entry]) @ rest)"
    using memset_element [OF assms(1,2), of 0 11 rest] assms(3) by simp
  have rd: "rd_bytes (concat (es[i := dos_entry attr cluster len]) @ rest) (32 * i + 0) 11 = Inr (replicate 11 0x20)"
    using rd_bytes_element [OF uni len, of "dos_entry attr cluster len" 0 11 rest] assms(2) by (simp add: window_dos_name)
  have fin: "overlay 26 (le16 (cluster mod 65536)) (overlay 20 (le16 (cluster div 65536)) (overlay 28 (le32 len)
     ((overlay 0 (replicate 11 0x20) blank_entry)[11 := attr]))) = dos_entry attr cluster len"
    using blank_entry_dos by simp
  have base: "entry_base (int i) = Inr (32 * i)" by (simp add: entry_base_def vdisk_numbers)
  have pos: "lfn_pos 0 = 1" by (simp add: lfn_pos_def)
  show ?thesis
    unfolding vdisk_directory_entry_def Let_def base rbind_Inr layout_simps ms lfn_checksum_def pos
    using assms(2) by (simp add: w8 wb wr16_def wr32_def fin rd [simplified])
qed

lemma length_lfn_entries: "length (lfn_entries checksum k us) = (length us + 12) div 13 + (if us = [] then 1 else 0)"
proof (induction checksum k us rule: lfn_entries.induct)
  case (1 checksum k us)
  show ?case
  proof (cases "length us \<le> 13")
    case True
    then have "us \<noteq> [] \<Longrightarrow> (length us + 12) div 13 = 1" by (cases us) (auto simp: div_nat_eqI)
    with True show ?thesis by (subst lfn_entries.simps) auto
  next
    case False
    then have "(length us + 12) div 13 = (length us - 13 + 12) div 13 + 1" using le_div_geq [of 13 "length us + 12"] by simp
    with False 1 show ?thesis by (subst lfn_entries.simps) auto
  qed
qed

lemma length_file_entries: "length (file_entries n len attr cluster) = length n div 13 + 2"
  by (simp add: file_entries_def length_lfn_entries name_units_def)

lemma uniform_lfn_entries: "uniform 32 (lfn_entries checksum k us)"
proof (induction checksum k us rule: lfn_entries.induct)
  case (1 checksum k us)
  then show ?case by (subst lfn_entries.simps) (auto simp: lfn_pad_def)
qed

lemma uniform_file_entries: "uniform 32 (file_entries n len attr cluster)"
  using uniform_lfn_entries by (auto simp: file_entries_def)

text \<open>A directory entry is written into the last blank entries of a directory.\<close>

lemma vdisk_directory_entry_written:
  assumes "0 \<notin> set n" "uniform 32 es" "length n div 13 + 2 \<le> m"
  shows "vdisk_directory_entry (int m - 1) (n @ 0 # t) len attr cluster (concat (replicate m blank_entry @ es) @ rest) =
     Inr (concat (replicate (m - (length n div 13 + 2)) blank_entry @ file_entries n len attr cluster @ es) @ rest,
       int (m - (length n div 13 + 2)) - 1)"
proof -
  define i d where "i = m - 2" and "d = length n div 13"
  have m: "m = Suc (Suc i)" "d \<le> i" using assms(3) by (simp_all add: i_def d_def)
  let ?es = "replicate m blank_entry @ es"
  let ?es' = "?es[Suc i := dos_entry attr cluster len]"
  have uni: "uniform 32 ?es" using assms(2) by auto
  then have uni': "uniform 32 ?es'" by (rule uniform_update) simp
  have "vdisk_directory_entry (int (Suc i)) (n @ 0 # t) len attr cluster (concat ?es @ rest) =
     vdisk_lfn lfn_checksum (n @ 0 # t) (int (Suc i) - 1) (lfn_pos 0) 1 (concat ?es' @ rest)"
    using m by (intro dos_entry_written [OF uni]) (auto simp: nth_append simp del: replicate_Suc)
  also have "\<dots> = vdisk_lfn lfn_checksum (n @ 0 # t) (int i) (lfn_pos (length ([] :: u16 list))) 1 (concat ?es' @ rest)" by simp
  also have "\<dots> = Inr (concat (overlay (i - d) (rev (lfn_entries lfn_checksum 1 (name_units n))) ?es') @ rest, int (i - d) - 1)"
    using m by (intro conjunct1 [OF vdisk_lfn_entries [OF assms(1) uni', where us = "name_units n"]])
      (auto simp: lfn_state_def d_def nth_append nth_list_update simp del: replicate_Suc)
  also have "overlay (i - d) (rev (lfn_entries lfn_checksum 1 (name_units n))) ?es' =
      replicate (i - d) blank_entry @ file_entries n len attr cluster @ es"
  proof -
    have "?es' = replicate (Suc i) blank_entry @ dos_entry attr cluster len # es"
    proof -
      have "replicate m blank_entry = replicate (Suc i) blank_entry @ [blank_entry]"
        unfolding m(1) by (subst replicate_Suc) (simp add: replicate_append_same)
      then show ?thesis by (simp add: list_update_append del: replicate_Suc)
    qed
    moreover have "length (rev (lfn_entries lfn_checksum 1 (name_units n))) = d + 1"
      by (simp add: length_lfn_entries name_units_def d_def)
    ultimately show ?thesis using m by (simp add: overlay_def file_entries_def del: replicate_Suc)
  qed
  finally have "vdisk_directory_entry (int (Suc i)) (n @ 0 # t) len attr cluster (concat ?es @ rest) =
      Inr (concat (replicate (i - d) blank_entry @ file_entries n len attr cluster @ es) @ rest, int (i - d) - 1)" .
  moreover have "int m - 1 = int (Suc i)" "m - (length n div 13 + 2) = i - d" using m(1) by (simp_all add: d_def)
  ultimately show ?thesis by (simp only:)
qed

lemma mark_deleted_entries:
  "uniform 32 es \<Longrightarrow> i + n \<le> length es \<Longrightarrow> mark_deleted i n (concat es @ rest) =
     Inr (concat (take i es @ map (\<lambda>e. e[0 := VDISK_DIRENT_DELETED]) (window i n es) @ drop (i + n) es) @ rest)"
proof (induction n arbitrary: i es)
  case (Suc n)
  let ?es = "es[i := (es ! i)[0 := VDISK_DIRENT_DELETED]]"
  have uni: "uniform 32 ?es" using Suc.prems by (intro uniform_update) auto
  have "mark_deleted i (Suc n) (concat es @ rest) = mark_deleted (i + 1) n (concat ?es @ rest)"
    using Suc.prems wr8_element [OF Suc.prems(1), of i 0 rest VDISK_DIRENT_DELETED]
    by (simp add: vdisk_numbers mult.commute wr8_def)
  also have "\<dots> = Inr (concat (take (i + 1) ?es @ map (\<lambda>e. e[0 := VDISK_DIRENT_DELETED]) (window (i + 1) n ?es) @ drop (i + 1 + n) ?es) @ rest)"
    using Suc.prems by (intro Suc.IH [OF uni]) simp
  also have "take (i + 1) ?es @ map (\<lambda>e. e[0 := VDISK_DIRENT_DELETED]) (window (i + 1) n ?es) @ drop (i + 1 + n) ?es =
      take i es @ map (\<lambda>e. e[0 := VDISK_DIRENT_DELETED]) (window i (Suc n) es) @ drop (i + Suc n) es"
  proof -
    have "drop i es = es ! i # drop (Suc i) es" using Suc.prems(2) by (simp add: Cons_nth_drop_Suc)
    moreover have "take (i + 1) ?es = take i es @ [(es ! i)[0 := VDISK_DIRENT_DELETED]]"
      using Suc.prems(2) by (simp add: take_Suc_conv_app_nth)
    ultimately show ?thesis using Suc.prems(2) by (simp add: window_def)
  qed
  finally show ?case .
qed (simp add: window_def)

lemma vdisk_empty_dir_written:
  assumes "512 \<le> length data"
  shows "vdisk_empty_dir data = Inr (concat (replicate 16 blank_entry) @ drop 512 data, 15)"
proof -
  let ?es = "replicate 16 (replicate 32 (0 :: u8))"
  have z: "replicate 512 (0 :: u8) = concat ?es" by (simp add: numeral_eq_Suc)
  have "memset data 0 0 512 = Inr (concat ?es @ drop 512 data)"
    using assms by (simp add: memset_overlay overlay_0 flip: z)
  moreover have "mark_deleted 0 16 (concat ?es @ drop 512 data) = Inr (concat (replicate 16 blank_entry) @ drop 512 data)"
    by (subst mark_deleted_entries) (simp_all add: window_def blank_entry_def replicate_numeral)
  ultimately show ?thesis by (simp add: vdisk_empty_dir_def vdisk_numbers)
qed

text \<open>Subdirectories.\<close>

definition subdir_entries :: "string \<times> nat \<Rightarrow> bytes list" where
  "subdir_entries = (\<lambda>(name, cluster). file_entries (ascii name) 0 VDISK_DIRECTORY cluster)"

lemma vdisk_subdirs_written:
  "\<forall>(name, cluster) \<in> set ds. 0 \<notin> set (ascii name) \<Longrightarrow> length (concat (map subdir_entries ds)) \<le> m \<Longrightarrow> uniform 32 es \<Longrightarrow>
   vdisk_subdirs ds (int m - 1) (concat (replicate m blank_entry @ es) @ rest) =
     Inr (concat (replicate (m - length (concat (map subdir_entries ds))) blank_entry @ concat (rev (map subdir_entries ds)) @ es) @ rest)"
proof (induction ds arbitrary: m es)
  case (Cons nc ds)
  obtain name cluster where nc: "nc = (name, cluster)" by (cases nc)
  let ?e = "file_entries (ascii name) 0 VDISK_DIRECTORY cluster"
  let ?k = "length (ascii name) div 13 + 2"
  have e: "length ?e = ?k" "uniform 32 (?e @ es)"
    using uniform_file_entries [of "ascii name"] Cons.prems(3) by (auto simp: length_file_entries)
  with Cons.prems(2) have k: "?k \<le> m" "length (concat (map subdir_entries ds)) \<le> m - ?k"
    by (simp_all add: nc subdir_entries_def)
  have "vdisk_subdirs (nc # ds) (int m - 1) (concat (replicate m blank_entry @ es) @ rest) =
      vdisk_subdirs ds (int (m - ?k) - 1) (concat (replicate (m - ?k) blank_entry @ ?e @ es) @ rest)"
    using vdisk_directory_entry_written [OF _ Cons.prems(3) k(1), of "[]" 0 VDISK_DIRECTORY cluster rest] Cons.prems(1)
    by (simp add: nc)
  also have "\<dots> = Inr (concat (replicate (m - ?k - length (concat (map subdir_entries ds))) blank_entry @
      concat (rev (map subdir_entries ds)) @ ?e @ es) @ rest)"
    using Cons.prems(1) k(2) e(2) by (intro Cons.IH) auto
  finally show ?case using e(1) by (simp add: nc subdir_entries_def)
qed simp

lemma length_concat_rev: "length (concat (rev xss)) = length (concat xss)"
  by (induction xss) simp_all

lemma vdisk_subdir_sector_written:
  assumes "\<forall>(name, cluster) \<in> set ds. 0 \<notin> set (ascii name)" "length (concat (map subdir_entries ds)) \<le> 16" "512 \<le> length data"
  shows "vdisk_subdir_sector ds data = Inr (dir_sector (map subdir_entries ds) @ drop 512 data)"
proof -
  have len: "length (concat (map subdir_entries ds)) = length (concat (rev (map subdir_entries ds)))"
    by (rule length_concat_rev [symmetric])
  have "vdisk_subdirs ds (int 16 - 1) (concat (replicate 16 blank_entry @ []) @ drop 512 data) =
      Inr (concat (replicate (16 - length (concat (map subdir_entries ds))) blank_entry @ concat (rev (map subdir_entries ds)) @ []) @ drop 512 data)"
    using assms by (intro vdisk_subdirs_written) auto
  moreover have "int 16 - 1 = 15" by simp
  ultimately show ?thesis
    unfolding vdisk_subdir_sector_def vdisk_empty_dir_written [OF assms(3)] rbind_Inr case_prod_conv dir_sector_def Let_def len
    by (simp only: append_Nil2)
qed

end
