(* ===== verification/Vdisk_Image.thy ===== *)
theory Vdisk_Image
  imports Vdisk_Tables
begin

text \<open>
  What the virtual disk contains, as a function from sector numbers to sectors, and that reading any range of
  sectors yields exactly these sectors, however the range is cut into fragments.

  The methods of the files are an interface: a read method yields a window of the content of the file, a
  patch method changes a window of the padded content into the window of the image. Under these laws the
  sectors of a file are the windows of its image.
\<close>

section \<open>Boot records\<close>

text \<open>Assigning the members of a boot record, one after the other.\<close>

lemma assign_render:
  assumes "distinct (map fst s)" "fits s m" "(f, n) \<in> set s"
  shows "n = 1 \<Longrightarrow> assign (set8 s f b # fs) (render s m @ rest) = assign fs (render s (m(f \<mapsto> [b])) @ rest) \<and> fits s (m(f \<mapsto> [b]))"
    "n = 2 \<Longrightarrow> assign (set16 s f v # fs) (render s m @ rest) = assign fs (render s (m(f \<mapsto> le16 v)) @ rest) \<and> fits s (m(f \<mapsto> le16 v))"
    "n = 4 \<Longrightarrow> assign (set32 s f v # fs) (render s m @ rest) = assign fs (render s (m(f \<mapsto> le32 v)) @ rest) \<and> fits s (m(f \<mapsto> le32 v))"
    "n = length bs \<Longrightarrow> assign (set_bytes s f bs # fs) (render s m @ rest) = assign fs (render s (m(f \<mapsto> bs)) @ rest) \<and> fits s (m(f \<mapsto> bs))"
proof -
  have len: "length (member_of m (f, n)) = n" using assms(2,3) by (auto simp: fits_def list_all_iff)
  have full: "overlay 0 xs (member_of m (f, n)) = xs" if "length xs = n" for xs
    using that len by (simp add: overlay_def)
  note wr = wr_bytes_render [OF assms, of 0 _ rest, simplified]
  show "n = 1 \<Longrightarrow> assign (set8 s f b # fs) (render s m @ rest) = assign fs (render s (m(f \<mapsto> [b])) @ rest) \<and> fits s (m(f \<mapsto> [b]))"
    using wr8_render [OF assms, of 0 rest b] len by (auto simp: set8_def length_Suc_conv simp del: wr8_eq_Inr)
  show "n = 2 \<Longrightarrow> assign (set16 s f v # fs) (render s m @ rest) = assign fs (render s (m(f \<mapsto> le16 v)) @ rest) \<and> fits s (m(f \<mapsto> le16 v))"
    using wr [of "le16 v"] full [of "le16 v"] by (simp add: set16_def wr16_def)
  show "n = 4 \<Longrightarrow> assign (set32 s f v # fs) (render s m @ rest) = assign fs (render s (m(f \<mapsto> le32 v)) @ rest) \<and> fits s (m(f \<mapsto> le32 v))"
    using wr [of "le32 v"] full [of "le32 v"] by (simp add: set32_def wr32_def)
  show "n = length bs \<Longrightarrow> assign (set_bytes s f bs # fs) (render s m @ rest) = assign fs (render s (m(f \<mapsto> bs)) @ rest) \<and> fits s (m(f \<mapsto> bs))"
    using wr [of bs] full [of bs] by (simp add: set_bytes_def)
qed

lemma memset_record:
  assumes "sizeof s \<le> length data"
  shows "memset data 0 0 (sizeof s) = Inr (render s Map.empty @ drop (sizeof s) data)"
  using assms by (simp add: memset_overlay overlay_0 render_empty)

definition mbr_sector :: bytes where
  "mbr_sector = replicate 440 0 @ le32 0xc0ffeeee @ [0, 0] @
     [0x80, 0, 0, 0, 0x0c, 0, 0, 0] @ le32 128 @ le32 0xfff7ffc0 @ replicate 48 0 @ [0x55, 0xaa]"

definition vbr_sector :: bytes where
  "vbr_sector = [0xe9, 0, 0] @ ascii ''wimboot'' @ [0] @ le16 512 @ [64] @ le16 64 @ [1] @ le16 0 @ le16 0 @ [0xf8] @ le16 0 @
     le16 63 @ le16 255 @ le32 128 @ le32 0xfff7ffc0 @ le32 0x7ff80 @ le16 0 @ le16 0 @ le32 2 @ le16 1 @ le16 6 @
     replicate 12 0 @ [0, 0, 0x29] @ le32 0xf00df00d @ ascii ''wimboot    '' @ ascii ''FAT32   '' @ replicate 420 0 @ [0x55, 0xaa]"

definition fsinfo_sector :: bytes where
  "fsinfo_sector = le32 0x41615252 @ replicate 480 0 @ le32 0x61417272 @ le32 0 @ le32 0xffffffff @ replicate 12 0 @ le32 0xaa550000"

lemma fsinfo_values:
  "VDISK_FSINFO_MAGIC1 = 0x41615252" "VDISK_FSINFO_MAGIC2 = 0x61417272" "VDISK_FSINFO_NEXT_FREE = 0xffffffff" "VDISK_FSINFO_MAGIC3 = 0xaa550000"
  by (simp_all add: VDISK_FSINFO_MAGIC1_def VDISK_FSINFO_MAGIC2_def VDISK_FSINFO_NEXT_FREE_def VDISK_FSINFO_MAGIC3_def)

lemma mbr_values:
  "VDISK_MBR_BOOTABLE = 0x80" "VDISK_MBR_TYPE_FAT32 = 0x0c" "VDISK_MBR_SIGNATURE = 0xc0ffeeee" "VDISK_MBR_MAGIC = 0xaa55"
  by (simp_all add: VDISK_MBR_BOOTABLE_def VDISK_MBR_TYPE_FAT32_def VDISK_MBR_SIGNATURE_def VDISK_MBR_MAGIC_def)

lemma le32_zero: "le32 0 = replicate 4 0"
  by code_simp

lemma sizeof_records [layout_simps]: "sizeof struct_vdisk_mbr = 512" "sizeof struct_vdisk_vbr = 512" "sizeof struct_vdisk_fsinfo = 512"
  by code_simp+

lemma vdisk_fsinfo_written:
  assumes "512 \<le> length data"
  shows "vdisk_fsinfo lba count data = Inr (fsinfo_sector @ drop 512 data)"
proof -
  let ?s = "struct_vdisk_fsinfo"
  have s: "distinct (map fst ?s)" by (simp add: struct_vdisk_fsinfo_def)
  have in_s: "(''magic1'', 4) \<in> set ?s" "(''magic2'', 4) \<in> set ?s" "(''next_free'', 4) \<in> set ?s" "(''magic3'', 4) \<in> set ?s"
    by (simp_all add: struct_vdisk_fsinfo_def)
  have "vdisk_fsinfo lba count data = Inr (render ?s [''magic1'' \<mapsto> le32 0x41615252, ''magic2'' \<mapsto> le32 0x61417272,
      ''next_free'' \<mapsto> le32 0xffffffff, ''magic3'' \<mapsto> le32 0xaa550000] @ drop 512 data)"
    unfolding vdisk_fsinfo_def using memset_record [of ?s data] assms
    by (simp add: sizeof_records assign_render(3) [OF s _ _ refl] in_s fits_empty fsinfo_values del: assign.simps(2))
  moreover have "render ?s [''magic1'' \<mapsto> le32 0x41615252, ''magic2'' \<mapsto> le32 0x61417272,
      ''next_free'' \<mapsto> le32 0xffffffff, ''magic3'' \<mapsto> le32 0xaa550000] = fsinfo_sector"
    by (simp add: struct_vdisk_fsinfo_def fsinfo_sector_def le32_zero)
  ultimately show ?thesis by simp
qed

lemma vdisk_mbr_written:
  assumes "512 \<le> length data"
  shows "vdisk_mbr lba count data = Inr (mbr_sector @ drop 512 data)"
proof -
  let ?s = "struct_vdisk_mbr"
  have s: "distinct (map fst ?s)" by (simp add: struct_vdisk_mbr_def)
  have in_s: "(''partitions'', 64) \<in> set ?s" "(''signature'', 4) \<in> set ?s" "(''magic'', 2) \<in> set ?s"
    by (simp_all add: struct_vdisk_mbr_def struct_vdisk_partition_def)
  have offs: "offset_of struct_vdisk_partition ''bootable'' = 0" "offset_of struct_vdisk_partition ''type'' = 4"
    "offset_of struct_vdisk_partition ''start'' = 8" "offset_of struct_vdisk_partition ''length'' = 12"
    by (simp_all add: struct_vdisk_partition_def)
  have fits: "length v = 64 \<Longrightarrow> fits ?s [''partitions'' \<mapsto> v]" for v
    by (simp add: struct_vdisk_mbr_def struct_vdisk_partition_def)
  note w8 = wr8_render [OF s _ in_s(1)] and wb = wr_bytes_render [OF s _ in_s(1)]
  have "vdisk_mbr lba count data = Inr (render ?s [''partitions'' \<mapsto> overlay 12 (le32 0xfff7ffc0) (overlay 8 (le32 128)
      ((replicate 64 0)[0 := 0x80, 4 := 0x0c])), ''signature'' \<mapsto> le32 0xc0ffeeee, ''magic'' \<mapsto> le16 0xaa55] @ drop 512 data)"
    unfolding vdisk_mbr_def Let_def using memset_record [of ?s data] assms
    by (simp add: sizeof_records offs w8 w8 [where k = 0, unfolded add_0_right] wb wr32_def fits_empty fits mbr_values vdisk_numbers
        assign.simps(2) [of "\<lambda>data. wr8 data _ _"] assign.simps(2) [of "\<lambda>data. wr_bytes data _ _"]
        assign_render(2) [OF s _ _ refl] assign_render(3) [OF s _ _ refl] in_s del: assign.simps(2))
  moreover have "overlay 12 (le32 0xfff7ffc0) (overlay 8 (le32 128) ((replicate 64 0)[0 := 0x80, 4 := 0x0c])) =
      [0x80, 0, 0, 0, 0x0c, 0, 0, 0] @ le32 128 @ le32 0xfff7ffc0 @ replicate 48 0"
    by code_simp
  moreover have "le16 0xaa55 = [0x55, 0xaa]" by code_simp
  ultimately show ?thesis by (simp add: struct_vdisk_mbr_def mbr_sector_def replicate_numeral [of "num.Bit0 num.One"])
qed

lemma vbr_values:
  "VDISK_VBR_JUMP_WTF_MS = 0xe9" "VDISK_VBR_MEDIA = 0xf8" "VDISK_VBR_SIGNATURE = 0x29" "VDISK_VBR_SERIAL = 0xf00df00d"
  "VDISK_VBR_MAGIC = 0xaa55" "VDISK_SECTORS_PER_TRACK = 63" "VDISK_HEADS = 255" "VDISK_ROOT_CLUSTER = 2"
  "VDISK_FSINFO_SECTOR = 1" "VDISK_BACKUP_VBR_SECTOR = 6"
  by code_simp+

lemma vbr_strings:
  "length VDISK_VBR_OEMID = 8" "length VDISK_VBR_LABEL = 11" "length VDISK_VBR_SYSTEM = 8"
  by code_simp+

text \<open>The members of the volume boot record.\<close>

definition vbr_members :: "string \<rightharpoonup> bytes" where
  "vbr_members = [''jump'' \<mapsto> [0xe9, 0, 0], ''oemid'' \<mapsto> VDISK_VBR_OEMID, ''bytes_per_sector'' \<mapsto> le16 512,
     ''sectors_per_cluster'' \<mapsto> [64], ''reserved_sectors'' \<mapsto> le16 64, ''fats'' \<mapsto> [1], ''media'' \<mapsto> [0xf8],
     ''sectors_per_track'' \<mapsto> le16 63, ''heads'' \<mapsto> le16 255, ''hidden_sectors'' \<mapsto> le32 128,
     ''sectors'' \<mapsto> le32 0xfff7ffc0, ''sectors_per_fat'' \<mapsto> le32 0x7ff80, ''root'' \<mapsto> le32 2, ''fsinfo'' \<mapsto> le16 1,
     ''backup'' \<mapsto> le16 6, ''signature'' \<mapsto> [0x29], ''serial'' \<mapsto> le32 0xf00df00d, ''label'' \<mapsto> VDISK_VBR_LABEL,
     ''system'' \<mapsto> VDISK_VBR_SYSTEM, ''magic'' \<mapsto> le16 0xaa55]"

lemma vdisk_vbr_written:
  assumes "512 \<le> length data"
  shows "vdisk_vbr lba count data = Inr (vbr_sector @ drop 512 data)"
proof -
  let ?s = "struct_vdisk_vbr"
  have s: "distinct (map fst ?s)" by (simp add: struct_vdisk_vbr_def)
  have in_s: "(''jump'', 3) \<in> set ?s" "(''oemid'', 8) \<in> set ?s" "(''bytes_per_sector'', 2) \<in> set ?s" "(''sectors_per_cluster'', 1) \<in> set ?s"
    "(''reserved_sectors'', 2) \<in> set ?s" "(''fats'', 1) \<in> set ?s" "(''media'', 1) \<in> set ?s" "(''sectors_per_track'', 2) \<in> set ?s"
    "(''heads'', 2) \<in> set ?s" "(''hidden_sectors'', 4) \<in> set ?s" "(''sectors'', 4) \<in> set ?s" "(''sectors_per_fat'', 4) \<in> set ?s"
    "(''root'', 4) \<in> set ?s" "(''fsinfo'', 2) \<in> set ?s" "(''backup'', 2) \<in> set ?s" "(''signature'', 1) \<in> set ?s" "(''serial'', 4) \<in> set ?s"
    "(''label'', 11) \<in> set ?s" "(''system'', 8) \<in> set ?s" "(''magic'', 2) \<in> set ?s"
    by (simp_all add: struct_vdisk_vbr_def)
  have jump: "set8 ?s ''jump'' 0xe9 (render ?s Map.empty @ rest) = Inr (render ?s [''jump'' \<mapsto> [0xe9, 0, 0]] @ rest)
      \<and> fits ?s [''jump'' \<mapsto> [0xe9, 0, 0]]" for rest
    using wr8_render [OF s fits_empty in_s(1), of 0 rest "0xe9"] by (simp add: set8_def replicate_numeral)
  have "assign (set8 ?s ''jump'' 0xe9 # fs) (render ?s Map.empty @ rest) = assign fs (render ?s [''jump'' \<mapsto> [0xe9, 0, 0]] @ rest)" for fs rest
    using jump by simp
  then have "vdisk_vbr lba count data = Inr (render ?s vbr_members @ drop 512 data)"
    unfolding vdisk_vbr_def vbr_members_def using memset_record [of ?s data] assms jump [THEN conjunct2]
    by (simp add: sizeof_records vbr_values vdisk_numbers in_s vbr_strings del: assign.simps(2) One_nat_def
        add: assign_render(1) [OF s _ _ refl] assign_render(2) [OF s _ _ refl] assign_render(3) [OF s _ _ refl] assign_render(4) [OF s _ in_s(2)] assign_render(4) [OF s _ in_s(18)] assign_render(4) [OF s _ in_s(19)])
  moreover have "replicate 2 (0 :: u8) = [0, 0]" by code_simp
  then have "render ?s vbr_members = vbr_sector"
    by (simp add: struct_vdisk_vbr_def vbr_members_def vbr_sector_def VDISK_VBR_OEMID_def VDISK_VBR_LABEL_def VDISK_VBR_SYSTEM_def)
       (simp add: le16_def)
  ultimately show ?thesis by simp
qed

section \<open>Sectors\<close>

text \<open>The bytes from an offset on, where the list is followed by zeros.\<close>

definition byte_at :: "bytes \<Rightarrow> nat \<Rightarrow> u8" where
  "byte_at xs i = (if i < length xs then xs ! i else 0)"

definition span :: "bytes \<Rightarrow> nat \<Rightarrow> nat \<Rightarrow> bytes" where
  "span xs off n = map (byte_at xs) [off..<off + n]"

definition subdirs :: "nat \<Rightarrow> (string \<times> nat) list" where
  "subdirs cluster =
     (if cluster = 2 then [(''BOOT'', 3), (''SOURCES'', 4), (''EFI'', 7)]
      else if cluster = 3 then [(''FONTS'', 5), (''RESOURCES'', 6)]
      else if cluster = 7 then [(''BOOT'', 3), (''MICROSOFT'', 8)]
      else if cluster = 8 then [(''BOOT'', 3)]
      else [])"

text \<open>The directory sector of one file: every directory lists all files.\<close>

definition dirent_sector :: "('o, 'r, 'p) vdisk_file list \<Rightarrow> nat \<Rightarrow> bytes" where
  "dirent_sector files k =
     dir_sector (if vf_read (files ! k) = None then []
       else [file_entries (cstring (vf_filename (files ! k))) (vf_xlen (files ! k)) VDISK_READ_ONLY (VDISK_FILE_CLUSTER k)])"

definition dir_area_sector :: "('o, 'r, 'p) vdisk_file list \<Rightarrow> nat \<Rightarrow> bytes" where
  "dir_area_sector files s =
     (if s mod 64 = 0 then dir_sector (map subdir_entries (subdirs (2 + s div 64))) else dirent_sector files (s mod 64 - 1))"

text \<open>The sector with a given number, where \<open>img k\<close> is the content of the file \<open>k\<close>.\<close>

definition disk_sector :: "(nat \<Rightarrow> bytes) \<Rightarrow> nat \<Rightarrow> ('o, 'r, 'p) vdisk_file list \<Rightarrow> nat \<Rightarrow> bytes" where
  "disk_sector img w files lba =
     (if 0x800000 \<le> lba then
        (let k = lba div 0x800000 - 1 in
         if k < 63 then span (img k) (lba mod 0x800000 * 512) 512 else replicate 512 0)
      else if lba = 0 then mbr_sector
      else if lba = 128 \<or> lba = 134 then vbr_sector
      else if lba = 129 then fsinfo_sector
      else if 192 \<le> lba \<and> lba < 0x80040 then fat_sector w files (lba - 192)
      else if 0x80040 \<le> lba \<and> lba < 0x80200 then dir_area_sector files (lba - 0x80040)
      else replicate 512 0)"

lemma span_add: "span xs off (m + n) = span xs off m @ span xs (off + m) n"
proof -
  have "[off..<off + (m + n)] = [off..<off + m] @ [off + m..<off + m + n]"
    using upt_add_eq_append [of off "off + m" n] by (simp add: add.assoc)
  then show ?thesis by (simp add: span_def)
qed

lemma length_span [simp]: "length (span xs off n) = n"
  by (simp add: span_def)

lemma span_sectors: "span xs (512 * s) (512 * n) = concat (map (\<lambda>s. span xs (512 * s) 512) [s..<s + n])"
proof (induction n)
  case (Suc n)
  have "span xs (512 * s) (512 * Suc n) = span xs (512 * s) (512 * n) @ span xs (512 * (s + n)) 512"
    using span_add [of xs "512 * s" "512 * n" 512] by (simp add: algebra_simps)
  with Suc.IH show ?case by simp
qed (simp add: span_def)

lemma span_window: "off + n \<le> length xs \<Longrightarrow> span xs off n = window off n xs"
  by (intro nth_equalityI) (auto simp: span_def byte_at_def nth_window)

lemma span_beyond: "length xs \<le> off \<Longrightarrow> span xs off n = replicate n 0"
  by (intro nth_equalityI) (auto simp: span_def byte_at_def)

lemma length_sectors [simp]: "length mbr_sector = 512" "length vbr_sector = 512" "length fsinfo_sector = 512"
  "length (fat_sector w files s) = 512"
  by (simp_all add: mbr_sector_def vbr_sector_def fsinfo_sector_def fat_sector_def ascii_def)

lemma uniform_concat: "list_all (uniform m) ess \<Longrightarrow> uniform m (concat ess)"
  by (induction ess) auto

lemma length_dir_sector:
  assumes "length (concat fs) \<le> 16" "list_all (uniform 32) fs"
  shows "length (dir_sector fs) = 512"
proof -
  have "uniform 32 (concat (rev fs))" using assms(2) by (auto simp: list_all_iff)
  then have "uniform 32 (replicate (16 - length (concat (rev fs))) blank_entry @ concat (rev fs))" by auto
  from length_concat_uniform [OF this] show ?thesis
    using assms(1) by (simp only: dir_sector_def Let_def length_append length_replicate length_concat_rev) simp
qed

section \<open>Regions\<close>

text \<open>The files of a disk: their names are strings of at most 31 characters.\<close>

definition disk_files_ok :: "('o, 'r, 'p) vdisk_file list \<Rightarrow> bool" where
  "disk_files_ok files \<longleftrightarrow> length files = 63 \<and>
     (\<forall>vf \<in> set files. vf_read vf \<noteq> None \<longrightarrow> terminated (vf_filename vf) \<and> length (cstring (vf_filename vf)) \<le> 31)"

text \<open>A function that builds the sectors \<open>f lba\<close> of a region.\<close>

definition builds :: "(nat \<Rightarrow> bytes) \<Rightarrow> vdisk_region \<Rightarrow> bool" where
  "builds f r \<longleftrightarrow> (\<forall>lba count data. reg_lba r \<le> lba \<longrightarrow> lba + count \<le> reg_lba r + reg_count r \<longrightarrow> 0 < count \<longrightarrow>
     512 * count \<le> length data \<longrightarrow>
     reg_build r lba count data = Inr (concat (map f [lba..<lba + count]) @ drop (512 * count) data))"

lemma builds_one:
  assumes "reg_count r = 1" "\<And>count data. 512 \<le> length data \<Longrightarrow> reg_build r (reg_lba r) count data = Inr (f (reg_lba r) @ drop 512 data)"
  shows "builds f r"
  unfolding builds_def
proof (intro allI impI)
  fix lba count and data :: bytes
  assume "reg_lba r \<le> lba" "lba + count \<le> reg_lba r + reg_count r" "0 < count" "512 * count \<le> length data"
  moreover from this assms(1) have "lba = reg_lba r" "count = 1" by simp_all
  ultimately show "reg_build r lba count data = Inr (concat (map f [lba..<lba + count]) @ drop (512 * count) data)"
    using assms(2) by simp
qed

lemma length_subdirs: "length (concat (map subdir_entries (subdirs c))) \<le> 16" "\<forall>(name, cluster) \<in> set (subdirs c). 0 \<notin> set (ascii name)"
  by (auto simp: subdirs_def subdir_entries_def length_file_entries ascii_def)

lemma terminated_cstring: "terminated str \<Longrightarrow> \<exists>t. str = cstring str @ 0 # t"
  by (induction str) auto

lemma cstring_no_0: "0 \<notin> set (cstring str)"
  by (induction str) auto

lemma vdisk_dir_file_written:
  assumes "disk_files_ok files" "VDISK_FILE_DIRENT_IDX lba < 63" "512 \<le> length data"
  shows "vdisk_dir_file files lba data = Inr (dirent_sector files (VDISK_FILE_DIRENT_IDX lba) @ drop 512 data)"
proof -
  define vf where "vf = files ! VDISK_FILE_DIRENT_IDX lba"
  have len: "length files = 63" using assms(1) by (simp add: disk_files_ok_def)
  show ?thesis
  proof (cases "vf_read vf = None")
    case True
    then show ?thesis using assms len vdisk_empty_dir_written [OF assms(3)]
      by (simp add: vdisk_dir_file_def Let_def vf_def dirent_sector_def dir_sector_def)
  next
    case False
    let ?n = "cstring (vf_filename vf)"
    have "vf \<in> set files" using assms(2) len by (simp add: vf_def)
    with assms(1) False have n: "terminated (vf_filename vf)" "length ?n \<le> 31" by (auto simp: disk_files_ok_def)
    obtain t where t: "vf_filename vf = ?n @ 0 # t" using terminated_cstring [OF n(1)] by blast
    have k: "length ?n div 13 + 2 \<le> 16" using n(2) by simp
    have "vdisk_directory_entry (int 16 - 1) (?n @ 0 # t) (vf_xlen vf) VDISK_READ_ONLY (VDISK_FILE_CLUSTER (VDISK_FILE_DIRENT_IDX lba))
        (concat (replicate 16 blank_entry @ []) @ drop 512 data) =
      Inr (concat (replicate (16 - (length ?n div 13 + 2)) blank_entry @
        file_entries ?n (vf_xlen vf) VDISK_READ_ONLY (VDISK_FILE_CLUSTER (VDISK_FILE_DIRENT_IDX lba)) @ []) @ drop 512 data,
        int (16 - (length ?n div 13 + 2)) - 1)"
      by (rule vdisk_directory_entry_written [OF cstring_no_0 _ k]) simp
    then have "vdisk_directory_entry 15 (vf_filename vf) (vf_xlen vf) VDISK_READ_ONLY (VDISK_FILE_CLUSTER (VDISK_FILE_DIRENT_IDX lba))
        (concat (replicate 16 blank_entry) @ drop 512 data) =
      Inr (dirent_sector files (VDISK_FILE_DIRENT_IDX lba) @ drop 512 data, int (16 - (length ?n div 13 + 2)) - 1)"
      using False by (auto simp add: t [symmetric] dirent_sector_def dir_sector_def vf_def [symmetric] length_file_entries simp del: concat_append)
    then show ?thesis
      using assms(2) len False vdisk_empty_dir_written [OF assms(3)]
      by (auto simp add: vdisk_dir_file_def Let_def vf_def [symmetric] vdisk_numbers)
  qed
qed

lemma dirent_idx: "0x80040 < lba \<Longrightarrow> lba < 0x80200 \<Longrightarrow> VDISK_FILE_DIRENT_IDX lba = (lba - 0x80040 - 1) mod 64"
proof -
  assume a: "0x80040 < lba" "lba < 0x80200"
  then have "lba = 0x80041 + (lba - 0x80041)" by simp
  then obtain s where s: "lba = 0x80041 + s" by blast
  then have "lba + (2 ^ 64 - 1) = 0x80040 + s + 2 ^ 64" by simp
  then have "(lba + (2 ^ 64 - 1)) mod 2 ^ 64 = (0x80040 + s) mod 2 ^ 64" by (simp only: mod_add_self2)
  also have "\<dots> = 0x80040 + s" using a s by simp
  finally have "(lba + (2 ^ 64 - 1)) mod 2 ^ 64 = 0x80040 + s" .
  moreover have "(0x80040 + s) mod 64 = s mod 64"
    using mod_add_left_eq [of "0x80040" 64 s] by simp
  ultimately show ?thesis using s by (simp add: VDISK_FILE_DIRENT_IDX_def vdisk_numbers)
qed

lemma length_dirent_sector:
  assumes "disk_files_ok files" "k < 63"
  shows "length (dirent_sector files k) = 512"
proof -
  have "files ! k \<in> set files" using assms by (simp add: disk_files_ok_def)
  with assms have "vf_read (files ! k) \<noteq> None \<Longrightarrow> length (cstring (vf_filename (files ! k))) \<le> 31"
    by (auto simp: disk_files_ok_def)
  then show ?thesis unfolding dirent_sector_def
    by (intro length_dir_sector) (auto simp: length_file_entries uniform_file_entries)
qed

lemma length_subdir_sector: "length (dir_sector (map subdir_entries (subdirs c))) = 512"
  by (rule length_dir_sector [OF length_subdirs(1)]) (auto simp: list_all_iff subdir_entries_def uniform_file_entries)

lemma length_dir_area_sector: "disk_files_ok files \<Longrightarrow> length (dir_area_sector files s) = 512"
proof -
  assume ok: "disk_files_ok files"
  have "s mod 64 < 64" by simp
  then have "s mod 64 \<noteq> 0 \<Longrightarrow> s mod 64 - 1 < 63" by linarith
  then show ?thesis by (simp add: dir_area_sector_def length_subdir_sector length_dirent_sector [OF ok])
qed

lemma dir_area_files:
  assumes "disk_files_ok files" "0x80040 < lba" "lba < 0x80200" "(lba - 0x80040) mod 64 \<noteq> 0" "512 \<le> length data"
  shows "vdisk_dir_file files lba data = Inr (dir_area_sector files (lba - 0x80040) @ drop 512 data)"
proof -
  define s where "s = lba - 0x80040"
  have idx: "VDISK_FILE_DIRENT_IDX lba = (s - 1) mod 64" using dirent_idx [OF assms(2,3)] by (simp add: s_def)
  have "s \<noteq> 0" using assms(2) by (simp add: s_def)
  then obtain t where t: "s = Suc t" by (cases s) simp_all
  then have "(s - 1) mod 64 = s mod 64 - 1" using assms(4) by (auto simp: s_def [symmetric] mod_Suc split: if_splits)
  moreover have "s mod 64 < 64" by simp
  then have "s mod 64 - 1 < 63" using assms(4) unfolding s_def [symmetric] by linarith
  ultimately show ?thesis
    using vdisk_dir_file_written [OF assms(1) _ assms(5), of lba] assms(4) idx by (simp add: dir_area_sector_def s_def [symmetric])
qed

lemma vdisk_dir_files_written:
  assumes "disk_files_ok files"
  shows "0x80040 < lba \<Longrightarrow> lba + count \<le> 0x80200 \<Longrightarrow> \<forall>l \<in> {lba..<lba + count}. (l - 0x80040) mod 64 \<noteq> 0 \<Longrightarrow> 512 * count \<le> length data \<Longrightarrow>
    vdisk_dir_files files lba count data =
      Inr (concat (map (\<lambda>l. dir_area_sector files (l - 0x80040)) [lba..<lba + count]) @ drop (512 * count) data)"
proof (induction count arbitrary: lba data)
  case (Suc count)
  let ?s = "dir_area_sector files (lba - 0x80040)" and ?rest = "drop 512 data"
  have one: "vdisk_dir_file files lba data = Inr (?s @ ?rest)"
    using Suc.prems by (intro dir_area_files [OF assms]) auto
  have len: "length ?s = 512" by (rule length_dir_area_sector [OF assms])
  have "vdisk_dir_files files (lba + 1) count ?rest =
      Inr (concat (map (\<lambda>l. dir_area_sector files (l - 0x80040)) [lba + 1..<lba + 1 + count]) @ drop (512 * count) ?rest)"
    using Suc.prems by (intro Suc.IH) auto
  moreover have "[lba..<lba + Suc count] = lba # [lba + 1..<lba + 1 + count]" by (subst upt_conv_Cons) simp_all
  ultimately show ?case using one len by (simp add: vdisk_numbers add.commute del: upt_Suc)
qed simp

text \<open>Every region is built as the disk says.\<close>

lemma builds_fat: "builds (disk_sector img w files) (VDISK_REGION name (vdisk_fat w files) VDISK_FAT_LBA VDISK_FAT_COUNT)"
  unfolding builds_def
proof (intro allI impI)
  let ?r = "VDISK_REGION name (vdisk_fat w files) VDISK_FAT_LBA VDISK_FAT_COUNT"
  fix lba count and data :: bytes
  assume "reg_lba ?r \<le> lba" "lba + count \<le> reg_lba ?r + reg_count ?r" and a: "0 < count" "512 * count \<le> length data"
  then have l: "192 \<le> lba" "lba + count \<le> 0x80040" by (simp_all add: VDISK_REGION_def vdisk_numbers)
  then obtain s where s: "lba = 192 + s" using le_Suc_ex by blast
  have "map (disk_sector img w files) [lba..<lba + count] = map (fat_sector w files) [s..<s + count]"
    using l s by (intro nth_equalityI) (auto simp: disk_sector_def)
  moreover have "vdisk_fat w files lba count data = Inr (concat (map (fat_sector w files) [s..<s + count]) @ drop (512 * count) data)"
    using vdisk_fat_build [of s count data w files] l a s by (simp add: vdisk_numbers)
  ultimately show "reg_build ?r lba count data = Inr (concat (map (disk_sector img w files) [lba..<lba + count]) @ drop (512 * count) data)"
    by (simp add: VDISK_REGION_def)
qed

lemma builds_dir_files:
  assumes "disk_files_ok files" "0x80040 \<le> base" "base < 0x80200" "base mod 64 = 0"
  shows "builds (disk_sector img w files) \<lparr>reg_name = name, reg_lba = base + 1, reg_count = 63, reg_build = vdisk_dir_files files\<rparr>"
  unfolding builds_def
proof (intro allI impI, simp only: vdisk_region.simps)
  fix lba count and data :: bytes
  assume l: "base + 1 \<le> lba" "lba + count \<le> base + 1 + 63" and a: "0 < count" "512 * count \<le> length data"
  obtain m where m: "base = 64 * m" using assms(4) by (auto elim: mod_eq_0_iff_dvd [THEN iffD1, THEN dvdE])
  have area: "lba + count \<le> 0x80200" "0x80040 < lba" using assms(2,3) l m by simp_all
  have "(x - 0x80040) mod 64 \<noteq> 0" if "x \<in> {lba..<lba + count}" for x
  proof -
    define j where "j = x - 64 * m"
    have j: "0 < j" "j < 64" "x = 64 * m + j" using that l m unfolding j_def by auto
    then have "x - 0x80040 = 64 * (m - 0x2001) + j" using assms(2) m by simp
    then have "(x - 0x80040) mod 64 = j" using j(2) by simp
    with j(1) show ?thesis by simp
  qed
  then have "vdisk_dir_files files lba count data =
      Inr (concat (map (\<lambda>l. dir_area_sector files (l - 0x80040)) [lba..<lba + count]) @ drop (512 * count) data)"
    using area a(2) by (intro vdisk_dir_files_written [OF assms(1)]) auto
  moreover have "map (disk_sector img w files) [lba..<lba + count] = map (\<lambda>l. dir_area_sector files (l - 0x80040)) [lba..<lba + count]"
    using area by (auto simp: disk_sector_def)
  ultimately show "vdisk_dir_files files lba count data = Inr (concat (map (disk_sector img w files) [lba..<lba + count]) @ drop (512 * count) data)"
    by (simp only:)
qed

lemma builds_subdirs:
  assumes "base = 0x80040 + 64 * c" "c < 7" "\<And>count data. build base count data = vdisk_subdir_sector (subdirs (2 + c)) data"
  shows "builds (disk_sector img w files) \<lparr>reg_name = name, reg_lba = base, reg_count = 1, reg_build = build\<rparr>"
proof (rule builds_one, simp, simp only: vdisk_region.simps)
  fix count and data :: bytes
  assume "512 \<le> length data"
  then have "build base count data = Inr (dir_sector (map subdir_entries (subdirs (2 + c))) @ drop 512 data)"
    unfolding assms(3) by (intro vdisk_subdir_sector_written length_subdirs)
  moreover have "disk_sector img w files base = dir_sector (map subdir_entries (subdirs (2 + c)))"
    using assms(1,2) by (simp add: disk_sector_def dir_area_sector_def)
  ultimately show "build base count data = Inr (disk_sector img w files base @ drop 512 data)" by simp
qed

lemma builds_directory:
  assumes "disk_files_ok files" "base = 0x80040 + 64 * c" "c < 7"
    "\<And>lba count. build lba count = vdisk_subdir_sector (subdirs (2 + c))"
  shows "list_all (builds (disk_sector img w files)) (VDISK_DIRECTORY_REGION files name build base)"
proof -
  have base: "0x80040 \<le> base" "base < 0x80200" "base mod 64 = 0" using assms(2,3) by simp_all
  have "builds (disk_sector img w files) \<lparr>reg_name = name @ '' subdirs'', reg_lba = base, reg_count = 1, reg_build = build\<rparr>"
    by (rule builds_subdirs [OF assms(2,3)]) (simp add: assms(4))
  moreover have "VDISK_CLUSTER_COUNT - 1 = 63" by (simp add: vdisk_numbers)
  ultimately show ?thesis
    unfolding VDISK_DIRECTORY_REGION_def using builds_dir_files [OF assms(1) base, of img w "name @ '' files''"] by simp
qed

lemma builds_regions:
  assumes ok: "disk_files_ok files"
  shows "list_all (builds (disk_sector img w files)) (vdisk_regions w files)"
proof -
  have "builds (disk_sector img w files) (VDISK_REGION ''MBR'' vdisk_mbr VDISK_MBR_LBA VDISK_MBR_COUNT)"
    "builds (disk_sector img w files) (VDISK_REGION ''VBR'' vdisk_vbr VDISK_VBR_LBA VDISK_VBR_COUNT)"
    "builds (disk_sector img w files) (VDISK_REGION ''FSInfo'' vdisk_fsinfo VDISK_FSINFO_LBA VDISK_FSINFO_COUNT)"
    "builds (disk_sector img w files) (VDISK_REGION ''VBR Backup'' vdisk_vbr VDISK_BACKUP_VBR_LBA VDISK_BACKUP_VBR_COUNT)"
    by (rule builds_one; simp add: VDISK_REGION_def vdisk_numbers disk_sector_def vdisk_mbr_written vdisk_vbr_written vdisk_fsinfo_written)+
  moreover note dir = builds_directory [OF ok, where img = img and w = w]
  have "list_all (builds (disk_sector img w files)) (VDISK_DIRECTORY_REGION files ''Root'' vdisk_root VDISK_ROOT_LBA)"
    by (rule dir [of _ 0]) (simp_all add: vdisk_numbers vdisk_root_def subdirs_def VDISK_BOOT_CLUSTER_def VDISK_SOURCES_CLUSTER_def VDISK_EFI_CLUSTER_def)
  moreover have "list_all (builds (disk_sector img w files)) (VDISK_DIRECTORY_REGION files ''Boot'' vdisk_boot VDISK_BOOT_LBA)"
    by (rule dir [of _ 1]) (simp_all add: vdisk_numbers vdisk_boot_def subdirs_def VDISK_FONTS_CLUSTER_def VDISK_RESOURCES_CLUSTER_def)
  moreover have "list_all (builds (disk_sector img w files)) (VDISK_DIRECTORY_REGION files ''Sources'' vdisk_sources VDISK_SOURCES_LBA)"
    by (rule dir [of _ 2]) (simp_all add: vdisk_numbers vdisk_sources_def subdirs_def)
  moreover have "list_all (builds (disk_sector img w files)) (VDISK_DIRECTORY_REGION files ''Fonts'' vdisk_fonts VDISK_FONTS_LBA)"
    by (rule dir [of _ 3]) (simp_all add: vdisk_numbers vdisk_fonts_def subdirs_def)
  moreover have "list_all (builds (disk_sector img w files)) (VDISK_DIRECTORY_REGION files ''Resources'' vdisk_resources VDISK_RESOURCES_LBA)"
    by (rule dir [of _ 4]) (simp_all add: vdisk_numbers vdisk_resources_def subdirs_def)
  moreover have "list_all (builds (disk_sector img w files)) (VDISK_DIRECTORY_REGION files ''EFI'' vdisk_efi VDISK_EFI_LBA)"
    by (rule dir [of _ 5]) (simp_all add: vdisk_numbers vdisk_efi_def subdirs_def VDISK_BOOT_CLUSTER_def VDISK_MICROSOFT_CLUSTER_def)
  moreover have "list_all (builds (disk_sector img w files)) (VDISK_DIRECTORY_REGION files ''Microsoft'' vdisk_microsoft VDISK_MICROSOFT_LBA)"
    by (rule dir [of _ 6]) (simp_all add: vdisk_numbers vdisk_microsoft_def subdirs_def VDISK_BOOT_CLUSTER_def)
  ultimately show ?thesis unfolding vdisk_regions_def using builds_fat [of img w files "''FAT''"] by simp
qed

text \<open>A fragment lies in one region, or meets none.\<close>

definition in_region :: "vdisk_region \<Rightarrow> nat \<Rightarrow> bool" where
  "in_region r lba \<longleftrightarrow> reg_lba r \<le> lba \<and> lba < reg_lba r + reg_count r"

lemma vdisk_find_fragment:
  "fs < fe0 \<Longrightarrow> vdisk_find fs fe0 rs = (fe, b) \<Longrightarrow> fs < fe \<and> fe \<le> fe0 \<and>
     (case b of Some build \<Rightarrow> \<exists>r \<in> set rs. build = reg_build r \<and> reg_lba r \<le> fs \<and> fe \<le> reg_lba r + reg_count r
      | None \<Rightarrow> \<forall>r \<in> set rs. \<forall>l. fs \<le> l \<longrightarrow> l < fe \<longrightarrow> \<not> in_region r l)"
proof (induction rs arbitrary: fe0)
  case (Cons r rs)
  define fe1 where "fe1 = (if fs < reg_lba r \<and> fe0 > reg_lba r then reg_lba r else fe0)"
  have fe1: "fs < fe1" "fe1 \<le> fe0" "fs < reg_lba r \<Longrightarrow> fe1 \<le> reg_lba r" using Cons.prems(1) by (auto simp: fe1_def)
  show ?case
  proof (cases "fs \<ge> reg_lba r + reg_count r \<or> fe1 \<le> reg_lba r")
    case True
    then have "vdisk_find fs fe1 rs = (fe, b)" using Cons.prems(2) by (auto simp: fe1_def Let_def split: if_splits)
    from Cons.IH [OF fe1(1) this] True fe1(2) show ?thesis
      by (auto simp: in_region_def split: option.splits)
  next
    case False
    then have "(fe, b) = (min fe1 (reg_lba r + reg_count r), Some (reg_build r))"
      using Cons.prems(2) by (auto simp: fe1_def Let_def split: if_splits)
    with False fe1 show ?thesis by (auto simp: not_le)
  qed
qed auto

lemma in_directory_region:
  "\<forall>r \<in> set (VDISK_DIRECTORY_REGION files name build base). \<not> in_region r lba \<Longrightarrow> base \<le> lba \<Longrightarrow> base + 64 \<le> lba"
  by (auto simp: VDISK_DIRECTORY_REGION_def in_region_def vdisk_numbers)

lemma disk_sector_gap:
  assumes "lba < 0x800000" "\<forall>r \<in> set (vdisk_regions w files). \<not> in_region r lba"
  shows "disk_sector img w files lba = replicate 512 0"
proof -
  have "lba \<noteq> 0" "lba \<noteq> 128" "lba \<noteq> 129" "lba \<noteq> 134" "\<not> (192 \<le> lba \<and> lba < 0x80040)"
    using assms(2) by (auto simp: vdisk_regions_def VDISK_REGION_def in_region_def vdisk_numbers)
  moreover have "0x80200 \<le> lba" if "0x80040 \<le> lba"
  proof -
    note d = assms(2) [unfolded vdisk_regions_def set_append ball_Un, THEN conjunct2]
    note d0 = d [THEN conjunct1, THEN in_directory_region, unfolded vdisk_numbers]
    note d1 = d [THEN conjunct2, THEN conjunct1, THEN in_directory_region, unfolded vdisk_numbers]
    note d2 = d [THEN conjunct2, THEN conjunct2, THEN conjunct1, THEN in_directory_region, unfolded vdisk_numbers]
    note d3 = d [THEN conjunct2, THEN conjunct2, THEN conjunct2, THEN conjunct1, THEN in_directory_region, unfolded vdisk_numbers]
    note d4 = d [THEN conjunct2, THEN conjunct2, THEN conjunct2, THEN conjunct2, THEN conjunct1, THEN in_directory_region, unfolded vdisk_numbers]
    note d5 = d [THEN conjunct2, THEN conjunct2, THEN conjunct2, THEN conjunct2, THEN conjunct2, THEN conjunct1, THEN in_directory_region, unfolded vdisk_numbers]
    note d6 = d [THEN conjunct2, THEN conjunct2, THEN conjunct2, THEN conjunct2, THEN conjunct2, THEN conjunct2, THEN in_directory_region, unfolded vdisk_numbers]
    show ?thesis using d0 d1 d2 d3 d4 d5 d6 that by linarith
  qed
  ultimately show ?thesis using assms(1) by (auto simp: disk_sector_def not_le)
qed

section \<open>Reading\<close>

lemma span_copy: "span xs off m = window off (min (length xs - off) m) xs @ replicate (m - (length xs - off)) 0"
proof (cases "off + m \<le> length xs")
  case True
  then show ?thesis by (simp add: span_window min_absorb2)
next
  case False
  define c where "c = length xs - off"
  have "c \<le> m" "length xs \<le> off + c" using False by (auto simp: c_def)
  then have "span xs off m = span xs off c @ replicate (m - c) 0"
    using span_add [of xs off c "m - c"] by (simp add: span_beyond)
  moreover have "span xs off c = window off c xs"
    by (cases "off \<le> length xs") (simp_all add: c_def span_window, simp add: span_def window_def)
  ultimately show ?thesis using \<open>c \<le> m\<close> by (simp add: c_def min_def)
qed

lemma take_span: "n \<le> m \<Longrightarrow> take n (span xs off m) = span xs off n"
  by (simp add: span_def take_map)

lemma drop_span: "n \<le> m \<Longrightarrow> drop n (span xs off m) = span xs (off + n) (m - n)"
  by (simp add: span_def drop_map)

lemma frag_count_diff:
  assumes "fs \<le> fe" "fs \<le> 2 ^ 64" "fe - fs < 2 ^ 32"
  shows "frag_count fs fe = fe - fs"
proof -
  have "fe + (2 ^ 64 - fs) = fe - fs + 2 ^ 32 * 2 ^ 32" using assms(1,2) by simp
  then show ?thesis using assms(3) by (simp only: frag_count_def mod_mult_self2) simp
qed

lemma zero_sectors: "concat (map (\<lambda>t. replicate 512 0) [s..<s + n]) = (replicate (512 * n) 0 :: bytes)"
  by (induction n) (simp_all add: replicate_add [symmetric] add.commute)

lemma length_disk_sector: "disk_files_ok files \<Longrightarrow> length (disk_sector img w files lba) = 512"
  by (simp add: disk_sector_def Let_def length_dir_area_sector)

text \<open>
  The interface to the methods of a file. The content is what is read, the image what the file is after
  patching; the windows that are asked for do not matter.
\<close>

locale vdisk_methods =
  fixes call_read :: "('o, 'r, 'p, 's) read_method" and call_patch :: "('o, 'r, 'p, 's) patch_method"
    and content img :: "('o, 'r, 'p) vdisk_file list \<Rightarrow> nat \<Rightarrow> bytes" and valid :: "('o, 'r, 'p) vdisk_file list \<Rightarrow> bool"
    and good :: "('o, 'r, 'p) vdisk_file list \<Rightarrow> 's \<Rightarrow> bool"
  assumes valid_ok: "valid files \<Longrightarrow> disk_files_ok files"
    and length_content: "valid files \<Longrightarrow> k < 63 \<Longrightarrow> length (content files k) = vf_len (files ! k)"
    and length_img: "valid files \<Longrightarrow> k < 63 \<Longrightarrow> length (img files k) = vf_xlen (files ! k)"
    and padded: "valid files \<Longrightarrow> k < 63 \<Longrightarrow> vf_len (files ! k) \<le> vf_xlen (files ! k)"
    and absent: "valid files \<Longrightarrow> k < 63 \<Longrightarrow> vf_read (files ! k) = None \<Longrightarrow> vf_len (files ! k) = 0"
    and read_window: "valid files \<Longrightarrow> k < 63 \<Longrightarrow> vf_read (files ! k) = Some r \<Longrightarrow> 0 < n \<Longrightarrow> off + n \<le> vf_len (files ! k) \<Longrightarrow>
      returns (good files) (call_read r files k off n) (window off n (content files k))"
    and unpatched: "valid files \<Longrightarrow> k < 63 \<Longrightarrow> vf_patch (files ! k) = None \<Longrightarrow> img files k = content files k"
    and patch_window: "valid files \<Longrightarrow> k < 63 \<Longrightarrow> vf_patch (files ! k) = Some p \<Longrightarrow> n = 0 \<or> off + n \<le> vf_xlen (files ! k) \<Longrightarrow>
      n \<le> length data \<Longrightarrow> take n data = span (content files k) off n \<Longrightarrow>
      returns (good files) (call_patch p files k (Some data) off n) (files, Some (overlay 0 (window off n (img files k)) data))"
begin

lemma file_build:
  assumes "valid files" "k < 63" "s + n \<le> 0x800000" "0 < n" "n < 0x800000" "512 * n \<le> length data"
  shows "returns (good files) (vdisk_file_build call_read call_patch files ((k + 1) * 0x800000 + s) n data)
     (files, span (img files k) (512 * s) (512 * n) @ drop (512 * n) data)"
proof -
  define vf off len rest where "vf = files ! k" and "off = 512 * s" and "len = 512 * n" and "rest = drop len data"
  define c where "c = min (vf_len vf - off) len"
  define pl where "pl = min (vf_xlen vf - off) len"
  have s: "s < 0x800000" using assms(3,4) by simp
  have k: "k < length files" using valid_ok [OF assms(1)] assms(2) by (simp add: disk_files_ok_def)
  have idx: "VDISK_FILE_IDX ((k + 1) * 0x800000 + s) = k"
  proof -
    have "((k + 1) * 0x800000 + s) div 0x800000 = k + 1" using s by simp
    moreover have "k + 1 + (2 ^ 64 - 1) = k + 2 ^ 64" by simp
    then have "(k + 1 + (2 ^ 64 - 1)) mod 2 ^ 64 = k mod 2 ^ 64" by (simp only: mod_add_self2)
    ultimately show ?thesis using assms(2) by (simp only: VDISK_FILE_IDX_def vdisk_numbers) simp
  qed
  have "((k + 1) * 0x800000 + s) mod 0x800000 = s mod 0x800000" by (rule mod_mult_self3)
  then have offset: "VDISK_FILE_OFFSET ((k + 1) * 0x800000 + s) = off"
    using s by (simp only: VDISK_FILE_OFFSET_def vdisk_numbers off_def) simp
  have len: "n * VDISK_SECTOR_SIZE mod 2 ^ 32 = len" using assms(5) by (simp add: vdisk_numbers len_def)
  have vf: "valid files" "length (content files k) = vf_len vf" "length (img files k) = vf_xlen vf" "vf_len vf \<le> vf_xlen vf" and data: "len \<le> length data"
    using assms length_content length_img padded by (simp_all add: vf_def len_def)
  define cp where "cp = (if c \<noteq> 0 then (case vf_read vf of None \<Rightarrow> wret (Inl Fault)
    | Some r \<Rightarrow> wbind (call_read r files k off c) (\<lambda>bs. wret (wr_bytes data 0 bs))) else wret (Inr data))"
  have copy: "returns (good files) cp (window off c (content files k) @ drop c data)"
  proof (cases "c = 0")
    case False
    then obtain r where "vf_read vf = Some r" using absent [OF assms(1,2)] by (cases "vf_read vf") (auto simp: c_def vf_def)
    moreover have "returns (good files) (call_read r files k off c) (window off c (content files k))"
      using False \<open>vf_read vf = Some r\<close> by (intro read_window [OF assms(1,2)]) (auto simp: c_def vf_def)
    moreover have "wr_bytes data 0 (window off c (content files k)) = Inr (window off c (content files k) @ drop c data)"
      using vf(2) data by (auto simp: c_def wr_bytes_def overlay_0 min_def)
    ultimately show ?thesis
      using False by (auto simp: cp_def returns_wret intro!: returns_bind [of "good files" _ "window off c (content files k)"])
  qed (simp add: window_def cp_def returns_wret)
  have "memset (window off c (content files k) @ drop c data) c 0 (len - c) = Inr (span (content files k) off len @ rest)"
  proof -
    have "length (window off c (content files k)) = c" "c \<le> len" using vf(2) by (auto simp: c_def)
    moreover from this data have "memset (window off c (content files k) @ drop c data) c 0 (len - c) =
        Inr (overlay c (replicate (len - c) 0) (window off c (content files k) @ drop c data))"
      by (intro memset_overlay) simp
    moreover have "span (content files k) off len = window off c (content files k) @ replicate (len - c) 0"
      using vf(2) by (simp add: span_copy c_def min_def)
    ultimately show ?thesis by (simp add: overlay_def rest_def)
  qed
  then have fill: "returns (good files) (wret (memset (window off c (content files k) @ drop c data) c 0 (len - c))) (span (content files k) off len @ rest)"
    by (simp add: returns_wret)
  have built: "vdisk_file_build call_read call_patch files ((k + 1) * 0x800000 + s) n data =
      wbind cp (\<lambda>data. wbind (wret (memset data c 0 (len - c))) (\<lambda>data.
       case vf_patch vf of None \<Rightarrow> wret (Inr (files, data))
       | Some p \<Rightarrow> wbind (call_patch p files k (Some data) off pl) (\<lambda>(files, data).
           wret (case data of None \<Rightarrow> Inl Fault | Some data \<Rightarrow> Inr (files, data)))))"
    using k
    unfolding vdisk_file_build_def Let_def idx offset len vf_def [symmetric] c_def [symmetric] pl_def [symmetric] cp_def [symmetric] by simp
  have patched: "overlay 0 (window off pl (img files k)) (span (content files k) off len @ rest) = span (img files k) off len @ rest"
  proof -
    have pl: "length (window off pl (img files k)) = pl" "pl \<le> len" using vf(3) by (auto simp: pl_def)
    have "drop pl (span (content files k) off len) = replicate (len - pl) 0"
    proof (cases "pl = len")
      case False
      then have "vf_len vf \<le> off + pl" using vf(4) by (auto simp: pl_def)
      then show ?thesis using drop_span [OF pl(2), of "content files k" off] vf(2) by (simp add: span_beyond)
    qed simp
    moreover have "span (img files k) off len = window off pl (img files k) @ replicate (len - pl) 0"
      using vf(3) by (simp add: span_copy pl_def min_def)
    ultimately show ?thesis using pl by (simp add: overlay_0)
  qed
  show ?thesis
  proof (cases "vf_patch vf")
    case None
    then have "returns (good files) (vdisk_file_build call_read call_patch files ((k + 1) * 0x800000 + s) n data) (files, span (content files k) off len @ rest)"
      unfolding built by (auto intro!: returns_bind [OF copy] returns_bind [OF fill] returns_wret)
    then show ?thesis using unpatched [OF assms(1,2) None [unfolded vf_def]] by (simp add: vf_def off_def len_def rest_def)
  next
    case (Some p)
    have "returns (good files) (call_patch p files k (Some (span (content files k) off len @ rest)) off pl) (files, Some (span (img files k) off len @ rest))"
      unfolding patched [symmetric] by (rule patch_window [OF assms(1,2) Some [unfolded vf_def]]) (auto simp: pl_def take_span vf_def)
    then have "returns (good files) (vdisk_file_build call_read call_patch files ((k + 1) * 0x800000 + s) n data) (files, span (img files k) off len @ rest)"
      unfolding built using Some by (auto intro!: returns_bind [OF copy] returns_bind [OF fill] elim!: returns_bind simp: returns_wret)
    then show ?thesis by (simp add: vf_def off_def len_def rest_def)
  qed
qed

lemma fragment_file:
  assumes ok: "valid files"
    and w: "32 \<le> w" "fin \<le> 2 ^ w - 0x800000" and fs: "0x800000 \<le> fs" "fs < fin" "fin \<le> VDISK_COUNT"
    and n: "fin - fs < 0x800000" "512 * (fin - fs) \<le> length data"
  shows "\<exists>n > 0. fs + n \<le> fin \<and> returns (good files) (vdisk_fragment w call_read call_patch files fs fin data)
     (n, files, concat (map (disk_sector (img files) w files) [fs..<fs + n]) @ drop (512 * n) data)"
proof -
  define k s where "k = fs div 0x800000 - 1" and "s = fs mod 0x800000"
  have "1 \<le> fs div 0x800000" using fs(1) div_le_mono [of "0x800000" fs "0x800000"] by simp
  then have "fs div 0x800000 = k + 1" by (simp add: k_def)
  then have fs_eq: "fs = (k + 1) * 0x800000 + s" by (metis div_mult_mod_eq s_def)
  have s: "s < 0x800000" by (simp add: s_def)
  have k: "k < 511" "(k + 2) * 0x800000 < 2 ^ w"
    using fs fs_eq w(2) by (simp_all add: vdisk_numbers)
  have idx: "vdisk_file_idx fs = int k"
  proof -
    have "VDISK_FILE_IDX fs = k"
      using \<open>fs div 0x800000 = k + 1\<close> k(1) mod_add_self2 [of k "2 ^ 64"] by (simp add: VDISK_FILE_IDX_def vdisk_numbers add.commute)
    then show ?thesis using k(1) by (simp add: vdisk_file_idx_def signed_take_bit_int_eq_self_iff)
  qed
  have file_end: "VDISK_FILE_LBA w (int k + 1) = (k + 2) * 0x800000"
  proof -
    have "(int k + 1 + 1) * int VDISK_FILE_COUNT = int ((k + 2) * 0x800000)" by (simp add: vdisk_numbers)
    moreover have "int ((k + 2) * 0x800000) mod 2 ^ w = int ((k + 2) * 0x800000 mod 2 ^ w)" by (simp add: zmod_int)
    ultimately show ?thesis using k(2) by (simp only: VDISK_FILE_LBA_def nat_int mod_less)
  qed
  define fe where "fe = min fin ((k + 2) * 0x800000)"
  define n where "n = fe - fs"
  have fe: "fs < fe" "fe \<le> fin" "(if fin > (k + 2) * 0x800000 then (k + 2) * 0x800000 else fin) = fe"
    using fs(2) fs_eq s by (auto simp: fe_def)
  have n_props: "0 < n" "fs + n \<le> fin" "n < 0x800000" "512 * n \<le> length data" "s + n \<le> 0x800000"
    using fe(1,2) n fs_eq by (auto simp: n_def fe_def)
  have count: "frag_count fs fe = n"
    using frag_count_diff [of fs fe] fe(1) fs n_props(3) by (simp add: n_def vdisk_numbers)
  have sectors: "map (disk_sector (img files) w files) [fs..<fs + n] =
      map (\<lambda>t. if k < 63 then span (img files k) (512 * t) 512 else replicate 512 0) [s..<s + n]"
  proof (rule nth_equalityI)
    fix i assume "i < length (map (disk_sector (img files) w files) [fs..<fs + n])"
    then have i: "i < n" by simp
    with n_props(5) have "s + i < 0x800000" by simp
    then have "(fs + i) div 0x800000 - 1 = k" "(fs + i) mod 0x800000 = s + i"
      unfolding fs_eq by (simp_all add: add.assoc)
    then show "map (disk_sector (img files) w files) [fs..<fs + n] ! i =
        map (\<lambda>t. if k < 63 then span (img files k) (512 * t) 512 else replicate 512 0) [s..<s + n] ! i"
      using i fs(1) by (simp add: disk_sector_def Let_def mult.commute)
  qed simp
  have "returns (good files) (vdisk_fragment w call_read call_patch files fs fin data) (n, files, concat (map (disk_sector (img files) w files) [fs..<fs + n]) @ drop (512 * n) data)"
  proof (cases "k < 63")
    case True
    from True ok n_props have build: "returns (good files) (vdisk_file_build call_read call_patch files fs n data)
        (files, span (img files k) (512 * s) (512 * n) @ drop (512 * n) data)"
      unfolding fs_eq by (intro file_build) auto
    show ?thesis
      using True unfolding vdisk_fragment_def Let_def idx file_end fe(3) count sectors
      by (auto simp: vdisk_numbers span_sectors returns_wret intro!: returns_bind [OF build])
  next
    case False
    have "memset data 0 0 (n * VDISK_SECTOR_SIZE mod 2 ^ 32) = Inr (replicate (512 * n) 0 @ drop (512 * n) data)"
      using n_props by (simp add: vdisk_numbers memset_overlay overlay_0 mult.commute)
    then show ?thesis
      using False unfolding vdisk_fragment_def Let_def idx file_end fe(3) count sectors
      by (simp add: vdisk_numbers zero_sectors returns_wret)
  qed
  with n_props show ?thesis by blast
qed

lemma fragment_region:
  assumes ok: "valid files" and fs: "fin \<le> 0x800000" "fs < fin"
    and n: "fin - fs < 0x800000" "512 * (fin - fs) \<le> length data"
  shows "\<exists>n > 0. fs + n \<le> fin \<and> returns (good files) (vdisk_fragment w call_read call_patch files fs fin data)
     (n, files, concat (map (disk_sector (img files) w files) [fs..<fs + n]) @ drop (512 * n) data)"
proof -
  have "fs div 0x800000 = 0" using fs by simp
  then have "vdisk_file_idx fs = signed_take_bit 31 (int ((0 + (2 ^ 64 - 1)) mod 2 ^ 64))"
    by (simp only: vdisk_file_idx_def VDISK_FILE_IDX_def vdisk_numbers)
  also have "\<dots> = -1" by code_simp
  finally have idx: "vdisk_file_idx fs = -1" .
  obtain fe b where find: "vdisk_find fs fin (vdisk_regions w files) = (fe, b)" by fastforce
  note fe = vdisk_find_fragment [OF fs(2) find]
  define n where "n = fe - fs"
  have n_props: "0 < n" "fs + n = fe" "fs + n \<le> fin" "n < 0x800000" "512 * n \<le> length data"
    using fe n by (auto simp: n_def)
  have count: "frag_count fs fe = n"
    using frag_count_diff [of fs fe] fs n_props by (simp add: n_def)
  have "vdisk_fragment w call_read call_patch files fs fin data =
     wret (rbind (case b of Some build \<Rightarrow> build fs n data | None \<Rightarrow> memset data 0 0 (n * VDISK_SECTOR_SIZE mod 2 ^ 32)) (\<lambda>data. Inr (n, files, data)))"
    unfolding vdisk_fragment_def Let_def idx find case_prod_conv count by simp
  also have "(case b of Some build \<Rightarrow> build fs n data | None \<Rightarrow> memset data 0 0 (n * VDISK_SECTOR_SIZE mod 2 ^ 32)) =
      Inr (concat (map (disk_sector (img files) w files) [fs..<fs + n]) @ drop (512 * n) data)"
  proof (cases b)
    case (Some build)
    then obtain r where r: "r \<in> set (vdisk_regions w files)" "build = reg_build r" "reg_lba r \<le> fs" "fs + n \<le> reg_lba r + reg_count r"
      using fe n_props(2) by auto
    moreover from r(1) builds_regions [OF valid_ok [OF ok], of "img files" w] have "builds (disk_sector (img files) w files) r" by (auto simp: list_all_iff)
    ultimately show ?thesis using Some n_props by (simp add: builds_def)
  next
    case None
    have "memset data 0 0 (n * VDISK_SECTOR_SIZE mod 2 ^ 32) = Inr (replicate (512 * n) 0 @ drop (512 * n) data)"
      using n_props by (simp add: vdisk_numbers memset_overlay overlay_0 mult.commute)
    moreover have "disk_sector (img files) w files l = replicate 512 0" if "l \<in> set [fs..<fs + n]" for l
    proof (rule disk_sector_gap)
      show "\<forall>r \<in> set (vdisk_regions w files). \<not> in_region r l" using fe None that n_props(2) by auto
      show "l < 0x800000" using that n_props(3) fs(1) by simp
    qed
    then have "map (disk_sector (img files) w files) [fs..<fs + n] = map (\<lambda>t. replicate 512 0) [fs..<fs + n]" by (intro map_cong) auto
    ultimately show ?thesis using None by (simp only: option.case zero_sectors)
  qed
  finally show ?thesis using n_props by (auto simp: returns_wret)
qed

lemma fragments:
  assumes ok: "valid files" and w: "32 \<le> w" "fin \<le> 2 ^ w - 0x800000" "fin \<le> VDISK_COUNT"
  shows "fs < fin \<Longrightarrow> fin \<le> 0x800000 \<or> 0x800000 \<le> fs \<Longrightarrow> fin - fs < 0x800000 \<Longrightarrow> 512 * (fin - fs) \<le> length data \<Longrightarrow> fin - fs < fuel \<Longrightarrow>
     returns (good files) (vdisk_fragments fuel w call_read call_patch files fs fin data)
       (files, concat (map (disk_sector (img files) w files) [fs..<fin]) @ drop (512 * (fin - fs)) data)"
proof (induction fuel arbitrary: fs data)
  case (Suc fuel)
  obtain n where n: "0 < n" "fs + n \<le> fin" and frag: "returns (good files) (vdisk_fragment w call_read call_patch files fs fin data)
      (n, files, concat (map (disk_sector (img files) w files) [fs..<fs + n]) @ drop (512 * n) data)"
    using fragment_file [OF ok w(1,2) _ Suc.prems(1) w(3) Suc.prems(3,4)] fragment_region [OF ok _ Suc.prems(1,3,4), of w] Suc.prems(2)
    by blast
  define sectors where "sectors = (\<lambda>a b. concat (map (disk_sector (img files) w files) [a..<b]))"
  have frag': "returns (good files) (vdisk_fragment w call_read call_patch files fs fin data) (n, files, sectors fs (fs + n) @ drop (512 * n) data)"
    using frag by (simp only: sectors_def)
  have "length (sectors fs (fs + n)) = 512 * n"
    unfolding sectors_def by (subst length_concat_uniform [where m = 512]) (auto simp: length_disk_sector [OF valid_ok [OF ok]])
  moreover have "(fs + n) mod 2 ^ 64 = fs + n" using n(2) w(3) by (simp add: vdisk_numbers)
  moreover have "n * VDISK_SECTOR_SIZE mod 2 ^ 32 = 512 * n" using n Suc.prems(3) by (simp add: vdisk_numbers)
  moreover have "512 * n \<le> length data" using n(2) Suc.prems(4) by simp
  ultimately have step: "returns (good files) (vdisk_fragments (Suc fuel) w call_read call_patch files fs fin data) r"
    if "returns (good files) (if fs + n = fin then wret (Inr (files, sectors fs (fs + n) @ drop (512 * n) data))
       else wbind (vdisk_fragments fuel w call_read call_patch files (fs + n) fin (drop (512 * n) data))
              (\<lambda>(files, rest). wret (Inr (files, sectors fs (fs + n) @ rest)))) r" for r
    using that by (auto simp: Let_def intro!: returns_bind [OF frag'])
  show ?case
  proof (cases "fs + n = fin")
    case True
    then show ?thesis using n by (intro step) (auto simp: sectors_def returns_wret)
  next
    case False
    have rest: "returns (good files) (vdisk_fragments fuel w call_read call_patch files (fs + n) fin (drop (512 * n) data))
        (files, sectors (fs + n) fin @ drop (512 * (fin - (fs + n))) (drop (512 * n) data))"
      unfolding sectors_def using False n Suc.prems by (intro Suc.IH) auto
    moreover have "sectors fs (fs + n) @ sectors (fs + n) fin = sectors fs fin"
      using upt_add_eq_append [of fs "fs + n" "fin - (fs + n)"] n(2) by (simp add: sectors_def flip: concat_append map_append)
    moreover have "512 * (fin - (fs + n)) + 512 * n = 512 * (fin - fs)" using n(2) by simp
    ultimately have "returns (good files) (vdisk_fragments (Suc fuel) w call_read call_patch files fs fin data)
        (files, sectors fs fin @ drop (512 * (fin - fs)) data)"
      by (intro step) (auto simp: False returns_wret simp flip: append_assoc intro: returns_bind [OF rest])
    then show ?thesis by (simp only: sectors_def)
  qed
qed (simp)

lemma read_sectors:
  assumes "valid files" "32 \<le> w" "lba + count \<le> 2 ^ w - 0x800000" "lba + count \<le> VDISK_COUNT"
    "lba + count \<le> 0x800000 \<or> 0x800000 \<le> lba" "0 < count" "count < 0x800000" "512 * count \<le> length data"
  shows "returns (good files) (vdisk_read w call_read call_patch files lba count data)
     (files, concat (map (disk_sector (img files) w files) [lba..<lba + count]) @ drop (512 * count) data)"
proof -
  have "(lba + count) mod 2 ^ 64 = lba + count" using assms(4) by (simp add: vdisk_numbers)
  then show ?thesis
    using assms fragments [OF assms(1-4), of lba data "count + 1"] by (simp add: vdisk_read_def)
qed

end

end
