(* ===== verification/Wimfile.thy ===== *)
theory Wimfile
  imports Wim_Read Vdisk_Image
begin

text \<open>
  Files within a WIM image as virtual files (\<open>wimfile.c\<close>), and the methods that virtual files can have.

  The private pointer of a file points to its data in memory, which is the list of bytes from there on, or to
  an entry of the table of WIM files. A file is identified by its index in the array of virtual files.
\<close>

section \<open>Methods\<close>

datatype opaque = Null | Data bytes | Wim_entry nat

datatype reader = Read_file | Wim_read_file

datatype patcher = Patch_wim

type_synonym vfile = "(opaque, reader, patcher) vdisk_file"
type_synonym disk = "(opaque, reader, patcher) vdisk"

record struct_wim_file =
  wf_file :: nat
  wf_header :: wim_header
  wf_resource :: wim_resource_header

definition WIM_MAX_FILES :: nat where "WIM_MAX_FILES = 16"

text \<open>The method of \<open>main.c\<close> that copies from memory.\<close>

definition read_file :: "vfile \<Rightarrow> nat \<Rightarrow> nat \<Rightarrow> bytes result" where
  "read_file vf offset len = (case vf_opaque vf of Data data \<Rightarrow> rd_bytes data offset len | _ \<Rightarrow> Inl Fault)"

text \<open>
  A virtual file as the source of an image. The images of the program are files in memory; no other
  method is ever called for them.
\<close>

definition file_source :: "nat \<Rightarrow> vfile \<Rightarrow> source" where
  "file_source i vf = \<lparr>src_file = i, src_len = vf_len vf,
     src_read = (\<lambda>off n. if vf_read vf = Some Read_file then read_file vf off n else Inl Fault)\<rparr>"

text \<open>A failed read ends in \<open>die()\<close>.\<close>

definition or_die :: "'a result \<Rightarrow> 'a result" where
  "or_die r = (case r of Inl Fail \<Rightarrow> Inl Died | _ \<Rightarrow> r)"

definition wim_read_file :: "nat \<Rightarrow> vfile list \<Rightarrow> struct_wim_file list \<Rightarrow> vfile \<Rightarrow> nat \<Rightarrow> nat \<Rightarrow> bytes wim" where
  "wim_read_file w files wfiles vf offset len s =
     (case vf_opaque vf of
        Wim_entry i \<Rightarrow>
          if i < length wfiles \<and> wf_file (wfiles ! i) < length files then
            let wf = wfiles ! i;
                (r, s) = wim_read w (file_source (wf_file wf) (files ! wf_file wf)) (wf_header wf) (wf_resource wf) offset len s
            in (or_die r, s)
          else (Inl Fault, s)
      | _ \<Rightarrow> (Inl Fault, s))"

text \<open>The read method of a file, through the pointer in it.\<close>

fun call_read :: "nat \<Rightarrow> struct_wim_file list \<Rightarrow> reader \<Rightarrow> vfile list \<Rightarrow> nat \<Rightarrow> nat \<Rightarrow> nat \<Rightarrow> bytes wim" where
  "call_read w wfiles Read_file files idx offset len = wret (read_file (files ! idx) offset len)"
| "call_read w wfiles Wim_read_file files idx offset len = wim_read_file w files wfiles (files ! idx) offset len"

definition vfile_read :: "nat \<Rightarrow> struct_wim_file list \<Rightarrow> vfile list \<Rightarrow> nat \<Rightarrow> nat \<Rightarrow> nat \<Rightarrow> bytes wim" where
  "vfile_read w wfiles files idx offset len =
     (if length files \<le> idx then wret (Inl Fault) else
      case vf_read (files ! idx) of None \<Rightarrow> wret (Inl Fault)
      | Some r \<Rightarrow> call_read w wfiles r files idx offset len)"

section \<open>Adding files\<close>

text \<open>The virtual disk and the static variables of \<open>wimfile.c\<close> and \<open>wim.c\<close>.\<close>

record wim_state =
  ws_disk :: disk
  ws_files :: "struct_wim_file list"
  ws_index :: nat
  ws_cache :: wim_cache

text \<open>The part of a path after its last backslash.\<close>

fun wim_basename :: "u16 list \<Rightarrow> u16 list \<Rightarrow> u16 list result" where
  "wim_basename wname [] = Inl Fault"
| "wim_basename wname (c # tmp) =
     (if c = 0 then Inr wname else wim_basename (if c = 0x5c then tmp else wname) tmp)"

text \<open>\<open>snprintf ( name, sizeof ( name ), "%ls", wname )\<close>\<close>

definition wim_ascii_name :: "u16 list \<Rightarrow> bytes result" where
  "wim_ascii_name wname =
     (if terminated wname then Inr (take VDISK_NAME_LEN (concat (map wcrtomb (cstring wname))) @ [0]) else Inl Fault)"

text \<open>Is there a file of this name?\<close>

fun wim_name_used :: "bytes \<Rightarrow> vfile list \<Rightarrow> bool result" where
  "wim_name_used name [] = Inr False"
| "wim_name_used name (vf # vfs) =
     rbind (strcasecmp name (vf_name vf)) (\<lambda>d. if d = 0 then Inr True else wim_name_used name vfs)"

text \<open>An operation that fails with a status makes the function return the null pointer.\<close>

definition unless_fail :: "'a result \<Rightarrow> 'b \<Rightarrow> ('a \<Rightarrow> 'b result) \<Rightarrow> 'b result" where
  "unless_fail r b f = (case r of Inr x \<Rightarrow> f x | Inl Fail \<Rightarrow> Inr b | Inl e \<Rightarrow> Inl e)"

definition wim_add_file :: "nat \<Rightarrow> nat \<Rightarrow> nat \<Rightarrow> u16 list \<Rightarrow> wim_state \<Rightarrow> (nat option \<times> wim_state) result" where
  "wim_add_file w f index path st =
     (if ws_index st \<ge> WIM_MAX_FILES then Inl Died
      else if length (vdisk_files (ws_disk st)) \<le> f then Inl Fault else
      rbind (wim_basename path path) (\<lambda>wname.
      rbind (wim_ascii_name wname) (\<lambda>name.
      rbind (wim_name_used name (vdisk_files (ws_disk st))) (\<lambda>used.
      if used then Inr (None, st) else
      let src = file_source f (vdisk_files (ws_disk st) ! f) in
      unless_fail (wim_header src) (None, st) (\<lambda>header.
      let i = ws_index st;
          st = st\<lparr>ws_files := (ws_files st)[i := (ws_files st ! i)\<lparr>wf_header := header\<rparr>]\<rparr>;
          (meta, s) = wim_metadata w src header index (ws_cache st);
          st = st\<lparr>ws_cache := s\<rparr>
      in unless_fail meta (None, st) (\<lambda>meta.
      let (res, s) = wim_file w src header meta path (ws_cache st);
          st = st\<lparr>ws_cache := s\<rparr>
      in unless_fail res (None, st) (\<lambda>res.
      let st = st\<lparr>ws_files := (ws_files st)[i := \<lparr>wf_file = f, wf_header = header, wf_resource = res\<rparr>], ws_index := i + 1\<rparr>
      in rbind (vdisk_add_file name (Wim_entry i) (res_len res mod 2 ^ w) Wim_read_file (ws_disk st)) (\<lambda>(idx, disk).
      Inr (Some idx, st\<lparr>ws_disk := disk\<rparr>)))))))))"

fun wim_add_files :: "nat \<Rightarrow> nat \<Rightarrow> nat \<Rightarrow> u16 list list \<Rightarrow> wim_state \<Rightarrow> wim_state result" where
  "wim_add_files w f index [] st = Inr st"
| "wim_add_files w f index (path # paths) st =
     rbind (wim_add_file w f index path st) (\<lambda>(_, st). wim_add_files w f index paths st)"

end
