(* ===== verification/Wimpatch.thy ===== *)
theory Wimpatch
  imports Wimfile Sha1 Cmdline
begin

text \<open>
  Patching of WIM images (\<open>wimpatch.c\<close>): the image that is read from the virtual disk has another header, and files,
  a lookup table and boot metadata after the original end of the file.

  A patch is a list of regions, each of which produces bytes on demand. The structures hold pointers to virtual files
  and to regions; a pointer to a file is its index, a pointer to the region of a file the index of that
  region. \<open>w\<close> is the width of \<open>size_t\<close>.
\<close>

section \<open>Structures\<close>

text \<open>The methods and the opaque pointers of regions.\<close>

datatype region_patch =
  Patch_header | Patch_file | Patch_lookup_copy | Patch_lookup_boot | Patch_lookup_file | Patch_boot_copy
| Patch_dir_subdir | Patch_dir_copy | Patch_dir_file

datatype region_opaque = No_opaque | Vfile nat | Rfile nat | Dir

record wim_patch_region =
  pr_name :: bytes
  pr_opaque :: region_opaque
  pr_offset :: nat
  pr_len :: nat
  pr_patch :: "region_patch option"

record wim_patch_dir_regions =
  dr_subdir :: wim_patch_region
  dr_copy :: wim_patch_region
  dr_file :: "wim_patch_region list"

record wim_patch_regions =
  rs_header :: wim_patch_region
  rs_file :: "wim_patch_region list"
  rs_lookup_copy :: wim_patch_region
  rs_lookup_boot :: wim_patch_region
  rs_lookup_file :: "wim_patch_region list"
  rs_boot_copy :: wim_patch_region
  rs_boot_dir :: wim_patch_dir_regions

text \<open>The unstructured list of regions, in the order of the structure.\<close>

definition rs_region :: "wim_patch_regions \<Rightarrow> wim_patch_region list" where
  "rs_region rs = rs_header rs # rs_file rs @ rs_lookup_copy rs # rs_lookup_boot rs # rs_lookup_file rs @
     rs_boot_copy rs # dr_subdir (rs_boot_dir rs) # dr_copy (rs_boot_dir rs) # dr_file (rs_boot_dir rs)"

definition struct_wim_patch_dir_entry :: layout where
  "struct_wim_patch_dir_entry = struct_wim_directory_entry @ [(''name'', 2 * (VDISK_NAME_LEN + 1))]"

record wim_patch_dir =
  pd_name :: string
  pd_parent :: nat
  pd_offset :: nat
  pd_len :: nat
  pd_subdir :: nat

record wim_patch =
  wp_file :: "nat option"
  wp_header :: wim_header
  wp_lookup :: wim_resource_header
  wp_boot :: wim_resource_header
  wp_boot_index :: nat
  wp_dir :: wim_patch_dir
  wp_regions :: wim_patch_regions

definition WIM_INJECT_DIR :: string where
  "WIM_INJECT_DIR = [CHR 0x5C] @ ''Windows'' @ [CHR 0x5C] @ ''System32''"

definition WIM_ATTR_NORMAL :: nat where "WIM_ATTR_NORMAL = 0x00000080"
definition WIM_NO_SECURITY :: nat where "WIM_NO_SECURITY = 0xffffffff"
definition WIM_MAGIC_TIME :: nat where "WIM_MAGIC_TIME = 0x1a7b83d2ad93000"

text \<open>The bytes of structures.\<close>

definition resource_header_bytes :: "wim_resource_header \<Rightarrow> bytes" where
  "resource_header_bytes res = le64 (zlen__flags res) @ le64 (res_offset res) @ le64 (res_len res)"

definition wim_header_bytes :: "wim_header \<Rightarrow> bytes" where
  "wim_header_bytes h =
     wim_signature h @ le32 (wim_header_len h) @ le32 (wim_version h) @ le32 (wim_flags h) @ le32 (wim_chunk_len h) @
     wim_guid h @ le16 (wim_part h) @ le16 (wim_parts h) @ le32 (wim_images h) @
     resource_header_bytes (wim_lookup h) @ resource_header_bytes (wim_xml h) @ resource_header_bytes (wim_boot h) @
     le32 (wim_boot_index h) @ resource_header_bytes (wim_integrity h) @ wim_reserved h"

definition lookup_entry_bytes :: "wim_lookup_entry \<Rightarrow> bytes" where
  "lookup_entry_bytes e = resource_header_bytes (entry_resource e) @ le16 (entry_part e) @ le32 (entry_refcnt e) @ entry_hash e"

text \<open>The structures that \<open>memset\<close> fills with zeros.\<close>

definition region_empty :: wim_patch_region where
  "region_empty = \<lparr>pr_name = [], pr_opaque = No_opaque, pr_offset = 0, pr_len = 0, pr_patch = None\<rparr>"

definition regions_empty :: wim_patch_regions where
  "regions_empty = \<lparr>rs_header = region_empty, rs_file = replicate VDISK_MAX_FILES region_empty,
     rs_lookup_copy = region_empty, rs_lookup_boot = region_empty, rs_lookup_file = replicate VDISK_MAX_FILES region_empty,
     rs_boot_copy = region_empty,
     rs_boot_dir = \<lparr>dr_subdir = region_empty, dr_copy = region_empty, dr_file = replicate VDISK_MAX_FILES region_empty\<rparr>\<rparr>"

definition resource_zero :: wim_resource_header where
  "resource_zero = \<lparr>zlen__flags = 0, res_offset = 0, res_len = 0\<rparr>"

definition wim_header_zero :: wim_header where
  "wim_header_zero = \<lparr>wim_signature = replicate 8 0, wim_header_len = 0, wim_version = 0, wim_flags = 0, wim_chunk_len = 0,
     wim_guid = replicate 16 0, wim_part = 0, wim_parts = 0, wim_images = 0, wim_lookup = resource_zero, wim_xml = resource_zero,
     wim_boot = resource_zero, wim_boot_index = 0, wim_integrity = resource_zero, wim_reserved = replicate 60 0\<rparr>"

definition wim_patch_zero :: wim_patch where
  "wim_patch_zero = \<lparr>wp_file = None, wp_header = wim_header_zero, wp_lookup = resource_zero, wp_boot = resource_zero,
     wp_boot_index = 0, wp_dir = \<lparr>pd_name = [], pd_parent = 0, pd_offset = 0, pd_len = 0, pd_subdir = 0\<rparr>,
     wp_regions = regions_empty\<rparr>"

section \<open>Files to inject\<close>

definition wim_align :: "nat \<Rightarrow> nat \<Rightarrow> nat" where
  "wim_align w len = (len + 7) mod 2 ^ w div 8 * 8"

text \<open>The hash of a file, which is read in blocks of 512 bytes.\<close>

function wim_hash_loop :: "nat \<Rightarrow> struct_wim_file list \<Rightarrow> vfile list \<Rightarrow> nat \<Rightarrow> nat \<Rightarrow> sha1_context \<Rightarrow> sha1_context wim" where
  "wim_hash_loop w wfiles files k offset ctx =
     (if offset < vf_len (files ! k) then
        let len = min (vf_len (files ! k) - offset) 512 in
        wbind (vfile_read w wfiles files k offset len) (\<lambda>buf.
        wim_hash_loop w wfiles files k (offset + len) (sha1_update w ctx buf))
      else wret (Inr ctx))"
  by auto
termination by (relation "measure (\<lambda>(w, wfiles, files, k, offset, ctx). vf_len (files ! k) - offset)") auto

declare wim_hash_loop.simps [simp del]

text \<open>The context is on the stack; \<open>sha1_init\<close> does not depend on its contents.\<close>

definition wim_hash :: "nat \<Rightarrow> struct_wim_file list \<Rightarrow> vfile list \<Rightarrow> nat \<Rightarrow> bytes wim" where
  "wim_hash w wfiles files k =
     wbind (wim_hash_loop w wfiles files k 0 (sha1_init (replicate 84 0))) (\<lambda>ctx. wret (sha1_final w ctx))"

text \<open>Is a name one of a list of names?\<close>

fun name_in :: "bytes \<Rightarrow> string list \<Rightarrow> bool result" where
  "name_in name [] = Inr False"
| "name_in name (n # ns) = rbind (strcasecmp name (ascii n @ [0])) (\<lambda>d. if d = 0 then Inr True else name_in name ns)"

definition wim_inject_file :: "vfile \<Rightarrow> bool result" where
  "wim_inject_file vf =
     (if vf_read vf = None then Inr False else
      rbind (name_in (vf_name vf) [''wimboot'', ''bootmgr'', ''bootmgr.exe'', ''BCD'', ''boot.stl'']) (\<lambda>ignored.
      if ignored then Inr False else
      rbind (strlen (vf_name vf)) (\<lambda>name_len.
      let ext = (if name_len > 4 then drop (name_len - 4) (vf_name vf) else [0]) in
      rbind (name_in ext [''.wim'', ''.sdi'', ''.efi'', ''.ttf'']) (\<lambda>ignored. Inr (\<not> ignored)))))"

section \<open>Regions\<close>

text \<open>The bytes that the methods store, \<open>len\<close> of them from the relative offset \<open>offset\<close>.\<close>

text \<open>The assertions on the range within a region; one that does not hold ends in \<open>die()\<close>.\<close>

definition asserted :: "nat \<Rightarrow> nat \<Rightarrow> nat \<Rightarrow> ('s, 'a) stateful \<Rightarrow> ('s, 'a) stateful" where
  "asserted n offset len m = (if offset < n \<and> len \<le> n - offset then m else wret (Inl Died))"

definition wim_patch_header :: "wim_patch \<Rightarrow> nat \<Rightarrow> nat \<Rightarrow> bytes wim" where
  "wim_patch_header patch offset len =
     asserted (sizeof struct_wim_header) offset len (wret (rd_bytes (wim_header_bytes (wp_header patch)) offset len))"

definition wim_patch_file :: "nat \<Rightarrow> struct_wim_file list \<Rightarrow> vfile list \<Rightarrow> wim_patch_region \<Rightarrow> nat \<Rightarrow> nat \<Rightarrow> bytes wim" where
  "wim_patch_file w wfiles files region offset len =
     (case pr_opaque region of Vfile k \<Rightarrow> vfile_read w wfiles files k offset len | _ \<Rightarrow> wret (Inl Fault))"

text \<open>The image itself as a source.\<close>

definition patch_source :: "vfile list \<Rightarrow> wim_patch \<Rightarrow> source" where
  "patch_source files patch = (case wp_file patch of Some f \<Rightarrow> file_source f (files ! f)
     | None \<Rightarrow> \<lparr>src_file = 0, src_len = 0, src_read = (\<lambda>_ _. Inl Fault)\<rparr>)"

definition wim_patch_lookup_copy :: "nat \<Rightarrow> vfile list \<Rightarrow> wim_patch \<Rightarrow> nat \<Rightarrow> nat \<Rightarrow> bytes wim" where
  "wim_patch_lookup_copy w files patch offset len = wim_read w (patch_source files patch) (wp_header patch) (wp_lookup patch) offset len"

definition wim_patch_lookup_boot :: "wim_patch \<Rightarrow> nat \<Rightarrow> nat \<Rightarrow> bytes wim" where
  "wim_patch_lookup_boot patch offset len =
     (let entry = \<lparr>entry_resource = wim_boot (wp_header patch), entry_part = 0, entry_refcnt = 0, entry_hash = replicate 20 0\<rparr>
      in asserted (sizeof struct_wim_lookup_entry) offset len (wret (rd_bytes (lookup_entry_bytes entry) offset len)))"

text \<open>The region and the file behind the pointer of a region.\<close>

definition opaque_file :: "wim_patch \<Rightarrow> wim_patch_region \<Rightarrow> (wim_patch_region \<times> nat) result" where
  "opaque_file patch region =
     (case pr_opaque region of
        Rfile i \<Rightarrow> if i < length (rs_file (wp_regions patch)) then
            (let rfile = rs_file (wp_regions patch) ! i in
             case pr_opaque rfile of Vfile k \<Rightarrow> Inr (rfile, k) | _ \<Rightarrow> Inl Fault)
          else Inl Fault
      | _ \<Rightarrow> Inl Fault)"

definition wim_patch_lookup_file :: "nat \<Rightarrow> struct_wim_file list \<Rightarrow> vfile list \<Rightarrow> wim_patch \<Rightarrow> wim_patch_region \<Rightarrow> nat \<Rightarrow> nat \<Rightarrow> bytes wim" where
  "wim_patch_lookup_file w wfiles files patch region offset len =
     wbind (wret (opaque_file patch region)) (\<lambda>(rfile, k).
     asserted (sizeof struct_wim_lookup_entry) offset len (wbind (wim_hash w wfiles files k) (\<lambda>hash.
     let entry = \<lparr>entry_resource = \<lparr>zlen__flags = vf_len (files ! k), res_offset = pr_offset rfile, res_len = vf_len (files ! k)\<rparr>,
           entry_part = 0, entry_refcnt = 1, entry_hash = hash\<rparr>
     in wret (rd_bytes (lookup_entry_bytes entry) offset len))))"

definition wim_patch_boot_copy :: "nat \<Rightarrow> vfile list \<Rightarrow> wim_patch \<Rightarrow> nat \<Rightarrow> nat \<Rightarrow> bytes wim" where
  "wim_patch_boot_copy w files patch offset len = wim_read w (patch_source files patch) (wp_header patch) (wp_boot patch) offset len"

definition wim_patch_dir_subdir :: "wim_patch \<Rightarrow> nat \<Rightarrow> nat \<Rightarrow> bytes wim" where
  "wim_patch_dir_subdir patch offset len = asserted 8 offset len (wret (rd_bytes (le64 (pd_subdir (wp_dir patch))) offset len))"

definition wim_patch_dir_copy :: "nat \<Rightarrow> vfile list \<Rightarrow> wim_patch \<Rightarrow> nat \<Rightarrow> nat \<Rightarrow> bytes wim" where
  "wim_patch_dir_copy w files patch offset len =
     wim_read w (patch_source files patch) (wp_header patch) (wp_boot patch) ((pd_offset (wp_dir patch) + offset) mod 2 ^ w) len"

text \<open>The name is stored as wide characters, the members that are not set are zero.\<close>

definition wim_patch_dir_entry :: "nat \<Rightarrow> bytes \<Rightarrow> bytes \<Rightarrow> bytes" where
  "wim_patch_dir_entry w hash name =
     render struct_wim_patch_dir_entry
       [''len'' \<mapsto> le64 (wim_align w (sizeof struct_wim_patch_dir_entry)), ''attributes'' \<mapsto> le32 WIM_ATTR_NORMAL,
        ''security'' \<mapsto> le32 WIM_NO_SECURITY, ''created'' \<mapsto> le64 WIM_MAGIC_TIME, ''accessed'' \<mapsto> le64 WIM_MAGIC_TIME,
        ''written'' \<mapsto> le64 WIM_MAGIC_TIME, ''hash'' \<mapsto> hash, ''name_len'' \<mapsto> le16 (2 * length name),
        ''name'' \<mapsto> overlay 0 (units (map scast name)) (replicate (2 * (VDISK_NAME_LEN + 1)) 0)]"

definition wim_patch_dir_file :: "nat \<Rightarrow> struct_wim_file list \<Rightarrow> vfile list \<Rightarrow> wim_patch \<Rightarrow> wim_patch_region \<Rightarrow> nat \<Rightarrow> nat \<Rightarrow> bytes wim" where
  "wim_patch_dir_file w wfiles files patch region offset len =
     wbind (wret (opaque_file patch region)) (\<lambda>(rfile, k).
     wbind (wret (strlen (vf_name (files ! k)))) (\<lambda>name_len.
     asserted (sizeof struct_wim_patch_dir_entry) offset len (wbind (wim_hash w wfiles files k) (\<lambda>hash.
     wret (if name_len > VDISK_NAME_LEN + 1 then Inl Fault
           else rd_bytes (wim_patch_dir_entry w hash (take name_len (vf_name (files ! k)))) offset len)))))"

text \<open>The method behind the pointer in a region.\<close>

definition call_region :: "nat \<Rightarrow> struct_wim_file list \<Rightarrow> vfile list \<Rightarrow> wim_patch \<Rightarrow> wim_patch_region \<Rightarrow> region_patch \<Rightarrow> nat \<Rightarrow> nat \<Rightarrow> bytes wim" where
  "call_region w wfiles files patch region p offset len =
     (case p of
        Patch_header \<Rightarrow> wim_patch_header patch offset len
      | Patch_file \<Rightarrow> wim_patch_file w wfiles files region offset len
      | Patch_lookup_copy \<Rightarrow> wim_patch_lookup_copy w files patch offset len
      | Patch_lookup_boot \<Rightarrow> wim_patch_lookup_boot patch offset len
      | Patch_lookup_file \<Rightarrow> wim_patch_lookup_file w wfiles files patch region offset len
      | Patch_boot_copy \<Rightarrow> wim_patch_boot_copy w files patch offset len
      | Patch_dir_subdir \<Rightarrow> wim_patch_dir_subdir patch offset len
      | Patch_dir_copy \<Rightarrow> wim_patch_dir_copy w files patch offset len
      | Patch_dir_file \<Rightarrow> wim_patch_dir_file w wfiles files patch region offset len)"

definition wim_patch_region :: "nat \<Rightarrow> struct_wim_file list \<Rightarrow> vfile list \<Rightarrow> wim_patch \<Rightarrow> wim_patch_region \<Rightarrow> bytes option \<Rightarrow> nat \<Rightarrow> nat
      \<Rightarrow> bytes option wim" where
  "wim_patch_region w wfiles files patch region data offset len =
     (case pr_patch region of None \<Rightarrow> wret (Inr data)
      | Some p \<Rightarrow>
          let skip = (if pr_offset region > offset then pr_offset region - offset else 0)
          in if skip \<ge> len then wret (Inr data) else
             let len = len - skip;
                 offset = offset + skip - pr_offset region
             in if offset \<ge> pr_len region then wret (Inr data) else
                let len = min len (pr_len region - offset)
                in case data of None \<Rightarrow> wret (Inl Fault)
                   | Some data \<Rightarrow> wbind (call_region w wfiles files patch region p offset len) (\<lambda>bs.
                       wret (rbind (wr_bytes data skip bs) (\<lambda>data. Inr (Some data)))))"

fun wim_patch_all :: "nat \<Rightarrow> struct_wim_file list \<Rightarrow> vfile list \<Rightarrow> wim_patch \<Rightarrow> wim_patch_region list \<Rightarrow> bytes option \<Rightarrow> nat \<Rightarrow> nat
      \<Rightarrow> bytes option wim" where
  "wim_patch_all w wfiles files patch [] data offset len = wret (Inr data)"
| "wim_patch_all w wfiles files patch (region # regions) data offset len =
     wbind (wim_patch_region w wfiles files patch region data offset len) (\<lambda>data.
     wim_patch_all w wfiles files patch regions data offset len)"

section \<open>Construction of a patch\<close>

definition wim_construct_region :: "nat \<Rightarrow> bytes \<Rightarrow> region_opaque \<Rightarrow> nat \<Rightarrow> nat \<Rightarrow> region_patch \<Rightarrow> wim_patch_region \<times> nat" where
  "wim_construct_region w name opaque offset len p =
     (\<lparr>pr_name = name, pr_opaque = opaque, pr_offset = offset, pr_len = len, pr_patch = Some p\<rparr>, (offset + len) mod 2 ^ w)"

text \<open>The regions of the contents of injected files, the next offset and the number of files, from the file \<open>i\<close> on.\<close>

fun wim_construct_files :: "nat \<Rightarrow> nat \<Rightarrow> vfile list \<Rightarrow> nat \<Rightarrow> (wim_patch_region list \<times> nat \<times> nat) result" where
  "wim_construct_files w i [] offset = Inr ([], offset, 0)"
| "wim_construct_files w i (vf # vfs) offset =
     rbind (wim_inject_file vf) (\<lambda>inject.
     if \<not> inject then
       rbind (wim_construct_files w (i + 1) vfs offset) (\<lambda>(rs, offset, injected). Inr (region_empty # rs, offset, injected))
     else
       let (r, offset) = wim_construct_region w (vf_name vf) (Vfile i) offset (vf_len vf) Patch_file in
       rbind (wim_construct_files w (i + 1) vfs offset) (\<lambda>(rs, offset, injected). Inr (r # rs, offset, injected + 1)))"

text \<open>The regions of the lookup table entries of these files.\<close>

fun wim_construct_lookup :: "nat \<Rightarrow> nat \<Rightarrow> wim_patch_region list \<Rightarrow> nat \<Rightarrow> wim_patch_region list \<times> nat" where
  "wim_construct_lookup w i [] offset = ([], offset)"
| "wim_construct_lookup w i (rfile # rfiles) offset =
     (if pr_patch rfile = None then
        let (rs, offset) = wim_construct_lookup w (i + 1) rfiles offset in (region_empty # rs, offset)
      else
        let (r, offset) = wim_construct_region w (ascii ''lookup.file'') (Rfile i) offset (sizeof struct_wim_lookup_entry) Patch_lookup_file;
            (rs, offset) = wim_construct_lookup w (i + 1) rfiles offset
        in (r # rs, offset))"

text \<open>The regions of their directory entries, which are aligned.\<close>

fun wim_construct_dir_files :: "nat \<Rightarrow> nat \<Rightarrow> wim_patch_region list \<Rightarrow> nat \<Rightarrow> wim_patch_region list \<times> nat" where
  "wim_construct_dir_files w i [] offset = ([], offset)"
| "wim_construct_dir_files w i (rfile # rfiles) offset =
     (if pr_patch rfile = None then
        let (rs, offset) = wim_construct_dir_files w (i + 1) rfiles offset in (region_empty # rs, offset)
      else
        let (r, offset) = wim_construct_region w (ascii ''dir.file'') (Rfile i) offset (sizeof struct_wim_patch_dir_entry) Patch_dir_file;
            (rs, offset) = wim_construct_dir_files w (i + 1) rfiles (wim_align w offset)
        in (r # rs, offset))"

definition wim_construct_dir :: "nat \<Rightarrow> wim_patch \<Rightarrow> nat \<Rightarrow> wim_patch \<times> nat" where
  "wim_construct_dir w patch offset =
     (let dir = wp_dir patch;
          boot_offset = res_offset (wim_boot (wp_header patch)) mod 2 ^ w;
          offset = wim_align w offset;
          dir = dir\<lparr>pd_subdir := (offset + (2 ^ w - boot_offset)) mod 2 ^ w\<rparr>;
          (files, offset) = wim_construct_dir_files w 0 (rs_file (wp_regions patch)) offset;
          (copy, offset) = wim_construct_region w (ascii (pd_name dir)) Dir offset (pd_len dir) Patch_dir_copy;
          offset = (offset + 8) mod 2 ^ w;
          (subdir, _) = wim_construct_region w (ascii ''dir.subdir'') Dir
            ((boot_offset + pd_parent dir + offset_of struct_wim_directory_entry ''subdir'') mod 2 ^ w) 8 Patch_dir_subdir
      in (patch\<lparr>wp_dir := dir,
            wp_regions := (wp_regions patch)\<lparr>rs_boot_dir := \<lparr>dr_subdir = subdir, dr_copy = copy, dr_file = files\<rparr>\<rparr>\<rparr>, offset))"

text \<open>The lookup table and the boot metadata of the injected image; the files are those at \<open>offset\<close>.\<close>

definition wim_construct_lookup_regions :: "nat \<Rightarrow> wim_patch \<Rightarrow> nat \<Rightarrow> wim_patch \<times> nat" where
  "wim_construct_lookup_regions w patch offset =
     (let start = wim_align w offset;
          (copy, offset) = wim_construct_region w (ascii ''lookup.copy'') No_opaque start (res_len (wp_lookup patch) mod 2 ^ w) Patch_lookup_copy;
          (boot, offset) = wim_construct_region w (ascii ''lookup.boot'') No_opaque offset (sizeof struct_wim_lookup_entry) Patch_lookup_boot;
          (files, offset) = wim_construct_lookup w 0 (rs_file (wp_regions patch)) offset;
          len = (offset + (2 ^ 64 - start)) mod 2 ^ 64
      in (patch\<lparr>wp_header := (wp_header patch)\<lparr>wim_lookup := \<lparr>zlen__flags = len, res_offset = start, res_len = len\<rparr>\<rparr>,
            wp_regions := (wp_regions patch)\<lparr>rs_lookup_copy := copy, rs_lookup_boot := boot, rs_lookup_file := files\<rparr>\<rparr>, offset))"

definition wim_construct_boot_regions :: "nat \<Rightarrow> wim_patch \<Rightarrow> nat \<Rightarrow> wim_patch \<times> nat" where
  "wim_construct_boot_regions w patch offset =
     (let start = wim_align w offset;
          (copy, offset) = wim_construct_region w (ascii ''boot.copy'') No_opaque start (res_len (wp_boot patch) mod 2 ^ w) Patch_boot_copy;
          patch = patch\<lparr>wp_header := (wp_header patch)\<lparr>wim_boot := (wim_boot (wp_header patch))\<lparr>res_offset := start\<rparr>\<rparr>,
            wp_regions := (wp_regions patch)\<lparr>rs_boot_copy := copy\<rparr>\<rparr>;
          (patch, offset) = wim_construct_dir w patch offset;
          len = (offset + (2 ^ 64 - start)) mod 2 ^ 64
      in (patch\<lparr>wp_header := (wp_header patch)\<lparr>wim_boot :=
            \<lparr>zlen__flags = unat (word_of_nat len OR WIM_RESHDR_METADATA), res_offset = start, res_len = len\<rparr>\<rparr>\<rparr>, offset))"

definition wide_string :: "string \<Rightarrow> u16 list" where
  "wide_string s = map of_char s @ [0]"

text \<open>
  The file gets the length of the image with everything that was appended. A failure leaves the patch incomplete;
  the caller never goes on then.
\<close>

definition wim_construct_inject :: "nat \<Rightarrow> vfile list \<Rightarrow> nat \<Rightarrow> wim_patch \<Rightarrow> (vfile list \<times> wim_patch) wim" where
  "wim_construct_inject w files f patch =
     (let src = file_source f (files ! f) in
      wbind (wret (wim_construct_files w 0 files (vf_len (files ! f)))) (\<lambda>(rfiles, offset, injected).
      let patch = patch\<lparr>wp_regions := (wp_regions patch)\<lparr>rs_file := rfiles\<rparr>\<rparr> in
      if injected = 0 then wret (Inr (files, patch)) else
      wbind (wim_count w src (wp_header patch)) (\<lambda>count.
      let images = (count + 1) mod 2 ^ 32;
          patch = patch\<lparr>wp_header := (wp_header patch)\<lparr>wim_images := images, wim_boot_index := images\<rparr>\<rparr>;
          (patch, offset) = wim_construct_lookup_regions w patch offset
      in wbind (wim_path w src (wp_header patch) (wp_boot patch) (wide_string WIM_INJECT_DIR)) (\<lambda>(parent, direntry).
         let dir_offset = dir_subdir direntry mod 2 ^ w in
         wbind (wim_dir_len w src (wp_header patch) (wp_boot patch) dir_offset) (\<lambda>dir_len.
         let patch = patch\<lparr>wp_dir := \<lparr>pd_name = WIM_INJECT_DIR, pd_parent = parent, pd_offset = dir_offset, pd_len = dir_len, pd_subdir = 0\<rparr>\<rparr>;
             (patch, offset) = wim_construct_boot_regions w patch offset
         in wret (Inr (files[f := (files ! f)\<lparr>vf_xlen := offset\<rparr>], patch)))))))"

definition wim_construct_patch :: "nat \<Rightarrow> vfile list \<Rightarrow> nat \<Rightarrow> nat \<Rightarrow> bool \<Rightarrow> (vfile list \<times> wim_patch) wim" where
  "wim_construct_patch w files f boot_index inject =
     (if length files \<le> f then wret (Inl Fault) else
      let patch = wim_patch_zero\<lparr>wp_file := Some f\<rparr>;
          files = files[f := (files ! f)\<lparr>vf_xlen := vf_len (files ! f)\<rparr>];
          src = file_source f (files ! f)
      in wbind (wret (wim_header src)) (\<lambda>header.
         let (region, _) = wim_construct_region w (ascii ''header'') No_opaque 0 (sizeof struct_wim_header) Patch_header in
         wbind (wim_metadata w src header boot_index) (\<lambda>boot.
         let patch = patch\<lparr>
               wp_header := (if boot_index \<noteq> 0 then header\<lparr>wim_boot := boot, wim_boot_index := boot_index\<rparr> else header),
               wp_lookup := wim_lookup header, wp_boot := boot, wp_boot_index := wim_boot_index header,
               wp_regions := regions_empty\<lparr>rs_header := region\<rparr>\<rparr>
         in if \<not> inject then wret (Inr (files, patch)) else wim_construct_inject w files f patch)))"

section \<open>The patch method\<close>

text \<open>The static variables of the methods: the cache of \<open>wim.c\<close> and the patch.\<close>

record statics =
  st_cache :: wim_cache
  st_patch :: wim_patch

definition on_cache :: "'a wim \<Rightarrow> (statics, 'a) stateful" where
  "on_cache m s = (let (r, c) = m (st_cache s) in (r, s\<lparr>st_cache := c\<rparr>))"

definition set_patch :: "wim_patch \<Rightarrow> (statics, unit) stateful" where
  "set_patch patch s = (Inr (), s\<lparr>st_patch := patch\<rparr>)"

definition stateful_or_die :: "('s, 'a) stateful \<Rightarrow> ('s, 'a) stateful" where
  "stateful_or_die m s = (let (r, s) = m s in (or_die r, s))"

definition patch_wim :: "nat \<Rightarrow> struct_wim_file list \<Rightarrow> options \<Rightarrow> vfile list \<Rightarrow> nat \<Rightarrow> bytes option \<Rightarrow> nat \<Rightarrow> nat
      \<Rightarrow> (statics, vfile list \<times> bytes option) stateful" where
  "patch_wim w wfiles opts files f data offset len =
     (let boot_index = cmdline_index opts;
          inject = (cmdline_rawwim opts = 0)
      in if boot_index = 0 \<and> \<not> inject then wret (Inr (files, data)) else
         (\<lambda>s. wbind (if wp_file (st_patch s) \<noteq> Some f then
             wbind (stateful_or_die (on_cache (wim_construct_patch w files f boot_index inject))) (\<lambda>(files, patch).
             wbind (set_patch patch) (\<lambda>_. wret (Inr (files, patch))))
           else wret (Inr (files, st_patch s))) (\<lambda>(files, patch).
         wbind (stateful_or_die (on_cache (wim_patch_all w wfiles files patch (rs_region (wp_regions patch)) data offset len))) (\<lambda>data.
         wret (Inr (files, data)))) s))"

end
