(* ===== verification/Boot_Disk.thy ===== *)
theory Boot_Disk
  imports Wimpatch
begin

text \<open>
  The virtual disk with the files and methods of the program: files in memory, files within a WIM image, and the patched
  image itself. The laws of the disk are proved for these methods, so that the sectors of the disk are those
  of a disk image with these files.
\<close>

section \<open>Reading\<close>

lemma wim_chunk_flags: "wim_flags h = wim_flags h' \<Longrightarrow> wim_chunk w src h = wim_chunk w src h'"
  by (intro ext) (simp only: wim_chunk_def)

lemma wim_load_flags: "wim_flags h = wim_flags h' \<Longrightarrow> wim_load w src h = wim_load w src h'"
  by (drule wim_chunk_flags [of h h' w src]) (intro ext, simp only: wim_load_def)

lemma wim_read_chunks_flags:
  assumes "wim_flags h = wim_flags h'"
  shows "wim_read_chunks w src h res offset len = wim_read_chunks w src h' res offset len"
proof (induction len arbitrary: offset rule: less_induct)
  case (less len)
  show ?case
  proof (cases "len = 0")
    case True
    then show ?thesis by (simp add: wim_read_chunks.simps)
  next
    case False
    define frag where "frag = min (WIM_CHUNK_LEN - offset mod WIM_CHUNK_LEN) len"
    have "len - frag < len" using False by (simp add: frag_def WIM_CHUNK_LEN_def)
    from less.IH [OF this, of "(offset + frag) mod 2 ^ w"] show ?thesis
      by (simp only: wim_read_chunks.simps [of w src h res offset len] wim_read_chunks.simps [of w src h' res offset len] False if_False Let_def
          frag_def wim_load_flags [OF assms, of w src])
  qed
qed

text \<open>Of the header, reads use the flags.\<close>

lemma wim_read_flags: "wim_flags h = wim_flags h' \<Longrightarrow> wim_read w src h = wim_read w src h'"
proof (intro ext)
  fix res off len s
  assume "wim_flags h = wim_flags h'"
  then have "wim_read_chunks w src h res off len = wim_read_chunks w src h' res off len" by (rule wim_read_chunks_flags)
  then show "wim_read w src h res off len s = wim_read w src h' res off len s" by (simp only: wim_read_def)
qed

lemma returns_wim_read:
  assumes "resources_ok w src hdr R" "res \<in> R" "w \<le> 64" "reads_windows src" "resource_bytes w src hdr res = Inr bs"
    "res_offset res + zlen_of res \<le> src_len src" "offset + len \<le> res_len res" "wim_flags h = wim_flags hdr"
  shows "returns (cache_ok w src hdr R) (wim_read w src h res offset len) (window offset len bs)"
  unfolding returns_def
proof (intro allI impI)
  fix s assume s: "cache_ok w src hdr R s"
  have ok: "resource_ok w src hdr res" using assms(1,2) by (simp add: resources_ok_def)
  then have "offset + len < 2 ^ w" using assms(7) by (simp add: resource_ok_def)
  from wim_read_cached [OF assms(1,2) this s assms(3)] read_resource_window [OF ok assms(4-7)] wim_read_flags [OF assms(8)]
  show "fst (wim_read w src h res offset len s) = Inr (window offset len bs) \<and> cache_ok w src hdr R (snd (wim_read w src h res offset len s))"
    by auto
qed

section \<open>Files\<close>

text \<open>The content of a file.\<close>

definition vcontent :: "nat \<Rightarrow> struct_wim_file list \<Rightarrow> vfile list \<Rightarrow> nat \<Rightarrow> bytes" where
  "vcontent w wfiles files k =
     (case vf_opaque (files ! k) of
        Null \<Rightarrow> []
      | Data data \<Rightarrow> take (vf_len (files ! k)) data
      | Wim_entry i \<Rightarrow> (let wf = wfiles ! i in
          case resource_bytes w (file_source (wf_file wf) (files ! wf_file wf)) (wf_header wf) (wf_resource wf) of
            Inr bs \<Rightarrow> bs | Inl e \<Rightarrow> []))"

text \<open>A file in memory, which may be followed by other data.\<close>

definition memory_file :: "vfile \<Rightarrow> bool" where
  "memory_file vf \<longleftrightarrow> vf_read vf = Some Read_file \<and> (\<exists>data. vf_opaque vf = Data data \<and> vf_len vf \<le> length data)"

text \<open>A resource of the image \<open>f\<close>, one of the set \<open>R\<close>, that can be read.\<close>

definition readable :: "nat \<Rightarrow> vfile list \<Rightarrow> nat \<Rightarrow> wim_header \<Rightarrow> wim_resource_header set \<Rightarrow> wim_resource_header \<Rightarrow> bytes \<Rightarrow> bool" where
  "readable w files f hdr R res bs \<longleftrightarrow> res \<in> R \<and> resource_bytes w (file_source f (files ! f)) hdr res = Inr bs \<and>
     length bs = res_len res \<and> res_offset res + zlen_of res \<le> vf_len (files ! f)"

text \<open>An entry of the table of WIM files.\<close>

definition wim_entry_ok :: "nat \<Rightarrow> struct_wim_file list \<Rightarrow> vfile list \<Rightarrow> nat \<Rightarrow> wim_header \<Rightarrow> wim_resource_header set \<Rightarrow> nat \<Rightarrow> nat \<Rightarrow> bool" where
  "wim_entry_ok w wfiles files f hdr R i len \<longleftrightarrow> i < length wfiles \<and> f < length files \<and> memory_file (files ! f) \<and>
     wf_file (wfiles ! i) = f \<and> wf_header (wfiles ! i) = hdr \<and> len = res_len (wf_resource (wfiles ! i)) \<and>
     (\<exists>bs. readable w files f hdr R (wf_resource (wfiles ! i)) bs)"

text \<open>Lengths are of type \<open>size_t\<close>, which has \<open>w\<close> bits.\<close>

definition vfile_ok :: "nat \<Rightarrow> struct_wim_file list \<Rightarrow> vfile list \<Rightarrow> nat \<Rightarrow> wim_header \<Rightarrow> wim_resource_header set \<Rightarrow> nat \<Rightarrow> bool" where
  "vfile_ok w wfiles files f hdr R k \<longleftrightarrow> 32 \<le> w \<and> vf_len (files ! k) < 2 ^ w \<and>
     (case vf_read (files ! k) of
        None \<Rightarrow> vf_len (files ! k) = 0 \<and> vf_opaque (files ! k) = Null
      | Some Read_file \<Rightarrow> memory_file (files ! k)
      | Some Wim_read_file \<Rightarrow> (case vf_opaque (files ! k) of
          Wim_entry i \<Rightarrow> wim_entry_ok w wfiles files f hdr R i (vf_len (files ! k)) | _ \<Rightarrow> False))"

lemma memory_windows: "reads_windows (file_source i vf)"
proof (cases "vf_opaque vf")
  case (Data data)
  then show ?thesis using memory_source_windows [of data]
    by (auto simp: file_source_def read_file_def reads_windows_def memory_source_def)
qed (auto simp: file_source_def read_file_def reads_windows_def)

lemma length_vcontent: "vfile_ok w wfiles files f hdr R k \<Longrightarrow> length (vcontent w wfiles files k) = vf_len (files ! k)"
  by (auto simp: vfile_ok_def vcontent_def memory_file_def wim_entry_ok_def readable_def Let_def
      split: option.splits reader.splits opaque.splits)

text \<open>The state in which all reads of the image go right.\<close>

definition cache_good :: "nat \<Rightarrow> nat \<Rightarrow> wim_header \<Rightarrow> wim_resource_header set \<Rightarrow> vfile list \<Rightarrow> wim_cache \<Rightarrow> bool" where
  "cache_good w f hdr R files c \<longleftrightarrow> cache_ok w (file_source f (files ! f)) hdr R c"

lemma returns_readable:
  assumes "resources_ok w (file_source f (files ! f)) hdr R" "w \<le> 64" "readable w files f hdr R res bs" "offset + len \<le> res_len res"
    "wim_flags h = wim_flags hdr"
  shows "returns (cache_good w f hdr R files) (wim_read w (file_source f (files ! f)) h res offset len) (window offset len bs)"
proof -
  have "src_len (file_source f (files ! f)) = vf_len (files ! f)" by (simp add: file_source_def)
  then have "returns (cache_ok w (file_source f (files ! f)) hdr R) (wim_read w (file_source f (files ! f)) h res offset len) (window offset len bs)"
    using assms by (intro returns_wim_read [OF assms(1)] memory_windows) (auto simp: readable_def)
  moreover have "cache_good w f hdr R files = cache_ok w (file_source f (files ! f)) hdr R" by (simp add: fun_eq_iff cache_good_def)
  ultimately show ?thesis by simp
qed

lemma returns_or_die:
  assumes "returns good m x"
  shows "returns good (\<lambda>s. case m s of (r, s) \<Rightarrow> (or_die r, s)) x"
  using assms by (auto simp: returns_def or_die_def split: prod.split sum.split)

text \<open>Reading any window of a file yields that window of its content.\<close>

lemma returns_call_read:
  assumes "resources_ok w (file_source f (files ! f)) hdr R" "w \<le> 64" "vfile_ok w wfiles files f hdr R k" "vf_read (files ! k) = Some r"
    "off + n \<le> vf_len (files ! k)"
  shows "returns (cache_good w f hdr R files) (call_read w wfiles r files k off n) (window off n (vcontent w wfiles files k))"
proof (cases r)
  case Read_file
  then obtain data where "vf_opaque (files ! k) = Data data" "vf_len (files ! k) \<le> length data"
    using assms(3,4) by (auto simp: vfile_ok_def memory_file_def)
  then show ?thesis using Read_file assms(5) rd_bytes_take [of off n "vf_len (files ! k)" data]
    by (auto simp: read_file_def vcontent_def rd_bytes_def intro!: returns_wret)
next
  case Wim_read_file
  then obtain i where i: "vf_opaque (files ! k) = Wim_entry i" "wim_entry_ok w wfiles files f hdr R i (vf_len (files ! k))"
    using assms(3,4) by (auto simp: vfile_ok_def split: opaque.splits)
  then obtain bs where bs: "readable w files f hdr R (wf_resource (wfiles ! i)) bs" by (auto simp: wim_entry_ok_def)
  have "returns (cache_good w f hdr R files) (wim_read w (file_source f (files ! f)) hdr (wf_resource (wfiles ! i)) off n) (window off n bs)"
    using i assms(5) by (intro returns_readable [OF assms(1,2) bs]) (auto simp: wim_entry_ok_def)
  moreover have "vcontent w wfiles files k = bs"
    using i bs by (auto simp: vcontent_def wim_entry_ok_def readable_def)
  moreover have "call_read w wfiles r files k off n =
      (\<lambda>s. case wim_read w (file_source f (files ! f)) hdr (wf_resource (wfiles ! i)) off n s of (r, s) \<Rightarrow> (or_die r, s))"
    using i Wim_read_file by (auto simp: wim_read_file_def wim_entry_ok_def fun_eq_iff)
  ultimately show ?thesis by (simp add: returns_or_die)
qed

lemma returns_vfile_read:
  assumes "resources_ok w (file_source f (files ! f)) hdr R" "w \<le> 64" "vfile_ok w wfiles files f hdr R k" "vf_read (files ! k) \<noteq> None"
    "k < length files" "off + n \<le> vf_len (files ! k)"
  shows "returns (cache_good w f hdr R files) (vfile_read w wfiles files k off n) (window off n (vcontent w wfiles files k))"
proof -
  obtain r where "vf_read (files ! k) = Some r" using assms(4) by auto
  with returns_call_read [OF assms(1-3) this assms(6)] assms(5) show ?thesis by (simp add: vfile_read_def)
qed

text \<open>The hash of a file is the SHA-1 digest of its content.\<close>

lemma returns_hash_loop:
  assumes "resources_ok w (file_source f (files ! f)) hdr R" "w \<le> 64" "vfile_ok w wfiles files f hdr R k" "vf_read (files ! k) \<noteq> None"
    "k < length files"
  shows "off \<le> vf_len (files ! k) \<Longrightarrow> sha1_ctx w (take off (vcontent w wfiles files k)) ctx \<Longrightarrow>
    \<exists>ctx'. sha1_ctx w (vcontent w wfiles files k) ctx' \<and> returns (cache_good w f hdr R files) (wim_hash_loop w wfiles files k off ctx) ctx'"
proof (induction "vf_len (files ! k) - off" arbitrary: off ctx rule: less_induct)
  case less
  let ?c = "vcontent w wfiles files k"
  have c: "length ?c = vf_len (files ! k)" using length_vcontent [OF assms(3)] .
  show ?case
  proof (cases "off < vf_len (files ! k)")
    case False
    then have "off = vf_len (files ! k)" using less.prems(1) by simp
    then have "sha1_ctx w ?c ctx" using less.prems(2) c by simp
    moreover have "wim_hash_loop w wfiles files k off ctx = wret (Inr ctx)" using False by (subst wim_hash_loop.simps) simp
    ultimately show ?thesis using returns_wret by (intro exI [of _ ctx]) simp
  next
    case True
    define n where "n = min (vf_len (files ! k) - off) 512"
    have n: "0 < n" "off + n \<le> vf_len (files ! k)" using True by (auto simp: n_def)
    have rd: "returns (cache_good w f hdr R files) (vfile_read w wfiles files k off n) (window off n ?c)"
      using returns_vfile_read [OF assms n(2)] .
    have "take off ?c @ window off n ?c = take (off + n) ?c" by (simp add: window_def take_add)
    then have "sha1_ctx w (take (off + n) ?c) (sha1_update w ctx (window off n ?c))"
      using sha1_update_ctx [OF less.prems(2), of "window off n ?c"] by simp
    from less.hyps [OF _ n(2) this] n True obtain ctx' where ctx': "sha1_ctx w ?c ctx'"
      "returns (cache_good w f hdr R files) (wim_hash_loop w wfiles files k (off + n) (sha1_update w ctx (window off n ?c))) ctx'"
      by (auto simp: diff_less_mono2)
    have "wim_hash_loop w wfiles files k off ctx = wbind (vfile_read w wfiles files k off n) (\<lambda>buf. wim_hash_loop w wfiles files k (off + n) (sha1_update w ctx buf))"
      using True by (subst wim_hash_loop.simps) (simp add: Let_def n_def)
    then have "returns (cache_good w f hdr R files) (wim_hash_loop w wfiles files k off ctx) ctx'"
      using ctx'(2) by (simp only: returns_bind [OF rd])
    then show ?thesis using ctx'(1) by blast
  qed
qed

lemma returns_wim_hash:
  assumes "resources_ok w (file_source f (files ! f)) hdr R" "w \<le> 64" "vfile_ok w wfiles files f hdr R k" "vf_read (files ! k) \<noteq> None"
    "k < length files"
  shows "returns (cache_good w f hdr R files) (wim_hash w wfiles files k) (sha1_spec (vcontent w wfiles files k))"
proof -
  have init: "sha1_ctx w (take 0 (vcontent w wfiles files k)) (sha1_init (replicate 84 0))"
    and len: "length (vcontent w wfiles files k) < 2 ^ w"
    using assms(3) length_vcontent [OF assms(3)] by (simp_all add: sha1_init_ctx vfile_ok_def)
  from returns_hash_loop [OF assms _ init] obtain ctx where ctx: "sha1_ctx w (vcontent w wfiles files k) ctx"
    "returns (cache_good w f hdr R files) (wim_hash_loop w wfiles files k 0 (sha1_init (replicate 84 0))) ctx" by auto
  show ?thesis
    unfolding wim_hash_def by (rule returns_bind [OF ctx(2)]) (simp add: sha1_final_ctx [OF ctx(1) len] returns_wret)
qed

end
