(* ===== verification/Patched_Image.thy ===== *)
theory Patched_Image
  imports Boot_Disk
begin

text \<open>
  What a patched WIM image contains: the content of the file, padded with zeros, on which the bytes of the regions are laid
  in order. Patching any window of the file yields that window of the patched image.
\<close>

section \<open>The bytes of a region\<close>

text \<open>The uncompressed content of a resource.\<close>

definition resource_content :: "nat \<Rightarrow> vfile list \<Rightarrow> nat \<Rightarrow> wim_header \<Rightarrow> wim_resource_header \<Rightarrow> bytes" where
  "resource_content w files f hdr res =
     (case resource_bytes w (file_source f (files ! f)) hdr res of Inr bs \<Rightarrow> bs | Inl e \<Rightarrow> [])"

definition injected_file :: "wim_patch \<Rightarrow> wim_patch_region \<Rightarrow> wim_patch_region \<times> nat" where
  "injected_file patch r = (case opaque_file patch r of Inr rk \<Rightarrow> rk | Inl e \<Rightarrow> (region_empty, 0))"

definition lookup_entry_of :: "nat \<Rightarrow> struct_wim_file list \<Rightarrow> vfile list \<Rightarrow> wim_patch_region \<times> nat \<Rightarrow> wim_lookup_entry" where
  "lookup_entry_of w wfiles files rk = (case rk of (rfile, k) \<Rightarrow>
     \<lparr>entry_resource = \<lparr>zlen__flags = vf_len (files ! k), res_offset = pr_offset rfile, res_len = vf_len (files ! k)\<rparr>,
      entry_part = 0, entry_refcnt = 1, entry_hash = sha1_spec (vcontent w wfiles files k)\<rparr>)"

definition region_bytes :: "nat \<Rightarrow> struct_wim_file list \<Rightarrow> vfile list \<Rightarrow> wim_header \<Rightarrow> wim_patch \<Rightarrow> wim_patch_region \<Rightarrow> region_patch \<Rightarrow> bytes" where
  "region_bytes w wfiles files hdr patch r p =
     (let f = the (wp_file patch) in
      case p of
        Patch_header \<Rightarrow> wim_header_bytes (wp_header patch)
      | Patch_file \<Rightarrow> (case pr_opaque r of Vfile k \<Rightarrow> vcontent w wfiles files k | _ \<Rightarrow> [])
      | Patch_lookup_copy \<Rightarrow> resource_content w files f hdr (wp_lookup patch)
      | Patch_lookup_boot \<Rightarrow> lookup_entry_bytes
          \<lparr>entry_resource = wim_boot (wp_header patch), entry_part = 0, entry_refcnt = 0, entry_hash = replicate 20 0\<rparr>
      | Patch_lookup_file \<Rightarrow> lookup_entry_bytes (lookup_entry_of w wfiles files (injected_file patch r))
      | Patch_boot_copy \<Rightarrow> resource_content w files f hdr (wp_boot patch)
      | Patch_dir_subdir \<Rightarrow> le64 (pd_subdir (wp_dir patch))
      | Patch_dir_copy \<Rightarrow> window (pd_offset (wp_dir patch)) (pr_len r) (resource_content w files f hdr (wp_boot patch))
      | Patch_dir_file \<Rightarrow> (let k = snd (injected_file patch r) in
          wim_patch_dir_entry w (sha1_spec (vcontent w wfiles files k)) (cstring (vf_name (files ! k)))))"

text \<open>The patched image.\<close>

definition lay_region :: "nat \<Rightarrow> struct_wim_file list \<Rightarrow> vfile list \<Rightarrow> wim_header \<Rightarrow> wim_patch \<Rightarrow> wim_patch_region \<Rightarrow> bytes \<Rightarrow> bytes" where
  "lay_region w wfiles files hdr patch r im =
     (case pr_patch r of None \<Rightarrow> im | Some p \<Rightarrow> overlay (pr_offset r) (region_bytes w wfiles files hdr patch r p) im)"

definition patched_image :: "nat \<Rightarrow> struct_wim_file list \<Rightarrow> vfile list \<Rightarrow> wim_header \<Rightarrow> wim_patch \<Rightarrow> bytes \<Rightarrow> bytes" where
  "patched_image w wfiles files hdr patch im = fold (lay_region w wfiles files hdr patch) (rs_region (wp_regions patch)) im"

section \<open>Well-formed patches\<close>

definition header_ok :: "wim_header \<Rightarrow> bool" where
  "header_ok h \<longleftrightarrow> length (wim_signature h) = 8 \<and> length (wim_guid h) = 16 \<and> length (wim_reserved h) = 60"

text \<open>A file that a patch refers to.\<close>

definition source_ok :: "nat \<Rightarrow> struct_wim_file list \<Rightarrow> vfile list \<Rightarrow> nat \<Rightarrow> wim_header \<Rightarrow> wim_resource_header set \<Rightarrow> nat \<Rightarrow> bool" where
  "source_ok w wfiles files f hdr R k \<longleftrightarrow> k < length files \<and> vf_read (files ! k) \<noteq> None \<and> vfile_ok w wfiles files f hdr R k \<and>
     terminated (vf_name (files ! k)) \<and> length (cstring (vf_name (files ! k))) \<le> VDISK_NAME_LEN"

definition region_ok :: "nat \<Rightarrow> struct_wim_file list \<Rightarrow> vfile list \<Rightarrow> wim_header \<Rightarrow> wim_resource_header set \<Rightarrow> wim_patch \<Rightarrow> wim_patch_region \<Rightarrow> bool" where
  "region_ok w wfiles files hdr R patch r \<longleftrightarrow>
     (let f = the (wp_file patch) in
      case pr_patch r of
        None \<Rightarrow> True
      | Some Patch_header \<Rightarrow> pr_len r = 208
      | Some Patch_file \<Rightarrow> (\<exists>k. pr_opaque r = Vfile k \<and> source_ok w wfiles files f hdr R k \<and> pr_len r = vf_len (files ! k))
      | Some Patch_lookup_copy \<Rightarrow> (\<exists>bs. readable w files f hdr R (wp_lookup patch) bs) \<and> pr_len r = res_len (wp_lookup patch)
      | Some Patch_lookup_boot \<Rightarrow> pr_len r = 50
      | Some Patch_lookup_file \<Rightarrow> (\<exists>rfile k. opaque_file patch r = Inr (rfile, k) \<and> source_ok w wfiles files f hdr R k) \<and> pr_len r = 50
      | Some Patch_boot_copy \<Rightarrow> (\<exists>bs. readable w files f hdr R (wp_boot patch) bs) \<and> pr_len r = res_len (wp_boot patch)
      | Some Patch_dir_subdir \<Rightarrow> pr_len r = 8
      | Some Patch_dir_copy \<Rightarrow> (\<exists>bs. readable w files f hdr R (wp_boot patch) bs) \<and> pd_offset (wp_dir patch) + pr_len r \<le> res_len (wp_boot patch)
      | Some Patch_dir_file \<Rightarrow> (\<exists>rfile k. opaque_file patch r = Inr (rfile, k) \<and> source_ok w wfiles files f hdr R k) \<and> pr_len r = 166)"

text \<open>The regions lie within the patched image; they may overlap.\<close>

definition patch_ok :: "nat \<Rightarrow> struct_wim_file list \<Rightarrow> vfile list \<Rightarrow> nat \<Rightarrow> wim_header \<Rightarrow> wim_resource_header set \<Rightarrow> wim_patch \<Rightarrow> bool" where
  "patch_ok w wfiles files f hdr R patch \<longleftrightarrow> wp_file patch = Some f \<and> header_ok (wp_header patch) \<and> wim_flags (wp_header patch) = wim_flags hdr \<and>
     (\<forall>r \<in> set (rs_region (wp_regions patch)). region_ok w wfiles files hdr R patch r \<and>
        (pr_patch r \<noteq> None \<longrightarrow> pr_offset r + pr_len r \<le> vf_xlen (files ! f)))"

lemma length_resource_header_bytes [simp]: "length (resource_header_bytes res) = 24"
  by (simp add: resource_header_bytes_def)

lemma length_wim_header_bytes: "header_ok h \<Longrightarrow> length (wim_header_bytes h) = 208"
  by (simp add: wim_header_bytes_def header_ok_def)

lemma length_lookup_entry_bytes: "length (entry_hash e) = 20 \<Longrightarrow> length (lookup_entry_bytes e) = 50"
  by (simp add: lookup_entry_bytes_def)

lemma length_sha1_spec: "length (sha1_spec msg) = 20"
  by (simp add: sha1_spec_def hash_bytes_def split: prod.splits)

lemma sizeof_dir_entry: "sizeof struct_wim_directory_entry = 102" "sizeof struct_wim_patch_dir_entry = 166"
  by (simp_all add: struct_wim_directory_entry_def struct_wim_patch_dir_entry_def struct_wim_hash_def VDISK_NAME_LEN_def sizeof_def)

lemma length_units_name: "length (units (map scast (name :: bytes) :: u16 list)) = 2 * length name"
  by (induction name) (simp_all add: units_def)

lemma length_wim_patch_dir_entry:
  "length hash = 20 \<Longrightarrow> length name \<le> 31 \<Longrightarrow> length (wim_patch_dir_entry w hash name) = 166"
  by (simp add: wim_patch_dir_entry_def struct_wim_patch_dir_entry_def struct_wim_directory_entry_def struct_wim_hash_def
      VDISK_NAME_LEN_def sizeof_def length_units_name)

section \<open>Windows of regions\<close>

lemma source_readable: "readable w files f hdr R res bs \<Longrightarrow> resource_content w files f hdr res = bs \<and> length bs = res_len res"
  by (simp add: readable_def resource_content_def)

lemma terminated_take: "terminated xs \<Longrightarrow> strlen xs = Inr (length (cstring xs)) \<and> take (length (cstring xs)) xs = cstring xs"
  by (simp add: strlen_def str_length_terminated cstring_def takeWhile_eq_take [symmetric])

lemma length_region_bytes:
  assumes "patch_ok w wfiles files f hdr R patch" "r \<in> set (rs_region (wp_regions patch))" "pr_patch r = Some p"
  shows "length (region_bytes w wfiles files hdr patch r p) = pr_len r"
proof -
  have "region_ok w wfiles files hdr R patch r" "header_ok (wp_header patch)" "wp_file patch = Some f"
    using assms by (auto simp: patch_ok_def)
  then show ?thesis
    using assms(3) source_readable [of w files f hdr R]
    by (cases p) (auto simp: region_ok_def region_bytes_def length_wim_header_bytes length_lookup_entry_bytes lookup_entry_of_def length_sha1_spec
        source_ok_def length_vcontent injected_file_def length_wim_patch_dir_entry VDISK_NAME_LEN_def)
qed

text \<open>Memory that is copied from.\<close>

lemma returns_rd_bytes: "off + n \<le> length bs \<Longrightarrow> returns good (wret (rd_bytes bs off n)) (window off n bs)"
  by (simp add: rd_bytes_def returns_wret)

lemma returns_entry:
  assumes "resources_ok w (file_source f (files ! f)) hdr R" "w \<le> 64" "source_ok w wfiles files f hdr R k"
  shows "returns (cache_good w f hdr R files) (wim_hash w wfiles files k) (sha1_spec (vcontent w wfiles files k))"
  using assms(3) by (intro returns_wim_hash [OF assms(1,2)]) (auto simp: source_ok_def)

lemma region_sizes: "sizeof struct_wim_header = 208" "sizeof struct_wim_lookup_entry = 50" "sizeof struct_wim_patch_dir_entry = 166"
  by code_simp+

lemma returns_call_region:
  assumes res: "resources_ok w (file_source f (files ! f)) hdr R" and w: "w \<le> 64" and patch: "patch_ok w wfiles files f hdr R patch"
    and r: "r \<in> set (rs_region (wp_regions patch))" "pr_patch r = Some p" and n: "off + n \<le> pr_len r" "off < pr_len r"
  shows "returns (cache_good w f hdr R files) (call_region w wfiles files patch r p off n) (window off n (region_bytes w wfiles files hdr patch r p))"
proof -
  have ok: "region_ok w wfiles files hdr R patch r" "wp_file patch = Some f" "wim_flags (wp_header patch) = wim_flags hdr"
    using patch r(1) by (auto simp: patch_ok_def)
  have len: "off + n \<le> length (region_bytes w wfiles files hdr patch r p)" using length_region_bytes [OF patch r] n by simp
  have within: "asserted (pr_len r) off n m = m" for m :: "(wim_cache, bytes) stateful" using n by (auto simp: asserted_def)
  have src: "patch_source files patch = file_source f (files ! f)" using ok(2) by (simp add: patch_source_def)
  show ?thesis
  proof (cases p)
    case Patch_header
    then have "pr_len r = sizeof struct_wim_header" using ok(1) r(2) by (simp add: region_ok_def region_sizes)
    with Patch_header len within show ?thesis by (simp add: call_region_def wim_patch_header_def region_bytes_def returns_rd_bytes)
  next
    case Patch_file
    with ok r(2) obtain k where k: "pr_opaque r = Vfile k" "source_ok w wfiles files f hdr R k" "pr_len r = vf_len (files ! k)"
      by (auto simp: region_ok_def)
    then have "returns (cache_good w f hdr R files) (vfile_read w wfiles files k off n) (window off n (vcontent w wfiles files k))"
      using n(1) by (intro returns_vfile_read [OF res w]) (auto simp: source_ok_def)
    with Patch_file k show ?thesis by (simp add: call_region_def wim_patch_file_def region_bytes_def)
  next
    case Patch_lookup_copy
    with ok r(2) obtain bs where bs: "readable w files f hdr R (wp_lookup patch) bs" "pr_len r = res_len (wp_lookup patch)"
      by (auto simp: region_ok_def)
    then have "returns (cache_good w f hdr R files) (wim_read w (file_source f (files ! f)) (wp_header patch) (wp_lookup patch) off n) (window off n bs)"
      using n(1) by (intro returns_readable [OF res w bs(1) _ ok(3)]) simp
    with Patch_lookup_copy ok(2) src source_readable [OF bs(1)] show ?thesis
      by (simp add: call_region_def wim_patch_lookup_copy_def region_bytes_def)
  next
    case Patch_lookup_boot
    then have "pr_len r = sizeof struct_wim_lookup_entry" using ok(1) r(2) by (simp add: region_ok_def region_sizes)
    with Patch_lookup_boot len within show ?thesis by (simp add: call_region_def wim_patch_lookup_boot_def region_bytes_def returns_rd_bytes)
  next
    case Patch_lookup_file
    with ok r(2) obtain rfile k where k: "opaque_file patch r = Inr (rfile, k)" "source_ok w wfiles files f hdr R k"
      by (auto simp: region_ok_def)
    have "returns (cache_good w f hdr R files) (wbind (wim_hash w wfiles files k) (\<lambda>hash. wret (rd_bytes (lookup_entry_bytes
        \<lparr>entry_resource = \<lparr>zlen__flags = vf_len (files ! k), res_offset = pr_offset rfile, res_len = vf_len (files ! k)\<rparr>,
         entry_part = 0, entry_refcnt = 1, entry_hash = hash\<rparr>) off n))) (window off n (region_bytes w wfiles files hdr patch r p))"
      using Patch_lookup_file k len
      by (intro returns_bind [OF returns_entry [OF res w k(2)]])
         (simp add: region_bytes_def injected_file_def lookup_entry_of_def returns_rd_bytes)
    moreover have "pr_len r = sizeof struct_wim_lookup_entry" using Patch_lookup_file ok(1) r(2) by (auto simp: region_ok_def region_sizes)
    ultimately show ?thesis using Patch_lookup_file k within
      by (simp add: call_region_def wim_patch_lookup_file_def wbind_wret)
  next
    case Patch_boot_copy
    with ok r(2) obtain bs where bs: "readable w files f hdr R (wp_boot patch) bs" "pr_len r = res_len (wp_boot patch)"
      by (auto simp: region_ok_def)
    then have "returns (cache_good w f hdr R files) (wim_read w (file_source f (files ! f)) (wp_header patch) (wp_boot patch) off n) (window off n bs)"
      using n(1) by (intro returns_readable [OF res w bs(1) _ ok(3)]) simp
    with Patch_boot_copy ok(2) src source_readable [OF bs(1)] show ?thesis
      by (simp add: call_region_def wim_patch_boot_copy_def region_bytes_def)
  next
    case Patch_dir_subdir
    then have "pr_len r = 8" using ok(1) r(2) by (simp add: region_ok_def)
    with Patch_dir_subdir len within show ?thesis by (simp add: call_region_def wim_patch_dir_subdir_def region_bytes_def returns_rd_bytes)
  next
    case Patch_dir_copy
    with ok r(2) obtain bs where bs: "readable w files f hdr R (wp_boot patch) bs" "pd_offset (wp_dir patch) + pr_len r \<le> res_len (wp_boot patch)"
      by (auto simp: region_ok_def)
    define pos where "pos = pd_offset (wp_dir patch) + off"
    have pos: "pos + n \<le> res_len (wp_boot patch)" using bs(2) n(1) by (simp add: pos_def)
    have "returns (cache_good w f hdr R files) (wim_read w (file_source f (files ! f)) (wp_header patch) (wp_boot patch) pos n) (window pos n bs)"
      using pos by (intro returns_readable [OF res w bs(1) _ ok(3)])
    moreover have "res_len (wp_boot patch) < 2 ^ w" using res bs(1) by (simp add: readable_def resources_ok_def resource_ok_def)
    then have "pos mod 2 ^ w = pos" using pos by simp
    moreover have "window off n (window (pd_offset (wp_dir patch)) (pr_len r) bs) = window pos n bs"
      using n(1) by (simp add: window_def pos_def take_drop min_def add.commute)
    ultimately show ?thesis using Patch_dir_copy ok(2) src source_readable [OF bs(1)]
      by (simp add: call_region_def wim_patch_dir_copy_def region_bytes_def pos_def)
  next
    case Patch_dir_file
    with ok r(2) obtain rfile k where k: "opaque_file patch r = Inr (rfile, k)" "source_ok w wfiles files f hdr R k"
      by (auto simp: region_ok_def)
    let ?name = "cstring (vf_name (files ! k))"
    have name: "strlen (vf_name (files ! k)) = Inr (length ?name)" "take (length ?name) (vf_name (files ! k)) = ?name" "length ?name \<le> VDISK_NAME_LEN"
      using k(2) terminated_take by (auto simp: source_ok_def)
    have "returns (cache_good w f hdr R files) (wbind (wim_hash w wfiles files k) (\<lambda>hash. wret (rd_bytes (wim_patch_dir_entry w hash ?name) off n)))
        (window off n (region_bytes w wfiles files hdr patch r p))"
      using Patch_dir_file k len
      by (intro returns_bind [OF returns_entry [OF res w k(2)]])
         (simp add: region_bytes_def injected_file_def returns_rd_bytes)
    moreover have "pr_len r = sizeof struct_wim_patch_dir_entry" using Patch_dir_file ok(1) r(2) by (auto simp: region_ok_def region_sizes)
    ultimately show ?thesis using Patch_dir_file k name within
      by (simp add: call_region_def wim_patch_dir_file_def wbind_wret)
  qed
qed

section \<open>Patching a window\<close>

text \<open>A window of an image on which bytes are laid.\<close>

lemma window_overlay:
  fixes bs im :: "'a list"
  assumes fits: "p + length bs \<le> length im" "off + n \<le> length im"
  defines "skip \<equiv> p - off"
  defines "rel \<equiv> off + skip - p"
  shows "window off n (overlay p bs im) =
    (if n \<le> skip \<or> length bs \<le> rel then window off n im
     else overlay skip (window rel (min (n - skip) (length bs - rel)) bs) (window off n im))"
proof (cases "n \<le> skip \<or> length bs \<le> rel")
  case True
  have "window off n (overlay p bs im) = window off n im"
  proof (rule nth_equalityI)
    fix i assume "i < length (window off n (overlay p bs im))"
    then have i: "i < n" using fits by simp
    with True have "\<not> (p \<le> off + i \<and> off + i < p + length bs)" unfolding skip_def rel_def by linarith
    with i fits show "window off n (overlay p bs im) ! i = window off n im ! i" by (auto simp: nth_window nth_overlay)
  qed (use fits in simp)
  with True show ?thesis by simp
next
  case False
  define m where "m = min (n - skip) (length bs - rel)"
  have m: "skip + m \<le> n" "rel + m \<le> length bs" using False by (auto simp: m_def)
  have len: "length (window rel m bs) = m" "length (window off n im) = n" using m fits by auto
  have "window off n (overlay p bs im) = overlay skip (window rel m bs) (window off n im)"
  proof (rule nth_equalityI)
    fix i assume "i < length (window off n (overlay p bs im))"
    then have i: "i < n" using fits by simp
    have "p \<le> off + i \<and> off + i < p + length bs \<longleftrightarrow> skip \<le> i \<and> i < skip + m"
      using i unfolding m_def skip_def rel_def by linarith
    moreover have "skip \<le> i \<Longrightarrow> off + i - p = rel + (i - skip)" unfolding skip_def rel_def by linarith
    moreover have "skip \<le> i \<Longrightarrow> i < skip + m \<Longrightarrow> window rel m bs ! (i - skip) = bs ! (rel + (i - skip))"
      using m by (subst nth_window) auto
    ultimately show "window off n (overlay p bs im) ! i = overlay skip (window rel m bs) (window off n im) ! i"
      using i fits m(1) len by (auto simp: nth_window nth_overlay)
  qed (use fits m len in simp)
  with False show ?thesis by (simp add: m_def)
qed

lemma length_lay_region:
  assumes "patch_ok w wfiles files f hdr R patch" "r \<in> set (rs_region (wp_regions patch))" "length im = vf_xlen (files ! f)"
  shows "length (lay_region w wfiles files hdr patch r im) = length im"
proof (cases "pr_patch r")
  case (Some p)
  then have "pr_offset r + pr_len r \<le> length im" using assms by (auto simp: patch_ok_def)
  with Some length_region_bytes [OF assms(1,2) Some] show ?thesis by (simp add: lay_region_def)
qed (simp add: lay_region_def)

lemma returns_wim_patch_region:
  assumes res: "resources_ok w (file_source f (files ! f)) hdr R" and w: "w \<le> 64" and patch: "patch_ok w wfiles files f hdr R patch"
    and r: "r \<in> set (rs_region (wp_regions patch))" and im: "length im = vf_xlen (files ! f)" and n: "n = 0 \<or> off + n \<le> length im"
  shows "returns (cache_good w f hdr R files) (wim_patch_region w wfiles files patch r (Some (window off n im @ rest)) off n)
    (Some (window off n (lay_region w wfiles files hdr patch r im) @ rest))"
proof (cases "pr_patch r")
  case None
  then show ?thesis by (simp add: wim_patch_region_def lay_region_def returns_wret)
next
  case (Some p)
  define bs where "bs = region_bytes w wfiles files hdr patch r p"
  have bs: "length bs = pr_len r" using length_region_bytes [OF patch r Some] by (simp add: bs_def)
  have fits: "pr_offset r + length bs \<le> length im" using patch r Some im bs by (auto simp: patch_ok_def)
  define skip rel where "skip = pr_offset r - off" and "rel = off + skip - pr_offset r"
  define m where "m = min (n - skip) (pr_len r - rel)"
  have skip: "(if pr_offset r > off then pr_offset r - off else 0) = skip" by (simp add: skip_def)
  have lay: "lay_region w wfiles files hdr patch r im = overlay (pr_offset r) bs im" using Some by (simp add: lay_region_def bs_def)
  have run: "wim_patch_region w wfiles files patch r (Some (window off n im @ rest)) off n =
      (if n \<le> skip then wret (Inr (Some (window off n im @ rest)))
       else if pr_len r \<le> rel then wret (Inr (Some (window off n im @ rest)))
       else wbind (call_region w wfiles files patch r p rel m) (\<lambda>bs.
         wret (rbind (wr_bytes (window off n im @ rest) skip bs) (\<lambda>data. Inr (Some data)))))"
    unfolding wim_patch_region_def Let_def Some option.case skip rel_def [symmetric] m_def [symmetric] by simp
  show ?thesis
  proof (cases "n \<le> skip \<or> pr_len r \<le> rel")
    case True
    have "window off n (overlay (pr_offset r) bs im) = window off n im"
    proof (cases "n = 0")
      case False
      with n True bs show ?thesis
        by (subst window_overlay [OF fits]) (auto simp: skip_def rel_def)
    qed (simp add: window_def)
    then show ?thesis unfolding run lay using True by (auto simp: returns_wret)
  next
    case False
    then have n': "off + n \<le> length im" using n by auto
    have m: "skip + m \<le> n" "rel + m \<le> pr_len r" using False by (auto simp: m_def)
    have call: "returns (cache_good w f hdr R files) (call_region w wfiles files patch r p rel m) (window rel m bs)"
      unfolding bs_def by (rule returns_call_region [OF res w patch r Some m(2)]) (use False in simp)
    have win: "length (window rel m bs) = m" "length (window off n im) = n" using m bs n' by auto
    have wr: "wr_bytes (window off n im @ rest) skip (window rel m bs) = Inr (overlay skip (window rel m bs) (window off n im) @ rest)"
      using m(1) win by (simp add: wr_bytes_def overlay_def)
    have "overlay skip (window rel m bs) (window off n im) = window off n (overlay (pr_offset r) bs im)"
      using False bs by (subst window_overlay [OF fits n']) (simp add: skip_def rel_def m_def)
    then show ?thesis
      unfolding run lay using False wr
      by (auto intro!: returns_bind [OF call] simp: returns_wret)
  qed
qed

lemma returns_wim_patch_all:
  assumes res: "resources_ok w (file_source f (files ! f)) hdr R" and w: "w \<le> 64" and patch: "patch_ok w wfiles files f hdr R patch"
  shows "set rs \<subseteq> set (rs_region (wp_regions patch)) \<Longrightarrow> length im = vf_xlen (files ! f) \<Longrightarrow> n = 0 \<or> off + n \<le> length im \<Longrightarrow>
    returns (cache_good w f hdr R files) (wim_patch_all w wfiles files patch rs (Some (window off n im @ rest)) off n)
      (Some (window off n (fold (lay_region w wfiles files hdr patch) rs im) @ rest))"
proof (induction rs arbitrary: im)
  case (Cons r rs)
  let ?im = "lay_region w wfiles files hdr patch r im"
  have r: "r \<in> set (rs_region (wp_regions patch))" "set rs \<subseteq> set (rs_region (wp_regions patch))" using Cons.prems(1) by auto
  have len: "length ?im = vf_xlen (files ! f)" using length_lay_region [OF patch r(1) Cons.prems(2)] Cons.prems(2) by simp
  have step: "returns (cache_good w f hdr R files) (wim_patch_region w wfiles files patch r (Some (window off n im @ rest)) off n) (Some (window off n ?im @ rest))"
    by (rule returns_wim_patch_region [OF res w patch r(1) Cons.prems(2,3)])
  have "returns (cache_good w f hdr R files) (wim_patch_all w wfiles files patch rs (Some (window off n ?im @ rest)) off n)
      (Some (window off n (fold (lay_region w wfiles files hdr patch) rs ?im) @ rest))"
    using Cons.prems(2,3) len by (intro Cons.IH [OF r(2)]) auto
  then show ?case by (simp add: returns_bind [OF step])
qed (simp add: returns_wret)

lemma length_patched_image:
  assumes "patch_ok w wfiles files f hdr R patch" "length im = vf_xlen (files ! f)"
  shows "length (patched_image w wfiles files hdr patch im) = vf_xlen (files ! f)"
proof -
  have "set rs \<subseteq> set (rs_region (wp_regions patch)) \<Longrightarrow> length im = vf_xlen (files ! f) \<Longrightarrow>
      length (fold (lay_region w wfiles files hdr patch) rs im) = vf_xlen (files ! f)" for rs im
    by (induction rs arbitrary: im) (simp_all add: length_lay_region [OF assms(1)])
  then show ?thesis using assms(2) by (simp add: patched_image_def)
qed

end
