(* ===== verification/Fat_Driver.thy ===== *)
theory Fat_Driver
  imports Vdisk_Image
begin

text \<open>
  What a FAT32 driver finds on the virtual disk. The driver is a specification: it follows the documented format, and
  knows nothing of how the disk is generated. It reads entries of the file allocation table, follows
  the chain of clusters of a file, and decodes the entries of a directory.
\<close>

section \<open>The driver\<close>

text \<open>The parameters of the volume, from the boot record.\<close>

record volume =
  vol_start :: nat
  vol_cluster_sectors :: nat
  vol_fat :: nat
  vol_data :: nat
  vol_root :: nat

definition mount :: "(nat \<Rightarrow> bytes) \<Rightarrow> nat \<Rightarrow> volume result" where
  "mount sector lba =
     (let vbr = sector lba in
      rbind (rd16 vbr 11) (\<lambda>bytes_per_sector. rbind (rd8 vbr 13) (\<lambda>cluster_sectors. rbind (rd16 vbr 14) (\<lambda>reserved.
      rbind (rd8 vbr 16) (\<lambda>fats. rbind (rd32 vbr 36) (\<lambda>fat_sectors. rbind (rd32 vbr 44) (\<lambda>root.
      rbind (rd16 vbr 510) (\<lambda>magic.
      if magic \<noteq> 0xaa55 \<or> bytes_per_sector \<noteq> 512 then Inl Fail
      else Inr \<lparr>vol_start = lba, vol_cluster_sectors = unat cluster_sectors, vol_fat = lba + reserved,
        vol_data = lba + reserved + unat fats * fat_sectors, vol_root = root\<rparr>))))))))"

text \<open>The entry of the table for a cluster; the top four bits do not count.\<close>

definition fat_next :: "(nat \<Rightarrow> bytes) \<Rightarrow> volume \<Rightarrow> nat \<Rightarrow> nat result" where
  "fat_next sector v c = rbind (rd32 (sector (vol_fat v + c div 128)) (4 * (c mod 128))) (\<lambda>e. Inr (e mod 2 ^ 28))"

fun fat_chain :: "(nat \<Rightarrow> bytes) \<Rightarrow> volume \<Rightarrow> nat \<Rightarrow> nat \<Rightarrow> nat list result" where
  "fat_chain sector v 0 c = Inl Fuel"
| "fat_chain sector v (Suc fuel) c =
     rbind (fat_next sector v c) (\<lambda>e.
     if e \<ge> 0x0ffffff8 then Inr [c] else rbind (fat_chain sector v fuel e) (\<lambda>cs. Inr (c # cs)))"

definition cluster_bytes :: "(nat \<Rightarrow> bytes) \<Rightarrow> volume \<Rightarrow> nat \<Rightarrow> bytes" where
  "cluster_bytes sector v c =
     (let lba = vol_data v + (c - 2) * vol_cluster_sectors v in concat (map sector [lba..<lba + vol_cluster_sectors v]))"

text \<open>The contents of a file, from its directory entry; at most \<open>2 ^ 28\<close> clusters exist.\<close>

definition fat_contents :: "(nat \<Rightarrow> bytes) \<Rightarrow> volume \<Rightarrow> nat \<Rightarrow> nat \<Rightarrow> bytes result" where
  "fat_contents sector v c len =
     rbind (fat_chain sector v (2 ^ 28) c) (\<lambda>cs. Inr (take len (concat (map (cluster_bytes sector v) cs))))"

section \<open>The volume\<close>

definition vdisk_volume :: volume where
  "vdisk_volume = \<lparr>vol_start = 128, vol_cluster_sectors = 64, vol_fat = 192, vol_data = 0x80040, vol_root = 2\<rparr>"

lemma vbr_fields:
  "rd16 vbr_sector 11 = Inr 512" "rd8 vbr_sector 13 = Inr 64" "rd16 vbr_sector 14 = Inr 64" "rd8 vbr_sector 16 = Inr 1"
  "rd32 vbr_sector 36 = Inr 0x7ff80" "rd32 vbr_sector 44 = Inr 2" "rd16 vbr_sector 510 = Inr 0xaa55"
  by (simp_all add: vbr_sector_def ascii_def le16_def le32_def rd32_def rd16_def rd8_def nth_append)

text \<open>A function that yields the sectors of the disk, up to the end of the last file.\<close>

definition shows_disk :: "(nat \<Rightarrow> bytes) \<Rightarrow> (nat \<Rightarrow> bytes) \<Rightarrow> nat \<Rightarrow> ('o, 'r, 'p) vdisk_file list \<Rightarrow> bool" where
  "shows_disk sector img w files \<longleftrightarrow> (\<forall>lba < 0x20000000. sector lba = disk_sector img w files lba)"

lemma shows_diskD: "shows_disk sector img w files \<Longrightarrow> lba < 0x20000000 \<Longrightarrow> sector lba = disk_sector img w files lba"
  by (simp add: shows_disk_def)

lemma mount_disk: "shows_disk sector img w files \<Longrightarrow> mount sector 128 = Inr vdisk_volume"
proof -
  assume "shows_disk sector img w files"
  then have "sector 128 = vbr_sector" by (simp add: shows_diskD) (simp add: disk_sector_def)
  then show ?thesis by (simp add: mount_def vbr_fields vdisk_volume_def)
qed

section \<open>Chains of clusters\<close>

lemma rd32_words32:
  assumes "i < length vs"
  shows "rd32 (words32 vs) (4 * i) = Inr (vs ! i mod 2 ^ 32)"
proof -
  have "words32 vs = words32 (take i vs) @ le32 (vs ! i) @ words32 (drop (Suc i) vs)"
  proof -
    have "vs = take i vs @ [vs ! i] @ drop (Suc i) vs" using assms by (simp add: Cons_nth_drop_Suc)
    then have "words32 vs = words32 (take i vs @ [vs ! i] @ drop (Suc i) vs)" by (rule arg_cong)
    also have "\<dots> = words32 (take i vs) @ words32 [vs ! i] @ words32 (drop (Suc i) vs)" by (simp only: words32_append)
    finally show ?thesis by (simp add: words32_def)
  qed
  moreover have "length (words32 (take i vs)) = 4 * i" using assms by simp
  ultimately show ?thesis using rd32_shift [of "words32 (take i vs)" "le32 (vs ! i) @ words32 (drop (Suc i) vs)" 0] by simp
qed

lemma fat_next_entry:
  assumes "shows_disk sector img w files" "c < 0x3ffc000"
  shows "fat_next sector vdisk_volume c = Inr (fat_entry w files c mod 2 ^ 28)"
proof -
  have "c div 128 < 0x7ff80" using assms(2) by (simp add: less_mult_imp_div_less)
  then have "sector (vol_fat vdisk_volume + c div 128) = fat_sector w files (c div 128)"
    using shows_diskD [OF assms(1), of "vol_fat vdisk_volume + c div 128"] by (simp add: disk_sector_def vdisk_volume_def)
  moreover have "map (fat_entry w files) [128 * (c div 128)..<128 * (c div 128) + 128] ! (c mod 128) = fat_entry w files c"
    by (subst nth_map) simp_all
  ultimately show ?thesis
    using rd32_words32 [of "c mod 128" "map (fat_entry w files) [128 * (c div 128)..<128 * (c div 128) + 128]"]
    by (simp add: fat_next_def fat_sector_def mod_mod_cancel)
qed

text \<open>The first and the last cluster of a file.\<close>

definition last_cluster :: "nat \<Rightarrow> ('o, 'r, 'p) vdisk_file \<Rightarrow> nat" where
  "last_cluster k vf = VDISK_FILE_CLUSTER k + (vf_xlen vf - 1) div 0x8000"

lemma file_end_marker_used:
  assumes "w = 32 \<or> w = 64" "k < 63" "0 < vf_xlen vf" "vf_xlen vf \<le> 2 ^ 32"
  shows "file_end_marker w k vf = last_cluster k vf"
proof -
  obtain m where m: "vf_xlen vf = Suc m" using assms(3) by (cases "vf_xlen vf") simp_all
  have "m < 2 ^ 32" "(m :: nat) < 2 ^ w" using assms(1,4) m by auto
  then have "(vf_xlen vf + (2 ^ w - 1)) mod 2 ^ w = m" using m by simp
  moreover have "m div 0x8000 < 0x20000" using \<open>m < 2 ^ 32\<close> by (simp add: less_mult_imp_div_less)
  ultimately show ?thesis using assms(2) m
    by (simp add: file_end_marker_def last_cluster_def VDISK_FILE_CLUSTER_value vdisk_numbers)
qed

lemma file_end_marker_empty:
  assumes "w = 32 \<or> w = 64" "k < 63" "vf_xlen vf = 0"
  shows "file_end_marker w k vf = VDISK_FILE_CLUSTER k + 0x1ffff \<or> file_end_marker w k vf = VDISK_FILE_CLUSTER k - 1"
  using assms
proof (elim disjE)
  assume w: "w = 64" "k < 63" "vf_xlen vf = 0"
  have "(0x1e001 + k * 0x20000 + 0x1ffffffffffff) = (0x1e000 + k * 0x20000) + 0x20000 * 2 ^ 32" by simp
  then have "(0x1e001 + k * 0x20000 + 0x1ffffffffffff) mod 2 ^ 32 = (0x1e000 + k * 0x20000) mod 2 ^ 32" by (simp only: mod_mult_self1)
  with w show ?thesis by (simp add: file_end_marker_def VDISK_FILE_CLUSTER_value vdisk_numbers)
qed (simp add: file_end_marker_def VDISK_FILE_CLUSTER_value vdisk_numbers)

text \<open>No other file ends within the clusters of a file before its last one.\<close>

lemma file_chain_entry:
  assumes "w = 32 \<or> w = 64" "length files = 63" "\<forall>vf \<in> set files. vf_xlen vf \<le> 2 ^ 32"
    and k: "k < 63" "vf_read (files ! k) \<noteq> None" "0 < vf_xlen (files ! k)"
    and c: "VDISK_FILE_CLUSTER k \<le> c" "c \<le> last_cluster k (files ! k)"
  shows "fat_entry w files c = (if c = last_cluster k (files ! k) then VDISK_FAT_END_MARKER else c + 1)"
proof -
  have xlen: "vf_xlen (files ! j) \<le> 2 ^ 32" if "j < 63" for j using assms(2,3) that by simp
  have range: "last_cluster j (files ! j) \<le> VDISK_FILE_CLUSTER j + 0x1ffff" if "j < 63" for j
  proof -
    have "(vf_xlen (files ! j) - 1) div 0x8000 < 0x20000" using xlen [OF that] by (simp add: less_mult_imp_div_less)
    then show ?thesis by (simp add: last_cluster_def)
  qed
  have own: "file_end_marker w k (files ! k) = last_cluster k (files ! k)"
    using assms(1) k xlen by (intro file_end_marker_used) auto
  have "ends_at w 0 files c \<longleftrightarrow> c = last_cluster k (files ! k)"
  proof
    assume "c = last_cluster k (files ! k)"
    with own k assms(2) show "ends_at w 0 files c" by (auto simp: ends_at_def)
  next
    assume "ends_at w 0 files c"
    then obtain j where j: "j < 63" "file_end_marker w j (files ! j) = c" using assms(2) by (auto simp: ends_at_def)
    show "c = last_cluster k (files ! k)"
    proof (cases "j = k")
      case True
      with j own show ?thesis by simp
    next
      case False
      have mark: "VDISK_FILE_CLUSTER j - 1 \<le> c" "c \<le> VDISK_FILE_CLUSTER j + 0x1ffff"
        using file_end_marker_used [OF assms(1) j(1) _ xlen [OF j(1)]] file_end_marker_empty [OF assms(1) j(1), of "files ! j"] range [OF j(1)] j(2)
        by (cases "vf_xlen (files ! j) = 0"; auto simp: last_cluster_def)+
      have "last_cluster k (files ! k) \<le> VDISK_FILE_CLUSTER k + 0x1ffff" by (rule range [OF k(1)])
      with False mark c show ?thesis unfolding VDISK_FILE_CLUSTER_value by (cases "j < k"; simp)
    qed
  qed
  moreover have "128 \<le> c" using c(1) by (simp add: VDISK_FILE_CLUSTER_value)
  ultimately show ?thesis by (simp add: fat_entry_def)
qed

text \<open>The assumptions on the files of a disk: each fits into the sectors reserved for it.\<close>

definition files_fit :: "('o, 'r, 'p) vdisk_file list \<Rightarrow> bool" where
  "files_fit files \<longleftrightarrow> length files = 63 \<and> (\<forall>vf \<in> set files. vf_xlen vf \<le> 2 ^ 32)"

lemma fat_chain_file:
  assumes sector: "shows_disk sector img w files" and w: "w = 32 \<or> w = 64" and fit: "files_fit files" and k: "k < 63" "vf_read (files ! k) \<noteq> None" "0 < vf_xlen (files ! k)"
  shows "VDISK_FILE_CLUSTER k \<le> c \<Longrightarrow> c \<le> last_cluster k (files ! k) \<Longrightarrow> last_cluster k (files ! k) - c < fuel \<Longrightarrow>
     fat_chain sector vdisk_volume fuel c = Inr [c..<last_cluster k (files ! k) + 1]"
proof (induction fuel arbitrary: c)
  case (Suc fuel)
  have files: "length files = 63" "\<forall>vf \<in> set files. vf_xlen vf \<le> 2 ^ 32" using fit by (simp_all add: files_fit_def)
  have "vf_xlen (files ! k) \<le> 2 ^ 32" using files k(1) by simp
  then have "(vf_xlen (files ! k) - 1) div 0x8000 < 0x20000" by (simp add: less_mult_imp_div_less)
  then have lim: "c < 0x3ffc000" "c + 1 < 0x0ffffff8" using Suc.prems(2) k(1) by (simp_all add: last_cluster_def VDISK_FILE_CLUSTER_value)
  have entry: "fat_next sector vdisk_volume c =
      Inr (if c = last_cluster k (files ! k) then 0x0ffffff8 else c + 1)"
    using fat_next_entry [OF sector lim(1)] file_chain_entry [OF w files k Suc.prems(1,2)] lim(2)
    by (simp add: VDISK_FAT_END_MARKER_def)
  show ?case
  proof (cases "c = last_cluster k (files ! k)")
    case True
    then show ?thesis using entry by simp
  next
    case False
    have "fat_chain sector vdisk_volume fuel (c + 1) = Inr [c + 1..<last_cluster k (files ! k) + 1]"
      using False Suc.prems by (intro Suc.IH) auto
    moreover have "[c..<last_cluster k (files ! k) + 1] = c # [c + 1..<last_cluster k (files ! k) + 1]"
      using Suc.prems(2) by (simp add: upt_conv_Cons del: upt_Suc)
    ultimately show ?thesis using False entry lim(2) by (simp del: upt_Suc)
  qed
qed simp

text \<open>A cluster of a file is a part of its image.\<close>

lemma cluster_bytes_file:
  assumes "shows_disk sector img w files" "k < 63" "i < 0x20000"
  shows "cluster_bytes sector vdisk_volume (VDISK_FILE_CLUSTER k + i) = span (img k) (0x8000 * i) 0x8000"
proof -
  let ?lba = "(k + 1) * 0x800000 + 64 * i"
  have lba: "vol_data vdisk_volume + (VDISK_FILE_CLUSTER k + i - 2) * vol_cluster_sectors vdisk_volume = ?lba"
    by (simp add: vdisk_volume_def VDISK_FILE_CLUSTER_value)
  have "map sector [?lba..<?lba + 64] = map (\<lambda>t. span (img k) (512 * t) 512) [64 * i..<64 * i + 64]"
  proof (rule nth_equalityI)
    fix j assume "j < length (map sector [?lba..<?lba + 64])"
    then have j: "j < 64" by simp
    with assms(3) have s: "64 * i + j < 0x800000" by simp
    have "(?lba + j) div 0x800000 = k + 1" "(?lba + j) mod 0x800000 = 64 * i + j"
      using s by (simp_all add: add.assoc)
    moreover have "?lba + j < 0x20000000" using s assms(2) by simp
    ultimately show "map sector [?lba..<?lba + 64] ! j = map (\<lambda>t. span (img k) (512 * t) 512) [64 * i..<64 * i + 64] ! j"
      using shows_diskD [OF assms(1)] j assms(2) by (simp add: disk_sector_def mult.commute)
  qed simp
  moreover have "vol_cluster_sectors vdisk_volume = 64" by (simp add: vdisk_volume_def)
  moreover have "512 * (64 * i) = 0x8000 * i" "512 * 64 = (0x8000 :: nat)" by simp_all
  ultimately show ?thesis
    using span_sectors [of "img k" "64 * i" 64] lba by (simp only: cluster_bytes_def Let_def)
qed

lemma span_clusters: "concat (map (\<lambda>i. span xs (0x8000 * i) 0x8000) [0..<n]) = span xs 0 (0x8000 * n)"
proof (induction n)
  case (Suc n)
  then show ?case using span_add [of xs 0 "0x8000 * n" "0x8000"] by (simp add: add.commute)
qed (simp add: span_def)

lemma fat_contents_file:
  assumes sector: "shows_disk sector img w files" and w: "w = 32 \<or> w = 64" and fit: "files_fit files" and k: "k < 63" "vf_read (files ! k) \<noteq> None" "0 < vf_xlen (files ! k)"
    and img: "length (img k) = vf_xlen (files ! k)"
  shows "fat_contents sector vdisk_volume (VDISK_FILE_CLUSTER k) (vf_xlen (files ! k)) = Inr (img k)"
proof -
  let ?b = "VDISK_FILE_CLUSTER k"
  define n where "n = (vf_xlen (files ! k) - 1) div 0x8000 + 1"
  have "vf_xlen (files ! k) \<le> 2 ^ 32" using fit k(1) by (simp add: files_fit_def)
  then have n: "n \<le> 0x20000" by (simp add: n_def Suc_le_eq less_mult_imp_div_less)
  have last: "last_cluster k (files ! k) + 1 = ?b + n" by (simp add: last_cluster_def n_def)
  have chain: "fat_chain sector vdisk_volume (2 ^ 28) ?b = Inr [?b..<last_cluster k (files ! k) + 1]"
  proof (rule fat_chain_file [OF sector w fit k])
    show "last_cluster k (files ! k) - ?b < 2 ^ 28" using last n by simp
  qed (simp_all add: last_cluster_def)
  have clusters: "map (cluster_bytes sector vdisk_volume) [?b..<?b + n] = map (\<lambda>i. span (img k) (0x8000 * i) 0x8000) [0..<n]"
  proof (rule nth_equalityI)
    fix i assume "i < length (map (cluster_bytes sector vdisk_volume) [?b..<?b + n])"
    with n cluster_bytes_file [OF sector k(1), of i]
    show "map (cluster_bytes sector vdisk_volume) [?b..<?b + n] ! i = map (\<lambda>i. span (img k) (0x8000 * i) 0x8000) [0..<n] ! i"
      by simp
  qed simp
  have "vf_xlen (files ! k) \<le> 0x8000 * n"
    using div_mult_mod_eq [of "vf_xlen (files ! k) - 1" "0x8000"] mod_less_divisor [of "0x8000" "vf_xlen (files ! k) - 1"] unfolding n_def by simp
  then have "take (vf_xlen (files ! k)) (span (img k) 0 (0x8000 * n)) = img k"
    using img by (simp add: take_span span_window window_def)
  then show ?thesis by (simp only: fat_contents_def chain last rbind_Inr clusters span_clusters)
qed

end
