(* ===== verification/Fat_Directory.thy ===== *)
theory Fat_Directory
  imports Fat_Driver
begin

text \<open>
  What a FAT32 driver finds in the directories of the virtual disk: a decoder for directory entries with long names, which
  follows the documented format, and what it yields for the sectors of \<open>vdisk.c\<close>.
\<close>

section \<open>The decoder\<close>

text \<open>The characters of a long name entry.\<close>

definition lfn_chars :: "bytes \<Rightarrow> u16 list" where
  "lfn_chars e = map (\<lambda>i. word_of_nat (unat (e ! i) + 256 * unat (e ! (i + 1)))) [1, 3, 5, 7, 9, 14, 16, 18, 20, 22, 24, 28, 30]"

text \<open>
  The files of a directory, from its entries: the long name, the attributes, the first cluster and the size. \<open>acc\<close> are the
  characters of the long name entries since the last short entry, which come last part first.
\<close>

fun dir_decode :: "u16 list \<Rightarrow> bytes list \<Rightarrow> (u16 list \<times> u8 \<times> nat \<times> nat) list" where
  "dir_decode acc [] = []"
| "dir_decode acc (e # es) =
     (if e ! 0 = 0 then []
      else if e ! 0 = 0xe5 then dir_decode [] es
      else if e ! 11 = 0x0f then dir_decode (lfn_chars e @ acc) es
      else (takeWhile (\<lambda>c. c \<noteq> 0) acc, e ! 11,
            unat (e ! 26) + 256 * unat (e ! 27) + 65536 * (unat (e ! 20) + 256 * unat (e ! 21)),
            unat (e ! 28) + 256 * unat (e ! 29) + 65536 * (unat (e ! 30) + 256 * unat (e ! 31))) # dir_decode [] es)"

definition dir_entries :: "bytes \<Rightarrow> bytes list" where
  "dir_entries sector = map (\<lambda>i. window (32 * i) 32 sector) [0..<length sector div 32]"

lemma dir_entries_concat: "uniform 32 es \<Longrightarrow> dir_entries (concat es) = es"
proof (rule nth_equalityI)
  assume u: "uniform 32 es"
  show "length (dir_entries (concat es)) = length es" using length_concat_uniform [OF u] by (simp add: dir_entries_def)
  fix i assume "i < length (dir_entries (concat es))"
  then have i: "i < length es" using length_concat_uniform [OF u] by (simp add: dir_entries_def)
  then have "dir_entries (concat es) ! i = window (32 * i) 32 (concat es)"
    using length_concat_uniform [OF u] by (simp add: dir_entries_def)
  also have "\<dots> = es ! i" using concat_update [OF u i] u i by (simp add: window_def)
  finally show "dir_entries (concat es) ! i = es ! i" .
qed

lemma unit_roundtrip: "ucast (ucast c :: u8) + 256 * ucast (word_of_nat (unat c div 256) :: u8) = (c :: u16)"
proof -
  have c: "unat c < 256 * 256" using unsigned_less [where ?'b = 16 and w = c and ?'a = nat] by simp
  have "unat c mod 256 + 256 * (unat c div 256) = unat c" by simp
  moreover have "unat c div 256 < 256" using c by (simp add: less_mult_imp_div_less)
  ultimately have "unat c mod 256 + 256 * (unat c div 256 mod 256) = unat c" by simp
  then have "unat (ucast (ucast c :: u8) + 256 * ucast (word_of_nat (unat c div 256) :: u8) :: u16) = unat c"
    using c by (simp add: unat_word_ariths unsigned_ucast_eq unsigned_of_nat take_bit_eq_mod)
  then show ?thesis by (rule unsigned_word_eqI)
qed

lemma lfn_chars_entry:
  assumes "length cs = 13"
  shows "lfn_chars (lfn_entry sequence checksum cs) = cs"
proof -
  obtain c0 c1 c2 c3 c4 c5 c6 c7 c8 c9 c10 c11 c12 where "cs = [c0, c1, c2, c3, c4, c5, c6, c7, c8, c9, c10, c11, c12]"
    using list13 [OF assms] .
  then show ?thesis by (simp add: lfn_entry_def units_def le16_def lfn_chars_def unit_roundtrip)
qed

lemma VDISK_LFN_ATTR_value: "VDISK_LFN_ATTR = 0x0f"
  by (simp add: VDISK_LFN_ATTR_def VDISK_READ_ONLY_def VDISK_HIDDEN_def VDISK_SYSTEM_def VDISK_VOLUME_LABEL_def)

lemma dir_decode_lfn_entry:
  assumes "length cs = 13" "sequence \<noteq> 0" "sequence \<noteq> 0xe5"
  shows "dir_decode acc (lfn_entry sequence checksum cs # es) = dir_decode (cs @ acc) es"
  using assms by (simp add: lfn_entry_last lfn_entry_attr lfn_chars_entry VDISK_LFN_ATTR_value)

lemma dir_decode_blank: "dir_decode acc (blank_entry # es) = dir_decode [] es"
  by (simp add: blank_entry_def VDISK_DIRENT_DELETED_def)

lemma sequence_number:
  assumes "1 \<le> k" "k \<le> 5"
  shows "word_of_nat k \<notin> {0, 0xe5 :: u8}" "word_of_nat k OR VDISK_LFN_END \<notin> {0, 0xe5 :: u8}"
proof -
  have "k = 1 \<or> k = 2 \<or> k = 3 \<or> k = 4 \<or> k = 5" using assms by arith
  then show "word_of_nat k \<notin> {0, 0xe5 :: u8}" "word_of_nat k OR VDISK_LFN_END \<notin> {0, 0xe5 :: u8}"
    by (auto simp: VDISK_LFN_END_def)
qed

text \<open>The long name entries of a file leave its name in the accumulator.\<close>

lemma dir_decode_lfn:
  "1 \<le> k \<Longrightarrow> length us + 13 * k \<le> 65 \<Longrightarrow>
   \<exists>pad. dir_decode acc (rev (lfn_entries checksum k us) @ es) = dir_decode (us @ pad) es"
proof (induction checksum k us arbitrary: acc es rule: lfn_entries.induct)
  case (1 checksum k us)
  have "k \<le> 5" using "1.prems" by simp
  note k = sequence_number [OF "1.prems"(1) this]
  show ?case
  proof (cases "length us \<le> 13")
    case True
    have "dir_decode acc (lfn_entry (word_of_nat k OR VDISK_LFN_END) checksum (lfn_pad us) # es) = dir_decode (lfn_pad us @ acc) es"
      using True k(2) by (intro dir_decode_lfn_entry) (auto simp: lfn_pad_def)
    with True have "dir_decode acc (rev (lfn_entries checksum k us) @ es) = dir_decode (us @ replicate (13 - length us) 0xffff @ acc) es"
      by (subst lfn_entries.simps) (simp add: lfn_pad_def del: dir_decode.simps)
    then show ?thesis by blast
  next
    case False
    have "1 \<le> k + 1" "length (drop 13 us) + 13 * (k + 1) \<le> 65" using False "1.prems" by simp_all
    from "1.IH" [OF False this, of acc "lfn_entry (word_of_nat k) checksum (take 13 us) # es"] obtain pad where
      "dir_decode acc (rev (lfn_entries checksum (k + 1) (drop 13 us)) @ lfn_entry (word_of_nat k) checksum (take 13 us) # es)
        = dir_decode (drop 13 us @ pad) (lfn_entry (word_of_nat k) checksum (take 13 us) # es)" by blast
    also have "\<dots> = dir_decode (take 13 us @ drop 13 us @ pad) es"
      using False k(1) by (intro dir_decode_lfn_entry) auto
    also have "take 13 us @ drop 13 us @ pad = us @ pad" by (simp flip: append_assoc)
    finally have "dir_decode acc (rev (lfn_entries checksum k us) @ es) = dir_decode (us @ pad) es"
      using False by (subst lfn_entries.simps) (simp del: dir_decode.simps)
    then show ?thesis by blast
  qed
qed

text \<open>The characters of a name, as the directory has them.\<close>

abbreviation wide :: "bytes \<Rightarrow> u16 list" where
  "wide name \<equiv> map scast name"

lemma scast_0_iff: "(scast (c :: u8) :: u16) = 0 \<longleftrightarrow> c = 0"
proof
  assume "(scast c :: u16) = 0"
  moreover have "- 32768 \<le> sint c" "sint c < 32768" using sint_greater_eq [of c] sint_less [of c] by simp_all
  then have "sint (scast c :: u16) = sint c" by (simp add: signed_scast_eq signed_take_bit_int_eq_self)
  ultimately have "sint c = 0" by simp
  then show "c = 0" by (simp only: sint_0_iff)
qed simp

lemma dos_entry_fields:
  "dos_entry attr cluster len ! 0 = 0x20" "dos_entry attr cluster len ! 11 = attr"
  "dos_entry attr cluster len ! 20 = word_of_nat (cluster div 2 ^ 16)" "dos_entry attr cluster len ! 21 = word_of_nat (cluster div 2 ^ 16 div 256)"
  "dos_entry attr cluster len ! 26 = word_of_nat cluster" "dos_entry attr cluster len ! 27 = word_of_nat (cluster div 256)"
  "dos_entry attr cluster len ! 28 = word_of_nat len" "dos_entry attr cluster len ! 29 = word_of_nat (len div 256)"
  "dos_entry attr cluster len ! 30 = word_of_nat (len div 65536)" "dos_entry attr cluster len ! 31 = word_of_nat (len div 16777216)"
  by (simp_all add: dos_entry_def le16_def le32_def nth_append div_mult2_eq [symmetric])

lemma bytes_value:
  fixes v :: nat
  shows "v mod 256 + 256 * (v div 256 mod 256) + 65536 * (v div 65536 mod 256 + 256 * (v div 16777216 mod 256)) = v mod 4294967296"
proof -
  have "v mod 4294967296 = v mod 65536 + 65536 * (v div 65536 mod 65536)" using mod_mult2_eq [of v 65536 65536] by simp
  moreover have "v mod 65536 = v mod 256 + 256 * (v div 256 mod 256)" using mod_mult2_eq [of v 256 256] by simp
  moreover have "(v div 65536) mod (256 * 256) = v div 65536 mod 256 + 256 * (v div 65536 div 256 mod 256)" by (subst mod_mult2_eq) simp
  moreover have "v div 65536 div 256 = v div 16777216" by (simp add: div_mult2_eq [symmetric])
  ultimately show ?thesis by simp
qed

lemma dir_decode_file:
  assumes "0 \<notin> set name" "length name \<le> 31" "attr \<noteq> 0x0f"
  shows "dir_decode acc (file_entries name len attr cluster @ es)
    = (wide name, attr, cluster mod 2 ^ 32, len mod 2 ^ 32) # dir_decode [] es"
proof -
  have "length (name_units name) + 13 * 1 \<le> 65" using assms(2) by (simp add: name_units_def)
  then obtain pad where "dir_decode acc (rev (lfn_entries lfn_checksum 1 (name_units name)) @ dos_entry attr cluster len # es)
      = dir_decode (name_units name @ pad) (dos_entry attr cluster len # es)"
    using dir_decode_lfn [of 1] by blast
  moreover have "takeWhile (\<lambda>c. c \<noteq> 0) (name_units name @ pad) = wide name"
    using assms(1) by (auto simp: name_units_def scast_0_iff intro!: trans [OF takeWhile_append2])
  moreover have "unat (word_of_nat cluster :: u8) + 256 * unat (word_of_nat (cluster div 256) :: u8) + 65536 *
      (unat (word_of_nat (cluster div 65536) :: u8) + 256 * unat (word_of_nat (cluster div 65536 div 256) :: u8)) = cluster mod 2 ^ 32"
    using bytes_value [of cluster] by (simp add: unat_of_nat div_mult2_eq [symmetric])
  moreover have "unat (word_of_nat len :: u8) + 256 * unat (word_of_nat (len div 256) :: u8) + 65536 *
      (unat (word_of_nat (len div 65536) :: u8) + 256 * unat (word_of_nat (len div 16777216) :: u8)) = len mod 2 ^ 32"
    using bytes_value [of len] by (simp add: unat_of_nat)
  ultimately show ?thesis using assms(3) by (simp add: file_entries_def dos_entry_fields)
qed

section \<open>Directories of the disk\<close>

text \<open>The entries of a directory on a volume, from its first cluster.\<close>

definition fat_directory :: "(nat \<Rightarrow> bytes) \<Rightarrow> volume \<Rightarrow> nat \<Rightarrow> (u16 list \<times> u8 \<times> nat \<times> nat) list result" where
  "fat_directory sector v c =
     rbind (fat_chain sector v (2 ^ 28) c) (\<lambda>cs. Inr (dir_decode [] (dir_entries (concat (map (cluster_bytes sector v) cs)))))"

text \<open>The entries that the directories of the disk have: the subdirectories, then every file.\<close>

definition file_listing :: "('o, 'r, 'p) vdisk_file list \<Rightarrow> nat \<Rightarrow> (u16 list \<times> u8 \<times> nat \<times> nat) list" where
  "file_listing files k = (if vf_read (files ! k) = None then []
     else [(wide (cstring (vf_filename (files ! k))), VDISK_READ_ONLY, VDISK_FILE_CLUSTER k, vf_xlen (files ! k) mod 2 ^ 32)])"

definition subdir_listing :: "string \<times> nat \<Rightarrow> u16 list \<times> u8 \<times> nat \<times> nat" where
  "subdir_listing d = (wide (ascii (fst d)), VDISK_DIRECTORY, snd d, 0)"

definition listing :: "('o, 'r, 'p) vdisk_file list \<Rightarrow> nat \<Rightarrow> (u16 list \<times> u8 \<times> nat \<times> nat) list" where
  "listing files c = rev (map subdir_listing (subdirs c)) @
     concat (map (file_listing files) [0..<63])"

text \<open>The entries of a sector and what they decode to.\<close>

definition sector_entries :: "bytes list list \<Rightarrow> bytes list" where
  "sector_entries fs = (let es = concat (rev fs) in replicate (16 - length es) blank_entry @ es)"

definition decodes :: "bytes list \<Rightarrow> (u16 list \<times> u8 \<times> nat \<times> nat) list \<Rightarrow> bool" where
  "decodes es ls \<longleftrightarrow> (\<forall>rest. dir_decode [] (es @ rest) = ls @ dir_decode [] rest)"

lemma decodes_append: "decodes es ls \<Longrightarrow> decodes es' ls' \<Longrightarrow> decodes (es @ es') (ls @ ls')"
  by (simp add: decodes_def)

lemma decodes_Nil: "decodes [] []"
  by (simp add: decodes_def)

lemma decodes_blank: "decodes (replicate n blank_entry) []"
  by (induction n) (simp_all add: decodes_def dir_decode_blank del: dir_decode.simps)

lemma decodes_concat: "(\<And>x. x \<in> set xs \<Longrightarrow> decodes (f x) (g x)) \<Longrightarrow> decodes (concat (map f xs)) (concat (map g xs))"
  by (induction xs) (simp_all add: decodes_Nil decodes_append)

lemma decodes_file:
  assumes "0 \<notin> set name" "length name \<le> 31" "attr \<noteq> 0x0f"
  shows "decodes (file_entries name len attr cluster) [(wide name, attr, cluster mod 2 ^ 32, len mod 2 ^ 32)]"
  using dir_decode_file [OF assms] by (simp add: decodes_def)

lemma attributes: "VDISK_READ_ONLY \<noteq> 0x0f" "VDISK_DIRECTORY \<noteq> 0x0f"
  by (simp_all add: VDISK_READ_ONLY_def VDISK_DIRECTORY_def)

lemma decodes_subdirs:
  "decodes (sector_entries (map subdir_entries (subdirs c))) (rev (map subdir_listing (subdirs c)))"
proof -
  have "decodes (concat (map subdir_entries (rev (subdirs c)))) (concat (map (\<lambda>d. [subdir_listing d]) (rev (subdirs c))))"
  proof (rule decodes_concat)
    fix d assume "d \<in> set (rev (subdirs c))"
    then have d: "0 \<notin> set (ascii (fst d))" "length (ascii (fst d)) \<le> 31" "snd d mod 2 ^ 32 = snd d"
      by (auto simp: subdirs_def ascii_def split: if_splits)
    show "decodes (subdir_entries d) [subdir_listing d]"
      using decodes_file [OF d(1,2) attributes(2), of 0 "snd d"] d(3) by (simp add: subdir_entries_def subdir_listing_def split_beta)
  qed
  then have "decodes (concat (rev (map subdir_entries (subdirs c)))) (rev (map subdir_listing (subdirs c)))"
    by (simp add: rev_map)
  from decodes_append [OF decodes_blank this] show ?thesis by (simp add: sector_entries_def Let_def)
qed

lemma decodes_dirent:
  assumes "disk_files_ok files" "k < 63"
  shows "decodes (sector_entries (if vf_read (files ! k) = None then []
       else [file_entries (cstring (vf_filename (files ! k))) (vf_xlen (files ! k)) VDISK_READ_ONLY (VDISK_FILE_CLUSTER k)])) (file_listing files k)"
proof (cases "vf_read (files ! k) = None")
  case True
  then show ?thesis using decodes_blank by (simp add: sector_entries_def file_listing_def)
next
  case False
  have "files ! k \<in> set files" using assms by (simp add: disk_files_ok_def)
  then have "length (cstring (vf_filename (files ! k))) \<le> 31" using assms(1) False by (auto simp: disk_files_ok_def)
  moreover have "VDISK_FILE_CLUSTER k mod 2 ^ 32 = VDISK_FILE_CLUSTER k" using assms(2) by (simp add: VDISK_FILE_CLUSTER_value)
  ultimately have "decodes (file_entries (cstring (vf_filename (files ! k))) (vf_xlen (files ! k)) VDISK_READ_ONLY (VDISK_FILE_CLUSTER k)) (file_listing files k)"
    using False decodes_file [OF cstring_no_0 _ attributes(1), of "vf_filename (files ! k)" "vf_xlen (files ! k)" "VDISK_FILE_CLUSTER k"]
    by (auto simp: file_listing_def)
  from decodes_append [OF decodes_blank this] show ?thesis using False by (auto simp: sector_entries_def Let_def)
qed

lemma dir_sector_entries: "dir_sector fs = concat (sector_entries fs)"
  by (simp add: dir_sector_def sector_entries_def Let_def)

lemma uniform_sector_entries: "\<forall>f \<in> set fs. uniform 32 f \<Longrightarrow> uniform 32 (sector_entries fs)"
  by (auto simp: sector_entries_def Let_def blank_entry_def)

lemma concat_map_concat: "concat (map concat xsss) = concat (concat xsss)"
  by (induction xsss) simp_all

text \<open>The entries of the 64 sectors of a directory.\<close>

definition area_entries :: "('o, 'r, 'p) vdisk_file list \<Rightarrow> nat \<Rightarrow> bytes list" where
  "area_entries files s = sector_entries (if s mod 64 = 0 then map subdir_entries (subdirs (2 + s div 64))
     else if vf_read (files ! (s mod 64 - 1)) = None then []
     else [file_entries (cstring (vf_filename (files ! (s mod 64 - 1)))) (vf_xlen (files ! (s mod 64 - 1))) VDISK_READ_ONLY
       (VDISK_FILE_CLUSTER (s mod 64 - 1))])"

lemma area_entries_sector: "dir_area_sector files s = concat (area_entries files s)"
  by (simp add: dir_area_sector_def area_entries_def dirent_sector_def dir_sector_entries)

lemma uniform_area_entries: "uniform 32 (area_entries files s)"
  unfolding area_entries_def
  by (rule uniform_sector_entries) (auto simp: subdir_entries_def split: prod.splits intro: uniform_file_entries [rule_format])

lemma decodes_area:
  assumes "disk_files_ok files"
  shows "decodes (concat (map (area_entries files) [64 * d..<64 * d + 64])) (listing files (2 + d))"
proof -
  have "decodes (area_entries files (64 * d)) (rev (map subdir_listing (subdirs (2 + d))))"
    using decodes_subdirs [of "2 + d"] by (simp add: area_entries_def)
  moreover have "decodes (concat (map (\<lambda>k. area_entries files (64 * d + 1 + k)) [0..<63])) (concat (map (file_listing files) [0..<63]))"
  proof (rule decodes_concat)
    fix k :: nat assume "k \<in> set [0..<63]"
    then have k: "k < 63" by simp
    then have "(64 * d + 1 + k) mod 64 = k + 1" by (simp add: add.assoc)
    then show "decodes (area_entries files (64 * d + 1 + k)) (file_listing files k)"
      using decodes_dirent [OF assms k] by (cases "vf_read (files ! k)") (simp_all add: area_entries_def)
  qed
  moreover have "map (area_entries files) [64 * d..<64 * d + 64] = area_entries files (64 * d) # map (\<lambda>k. area_entries files (64 * d + 1 + k)) [0..<63]"
    by (rule nth_equalityI) (auto simp: nth_Cons simp del: upt_Suc split: nat.splits)
  ultimately show ?thesis unfolding listing_def by (simp add: decodes_append del: upt_Suc)
qed

lemma fat_chain_end: "fat_next sector v c = Inr e \<Longrightarrow> 0x0ffffff8 \<le> e \<Longrightarrow> 0 < fuel \<Longrightarrow> fat_chain sector v fuel c = Inr [c]"
  by (cases fuel) simp_all

text \<open>The directories are clusters 2 to 8, each of them a chain of one cluster.\<close>

lemma fat_directory_listing:
  assumes sector: "shows_disk sector img w files" and ok: "disk_files_ok files" and c: "2 \<le> c" "c < 9"
  shows "fat_directory sector vdisk_volume c = Inr (listing files c)"
proof -
  have "fat_entry w files c = VDISK_FAT_END_MARKER" using c by (simp add: fat_entry_def)
  then have next_c: "fat_next sector vdisk_volume c = Inr 0x0ffffff8"
    using fat_next_entry [OF sector, of c] c(2) by (simp add: VDISK_FAT_END_MARKER_def)
  have chain: "fat_chain sector vdisk_volume (2 ^ 28) c = Inr [c]"
    using next_c by (rule fat_chain_end) simp_all
  define d where "d = c - 2"
  have d: "c = 2 + d" "d < 7" using c by (auto simp: d_def)
  let ?lba = "0x80040 + 64 * d"
  have "map sector [?lba..<?lba + 64] = map (\<lambda>s. concat (area_entries files s)) [64 * d..<64 * d + 64]"
  proof (rule nth_equalityI)
    fix j assume "j < length (map sector [?lba..<?lba + 64])"
    then have j: "j < 64" by simp
    then have "sector (?lba + j) = dir_area_sector files (64 * d + j)"
      using shows_diskD [OF sector, of "?lba + j"] d(2) by (simp add: disk_sector_def)
    then show "map sector [?lba..<?lba + 64] ! j = map (\<lambda>s. concat (area_entries files s)) [64 * d..<64 * d + 64] ! j"
      using j by (simp add: area_entries_sector)
  qed simp
  then have "cluster_bytes sector vdisk_volume c = concat (map concat (map (area_entries files) [64 * d..<64 * d + 64]))"
    by (simp add: cluster_bytes_def vdisk_volume_def d(1) mult.commute comp_def)
  also have "\<dots> = concat (concat (map (area_entries files) [64 * d..<64 * d + 64]))" by (rule concat_map_concat)
  finally have "dir_entries (cluster_bytes sector vdisk_volume c) = concat (map (area_entries files) [64 * d..<64 * d + 64])"
    using uniform_area_entries by (simp only:) (rule dir_entries_concat, auto)
  moreover have "dir_decode [] (concat (map (area_entries files) [64 * d..<64 * d + 64])) = listing files c"
    using decodes_area [OF ok, of d] by (auto simp: decodes_def d(1) dest: spec [of _ "[]"])
  ultimately show ?thesis unfolding fat_directory_def chain rbind_Inr by simp
qed

end
