(* ===== verification/Disk_Laws.thy ===== *)
theory Disk_Laws
  imports Patched_Image Fat_Directory
begin

text \<open>
  The methods of the program satisfy the laws of the virtual disk: whatever is read from the disk, in whatever order and
  in ranges of whatever size, is what a disk image with the same files contains.
\<close>

section \<open>The methods\<close>

text \<open>What the read and patch methods of the files do to the static variables.\<close>

definition boot_read :: "nat \<Rightarrow> struct_wim_file list \<Rightarrow> (opaque, reader, patcher, statics) read_method" where
  "boot_read w wfiles r files k off n = on_cache (call_read w wfiles r files k off n)"

definition boot_patch :: "nat \<Rightarrow> struct_wim_file list \<Rightarrow> options \<Rightarrow> (opaque, reader, patcher, statics) patch_method" where
  "boot_patch w wfiles opts p files k data off n = (case p of Patch_wim \<Rightarrow> patch_wim w wfiles opts files k data off n)"

text \<open>Is the image patched at all?\<close>

definition patching :: "options \<Rightarrow> bool" where
  "patching opts \<longleftrightarrow> cmdline_index opts \<noteq> 0 \<or> cmdline_rawwim opts = 0"

section \<open>Disks\<close>

text \<open>
  A disk whose files are of the kinds that the program has. The image \<open>f\<close> is the only file that is patched; \<open>R\<close> are
  the resources of it that are read, and \<open>patch\<close> the patch.
\<close>

record boot_config =
  bc_w :: nat
  bc_wfiles :: "struct_wim_file list"
  bc_opts :: options
  bc_image :: nat
  bc_header :: wim_header
  bc_resources :: "wim_resource_header set"
  bc_patch :: wim_patch

definition patched :: "boot_config \<Rightarrow> vfile list \<Rightarrow> nat \<Rightarrow> bool" where
  "patched c files k \<longleftrightarrow> patching (bc_opts c) \<and> vf_patch (files ! k) \<noteq> None"

definition boot_content :: "boot_config \<Rightarrow> vfile list \<Rightarrow> nat \<Rightarrow> bytes" where
  "boot_content c files k = vcontent (bc_w c) (bc_wfiles c) files k"

definition boot_image :: "boot_config \<Rightarrow> vfile list \<Rightarrow> nat \<Rightarrow> bytes" where
  "boot_image c files k =
     (if patched c files k then patched_image (bc_w c) (bc_wfiles c) files (bc_header c) (bc_patch c)
        (boot_content c files k @ replicate (vf_xlen (files ! k) - vf_len (files ! k)) 0)
      else boot_content c files k)"

definition boot_valid :: "boot_config \<Rightarrow> vfile list \<Rightarrow> bool" where
  "boot_valid c files \<longleftrightarrow> bc_w c \<le> 64 \<and> disk_files_ok files \<and>
     resources_ok (bc_w c) (file_source (bc_image c) (files ! bc_image c)) (bc_header c) (bc_resources c) \<and>
     (\<forall>k < 63. vfile_ok (bc_w c) (bc_wfiles c) files (bc_image c) (bc_header c) (bc_resources c) k \<and>
        vf_len (files ! k) \<le> vf_xlen (files ! k) \<and>
        (if patched c files k then k = bc_image c \<and>
           patch_ok (bc_w c) (bc_wfiles c) files (bc_image c) (bc_header c) (bc_resources c) (bc_patch c)
         else vf_xlen (files ! k) = vf_len (files ! k)))"

definition boot_good :: "boot_config \<Rightarrow> vfile list \<Rightarrow> statics \<Rightarrow> bool" where
  "boot_good c files s \<longleftrightarrow> cache_good (bc_w c) (bc_image c) (bc_header c) (bc_resources c) files (st_cache s) \<and> st_patch s = bc_patch c"

lemma returns_on_cache:
  assumes "returns (cache_good (bc_w c) (bc_image c) (bc_header c) (bc_resources c) files) m x"
  shows "returns (boot_good c files) (on_cache m) x"
  using assms by (fastforce simp: returns_def boot_good_def on_cache_def split: prod.splits)

lemma returns_stateful_or_die: "returns good m x \<Longrightarrow> returns good (stateful_or_die m) x"
  using returns_or_die [of good m x] by (simp add: stateful_or_die_def [abs_def])

lemma overlay_whole: "length data = n \<Longrightarrow> length bs = n \<Longrightarrow> overlay 0 bs (data @ rest) = bs @ rest"
  by (simp add: overlay_0)

lemma boot_patch_window:
  assumes valid: "boot_valid c files" and k: "k < 63" "vf_patch (files ! k) = Some p"
    and n: "n = 0 \<or> off + n \<le> vf_xlen (files ! k)" "n \<le> length data" "take n data = span (boot_content c files k) off n"
  shows "returns (boot_good c files) (boot_patch (bc_w c) (bc_wfiles c) (bc_opts c) p files k (Some data) off n)
    (files, Some (overlay 0 (window off n (boot_image c files k)) data))"
proof -
  let ?w = "bc_w c" and ?wf = "bc_wfiles c" and ?f = "bc_image c" and ?hdr = "bc_header c" and ?R = "bc_resources c" and ?P = "bc_patch c"
  define im where "im = boot_content c files k @ replicate (vf_xlen (files ! k) - vf_len (files ! k)) 0"
  have len: "length (boot_content c files k) = vf_len (files ! k)" "vf_len (files ! k) \<le> vf_xlen (files ! k)"
    using valid k(1) length_vcontent by (auto simp: boot_valid_def boot_content_def)
  then have im: "length im = vf_xlen (files ! k)" by (simp add: im_def)
  have data: "data = window off n im @ drop n data"
  proof -
    have "span (boot_content c files k) off n = window off n im"
    proof (rule nth_equalityI)
      show "length (span (boot_content c files k) off n) = length (window off n im)" using im n(1) by auto
      fix i assume "i < length (span (boot_content c files k) off n)"
      then have "i < n" by simp
      with n(1) im len show "span (boot_content c files k) off n ! i = window off n im ! i"
        by (auto simp: span_def byte_at_def nth_window im_def nth_append)
    qed
    then show ?thesis using n(3) append_take_drop_id [of n data] by simp
  qed
  have "returns (boot_good c files) (patch_wim ?w ?wf (bc_opts c) files k (Some data) off n)
    (files, Some (overlay 0 (window off n (boot_image c files k)) data))"
  proof (cases "patching (bc_opts c)")
    case False
    then have "vf_xlen (files ! k) = vf_len (files ! k)" "boot_image c files k = im"
      using valid k(1) by (auto simp: boot_valid_def patched_def boot_image_def im_def)
    moreover have "overlay 0 (window off n im) data = data"
      using data n im by (subst (2) data, subst (2) data) (auto simp: overlay_0)
    ultimately show ?thesis using False by (simp add: patch_wim_def patching_def returns_wret)
  next
    case True
    then have "patched c files k" using k(2) by (simp add: patched_def)
    then have f: "k = ?f" and patch: "patch_ok ?w ?wf files ?f ?hdr ?R ?P" and res: "resources_ok ?w (file_source ?f (files ! ?f)) ?hdr ?R" and w: "?w \<le> 64"
      using valid k(1) by (auto simp: boot_valid_def)
    have img: "boot_image c files k = patched_image ?w ?wf files ?hdr ?P im"
      using \<open>patched c files k\<close> by (simp add: boot_image_def im_def)
    have all: "returns (boot_good c files) (stateful_or_die (on_cache (wim_patch_all ?w ?wf files ?P (rs_region (wp_regions ?P)) (Some data) off n)))
        (Some (window off n (boot_image c files k) @ drop n data))"
      unfolding img patched_image_def
      by (subst data, intro returns_stateful_or_die returns_on_cache returns_wim_patch_all [OF res w patch])
         (use im n(1) f in auto)
    have wf: "wp_file ?P = Some k" using patch f by (simp add: patch_ok_def)
    have cond: "\<not> (cmdline_index (bc_opts c) = 0 \<and> cmdline_rawwim (bc_opts c) \<noteq> 0)" using True by (auto simp: patching_def)
    have run: "patch_wim ?w ?wf (bc_opts c) files k (Some data) off n s =
        wbind (stateful_or_die (on_cache (wim_patch_all ?w ?wf files ?P (rs_region (wp_regions ?P)) (Some data) off n)))
          (\<lambda>data. wret (Inr (files, data))) s" if "boot_good c files s" for s
    proof -
      have "st_patch s = ?P" using that by (simp add: boot_good_def)
      with wf cond show ?thesis unfolding patch_wim_def Let_def by (auto simp: wbind_wret)
    qed
    have over: "overlay 0 (window off n (boot_image c files k)) data = window off n (boot_image c files k) @ drop n data"
    proof -
      have "length (boot_image c files k) = vf_xlen (files ! k)"
        unfolding img using length_patched_image [OF patch, of im] im f by simp
      then have "length (window off n (boot_image c files k)) = n" using n(1) by auto
      then show ?thesis by (simp add: overlay_0)
    qed
    have "returns (boot_good c files) (wbind (stateful_or_die (on_cache (wim_patch_all ?w ?wf files ?P (rs_region (wp_regions ?P)) (Some data) off n)))
          (\<lambda>data. wret (Inr (files, data)))) (files, Some (overlay 0 (window off n (boot_image c files k)) data))"
      unfolding over by (rule returns_bind [OF all]) (rule returns_wret)
    then show ?thesis using run by (simp add: returns_def)
  qed
  then show ?thesis by (cases p) (simp add: boot_patch_def)
qed

interpretation boot_disk: vdisk_methods "boot_read (bc_w c) (bc_wfiles c)" "boot_patch (bc_w c) (bc_wfiles c) (bc_opts c)"
  "boot_content c" "boot_image c" "boot_valid c" "boot_good c" for c
proof
  fix files and k :: nat
  assume valid: "boot_valid c files"
  then show "disk_files_ok files" by (simp add: boot_valid_def)
  fix r p and off n :: nat and data
  assume k: "k < 63"
  have ok: "vfile_ok (bc_w c) (bc_wfiles c) files (bc_image c) (bc_header c) (bc_resources c) k" "vf_len (files ! k) \<le> vf_xlen (files ! k)"
    using valid k by (auto simp: boot_valid_def)
  show len: "length (boot_content c files k) = vf_len (files ! k)" using length_vcontent [OF ok(1)] by (simp add: boot_content_def)
  show "vf_len (files ! k) \<le> vf_xlen (files ! k)" by (rule ok(2))
  show "length (boot_image c files k) = vf_xlen (files ! k)"
    using valid k len ok(2) length_patched_image by (fastforce simp: boot_valid_def boot_image_def)
  show "vf_len (files ! k) = 0" if "vf_read (files ! k) = None" using ok(1) that by (simp add: vfile_ok_def)
  show "boot_image c files k = boot_content c files k" if "vf_patch (files ! k) = None" using that by (simp add: boot_image_def patched_def)
  show "returns (boot_good c files) (boot_read (bc_w c) (bc_wfiles c) r files k off n) (window off n (boot_content c files k))"
    if "vf_read (files ! k) = Some r" "0 < n" "off + n \<le> vf_len (files ! k)"
    unfolding boot_read_def boot_content_def
    using valid that by (intro returns_on_cache returns_call_read ok) (auto simp: boot_valid_def)
  show "returns (boot_good c files) (boot_patch (bc_w c) (bc_wfiles c) (bc_opts c) p files k (Some data) off n)
      (files, Some (overlay 0 (window off n (boot_image c files k)) data))"
    if "vf_patch (files ! k) = Some p" "n = 0 \<or> off + n \<le> vf_xlen (files ! k)" "n \<le> length data" "take n data = span (boot_content c files k) off n"
    by (rule boot_patch_window [OF valid k that])
qed

lemma returnsD: "returns good m x \<Longrightarrow> good s \<Longrightarrow> \<exists>s'. m s = (Inr x, s') \<and> good s'"
  by (cases "m s") (auto simp: returns_def)

section \<open>Properties\<close>

text \<open>An example of a disk: one file of three bytes.\<close>

definition example_file :: vfile where
  "example_file = \<lparr>vf_name = ascii ''A.TXT'' @ replicate 27 0, vf_filename = ascii ''A.TXT'' @ replicate 27 0, vf_opaque = Data [1, 2, 3],
     vf_len = 3, vf_xlen = 3, vf_read = Some Read_file, vf_patch = None\<rparr>"

definition example_files :: "vfile list" where
  "example_files = example_file # replicate 62 (vdisk_file_empty Null)"

definition example_config :: boot_config where
  "example_config = \<lparr>bc_w = 32, bc_wfiles = [], bc_opts = cmdline_initial, bc_image = 0, bc_header = wim_header_zero,
     bc_resources = {}, bc_patch = wim_patch_zero\<rparr>"

definition example_statics :: statics where
  "example_statics = \<lparr>st_cache = wim_cache_initial, st_patch = wim_patch_zero\<rparr>"

lemma example_valid: "boot_valid example_config example_files"
proof -
  have files: "example_files ! k = (if k = 0 then example_file else vdisk_file_empty Null)" if "k < 63" for k
    using that by (cases k) (simp_all add: example_files_def)
  have "set example_files = {example_file, vdisk_file_empty Null}" by (auto simp: example_files_def)
  then have "disk_files_ok example_files"
    by (simp add: disk_files_ok_def) (simp add: example_files_def example_file_def vdisk_file_empty_def ascii_def replicate_numeral)
  then show ?thesis
    by (auto simp: boot_valid_def resources_ok_def files example_config_def vfile_ok_def memory_file_def patched_def)
       (auto simp: files memory_file_def example_file_def vdisk_file_empty_def)
qed

lemma example_good: "boot_good example_config example_files example_statics"
  by (simp add: boot_good_def cache_good_def example_config_def example_statics_def cache_ok_initial)

text \<open>
  C2: A read of fewer than 0x800000 sectors within the virtual disk that does not cross LBA 0x800000, and that with 32-bit
  arithmetic ends before LBA 0xff800000, yields these sectors of the disk image: the boot records, the allocation table, the
  directories, and the files with the patched WIM image, whatever was read before and whatever is in the caches; no file
  is changed. What other reads do is stated in \<open>Disk_Limits\<close>: a read across LBA 0x800000 loses the start of the
  first file, and one from the end of the disk runs out of its buffer with 32-bit arithmetic.
\<close>

theorem vdisk_read_image:
  assumes "boot_valid c files" "boot_good c files s" "32 \<le> bc_w c" "lba + count \<le> 2 ^ bc_w c - 0x800000" "lba + count \<le> VDISK_COUNT"
    "lba + count \<le> 0x800000 \<or> 0x800000 \<le> lba" "0 < count" "count < 0x800000" "512 * count \<le> length data"
  shows "\<exists>s'. vdisk_read (bc_w c) (boot_read (bc_w c) (bc_wfiles c)) (boot_patch (bc_w c) (bc_wfiles c) (bc_opts c)) files lba count data s =
      (Inr (files, concat (map (disk_sector (boot_image c files) (bc_w c) files) [lba..<lba + count]) @ drop (512 * count) data), s')
    \<and> boot_good c files s'"
  using returnsD [OF boot_disk.read_sectors [OF assms(1,3-9)] assms(2)] .

theorem vdisk_read_image_witness:
  "\<exists>s'. vdisk_read 32 (boot_read 32 []) (boot_patch 32 [] cmdline_initial) example_files 0x800000 1 (replicate 512 0xff) example_statics =
      (Inr (example_files, [1, 2, 3] @ replicate 509 0), s')"
proof -
  have img: "boot_image example_config example_files 0 = [1, 2, 3]"
    by (simp add: boot_image_def boot_content_def vcontent_def patched_def example_files_def example_file_def)
  have "disk_sector (boot_image example_config example_files) 32 example_files 0x800000 = [1, 2, 3] @ replicate 509 0"
    using span_copy [of "[1, 2, 3]" 0 512] by (simp add: disk_sector_def img window_def)
  moreover have "\<exists>s'. vdisk_read (bc_w example_config) (boot_read (bc_w example_config) (bc_wfiles example_config))
      (boot_patch (bc_w example_config) (bc_wfiles example_config) (bc_opts example_config)) example_files 0x800000 1 (replicate 512 0xff) example_statics =
      (Inr (example_files, concat (map (disk_sector (boot_image example_config example_files) (bc_w example_config) example_files) [0x800000..<0x800000 + 1])
        @ drop (512 * 1) (replicate 512 0xff)), s') \<and> boot_good example_config example_files s'"
    by (rule vdisk_read_image [OF example_valid example_good]) (simp_all add: example_config_def vdisk_numbers)
  ultimately show ?thesis by (auto simp: example_config_def)
qed

text \<open>The sectors that single reads yield.\<close>

definition read_lba :: "boot_config \<Rightarrow> vfile list \<Rightarrow> statics \<Rightarrow> nat \<Rightarrow> bytes" where
  "read_lba c files s lba =
     (case fst (vdisk_read (bc_w c) (boot_read (bc_w c) (bc_wfiles c)) (boot_patch (bc_w c) (bc_wfiles c) (bc_opts c)) files lba 1 (replicate 512 0) s) of
        Inr (files, data) \<Rightarrow> data | Inl e \<Rightarrow> [])"

lemma read_lba_shows:
  assumes "boot_valid c files" "boot_good c files s" "32 \<le> bc_w c"
  shows "shows_disk (read_lba c files s) (boot_image c files) (bc_w c) files"
  unfolding shows_disk_def
proof (intro allI impI)
  fix lba :: nat assume lba: "lba < 0x20000000"
  have "(2 :: nat) ^ 32 \<le> 2 ^ bc_w c" using assms(3) by (intro power_increasing) simp_all
  then have "lba + 1 \<le> 2 ^ bc_w c - 0x800000" "lba + 1 \<le> VDISK_COUNT" "lba + 1 \<le> 0x800000 \<or> 0x800000 \<le> lba"
    using lba by (auto simp: vdisk_numbers)
  from returnsD [OF boot_disk.read_sectors [OF assms(1,3) this] assms(2), of "replicate 512 0"]
  show "read_lba c files s lba = disk_sector (boot_image c files) (bc_w c) files lba"
    by (auto simp: read_lba_def)
qed

text \<open>What a driver finds on the disk.\<close>

lemma driver_directories:
  assumes "boot_valid c files" "boot_good c files s" "bc_w c = 32 \<or> bc_w c = 64" "2 \<le> d" "d < 9"
  shows "mount (read_lba c files s) VDISK_VBR_LBA = Inr vdisk_volume
    \<and> fat_directory (read_lba c files s) vdisk_volume d = Inr (listing files d)"
proof -
  have "32 \<le> bc_w c" using assms(3) by auto
  note disk = read_lba_shows [OF assms(1,2) this]
  have "disk_files_ok files" using assms(1) by (simp add: boot_valid_def)
  with mount_disk [OF disk] fat_directory_listing [OF disk _ assms(4,5)] show ?thesis by (simp add: vdisk_numbers)
qed

lemma driver_contents:
  assumes "boot_valid c files" "boot_good c files s" "bc_w c = 32 \<or> bc_w c = 64"
    and "\<forall>vf \<in> set files. vf_xlen vf < 2 ^ 32" "2 \<le> d" "d < 9" "k < VDISK_MAX_FILES" "vf_read (files ! k) \<noteq> None" "0 < vf_xlen (files ! k)"
  shows "\<exists>name attr cluster len. (name, attr, cluster, len) \<in> set (listing files d) \<and> name = wide (cstring (vf_filename (files ! k))) \<and>
    fat_contents (read_lba c files s) vdisk_volume cluster len = Inr (boot_image c files k)"
proof -
  have "32 \<le> bc_w c" using assms(3) by auto
  note disk = read_lba_shows [OF assms(1,2) this]
  have len: "length files = 63" using assms(1) by (simp add: boot_valid_def disk_files_ok_def)
  have k: "k < 63" using assms(7) by (simp add: vdisk_numbers)
  have "files_fit files" using assms(4) len by (auto simp: files_fit_def)
  moreover have "length (boot_image c files k) = vf_xlen (files ! k)" by (rule boot_disk.length_img [OF assms(1) k])
  ultimately have "fat_contents (read_lba c files s) vdisk_volume (VDISK_FILE_CLUSTER k) (vf_xlen (files ! k)) = Inr (boot_image c files k)"
    using fat_contents_file [OF disk assms(3) _ k assms(8,9)] by blast
  moreover have "vf_xlen (files ! k) mod 2 ^ 32 = vf_xlen (files ! k)" using assms(4) len k by simp
  then have "(wide (cstring (vf_filename (files ! k))), VDISK_READ_ONLY, VDISK_FILE_CLUSTER k, vf_xlen (files ! k)) \<in> set (listing files d)"
    using k assms(8) by (auto simp: listing_def file_listing_def intro!: bexI [of _ k])
  ultimately show ?thesis by blast
qed

text \<open>
  C4: A FAT32 driver that reads the disk sector by sector can mount the volume, and finds in each of the seven directories
  the subdirectories and then every file, with its name, the length of its image and its first cluster.
\<close>

theorem fat_driver_directories:
  assumes "boot_valid c files" "boot_good c files s" "bc_w c = 32 \<or> bc_w c = 64" "2 \<le> d" "d < 9"
  shows "mount (read_lba c files s) VDISK_VBR_LBA = Inr vdisk_volume
    \<and> fat_directory (read_lba c files s) vdisk_volume d = Inr (listing files d)"
  by (rule driver_directories [OF assms])

theorem fat_driver_directories_witness:
  "fat_directory (read_lba example_config example_files example_statics) vdisk_volume VDISK_ROOT_CLUSTER =
     Inr [(map of_char ''EFI'', 0x10, 7, 0), (map of_char ''SOURCES'', 0x10, 4, 0), (map of_char ''BOOT'', 0x10, 3, 0),
          (map of_char ''A.TXT'', 0x01, VDISK_FILE_CLUSTER 0, 3)]"
proof -
  have empty: "file_listing example_files k = []" if "k \<in> set [1..<63]" for k
  proof -
    have "1 \<le> k" "k < 63" using that by (simp_all only: set_upt atLeastLessThan_iff)
    then obtain j where "k = Suc j" "j < 62" by (cases k) auto
    then show ?thesis by (simp add: file_listing_def example_files_def vdisk_file_empty_def)
  qed
  have "[0..<63] = 0 # [1..<63]" by (simp add: upt_conv_Cons del: upt_Suc)
  then have "concat (map (file_listing example_files) [0..<63]) = file_listing example_files 0"
    using empty by (simp del: upt_Suc)
  moreover have "file_listing example_files 0 = [(map of_char ''A.TXT'', 0x01, VDISK_FILE_CLUSTER 0, 3)]"
    by (simp add: file_listing_def example_files_def example_file_def ascii_def VDISK_READ_ONLY_def replicate_numeral)
  ultimately have "listing example_files 2 = [(map of_char ''EFI'', 0x10, 7, 0), (map of_char ''SOURCES'', 0x10, 4, 0), (map of_char ''BOOT'', 0x10, 3, 0),
      (map of_char ''A.TXT'', 0x01, VDISK_FILE_CLUSTER 0, 3)]"
    unfolding listing_def by (simp add: subdirs_def subdir_listing_def ascii_def VDISK_DIRECTORY_def)
  with fat_driver_directories [OF example_valid example_good, of 2] show ?thesis
    by (simp add: example_config_def VDISK_ROOT_CLUSTER_def)
qed

text \<open>
  C3: For every file of the disk that is not empty, following the chain of clusters from the first cluster given in the
  directory, for the length given there, yields the image of the file.
\<close>

theorem fat_driver_contents:
  assumes "boot_valid c files" "boot_good c files s" "bc_w c = 32 \<or> bc_w c = 64"
    and "\<forall>vf \<in> set files. vf_xlen vf < 2 ^ 32" "2 \<le> d" "d < 9" "k < VDISK_MAX_FILES" "vf_read (files ! k) \<noteq> None" "0 < vf_xlen (files ! k)"
  shows "\<exists>name attr cluster len. (name, attr, cluster, len) \<in> set (listing files d) \<and> name = wide (cstring (vf_filename (files ! k))) \<and>
    fat_contents (read_lba c files s) vdisk_volume cluster len = Inr (boot_image c files k)"
  by (rule driver_contents [OF assms])

theorem fat_driver_contents_witness:
  "\<exists>name attr cluster len. (name, attr, cluster, len) \<in> set (listing example_files 4) \<and>
     fat_contents (read_lba example_config example_files example_statics) vdisk_volume cluster len = Inr [1, 2, 3]"
proof -
  have img: "boot_image example_config example_files 0 = [1, 2, 3]"
    by (simp add: boot_image_def boot_content_def vcontent_def patched_def example_files_def example_file_def)
  have "\<exists>name attr cluster len. (name, attr, cluster, len) \<in> set (listing example_files 4) \<and> name = wide (cstring (vf_filename (example_files ! 0))) \<and>
     fat_contents (read_lba example_config example_files example_statics) vdisk_volume cluster len = Inr (boot_image example_config example_files 0)"
    by (rule fat_driver_contents [OF example_valid example_good])
       (auto simp: example_config_def example_files_def example_file_def vdisk_file_empty_def vdisk_numbers)
  then show ?thesis unfolding img by blast
qed

end
