(* ===== verification/Disk_Limits.thy ===== *)
theory Disk_Limits
  imports Vdisk_Image
begin

text \<open>
  Where reads of the virtual disk go wrong: across the start of the file area, and at the end of the disk when
  \<open>unsigned long\<close> has 32 bits.
\<close>

lemma memset_beyond: "0 < n \<Longrightarrow> length mem < dest + n \<Longrightarrow> memset mem dest c n = Inl Fault"
proof (induction n arbitrary: dest mem)
  case (Suc n)
  show ?case
  proof (cases "dest < length mem")
    case True
    with Suc.prems have "memset (mem[dest := c]) (dest + 1) c n = Inl Fault" by (intro Suc.IH) auto
    with True show ?thesis by (simp add: wr8_def)
  qed (simp add: wr8_def)
qed simp

section \<open>Across LBA 0x800000\<close>

lemma vdisk_file_idx_small: "lba < 0x800000 \<Longrightarrow> vdisk_file_idx lba = -1"
proof -
  assume "lba < 0x800000"
  then have "vdisk_file_idx lba = signed_take_bit 31 (int ((0 + (2 ^ 64 - 1)) mod 2 ^ 64))"
    by (simp only: vdisk_file_idx_def VDISK_FILE_IDX_def vdisk_numbers) simp
  also have "\<dots> = -1" by code_simp
  finally show ?thesis .
qed

text \<open>No region lies at or after the given sector.\<close>

lemma vdisk_find_none:
  "\<forall>r \<in> set rs. reg_lba r + reg_count r \<le> frag_start \<Longrightarrow> frag_start < frag_end \<Longrightarrow> vdisk_find frag_start frag_end rs = (frag_end, None)"
  by (induction rs) (auto simp: Let_def)

lemma vdisk_regions_end: "r \<in> set (vdisk_regions w files) \<Longrightarrow> reg_lba r + reg_count r \<le> 0x80200"
  by (auto simp: vdisk_regions_def VDISK_REGION_def VDISK_DIRECTORY_REGION_def vdisk_numbers)

text \<open>
  C33: A read that starts before LBA 0x800000, after the directories, and ends in the first file fills the whole buffer with
  zeros: the regions do not contain the file area, at whose start the fragment is not cut. The data of the first file is missing.
\<close>

theorem vdisk_read_straddles:
  assumes "0x80200 \<le> lba" "lba < 0x800000" "0x800000 < lba + count" "count < 0x800000" "512 * count \<le> length data"
  shows "vdisk_read w call_read call_patch files lba count data s = (Inr (files, replicate (512 * count) 0 @ drop (512 * count) data), s)"
proof -
  have find: "vdisk_find lba (lba + count) (vdisk_regions w files) = (lba + count, None)"
    using assms vdisk_regions_end by (intro vdisk_find_none) fastforce+
  have "frag_count lba (lba + count) = count"
    using assms by (subst frag_count_diff) simp_all
  moreover have "count * VDISK_SECTOR_SIZE mod 2 ^ 32 = 512 * count" using assms(4) by (simp add: vdisk_numbers)
  ultimately have frag: "vdisk_fragment w call_read call_patch files lba (lba + count) data =
      wret (Inr (count, files, replicate (512 * count) 0 @ drop (512 * count) data))"
    using assms(5) vdisk_file_idx_small [OF assms(2)]
    by (simp add: vdisk_fragment_def find Let_def memset_overlay overlay_0)
  have "(lba + count) mod 2 ^ 64 = lba + count" using assms by simp
  then show ?thesis
    using assms(4,5) by (simp add: vdisk_read_def frag wbind_wret Let_def vdisk_numbers wret_Pair)
qed

text \<open>The same sector, read on its own and as the second of two.\<close>

theorem vdisk_read_straddles_witness:
  "vdisk_read 32 (\<lambda>r files k off n s. (Inr (replicate n 0x41), s)) (\<lambda>p files k data off n s. (Inr (files, data), s))
     (replicate 63 \<lparr>vf_name = [0], vf_filename = [0], vf_opaque = (), vf_len = 512, vf_xlen = 512, vf_read = Some (), vf_patch = None\<rparr>)
     0x7fffff 2 (replicate 1024 0xff) () =
   (Inr (replicate 63 \<lparr>vf_name = [0], vf_filename = [0], vf_opaque = (), vf_len = 512, vf_xlen = 512, vf_read = Some (), vf_patch = None\<rparr>,
     replicate 1024 0), ())"
  by (subst vdisk_read_straddles) simp_all

section \<open>The end of the disk with 32-bit arithmetic\<close>

lemma vdisk_file_idx_file:
  assumes "0 < m" "m \<le> 0x40000000" "t < 0x800000"
  shows "vdisk_file_idx (0x800000 * m + t) = int m - 1"
proof -
  obtain k where k: "m = Suc k" using assms(1) by (cases m) simp_all
  have "(0x800000 * m + t) div 0x800000 = m" using assms(3) by simp
  moreover have "(Suc k + (2 ^ 64 - 1)) mod 2 ^ 64 = (k + 2 ^ 64) mod 2 ^ 64" by simp
  then have "(Suc k + (2 ^ 64 - 1)) mod 2 ^ 64 = k" using assms(2) k by simp
  ultimately have "VDISK_FILE_IDX (0x800000 * m + t) = k" using k by (simp only: VDISK_FILE_IDX_def vdisk_numbers)
  then show ?thesis using assms(2) k by (simp add: vdisk_file_idx_def signed_take_bit_int_eq_self_iff)
qed

text \<open>
  C34: On machines where \<open>unsigned long\<close> has 32 bits, every read from the last half million sectors of the disk, into a buffer
  of the size of these sectors, writes beyond the buffer: the end of the file area wraps to zero, so that the fragment extends
  from there to the end of the 32-bit range.
\<close>

theorem vdisk_read_overruns:
  assumes "0xff800000 < lba" "lba + count \<le> VDISK_COUNT" "0 < count" "length data = 512 * count"
  shows "vdisk_read 32 call_read call_patch files lba count data s = (Inl Fault, s)"
proof -
  define t where "t = lba - 0xff800000"
  have t: "lba = 0x800000 * 511 + t" "0 < t" "t + count \<le> 0x780040" using assms(1,2) by (auto simp: t_def vdisk_numbers)
  have idx: "vdisk_file_idx lba = 510" using vdisk_file_idx_file [of 511 t] t by simp
  have file_end: "VDISK_FILE_LBA 32 511 = 0" by (simp add: VDISK_FILE_LBA_def vdisk_numbers)
  have n: "frag_count lba 0 = 0x800000 - t"
  proof -
    have "0 + (2 ^ 64 - lba) = (0x800000 - t) + 2 ^ 32 * 0xffffffff" using t by simp
    then have "(0 + (2 ^ 64 - lba)) mod 2 ^ 32 = (0x800000 - t) mod 2 ^ 32" by (simp only: mod_mult_self2)
    then show ?thesis using t by (simp add: frag_count_def)
  qed
  have "(0x800000 - t) * VDISK_SECTOR_SIZE mod 2 ^ 32 = 512 * (0x800000 - t)" using t by (simp add: vdisk_numbers)
  moreover have "length data < 512 * (0x800000 - t)" using t assms(4) by simp
  ultimately have "memset data 0 0 ((0x800000 - t) * VDISK_SECTOR_SIZE mod 2 ^ 32) = Inl Fault"
    using memset_beyond [of "512 * (0x800000 - t)" data 0 0] t by simp
  moreover have "(lba + count) mod 2 ^ 64 = lba + count" "0 < lba + count" using t assms(3) by simp_all
  ultimately have "vdisk_fragment 32 call_read call_patch files lba ((lba + count) mod 2 ^ 64) data = wret (Inl Fault)"
    unfolding vdisk_fragment_def Let_def idx by (simp add: file_end n vdisk_numbers)
  then show ?thesis by (simp add: vdisk_read_def wbind_wret wret_Pair)
qed

theorem vdisk_read_overruns_witness:
  "vdisk_read 32 (\<lambda>r files k off n s. (Inr (replicate n 0x41), s)) (\<lambda>p files k data off n s. (Inr (files, data), s))
     ([] :: (unit, unit, unit) vdisk_file list) 0xfff8003f 1 (replicate 512 0xff) () = (Inl Fault, ())"
  by (rule vdisk_read_overruns) (simp_all add: vdisk_numbers)

end
