(* ===== verification/Cache_Kept.thy ===== *)
theory Cache_Kept
  imports Boot_Disk
begin

text \<open>
  Reading the structures of an image keeps the cache valid, whether the reads succeed or not.
\<close>

definition keeps :: "('s \<Rightarrow> bool) \<Rightarrow> ('s, 'a) stateful \<Rightarrow> bool" where
  "keeps good m \<longleftrightarrow> (\<forall>s. good s \<longrightarrow> good (snd (m s)))"

lemma keeps_wret [intro!]: "keeps good (wret r)"
  by (simp add: keeps_def wret_def)

lemma keeps_wbind [intro!]: "keeps good m \<Longrightarrow> (\<And>x. keeps good (f x)) \<Longrightarrow> keeps good (wbind m f)"
  by (auto simp: keeps_def wbind_def split: prod.split sum.split)

lemma keeps_if [intro!]: "keeps good m \<Longrightarrow> keeps good n \<Longrightarrow> keeps good (if b then m else n)"
  by simp

lemma keeps_prod [intro!]: "(\<And>a b. keeps good (f a b)) \<Longrightarrow> keeps good (case x of (a, b) \<Rightarrow> f a b)"
  by (cases x) simp

lemma keeps_run: "keeps good m \<Longrightarrow> good s \<Longrightarrow> m s = (r, s') \<Longrightarrow> good s'"
  by (metis keeps_def snd_conv)

lemma keeps_load:
  assumes "resources_ok w src hdr R" "res \<in> R" "wim_flags h = wim_flags hdr"
  shows "keeps (cache_ok w src hdr R) (wim_load w src h res chunk)"
  unfolding keeps_def
proof (intro allI impI)
  fix s assume s: "cache_ok w src hdr R s"
  have "inj_on res_offset R" "chunk_stable w src hdr res chunk" "\<forall>res \<in> R. res_offset res < 2 ^ w"
    using assms by (auto simp: resources_ok_def resource_ok_def)
  with wim_load_cached [OF s assms(2) this] wim_load_flags [OF assms(3)] s
  show "cache_ok w src hdr R (snd (wim_load w src h res chunk s))" by auto
qed

lemma keeps_chunks:
  assumes "resources_ok w src hdr R" "res \<in> R" "wim_flags h = wim_flags hdr"
  shows "keeps (cache_ok w src hdr R) (wim_read_chunks w src h res offset len)"
proof (induction len arbitrary: offset rule: less_induct)
  case (less len)
  show ?case
  proof (cases "len = 0")
    case False
    define frag where "frag = min (WIM_CHUNK_LEN - offset mod WIM_CHUNK_LEN) len"
    have "len - frag < len" using False by (simp add: frag_def WIM_CHUNK_LEN_def)
    from less.IH [OF this] show ?thesis
      using False by (subst wim_read_chunks.simps) (auto simp: Let_def frag_def intro!: keeps_load [OF assms])
  qed (auto simp: wim_read_chunks.simps)
qed

lemma keeps_read:
  assumes "resources_ok w src hdr R" "res \<in> R" "wim_flags h = wim_flags hdr"
  shows "keeps (cache_ok w src hdr R) (wim_read w src h res offset len)"
proof -
  have "wim_read w src h res offset len =
    (let zlen = zlen_of res mod 2 ^ w in
      if (offset + len) mod 2 ^ w > res_len res then wret (Inl Fail)
      else if (res_offset res + zlen) mod 2 ^ 64 > src_len src then wret (Inl Fail)
      else if \<not> has_flag (WIM_RESHDR_COMPRESSED OR WIM_RESHDR_PACKED_STREAMS) res
        then wret (src_read src ((res_offset res + offset) mod 2 ^ w) len)
      else wim_read_chunks w src h res offset len)"
    by (intro ext) (simp only: wim_read_def Let_def split: if_split)
  then show ?thesis by (auto simp: Let_def intro!: keeps_chunks [OF assms])
qed

lemma keeps_scan:
  assumes "resources_ok w src hdr R" "wim_lookup h \<in> R" "wim_flags h = wim_flags hdr"
  shows "keeps (cache_ok w src hdr R) (wim_scan fuel w src h step finish offset acc)"
proof (induction fuel arbitrary: offset acc)
  case (Suc fuel)
  then show ?case
    by (subst wim_scan.simps) (auto intro!: keeps_read [OF assms] split: sum.split)
qed (auto simp: wim_scan.simps)

lemma keeps_direntry:
  assumes "resources_ok w src hdr R" "meta \<in> R" "wim_flags h = wim_flags hdr"
  shows "keeps (cache_ok w src hdr R) (wim_direntry fuel w src h meta name offset)"
proof (induction fuel arbitrary: offset)
  case (Suc fuel)
  then show ?case
    by (subst wim_direntry.simps) (auto simp: Let_def intro!: keeps_read [OF assms])
qed (auto simp: wim_direntry.simps)

lemma keeps_components:
  assumes "resources_ok w src hdr R" "meta \<in> R" "wim_flags h = wim_flags hdr"
  shows "keeps (cache_ok w src hdr R) (wim_components w src h meta path subdir)"
proof (induction path arbitrary: subdir rule: length_induct)
  case (1 path)
  show ?case
  proof (cases "wcschr path 0x5c")
    case (Inr i)
    show ?thesis
    proof (cases i)
      case (Some i)
      then have "length (drop (Suc i) path) < length path" using wcschr_less Inr by fastforce
      with 1 Inr Some show ?thesis
        by (subst wim_components.simps) (auto intro!: keeps_direntry [OF assms])
    qed (use Inr in \<open>auto simp: wim_components.simps intro!: keeps_direntry [OF assms]\<close>)
  qed (auto simp: wim_components.simps)
qed

lemma keeps_path:
  assumes "resources_ok w src hdr R" "meta \<in> R" "wim_flags h = wim_flags hdr"
  shows "keeps (cache_ok w src hdr R) (wim_path w src h meta path)"
  by (auto simp: wim_path_def intro!: keeps_read [OF assms] keeps_components [OF assms])

lemma keeps_dir_len:
  assumes "resources_ok w src hdr R" "meta \<in> R" "wim_flags h = wim_flags hdr"
  shows "keeps (cache_ok w src hdr R) (wim_dir_len w src h meta offset)"
proof -
  have "keeps (cache_ok w src hdr R) (wim_dir_len_loop fuel w src h meta offset len)" for fuel len
  proof (induction fuel arbitrary: len)
    case (Suc fuel)
    then show ?case by (subst wim_dir_len_loop.simps) (auto intro!: keeps_read [OF assms])
  qed (auto simp: wim_dir_len_loop.simps)
  then show ?thesis by (simp add: wim_dir_len_def)
qed

lemma keeps_metadata:
  assumes "resources_ok w src hdr R" "wim_lookup h \<in> R" "wim_flags h = wim_flags hdr"
  shows "keeps (cache_ok w src hdr R) (wim_metadata w src h index)"
  by (auto simp: wim_metadata_def intro!: keeps_scan [OF assms])

lemma keeps_file:
  assumes "resources_ok w src hdr R" "wim_lookup h \<in> R" "meta \<in> R" "wim_flags h = wim_flags hdr"
  shows "keeps (cache_ok w src hdr R) (wim_file w src h meta path)"
  unfolding wim_file_def
  by (intro keeps_wbind keeps_path [OF assms(1,3,4)] keeps_prod keeps_scan [OF assms(1,2,4)])

lemma regions_keep_flags:
  "wim_flags (wp_header (fst (wim_construct_lookup_regions w patch off))) = wim_flags (wp_header patch)"
  by (simp add: wim_construct_lookup_regions_def Let_def split_beta)

lemma keeps_inject:
  assumes R: "resources_ok w (file_source f (files ! f)) hdr R" "wim_lookup (wp_header patch) \<in> R" "wp_boot patch \<in> R"
    and flags: "wim_flags (wp_header patch) = wim_flags hdr"
  shows "keeps (cache_ok w (file_source f (files ! f)) hdr R) (wim_construct_inject w files f patch)"
proof -
  note kept = keeps_scan [OF R(1)] keeps_path [OF R(1,3)] keeps_dir_len [OF R(1,3)]
  have boot: "wp_boot (fst (wim_construct_lookup_regions w p off)) = wp_boot p"
    "wim_flags (wp_header (fst (wim_construct_lookup_regions w p off))) = wim_flags (wp_header p)" for p off
    by (simp_all add: wim_construct_lookup_regions_def Let_def split_beta)
  show ?thesis
    unfolding wim_construct_inject_def Let_def split_beta wim_count_def
    using R(2) flags by (intro keeps_wbind keeps_wret keeps_if kept) (simp_all add: boot kept flags)
qed

lemma keeps_construct:
  assumes R: "resources_ok w (file_source f (files ! f)) hdr R" "wim_lookup hdr \<in> R" and hdr: "wim_header (file_source f (files ! f)) = Inr hdr"
    and meta: "\<And>s boot s'. cache_ok w (file_source f (files ! f)) hdr R s \<Longrightarrow> wim_metadata w (file_source f (files ! f)) hdr index s = (Inr boot, s') \<Longrightarrow> boot \<in> R"
    and len: "vf_xlen (files ! f) = vf_len (files ! f)"
  shows "keeps (cache_ok w (file_source f (files ! f)) hdr R) (wim_construct_patch w files f index inject)"
proof (cases "length files \<le> f")
  case True
  then show ?thesis by (auto simp: wim_construct_patch_def)
next
  case False
  let ?src = "file_source f (files ! f)"
  have files: "files[f := (files ! f)\<lparr>vf_xlen := vf_len (files ! f)\<rparr>] = files"
    using len False by (metis list_update_id vdisk_file.surjective vdisk_file.update_convs(5))
  show ?thesis
    unfolding keeps_def
  proof (intro allI impI)
    fix s assume s: "cache_ok w ?src hdr R s"
    obtain r s1 where run: "wim_metadata w ?src hdr index s = (r, s1)" by fastforce
    have s1: "cache_ok w ?src hdr R s1" by (rule keeps_run [OF keeps_metadata [OF R refl] s run])
    show "cache_ok w ?src hdr R (snd (wim_construct_patch w files f index inject s))"
    proof (cases r)
      case (Inl e)
      with False run s1 show ?thesis
        unfolding wim_construct_patch_def Let_def files hdr wbind_wret by (simp add: wim_construct_region_def wbind_Inl)
    next
      case (Inr boot)
      define p where "p = wim_patch_zero\<lparr>wp_file := Some f\<rparr>\<lparr>
          wp_header := (if index \<noteq> 0 then hdr\<lparr>wim_boot := boot, wim_boot_index := index\<rparr> else hdr),
          wp_lookup := wim_lookup hdr, wp_boot := boot, wp_boot_index := wim_boot_index hdr,
          wp_regions := regions_empty\<lparr>rs_header := fst (wim_construct_region w (ascii ''header'') No_opaque 0 (sizeof struct_wim_header) Patch_header)\<rparr>\<rparr>"
      have boot: "boot \<in> R" using meta [OF s run [unfolded Inr]] .
      have "keeps (cache_ok w ?src hdr R) (wim_construct_inject w files f p)"
        by (rule keeps_inject [OF R(1)]) (use R(2) boot in \<open>simp_all add: p_def\<close>)
      moreover have "wim_construct_patch w files f index inject s = (if \<not> inject then wret (Inr (files, p)) else wim_construct_inject w files f p) s1"
        using False run Inr unfolding wim_construct_patch_def Let_def files hdr wbind_wret p_def
        by (simp add: wbind_Inr split_beta)
      ultimately show ?thesis using s1 by (auto simp: keeps_def wret_def)
    qed
  qed
qed

end
