(* ===== verification/Patch_Layout.thy ===== *)
theory Patch_Layout
  imports Disk_Laws Cache_Kept
begin

text \<open>
  The layout that the construction of a patch gives to the image: where the injected files, the new lookup table and the
  new boot metadata are, and that the image is then the reference image with these files.
\<close>

section \<open>The reference image\<close>

definition align8 :: "nat \<Rightarrow> nat" where
  "align8 n = (n + 7) div 8 * 8"

text \<open>Zeros up to the next multiple of eight.\<close>

definition pad8 :: "bytes \<Rightarrow> bytes" where
  "pad8 bs = bs @ replicate (align8 (length bs) - length bs) 0"

text \<open>The files to inject with their positions, from the file \<open>i\<close> and the position \<open>off\<close> on.\<close>

fun file_table :: "nat \<Rightarrow> nat \<Rightarrow> vfile list \<Rightarrow> (nat \<times> nat) list" where
  "file_table i off [] = []"
| "file_table i off (vf # vfs) =
     (if wim_inject_file vf = Inr True then (i, off) # file_table (i + 1) (off + vf_len vf) vfs
      else file_table (i + 1) off vfs)"

definition table_contents :: "nat \<Rightarrow> struct_wim_file list \<Rightarrow> vfile list \<Rightarrow> (nat \<times> nat) list \<Rightarrow> bytes" where
  "table_contents w wfiles files tbl = concat (map (\<lambda>(k, pos). vcontent w wfiles files k) tbl)"

definition table_entries :: "nat \<Rightarrow> struct_wim_file list \<Rightarrow> vfile list \<Rightarrow> (nat \<times> nat) list \<Rightarrow> bytes" where
  "table_entries w wfiles files tbl = concat (map (\<lambda>(k, pos). lookup_entry_bytes
     \<lparr>entry_resource = \<lparr>zlen__flags = vf_len (files ! k), res_offset = pos, res_len = vf_len (files ! k)\<rparr>,
      entry_part = 0, entry_refcnt = 1, entry_hash = sha1_spec (vcontent w wfiles files k)\<rparr>) tbl)"

definition table_dir :: "nat \<Rightarrow> struct_wim_file list \<Rightarrow> vfile list \<Rightarrow> (nat \<times> nat) list \<Rightarrow> bytes" where
  "table_dir w wfiles files tbl = concat (map (\<lambda>(k, pos).
     pad8 (wim_patch_dir_entry w (sha1_spec (vcontent w wfiles files k)) (cstring (vf_name (files ! k))))) tbl)"

text \<open>
  The image with injected files: \<open>C\<close> is the original file, \<open>L\<close> the lookup table and \<open>M\<close> the boot metadata, both uncompressed;
  \<open>parent\<close> is the position of the entry of the directory in the metadata, \<open>pos\<close> and \<open>n\<close> are the position and the length of the
  entries of the directory.
\<close>

definition injected_start :: "nat \<Rightarrow> struct_wim_file list \<Rightarrow> vfile list \<Rightarrow> (nat \<times> nat) list \<Rightarrow> wim_header \<Rightarrow> bytes \<Rightarrow> bytes" where
  "injected_start w wfiles files tbl h C = pad8 (wim_header_bytes h @ drop 208 C @ table_contents w wfiles files tbl)"

definition injected_table :: "nat \<Rightarrow> struct_wim_file list \<Rightarrow> vfile list \<Rightarrow> (nat \<times> nat) list \<Rightarrow> wim_header \<Rightarrow> bytes \<Rightarrow> bytes" where
  "injected_table w wfiles files tbl h L =
     L @ lookup_entry_bytes \<lparr>entry_resource = wim_boot h, entry_part = 0, entry_refcnt = 0, entry_hash = replicate 20 0\<rparr> @
     table_entries w wfiles files tbl"

definition injected_metadata :: "nat \<Rightarrow> struct_wim_file list \<Rightarrow> vfile list \<Rightarrow> (nat \<times> nat) list \<Rightarrow> bytes \<Rightarrow> nat \<Rightarrow> nat \<Rightarrow> nat \<Rightarrow> bytes" where
  "injected_metadata w wfiles files tbl M parent pos n =
     pad8 (overlay (parent + offset_of struct_wim_directory_entry ''subdir'') (le64 (align8 (length M))) M) @
     table_dir w wfiles files tbl @ window pos n M @ replicate 8 0"

definition injected_image :: "nat \<Rightarrow> struct_wim_file list \<Rightarrow> vfile list \<Rightarrow> (nat \<times> nat) list \<Rightarrow> wim_header \<Rightarrow> bytes \<Rightarrow> bytes \<Rightarrow> bytes
      \<Rightarrow> nat \<Rightarrow> nat \<Rightarrow> nat \<Rightarrow> bytes" where
  "injected_image w wfiles files tbl h C L M parent pos n =
     pad8 (injected_start w wfiles files tbl h C @ injected_table w wfiles files tbl h L) @
     injected_metadata w wfiles files tbl M parent pos n"

text \<open>The header of that image.\<close>

definition injected_header :: "wim_header \<Rightarrow> nat \<Rightarrow> nat \<Rightarrow> nat \<Rightarrow> nat \<Rightarrow> nat \<Rightarrow> wim_header" where
  "injected_header hdr count lookup_pos lookup_len boot_pos boot_len =
     hdr\<lparr>wim_images := (count + 1) mod 2 ^ 32, wim_boot_index := (count + 1) mod 2 ^ 32,
         wim_lookup := \<lparr>zlen__flags = lookup_len, res_offset = lookup_pos, res_len = lookup_len\<rparr>,
         wim_boot := \<lparr>zlen__flags = unat (word_of_nat boot_len OR WIM_RESHDR_METADATA), res_offset = boot_pos, res_len = boot_len\<rparr>\<rparr>"

section \<open>Alignment\<close>

lemma align8_ge: "n \<le> align8 n" and align8_less: "align8 n < n + 8"
  using div_mult_mod_eq [of "n + 7" 8] mod_less_divisor [of 8 "n + 7"] by (auto simp: align8_def)

lemma align8_idem: "align8 (align8 n) = align8 n"
  by (simp add: align8_def)

lemma align8_add: "align8 (align8 m + n) = align8 m + align8 n"
proof -
  have "(8 * ((m + 7) div 8) + (n + 7)) div 8 = (m + 7) div 8 + (n + 7) div 8" by (subst div_mult_self4) simp_all
  then show ?thesis by (simp add: align8_def algebra_simps)
qed

lemma wim_align_small: "n + 7 < 2 ^ w \<Longrightarrow> wim_align w n = align8 n"
  by (simp add: wim_align_def align8_def)

lemma length_pad8: "length (pad8 bs) = align8 (length bs)"
  using align8_ge [of "length bs"] by (simp add: pad8_def)

section \<open>Laying regions in order\<close>

lemma overlay_next:
  assumes "length pre = off" "length bs \<le> m"
  shows "overlay off bs (pre @ replicate m z @ q) = pre @ bs @ replicate (m - length bs) z @ q"
  using assms by (auto simp: overlay_def)

lemma lay_next:
  assumes "pr_patch r = Some p" "region_bytes w wfiles files hdr patch r p = bs" "pr_offset r = length pre" "length bs \<le> m"
  shows "lay_region w wfiles files hdr patch r (pre @ replicate m 0 @ q) = pre @ bs @ replicate (m - length bs) 0 @ q"
  using assms overlay_next [of pre "pr_offset r" bs m 0 q] by (simp add: lay_region_def)

lemma lay_empty: "lay_region w wfiles files hdr patch region_empty im = im"
  by (simp add: lay_region_def region_empty_def)

lemma table_simps:
  "table_contents w wfiles files [] = []"
  "table_contents w wfiles files ((k, pos) # tbl) = vcontent w wfiles files k @ table_contents w wfiles files tbl"
  "table_dir w wfiles files [] = []"
  "table_entries w wfiles files [] = []"
  by (simp_all add: table_contents_def table_dir_def table_entries_def)

lemma length_table_entries: "length (table_entries w wfiles files tbl) = 50 * length tbl"
  by (induction tbl) (auto simp: table_entries_def length_lookup_entry_bytes length_sha1_spec)

lemma length_pad8_dir_entry:
  assumes "length hash = 20" "length name \<le> 31"
  shows "length (pad8 (wim_patch_dir_entry w hash name)) = 168"
  by (simp add: length_pad8 length_wim_patch_dir_entry [OF assms] align8_def)

section \<open>The regions without wrap-around\<close>

fun file_regions :: "nat \<Rightarrow> nat \<Rightarrow> vfile list \<Rightarrow> wim_patch_region list" where
  "file_regions i off [] = []"
| "file_regions i off (vf # vfs) =
     (if wim_inject_file vf = Inr True then
        \<lparr>pr_name = vf_name vf, pr_opaque = Vfile i, pr_offset = off, pr_len = vf_len vf, pr_patch = Some Patch_file\<rparr>
          # file_regions (i + 1) (off + vf_len vf) vfs
      else region_empty # file_regions (i + 1) off vfs)"

text \<open>The regions of the entries of these files, \<open>step\<close> bytes apart.\<close>

fun entry_regions :: "bytes \<Rightarrow> region_patch \<Rightarrow> nat \<Rightarrow> nat \<Rightarrow> nat \<Rightarrow> nat \<Rightarrow> vfile list \<Rightarrow> wim_patch_region list" where
  "entry_regions name p len step i off [] = []"
| "entry_regions name p len step i off (vf # vfs) =
     (if wim_inject_file vf = Inr True then
        \<lparr>pr_name = name, pr_opaque = Rfile i, pr_offset = off, pr_len = len, pr_patch = Some p\<rparr>
          # entry_regions name p len step (i + 1) (off + step) vfs
      else region_empty # entry_regions name p len step (i + 1) off vfs)"

fun table_len :: "vfile list \<Rightarrow> nat" where
  "table_len [] = 0"
| "table_len (vf # vfs) = (if wim_inject_file vf = Inr True then vf_len vf else 0) + table_len vfs"

lemma length_file_table: "length (file_table i off vfs) = length (file_table j off' vfs)"
proof (induction vfs arbitrary: i off j off')
  case (Cons vf vfs)
  show ?case using Cons [of "i + 1" off "j + 1" off'] Cons [of "i + 1" "off + vf_len vf" "j + 1" "off' + vf_len vf"]
    by (simp only: file_table.simps list.size split: if_split) simp
qed simp

lemma construct_files:
  "wim_construct_files w i vfs off = Inr (rs, off', n) \<Longrightarrow> off + table_len vfs < 2 ^ w \<Longrightarrow>
    rs = file_regions i off vfs \<and> off' = off + table_len vfs \<and> n = length (file_table i off vfs)"
proof (induction w i vfs off arbitrary: rs off' n rule: wim_construct_files.induct)
  case (2 w i vf vfs off)
  obtain inj where inj: "wim_inject_file vf = Inr inj" using 2(3) by (cases "wim_inject_file vf") auto
  show ?case
  proof (cases inj)
    case False
    then have inj: "wim_inject_file vf = Inr False" using inj by simp
    obtain rs1 where rs1: "wim_construct_files w (i + 1) vfs off = Inr (rs1, off', n)" "rs = region_empty # rs1"
      using 2(3) inj by (auto simp: rbind_eq_Inr)
    have "off + table_len vfs < 2 ^ w" using 2(4) inj by simp
    note IH = "2.IH"(1) [OF inj _ rs1(1) this]
    have "rs1 = file_regions (i + 1) off vfs" "off' = off + table_len vfs" "n = length (file_table (i + 1) off vfs)" using IH by simp_all
    then show ?thesis using rs1(2) inj by simp
  next
    case True
    then have inj: "wim_inject_file vf = Inr True" using inj by simp
    have less: "off + vf_len vf + table_len vfs < 2 ^ w" using 2(4) inj by simp
    then have m: "(off + vf_len vf) mod 2 ^ w = off + vf_len vf" by simp
    let ?r = "\<lparr>pr_name = vf_name vf, pr_opaque = Vfile i, pr_offset = off, pr_len = vf_len vf, pr_patch = Some Patch_file\<rparr>"
    have r: "wim_construct_region w (vf_name vf) (Vfile i) off (vf_len vf) Patch_file = (?r, off + vf_len vf)"
      by (simp only: wim_construct_region_def m)
    obtain rs1 n1 where rs1: "wim_construct_files w (i + 1) vfs (off + vf_len vf) = Inr (rs1, off', n1)" "rs = ?r # rs1" "n = n1 + 1"
      using 2(3) unfolding wim_construct_files.simps(2) inj rbind_Inr not_True_eq_False if_False r Let_def prod.case
      by (auto simp: rbind_eq_Inr)
    note IH = "2.IH"(2) [OF inj _ r [symmetric] refl rs1(1) less]
    have "rs1 = file_regions (i + 1) (off + vf_len vf) vfs" "off' = off + vf_len vf + table_len vfs"
      "n1 = length (file_table (i + 1) (off + vf_len vf) vfs)" using IH by simp_all
    then show ?thesis using rs1(2,3) inj by simp
  qed
qed simp

lemma lookup_entry_size: "sizeof struct_wim_lookup_entry = 50"
  by (simp add: struct_wim_lookup_entry_def struct_wim_resource_header_def struct_wim_hash_def)

lemma construct_lookup:
  "off + 50 * length (file_table i pos vfs) < 2 ^ w \<Longrightarrow>
    wim_construct_lookup w i (file_regions i pos vfs) off =
      (entry_regions (ascii ''lookup.file'') Patch_lookup_file 50 50 i off vfs, off + 50 * length (file_table i pos vfs))"
proof (induction i pos vfs arbitrary: off rule: file_regions.induct)
  case (2 i pos vf vfs)
  show ?case
  proof (cases "wim_inject_file vf = Inr True")
    case True
    then have "(off + 50) mod 2 ^ w = off + 50" using 2(3) by simp
    with True 2(1) [of "off + 50"] 2(3) show ?thesis by (simp add: wim_construct_region_def lookup_entry_size Let_def)
  next
    case False
    with 2 show ?thesis by (simp add: region_empty_def)
  qed
qed simp

lemma align8_166: "align8 off = off \<Longrightarrow> align8 (off + 166) = off + 168"
  using align8_add [of off 166] by (simp add: align8_def)

lemma align8_168: "align8 off = off \<Longrightarrow> align8 (off + 168) = off + 168"
  using align8_add [of off 168] by (simp add: align8_def)

lemma construct_dir_files:
  "align8 off = off \<Longrightarrow> off + 168 * length (file_table i pos vfs) + 8 < 2 ^ w \<Longrightarrow>
    wim_construct_dir_files w i (file_regions i pos vfs) off =
      (entry_regions (ascii ''dir.file'') Patch_dir_file 166 168 i off vfs, off + 168 * length (file_table i pos vfs))"
proof (induction i pos vfs arbitrary: off rule: file_regions.induct)
  case (2 i pos vf vfs)
  show ?case
  proof (cases "wim_inject_file vf = Inr True")
    case True
    then have "(off + 166) mod 2 ^ w = off + 166" using 2(4) by simp
    moreover have "wim_align w (off + 166) = off + 168"
      using True 2(4) align8_166 [OF 2(3)] by (subst wim_align_small) auto
    ultimately show ?thesis using True 2(1) [of "off + 168"] 2(3,4) by (simp add: wim_construct_region_def sizeof_dir_entry Let_def align8_168)
  next
    case False
    with 2 show ?thesis by (simp add: region_empty_def)
  qed
qed simp

section \<open>Laying the regions of files\<close>

lemma lay_files:
  assumes "\<And>k pos. (k, pos) \<in> set (file_table i off vfs) \<Longrightarrow> length (vcontent w wfiles files' k) = vf_len (files ! k)"
    "vfs = drop i files" "length pre = off" "table_len vfs \<le> m"
  shows "fold (lay_region w wfiles files' hdr patch) (file_regions i off vfs) (pre @ replicate m 0 @ q) =
      pre @ table_contents w wfiles files' (file_table i off vfs) @ replicate (m - table_len vfs) 0 @ q
    \<and> length (table_contents w wfiles files' (file_table i off vfs)) = table_len vfs"
  using assms
proof (induction i off vfs arbitrary: pre m rule: file_regions.induct)
  case (2 i off vf vfs)
  have vf: "files ! i = vf" "vfs = drop (i + 1) files" using 2(4) by (metis nth_via_drop, metis Suc_eq_plus1 drop_Suc list.sel(3) tl_drop)
  show ?case
  proof (cases "wim_inject_file vf = Inr True")
    case False
    have "table_len vfs \<le> m" "\<And>k pos. (k, pos) \<in> set (file_table (i + 1) off vfs) \<Longrightarrow> length (vcontent w wfiles files' k) = vf_len (files ! k)"
      using 2(3,6) False by simp_all
    from "2.IH"(2) [OF False this(2) vf(2) 2(5) this(1)] False show ?thesis by (simp add: lay_empty)
  next
    case True
    let ?c = "vcontent w wfiles files' i"
    have c: "length ?c = vf_len vf" using 2(3) [of i off] True vf by simp
    have "lay_region w wfiles files' hdr patch \<lparr>pr_name = vf_name vf, pr_opaque = Vfile i, pr_offset = off, pr_len = vf_len vf, pr_patch = Some Patch_file\<rparr>
        (pre @ replicate m 0 @ q) = (pre @ ?c) @ replicate (m - vf_len vf) 0 @ q"
      using 2(5,6) True c by (subst lay_next [where p = Patch_file and bs = ?c]) (auto simp: region_bytes_def Let_def)
    moreover have "table_len vfs \<le> m - vf_len vf" "length (pre @ ?c) = off + vf_len vf" using 2(5,6) True c by auto
    moreover have "length (vcontent w wfiles files' k) = vf_len (files ! k)" if "(k, pos) \<in> set (file_table (i + 1) (off + vf_len vf) vfs)" for k pos
      using 2(3) [of k pos] that True by simp
    ultimately show ?thesis using "2.IH"(1) [OF True _ vf(2), of "pre @ ?c" "m - vf_len vf"] True c
      by (simp add: table_simps)
  qed
qed (simp add: table_simps)

lemma lay_entries:
  assumes "\<And>k pos r. (k, pos) \<in> set (file_table i pos0 vfs) \<Longrightarrow> pr_opaque r = Rfile k \<Longrightarrow>
      region_bytes w wfiles files hdr patch r p = g (k, pos) \<and> length (g (k, pos)) = len"
    "len \<le> step" "length pre = off" "step * length (file_table i pos0 vfs) \<le> m"
  shows "fold (lay_region w wfiles files hdr patch) (entry_regions name p len step i off vfs) (pre @ replicate m 0 @ q) =
      pre @ concat (map (\<lambda>e. g e @ replicate (step - len) 0) (file_table i pos0 vfs)) @ replicate (m - step * length (file_table i pos0 vfs)) 0 @ q"
  using assms
proof (induction i pos0 vfs arbitrary: off pre m rule: file_table.induct)
  case (2 i pos0 vf vfs)
  show ?case
  proof (cases "wim_inject_file vf = Inr True")
    case False
    with 2 show ?thesis by (simp add: lay_empty)
  next
    case True
    let ?r = "\<lparr>pr_name = name, pr_opaque = Rfile i, pr_offset = off, pr_len = len, pr_patch = Some p\<rparr>"
    let ?g = "g (i, pos0)"
    have g: "region_bytes w wfiles files hdr patch ?r p = ?g" "length ?g = len" using 2(3) [of i pos0 ?r] True by auto
    have m: "step + step * length (file_table (i + 1) (pos0 + vf_len vf) vfs) \<le> m" using 2(6) True by simp
    have "lay_region w wfiles files hdr patch ?r (pre @ replicate m 0 @ q) = pre @ ?g @ replicate (m - len) 0 @ q"
      using g 2(4,5) m lay_next [of ?r p w wfiles files hdr patch ?g pre m q] by simp
    also have "replicate (m - len) (0 :: u8) = replicate (step - len) 0 @ replicate (m - step) 0"
      using 2(4) m by (simp flip: replicate_add)
    finally have lay: "lay_region w wfiles files hdr patch ?r (pre @ replicate m 0 @ q) = (pre @ ?g @ replicate (step - len) 0) @ replicate (m - step) 0 @ q"
      by simp
    have "fold (lay_region w wfiles files hdr patch) (entry_regions name p len step (i + 1) (off + step) vfs)
        ((pre @ ?g @ replicate (step - len) 0) @ replicate (m - step) 0 @ q) =
      (pre @ ?g @ replicate (step - len) 0) @ concat (map (\<lambda>e. g e @ replicate (step - len) 0) (file_table (i + 1) (pos0 + vf_len vf) vfs)) @
        replicate (m - step - step * length (file_table (i + 1) (pos0 + vf_len vf) vfs)) 0 @ q"
      using 2(3,4,5) g m True by (intro "2.IH"(1)) auto
    with lay True show ?thesis by simp
  qed
qed simp

section \<open>The constructed patch\<close>

lemma wbind_eq_Inr: "wbind m g s = (Inr y, s') \<longleftrightarrow> (\<exists>x s1. m s = (Inr x, s1) \<and> g x s1 = (Inr y, s'))"
  by (auto simp: wbind_def split: prod.splits sum.splits)

lemma wbindE: "wbind m g s = (Inr y, s') \<Longrightarrow> (\<And>x s1. m s = (Inr x, s1) \<Longrightarrow> g x s1 = (Inr y, s') \<Longrightarrow> P) \<Longrightarrow> P"
  by (auto simp: wbind_eq_Inr)

lemma wret_eq_Inr: "wret r s = (Inr y, s') \<longleftrightarrow> r = Inr y \<and> s' = s"
  by (auto simp: wret_def)

text \<open>The positions of the parts: \<open>len\<close> is the length of the original file, \<open>l\<close>, \<open>m\<close> and \<open>d\<close> are those of the lookup table, the
  metadata and the directory.\<close>

definition lookup_pos :: "nat \<Rightarrow> vfile list \<Rightarrow> nat" where
  "lookup_pos len files = align8 (len + table_len files)"

definition entry_count :: "vfile list \<Rightarrow> nat" where
  "entry_count files = length (file_table 0 0 files)"

definition lookup_size :: "nat \<Rightarrow> vfile list \<Rightarrow> nat" where
  "lookup_size l files = l + 50 + 50 * entry_count files"

definition boot_pos :: "nat \<Rightarrow> vfile list \<Rightarrow> nat \<Rightarrow> nat" where
  "boot_pos len files l = align8 (lookup_pos len files + lookup_size l files)"

definition dir_size :: "vfile list \<Rightarrow> nat \<Rightarrow> nat" where
  "dir_size files d = 168 * entry_count files + d + 8"

definition boot_size :: "nat \<Rightarrow> vfile list \<Rightarrow> nat \<Rightarrow> nat" where
  "boot_size m files d = align8 m + dir_size files d"

lemmas layout_defs = lookup_pos_def lookup_size_def boot_pos_def boot_size_def dir_size_def

definition plain_region :: "string \<Rightarrow> region_opaque \<Rightarrow> nat \<Rightarrow> nat \<Rightarrow> region_patch \<Rightarrow> wim_patch_region" where
  "plain_region name opaque off len p = \<lparr>pr_name = ascii name, pr_opaque = opaque, pr_offset = off, pr_len = len, pr_patch = Some p\<rparr>"

definition base_patch :: "nat \<Rightarrow> wim_header \<Rightarrow> wim_resource_header \<Rightarrow> nat \<Rightarrow> wim_patch" where
  "base_patch f hdr boot index = wim_patch_zero\<lparr>wp_file := Some f,
     wp_header := (if index \<noteq> 0 then hdr\<lparr>wim_boot := boot, wim_boot_index := index\<rparr> else hdr),
     wp_lookup := wim_lookup hdr, wp_boot := boot, wp_boot_index := wim_boot_index hdr,
     wp_regions := regions_empty\<lparr>rs_header := plain_region ''header'' No_opaque 0 208 Patch_header\<rparr>\<rparr>"

definition inject_regions :: "nat \<Rightarrow> vfile list \<Rightarrow> nat \<Rightarrow> nat \<Rightarrow> nat \<Rightarrow> nat \<Rightarrow> wim_patch_regions" where
  "inject_regions len files l m parent d =
     (let lp = lookup_pos len files; bp = boot_pos len files l; dp = bp + align8 m in
      \<lparr>rs_header = plain_region ''header'' No_opaque 0 208 Patch_header,
       rs_file = file_regions 0 len files,
       rs_lookup_copy = plain_region ''lookup.copy'' No_opaque lp l Patch_lookup_copy,
       rs_lookup_boot = plain_region ''lookup.boot'' No_opaque (lp + l) 50 Patch_lookup_boot,
       rs_lookup_file = entry_regions (ascii ''lookup.file'') Patch_lookup_file 50 50 0 (lp + l + 50) files,
       rs_boot_copy = plain_region ''boot.copy'' No_opaque bp m Patch_boot_copy,
       rs_boot_dir = \<lparr>dr_subdir = plain_region ''dir.subdir'' Dir (bp + parent + 16) 8 Patch_dir_subdir,
         dr_copy = plain_region WIM_INJECT_DIR Dir (dp + 168 * entry_count files) d Patch_dir_copy,
         dr_file = entry_regions (ascii ''dir.file'') Patch_dir_file 166 168 0 dp files\<rparr>\<rparr>)"

definition inject_patch :: "nat \<Rightarrow> vfile list \<Rightarrow> nat \<Rightarrow> nat \<Rightarrow> nat \<Rightarrow> nat \<Rightarrow> wim_patch \<Rightarrow> wim_patch" where
  "inject_patch len files count parent pos d patch =
     (let l = res_len (wp_lookup patch); m = res_len (wp_boot patch) in
      patch\<lparr>wp_header := injected_header (wp_header patch) count (lookup_pos len files) (lookup_size l files)
              (boot_pos len files l) (boot_size m files d),
            wp_dir := \<lparr>pd_name = WIM_INJECT_DIR, pd_parent = parent, pd_offset = pos, pd_len = d, pd_subdir = align8 m\<rparr>,
            wp_regions := inject_regions len files l m parent d\<rparr>)"

text \<open>The space that the layout needs.\<close>

definition layout_fits :: "nat \<Rightarrow> nat \<Rightarrow> vfile list \<Rightarrow> nat \<Rightarrow> nat \<Rightarrow> nat \<Rightarrow> bool" where
  "layout_fits w len files l m d \<longleftrightarrow> boot_pos len files l + boot_size m files d + 8 < 2 ^ w"

lemma entry_count_table: "length (file_table i off files) = entry_count files"
  unfolding entry_count_def by (rule length_file_table)

lemma layout_bounds:
  assumes "layout_fits w len files l m d" "w \<le> 64"
  shows "len + table_len files \<le> lookup_pos len files" "lookup_pos len files + lookup_size l files \<le> boot_pos len files l"
    "boot_pos len files l + boot_size m files d + 8 < 2 ^ w" "len + table_len files + 7 < 2 ^ w"
    "lookup_pos len files + lookup_size l files + 7 < 2 ^ w" "(2 :: nat) ^ w \<le> 2 ^ 64" "m \<le> align8 m"
proof -
  show "len + table_len files \<le> lookup_pos len files" "lookup_pos len files + lookup_size l files \<le> boot_pos len files l" "m \<le> align8 m"
    by (simp_all add: lookup_pos_def boot_pos_def align8_ge)
  then show "boot_pos len files l + boot_size m files d + 8 < 2 ^ w" "len + table_len files + 7 < 2 ^ w"
    "lookup_pos len files + lookup_size l files + 7 < 2 ^ w" using assms(1) by (simp_all add: layout_fits_def)
  show "(2 :: nat) ^ w \<le> 2 ^ 64" using assms(2) by (intro power_increasing) simp_all
qed

lemma construct_plain: "off + len < 2 ^ w \<Longrightarrow> wim_construct_region w (ascii name) opaque off len p = (plain_region name opaque off len p, off + len)"
  by (simp add: wim_construct_region_def plain_region_def)

lemma add_sub_mod: "(a :: nat) \<le> b \<Longrightarrow> b < M \<Longrightarrow> (b + (M - a)) mod M = b - a"
  by (simp add: mod_if)

lemma construct_lookup_regions:
  assumes "rs_file (wp_regions patch) = file_regions 0 len files" "layout_fits w len files l m d" "w \<le> 64" "res_len (wp_lookup patch) = l"
  shows "wim_construct_lookup_regions w patch (len + table_len files) =
    (patch\<lparr>wp_header := (wp_header patch)\<lparr>wim_lookup := \<lparr>zlen__flags = lookup_size l files, res_offset = lookup_pos len files, res_len = lookup_size l files\<rparr>\<rparr>,
       wp_regions := (wp_regions patch)\<lparr>
         rs_lookup_copy := plain_region ''lookup.copy'' No_opaque (lookup_pos len files) l Patch_lookup_copy,
         rs_lookup_boot := plain_region ''lookup.boot'' No_opaque (lookup_pos len files + l) 50 Patch_lookup_boot,
         rs_lookup_file := entry_regions (ascii ''lookup.file'') Patch_lookup_file 50 50 0 (lookup_pos len files + l + 50) files\<rparr>\<rparr>,
     lookup_pos len files + lookup_size l files)"
proof -
  note b = layout_bounds [OF assms(2,3)]
  have align: "wim_align w (len + table_len files) = lookup_pos len files" using b(4) by (simp add: wim_align_small lookup_pos_def)
  have l: "l mod 2 ^ w = l" using b(5) by (simp add: lookup_size_def)
  have c1: "wim_construct_region w (ascii ''lookup.copy'') No_opaque (lookup_pos len files) l Patch_lookup_copy =
      (plain_region ''lookup.copy'' No_opaque (lookup_pos len files) l Patch_lookup_copy, lookup_pos len files + l)"
    by (rule construct_plain) (use b(5) in \<open>simp add: lookup_size_def\<close>)
  have c2: "wim_construct_region w (ascii ''lookup.boot'') No_opaque (lookup_pos len files + l) 50 Patch_lookup_boot =
      (plain_region ''lookup.boot'' No_opaque (lookup_pos len files + l) 50 Patch_lookup_boot, lookup_pos len files + l + 50)"
    by (rule construct_plain) (use b(5) in \<open>simp add: lookup_size_def\<close>)
  have c3: "wim_construct_lookup w 0 (file_regions 0 len files) (lookup_pos len files + l + 50) =
      (entry_regions (ascii ''lookup.file'') Patch_lookup_file 50 50 0 (lookup_pos len files + l + 50) files, lookup_pos len files + lookup_size l files)"
    using b(5) by (subst construct_lookup) (simp_all add: entry_count_table lookup_size_def)
  have "lookup_pos len files + lookup_size l files < 2 ^ 64" using b(5,6) by linarith
  then have len: "(lookup_pos len files + lookup_size l files + (2 ^ 64 - lookup_pos len files)) mod 2 ^ 64 = lookup_size l files"
    using add_sub_mod [of "lookup_pos len files" "lookup_pos len files + lookup_size l files" "2 ^ 64"] by simp
  show ?thesis
    unfolding wim_construct_lookup_regions_def Let_def align assms(1,4) l c1 prod.case lookup_entry_size c2 c3 len ..
qed

lemma align8_pos [simp]: "align8 (lookup_pos len files) = lookup_pos len files" "align8 (boot_pos len files l) = boot_pos len files l"
  by (simp_all add: lookup_pos_def boot_pos_def align8_idem)

lemma construct_dir:
  assumes "rs_file (wp_regions patch) = file_regions 0 len files" "layout_fits w len files l m d" "w \<le> 64"
    "res_offset (wim_boot (wp_header patch)) = boot_pos len files l" "wp_dir patch = \<lparr>pd_name = WIM_INJECT_DIR, pd_parent = parent, pd_offset = pos, pd_len = d, pd_subdir = 0\<rparr>"
    "parent + 102 \<le> m"
  shows "wim_construct_dir w patch (boot_pos len files l + m) =
    (patch\<lparr>wp_dir := (wp_dir patch)\<lparr>pd_subdir := align8 m\<rparr>,
       wp_regions := (wp_regions patch)\<lparr>rs_boot_dir := rs_boot_dir (inject_regions len files l m parent d)\<rparr>\<rparr>,
     boot_pos len files l + boot_size m files d)"
proof -
  note b = layout_bounds [OF assms(2,3)]
  let ?bp = "boot_pos len files l" and ?n = "entry_count files"
  have align: "wim_align w (?bp + m) = ?bp + align8 m"
    using b(3,7) align8_add [of "?bp" m] by (subst wim_align_small) (simp_all add: boot_size_def dir_size_def)
  have bp: "?bp mod 2 ^ w = ?bp" using b(3) by simp
  have sub: "(?bp + align8 m + (2 ^ w - ?bp)) mod 2 ^ w = align8 m"
    using add_sub_mod [of ?bp "?bp + align8 m" "2 ^ w"] b(3) by (simp add: boot_size_def)
  have c1: "wim_construct_dir_files w 0 (file_regions 0 len files) (?bp + align8 m) =
      (entry_regions (ascii ''dir.file'') Patch_dir_file 166 168 0 (?bp + align8 m) files, ?bp + align8 m + 168 * ?n)"
    using b(3) align8_add [of ?bp "align8 m"] by (subst construct_dir_files) (simp_all add: align8_idem entry_count_table boot_size_def dir_size_def)
  have c2: "wim_construct_region w (ascii WIM_INJECT_DIR) Dir (?bp + align8 m + 168 * ?n) d Patch_dir_copy =
      (plain_region WIM_INJECT_DIR Dir (?bp + align8 m + 168 * ?n) d Patch_dir_copy, ?bp + align8 m + 168 * ?n + d)"
    by (rule construct_plain) (use b(3) in \<open>simp add: boot_size_def dir_size_def\<close>)
  have e: "(?bp + align8 m + 168 * ?n + d + 8) mod 2 ^ w = ?bp + boot_size m files d" using b(3) by (simp add: boot_size_def dir_size_def)
  have o16: "offset_of struct_wim_directory_entry ''subdir'' = 16" by (simp add: struct_wim_directory_entry_def)
  have s: "(?bp + parent + 16) mod 2 ^ w = ?bp + parent + 16" using b(3,7) assms(6) by (simp add: boot_size_def)
  have c3: "wim_construct_region w (ascii ''dir.subdir'') Dir (?bp + parent + 16) 8 Patch_dir_subdir =
      (plain_region ''dir.subdir'' Dir (?bp + parent + 16) 8 Patch_dir_subdir, ?bp + parent + 16 + 8)"
    by (rule construct_plain) (use b(3,7) assms(6) in \<open>simp add: boot_size_def\<close>)
  show ?thesis
    unfolding wim_construct_dir_def Let_def assms(1,4,5) wim_patch_dir.simps bp align sub c1 prod.case c2 e o16 s c3
    by (simp add: inject_regions_def Let_def assms(5))
qed

lemma construct_boot_regions:
  assumes "rs_file (wp_regions patch) = file_regions 0 len files" "layout_fits w len files l m d" "w \<le> 64" "res_len (wp_boot patch) = m"
    "wp_dir patch = \<lparr>pd_name = WIM_INJECT_DIR, pd_parent = parent, pd_offset = pos, pd_len = d, pd_subdir = 0\<rparr>" "parent + 102 \<le> m"
  shows "wim_construct_boot_regions w patch (lookup_pos len files + lookup_size l files) =
    (patch\<lparr>wp_header := (wp_header patch)\<lparr>wim_boot := \<lparr>zlen__flags = unat (word_of_nat (boot_size m files d) OR WIM_RESHDR_METADATA),
         res_offset = boot_pos len files l, res_len = boot_size m files d\<rparr>\<rparr>,
       wp_dir := (wp_dir patch)\<lparr>pd_subdir := align8 m\<rparr>,
       wp_regions := (wp_regions patch)\<lparr>rs_boot_copy := plain_region ''boot.copy'' No_opaque (boot_pos len files l) m Patch_boot_copy,
         rs_boot_dir := rs_boot_dir (inject_regions len files l m parent d)\<rparr>\<rparr>,
     boot_pos len files l + boot_size m files d)"
proof -
  note b = layout_bounds [OF assms(2,3)]
  let ?bp = "boot_pos len files l"
  have align: "wim_align w (lookup_pos len files + lookup_size l files) = ?bp" using b(5) by (subst wim_align_small) (simp_all add: boot_pos_def)
  have m: "m mod 2 ^ w = m" using b(3,7) by (simp add: boot_size_def)
  have c1: "wim_construct_region w (ascii ''boot.copy'') No_opaque ?bp m Patch_boot_copy =
      (plain_region ''boot.copy'' No_opaque ?bp m Patch_boot_copy, ?bp + m)"
    by (rule construct_plain) (use b(3,7) in \<open>simp add: boot_size_def\<close>)
  define p1 where "p1 = patch\<lparr>wp_header := (wp_header patch)\<lparr>wim_boot := (wim_boot (wp_header patch))\<lparr>res_offset := ?bp\<rparr>\<rparr>,
      wp_regions := (wp_regions patch)\<lparr>rs_boot_copy := plain_region ''boot.copy'' No_opaque ?bp m Patch_boot_copy\<rparr>\<rparr>"
  have c2: "wim_construct_dir w p1 (?bp + m) =
    (p1\<lparr>wp_dir := (wp_dir p1)\<lparr>pd_subdir := align8 m\<rparr>,
       wp_regions := (wp_regions p1)\<lparr>rs_boot_dir := rs_boot_dir (inject_regions len files l m parent d)\<rparr>\<rparr>, ?bp + boot_size m files d)"
    by (rule construct_dir [OF _ assms(2,3)]) (simp_all add: p1_def assms(1,5,6))
  have "?bp + boot_size m files d < 2 ^ 64" using b(3,6) by linarith
  then have len: "(?bp + boot_size m files d + (2 ^ 64 - ?bp)) mod 2 ^ 64 = boot_size m files d"
    using add_sub_mod [of ?bp "?bp + boot_size m files d" "2 ^ 64"] by simp
  show ?thesis
    unfolding wim_construct_boot_regions_def Let_def align assms(4) m c1 prod.case p1_def [symmetric] c2 len
    by (simp add: p1_def)
qed

text \<open>The directory with the injected files is within the metadata.\<close>

definition dir_within :: "wim_patch \<Rightarrow> bool" where
  "dir_within patch \<longleftrightarrow> pd_parent (wp_dir patch) + 102 \<le> res_len (wp_boot patch) \<and>
     pd_offset (wp_dir patch) + pd_len (wp_dir patch) \<le> res_len (wp_boot patch)"

lemma boot_regions_dir:
  "wim_construct_boot_regions w patch off = (patch', off') \<Longrightarrow>
    pd_parent (wp_dir patch') = pd_parent (wp_dir patch) \<and> pd_offset (wp_dir patch') = pd_offset (wp_dir patch) \<and>
    pd_len (wp_dir patch') = pd_len (wp_dir patch) \<and> wp_boot patch' = wp_boot patch"
  by (auto simp: wim_construct_boot_regions_def wim_construct_dir_def Let_def split: prod.splits)

lemma regions_keep_boot:
  "wp_boot (fst (wim_construct_lookup_regions w patch off)) = wp_boot patch"
  "wp_boot (fst (wim_construct_boot_regions w patch off)) = wp_boot patch"
  using boot_regions_dir [OF surjective_pairing, of w patch off]
  by (simp_all add: wim_construct_lookup_regions_def Let_def split_beta)

lemma inject_boot: "wim_construct_inject w files f patch s = (Inr (files', patch'), s') \<Longrightarrow> wp_boot patch' = wp_boot patch"
  by (auto simp: wim_construct_inject_def Let_def wbind_eq_Inr wret_eq_Inr split_beta regions_keep_boot split: if_splits)

lemma layout_fits_mono: "layout_fits w len files l m m \<Longrightarrow> d \<le> m \<Longrightarrow> layout_fits w len files l m d"
  by (simp add: layout_fits_def boot_size_def dir_size_def)

lemma construct_inject:
  assumes run: "wim_construct_inject w files f patch s = (Inr (files', patch'), s')"
    and rs: "wp_regions patch = regions_empty\<lparr>rs_header := plain_region ''header'' No_opaque 0 208 Patch_header\<rparr>"
    and fits: "layout_fits w (vf_len (files ! f)) files (res_len (wp_lookup patch)) (res_len (wp_boot patch)) (res_len (wp_boot patch))"
    and w: "w \<le> 64" and dir: "entry_count files \<noteq> 0 \<Longrightarrow> dir_within patch'"
  shows "if entry_count files = 0 then files' = files \<and> s' = s \<and>
      patch' = patch\<lparr>wp_regions := (wp_regions patch)\<lparr>rs_file := file_regions 0 (vf_len (files ! f)) files\<rparr>\<rparr>
    else \<exists>count parent pos d. dir_within patch' \<and> patch' = inject_patch (vf_len (files ! f)) files count parent pos d patch \<and>
      files' = files[f := (files ! f)\<lparr>vf_xlen := boot_pos (vf_len (files ! f)) files (res_len (wp_lookup patch)) +
        boot_size (res_len (wp_boot patch)) files d\<rparr>]"
proof -
  let ?len = "vf_len (files ! f)" and ?l = "res_len (wp_lookup patch)" and ?m = "res_len (wp_boot patch)" and ?src = "file_source f (files ! f)"
  note b = layout_bounds [OF fits w]
  have less: "?len + table_len files < 2 ^ w" using b(4) by simp
  obtain rfiles off n where files: "wim_construct_files w 0 files ?len = Inr (rfiles, off, n)"
    using run by (auto simp: wim_construct_inject_def Let_def wbind_eq_Inr wret_eq_Inr)
  from construct_files [OF files less] have files_eq: "wim_construct_files w 0 files ?len =
      Inr (file_regions 0 ?len files, ?len + table_len files, entry_count files)" using files by (simp add: entry_count_table)
  define p1 where "p1 = patch\<lparr>wp_regions := (wp_regions patch)\<lparr>rs_file := file_regions 0 ?len files\<rparr>\<rparr>"
  show ?thesis
  proof (cases "entry_count files = 0")
    case True
    with run show ?thesis unfolding wim_construct_inject_def Let_def files_eq by (simp add: wbind_wret) (auto simp: wret_def)
  next
    case False
    define p2 where "p2 count = p1\<lparr>wp_header := (wp_header p1)\<lparr>wim_images := (count + 1) mod 2 ^ 32, wim_boot_index := (count + 1) mod 2 ^ 32\<rparr>\<rparr>" for count
    define p3 where "p3 count = (p2 count)\<lparr>wp_header := (wp_header (p2 count))\<lparr>wim_lookup :=
          \<lparr>zlen__flags = lookup_size ?l files, res_offset = lookup_pos ?len files, res_len = lookup_size ?l files\<rparr>\<rparr>,
        wp_regions := (wp_regions (p2 count))\<lparr>
          rs_lookup_copy := plain_region ''lookup.copy'' No_opaque (lookup_pos ?len files) ?l Patch_lookup_copy,
          rs_lookup_boot := plain_region ''lookup.boot'' No_opaque (lookup_pos ?len files + ?l) 50 Patch_lookup_boot,
          rs_lookup_file := entry_regions (ascii ''lookup.file'') Patch_lookup_file 50 50 0 (lookup_pos ?len files + ?l + 50) files\<rparr>\<rparr>" for count
    have lookup: "wim_construct_lookup_regions w (p2 count) (?len + table_len files) = (p3 count, lookup_pos ?len files + lookup_size ?l files)" for count
      unfolding p3_def by (rule construct_lookup_regions [OF _ fits w]) (simp_all add: p2_def p1_def)
    define p4 where "p4 count parent pos d = (p3 count)\<lparr>wp_dir := \<lparr>pd_name = WIM_INJECT_DIR, pd_parent = parent, pd_offset = pos, pd_len = d, pd_subdir = 0\<rparr>\<rparr>" for count parent pos d
    obtain count s1 where run1: "wbind (wim_path w ?src (wp_header (p3 count)) (wp_boot (p3 count)) (wide_string WIM_INJECT_DIR)) (\<lambda>(parent, direntry).
         wbind (wim_dir_len w ?src (wp_header (p3 count)) (wp_boot (p3 count)) (dir_subdir direntry mod 2 ^ w)) (\<lambda>dir_len.
         case wim_construct_boot_regions w (p4 count parent (dir_subdir direntry mod 2 ^ w) dir_len) (lookup_pos ?len files + lookup_size ?l files) of
           (patch, offset) \<Rightarrow> wret (Inr (files[f := (files ! f)\<lparr>vf_xlen := offset\<rparr>], patch)))) s1 = (Inr (files', patch'), s')"
      using run unfolding wim_construct_inject_def Let_def files_eq wbind_wret prod.case p1_def [symmetric] p2_def [symmetric] lookup p4_def [symmetric] if_not_P [OF False]
      by (subst (asm) wbind_eq_Inr) auto
    obtain pd :: "nat \<times> wim_directory_entry" and s2 where run2: "(case pd of (parent, direntry) \<Rightarrow>
         wbind (wim_dir_len w ?src (wp_header (p3 count)) (wp_boot (p3 count)) (dir_subdir direntry mod 2 ^ w)) (\<lambda>dir_len.
         case wim_construct_boot_regions w (p4 count parent (dir_subdir direntry mod 2 ^ w) dir_len) (lookup_pos ?len files + lookup_size ?l files) of
           (patch, offset) \<Rightarrow> wret (Inr (files[f := (files ! f)\<lparr>vf_xlen := offset\<rparr>], patch)))) s2 = (Inr (files', patch'), s')"
      using run1 by (rule wbindE)
    obtain parent direntry where pd: "pd = (parent, direntry)" by fastforce
    obtain d s3 where run3: "(case wim_construct_boot_regions w (p4 count parent (dir_subdir direntry mod 2 ^ w) d) (lookup_pos ?len files + lookup_size ?l files) of
           (patch, offset) \<Rightarrow> wret (Inr (files[f := (files ! f)\<lparr>vf_xlen := offset\<rparr>], patch))) s3 = (Inr (files', patch'), s')"
      using run2 unfolding pd prod.case by (rule wbindE)
    define pos where "pos = dir_subdir direntry mod 2 ^ w"
    obtain off' where boot: "wim_construct_boot_regions w (p4 count parent pos d) (lookup_pos ?len files + lookup_size ?l files) = (patch', off')"
      and files': "files' = files[f := (files ! f)\<lparr>vf_xlen := off'\<rparr>]"
      using run3 unfolding pos_def [symmetric]
      by (cases "wim_construct_boot_regions w (p4 count parent pos d) (lookup_pos ?len files + lookup_size ?l files)") (auto simp: wret_def)
    have wp_boot: "wp_boot (p4 count parent pos d) = wp_boot patch" "wp_boot (p4 count parent pos d) = wp_boot patch'"
      using boot_regions_dir [OF boot] by (simp_all add: p4_def p3_def p2_def p1_def)
    with dir [OF False] boot_regions_dir [OF boot] have within: "parent + 102 \<le> ?m" "d \<le> ?m"
      by (auto simp: dir_within_def p4_def)
    have fits_d: "layout_fits w ?len files ?l ?m d" by (rule layout_fits_mono [OF fits within(2)])
    have rsf: "rs_file (wp_regions (p4 count parent pos d)) = file_regions 0 ?len files" by (simp add: p4_def p3_def p2_def p1_def)
    have pd: "wp_dir (p4 count parent pos d) = \<lparr>pd_name = WIM_INJECT_DIR, pd_parent = parent, pd_offset = pos, pd_len = d, pd_subdir = 0\<rparr>"
      by (simp add: p4_def)
    have m4: "res_len (wp_boot (p4 count parent pos d)) = ?m" using wp_boot by simp
    note eq = construct_boot_regions [OF rsf fits_d w m4 pd within(1)]
    have "patch' = inject_patch ?len files count parent pos d patch" "off' = boot_pos ?len files ?l + boot_size ?m files d"
      using boot eq by (simp_all add: inject_patch_def injected_header_def inject_regions_def Let_def p4_def p3_def p2_def p1_def rs)
    with False files' dir show ?thesis by auto
  qed
qed

lemma header_size: "sizeof struct_wim_header = 208"
  by (simp add: struct_wim_header_def struct_wim_resource_header_def)

lemma wim_header_Inr:
  assumes "wim_header (file_source f vf) = Inr hdr" "reads_windows (file_source f vf)"
  shows "header_ok hdr \<and> 208 \<le> vf_len vf"
  using assms
  by (auto simp: wim_header_def header_size file_source_def rbind_eq_Inr parse_wim_header_def Let_def header_ok_def rd_bytes_def
      split: if_splits)

lemma construct_patch:
  assumes run: "wim_construct_patch w files f index inject s = (Inr (files', patch), s')" and len: "vf_xlen (files ! f) = vf_len (files ! f)"
    and hdr: "wim_header (file_source f (files ! f)) = Inr hdr"
    and fits: "layout_fits w (vf_len (files ! f)) files (res_len (wim_lookup hdr)) (res_len (wp_boot patch)) (res_len (wp_boot patch))"
    and w: "8 \<le> w" "w \<le> 64" and dir: "inject \<Longrightarrow> entry_count files \<noteq> 0 \<Longrightarrow> dir_within patch"
  shows "let boot = wp_boot patch; base = base_patch f hdr boot index; len = vf_len (files ! f) in
    if inject \<and> entry_count files \<noteq> 0 then
      \<exists>count parent pos d. dir_within patch \<and> patch = inject_patch len files count parent pos d base \<and>
        files' = files[f := (files ! f)\<lparr>vf_xlen := boot_pos len files (res_len (wim_lookup hdr)) + boot_size (res_len boot) files d\<rparr>]
    else files' = files \<and> patch = base\<lparr>wp_regions := (wp_regions base)\<lparr>rs_file := if inject then file_regions 0 len files else replicate VDISK_MAX_FILES region_empty\<rparr>\<rparr>"
proof -
  let ?src = "file_source f (files ! f)" and ?len = "vf_len (files ! f)"
  have f: "f < length files" using run by (auto simp: wim_construct_patch_def wret_def split: if_splits)
  have files: "files[f := (files ! f)\<lparr>vf_xlen := ?len\<rparr>] = files" using len f by (metis list_update_id vdisk_file.surjective vdisk_file.update_convs(5))
  have "(208 :: nat) < 2 ^ w" using power_increasing [OF w(1), of "2 :: nat"] by simp
  then have region: "wim_construct_region w (ascii ''header'') No_opaque 0 (sizeof struct_wim_header) Patch_header =
      (plain_region ''header'' No_opaque 0 208 Patch_header, 208)" using construct_plain [of 0 208 w] by (simp add: header_size)
  obtain boot s1 where boot: "wim_metadata w ?src hdr index s = (Inr boot, s1)"
    and run: "(if \<not> inject then wret (Inr (files, base_patch f hdr boot index)) else wim_construct_inject w files f (base_patch f hdr boot index)) s1 = (Inr (files', patch), s')"
    using run f unfolding wim_construct_patch_def Let_def files hdr wbind_wret region prod.case
    by (auto simp: wbind_eq_Inr base_patch_def cong: if_cong)
  show ?thesis
  proof (cases inject)
    case False
    with run show ?thesis by (auto simp: wret_def base_patch_def regions_empty_def)
  next
    case True
    then have run: "wim_construct_inject w files f (base_patch f hdr boot index) s1 = (Inr (files', patch), s')" using run by simp
    have "wp_boot patch = boot" using inject_boot [OF run] by (simp add: base_patch_def)
    have "wp_boot (base_patch f hdr boot index) = boot" "wp_lookup (base_patch f hdr boot index) = wim_lookup hdr"
      "wp_regions (base_patch f hdr boot index) = regions_empty\<lparr>rs_header := plain_region ''header'' No_opaque 0 208 Patch_header\<rparr>"
      by (simp_all add: base_patch_def)
    with construct_inject [OF run, unfolded this] fits w(2) dir True \<open>wp_boot patch = boot\<close> show ?thesis
      by (auto simp: Let_def)
  qed
qed

section \<open>The regions refer to the files\<close>

lemma drop_Cons: "x # xs = drop i ys \<Longrightarrow> i < length ys \<and> ys ! i = x \<and> xs = drop (Suc i) ys"
  by (metis drop_Suc drop_all leI list.distinct(1) list.sel(3) nth_via_drop tl_drop)

lemma file_table_file:
  "(k, pos) \<in> set (file_table i off vfs) \<Longrightarrow> vfs = drop i files \<Longrightarrow>
    i \<le> k \<and> k < length files \<and> wim_inject_file (files ! k) = Inr True \<and> vf_len (files ! k) \<le> table_len vfs \<and>
    off \<le> pos \<and> pos + vf_len (files ! k) \<le> off + table_len vfs \<and>
    file_regions i off vfs ! (k - i) = \<lparr>pr_name = vf_name (files ! k), pr_opaque = Vfile k, pr_offset = pos, pr_len = vf_len (files ! k), pr_patch = Some Patch_file\<rparr>"
proof (induction i off vfs rule: file_table.induct)
  case (2 i off vf vfs)
  note vf = drop_Cons [OF 2(4)]
  show ?case
  proof (cases "wim_inject_file vf = Inr True \<and> k = i \<and> pos = off")
    case True
    with vf show ?thesis by simp
  next
    case False
    show ?thesis
    proof (cases "wim_inject_file vf = Inr True")
      case True
      with False 2(3) have mem: "(k, pos) \<in> set (file_table (i + 1) (off + vf_len vf) vfs)" by auto
      then have "i + 1 \<le> k" using "2.IH"(1) [OF True mem] vf by simp
      then have "k - i = Suc (k - (i + 1))" by simp
      with "2.IH"(1) [OF True mem] vf True show ?thesis by simp
    next
      case no: False
      with 2(3) have mem: "(k, pos) \<in> set (file_table (i + 1) off vfs)" by simp
      then have "i + 1 \<le> k" using "2.IH"(2) [OF no mem] vf by simp
      then have "k - i = Suc (k - (i + 1))" by simp
      with "2.IH"(2) [OF no mem] vf no show ?thesis by simp
    qed
  qed
qed simp

lemma file_regions_file:
  "r \<in> set (file_regions i off vfs) \<Longrightarrow> pr_patch r \<noteq> None \<Longrightarrow> \<exists>k pos. (k, pos) \<in> set (file_table i off vfs) \<and>
     pr_opaque r = Vfile k \<and> pr_offset r = pos \<and> pr_patch r = Some Patch_file \<and> (\<forall>files. vfs = drop i files \<longrightarrow> pr_len r = vf_len (files ! k))"
proof (induction i off vfs rule: file_regions.induct)
  case (2 i off vf vfs)
  show ?case
  proof (cases "wim_inject_file vf = Inr True")
    case True
    show ?thesis
    proof (cases "r \<in> set (file_regions (i + 1) (off + vf_len vf) vfs)")
      case mem: True
      from "2.IH"(1) [OF True mem 2(4)] True show ?thesis by (auto dest!: drop_Cons)
    next
      case False
      with 2(3) True show ?thesis by (auto dest!: drop_Cons)
    qed
  next
    case False
    with 2(3,4) have mem: "r \<in> set (file_regions (i + 1) off vfs)" by (auto simp: region_empty_def)
    from "2.IH"(2) [OF False mem 2(4)] False show ?thesis by (auto dest!: drop_Cons)
  qed
qed simp

lemma entry_regions_file:
  "r \<in> set (entry_regions name p len step i off vfs) \<Longrightarrow> pr_patch r \<noteq> None \<Longrightarrow> \<exists>k pos. (k, pos) \<in> set (file_table i pos0 vfs) \<and>
     pr_opaque r = Rfile k \<and> pr_patch r = Some p \<and> pr_len r = len \<and> off \<le> pr_offset r \<and> pr_offset r + step \<le> off + step * length (file_table i pos0 vfs)"
proof (induction i pos0 vfs arbitrary: off rule: file_table.induct)
  case (2 i pos0 vf vfs)
  show ?case
  proof (cases "wim_inject_file vf = Inr True")
    case True
    show ?thesis
    proof (cases "r \<in> set (entry_regions name p len step (i + 1) (off + step) vfs)")
      case mem: True
      from "2.IH"(1) [OF True mem 2(4)] True show ?thesis by auto
    next
      case False
      with 2(3) True show ?thesis by auto
    qed
  next
    case False
    with 2(3,4) have mem: "r \<in> set (entry_regions name p len step (i + 1) off vfs)" by (auto simp: region_empty_def)
    from "2.IH"(2) [OF False mem 2(4)] False show ?thesis by auto
  qed
qed simp

text \<open>The files that the patch refers to, in an array where the length of the image may have changed.\<close>

definition same_file :: "vfile \<Rightarrow> vfile \<Rightarrow> bool" where
  "same_file vf vf' \<longleftrightarrow> vf_name vf' = vf_name vf \<and> vf_filename vf' = vf_filename vf \<and> vf_opaque vf' = vf_opaque vf \<and>
     vf_len vf' = vf_len vf \<and> vf_read vf' = vf_read vf"

definition keeps_files :: "struct_wim_file list \<Rightarrow> vfile list \<Rightarrow> struct_wim_file list \<Rightarrow> vfile list \<Rightarrow> bool" where
  "keeps_files wfiles files wfiles' files' \<longleftrightarrow> length files' = length files \<and> length wfiles' = length wfiles \<and>
     (\<forall>k < length files. vf_read (files ! k) \<noteq> None \<longrightarrow> same_file (files ! k) (files' ! k) \<and>
        (\<forall>i. vf_opaque (files ! k) = Wim_entry i \<longrightarrow> wfiles' ! i = wfiles ! i))"

lemma same_file_source: "same_file vf vf' \<Longrightarrow> file_source i vf' = file_source i vf"
  by (simp add: same_file_def file_source_def read_file_def fun_eq_iff)

lemma kept_source:
  assumes "keeps_files wfiles files wfiles' files'" "source_ok w wfiles files f hdr R k" "f < length files" "vf_read (files ! f) \<noteq> None"
  shows "source_ok w wfiles' files' f hdr R k \<and> vcontent w wfiles' files' k = vcontent w wfiles files k \<and> vf_len (files' ! k) = vf_len (files ! k)
    \<and> vf_name (files' ! k) = vf_name (files ! k)"
proof -
  have k: "k < length files" "vf_read (files ! k) \<noteq> None" "vfile_ok w wfiles files f hdr R k" using assms(2) by (auto simp: source_ok_def)
  then have same: "same_file (files ! k) (files' ! k)" "same_file (files ! f) (files' ! f)" and len: "length files' = length files" "length wfiles' = length wfiles"
    and wf: "\<And>i. vf_opaque (files ! k) = Wim_entry i \<Longrightarrow> wfiles' ! i = wfiles ! i"
    using assms by (auto simp: keeps_files_def)
  have mem: "memory_file (files' ! f) = memory_file (files ! f)" "memory_file (files' ! k) = memory_file (files ! k)"
    using same by (simp_all add: memory_file_def same_file_def)
  have src: "file_source f (files' ! f) = file_source f (files ! f)" by (rule same_file_source [OF same(2)])
  have "wim_entry_ok w wfiles' files' f hdr R i n = wim_entry_ok w wfiles files f hdr R i n" if "vf_opaque (files ! k) = Wim_entry i" for i n
    using wf [OF that] len mem src same(2) by (simp add: wim_entry_ok_def readable_def same_file_def)
  then have "vfile_ok w wfiles' files' f hdr R k" using k(3) same(1) mem
    by (auto simp: vfile_ok_def same_file_def split: option.splits reader.splits opaque.splits)
  moreover have "vcontent w wfiles' files' k = vcontent w wfiles files k"
  proof (cases "vf_opaque (files ! k)")
    case (Wim_entry i)
    then have "wf_file (wfiles ! i) = f" using k(2,3) by (auto simp: vfile_ok_def wim_entry_ok_def memory_file_def split: option.splits reader.splits)
    with Wim_entry wf [OF Wim_entry] same src show ?thesis by (simp add: vcontent_def same_file_def)
  qed (use same in \<open>simp_all add: vcontent_def same_file_def\<close>)
  ultimately show ?thesis using assms(2) same(1) len by (auto simp: source_ok_def same_file_def)
qed

section \<open>Well-formedness\<close>

text \<open>What the patch relies on: the image and the injected files can be read.\<close>

definition patchable :: "nat \<Rightarrow> struct_wim_file list \<Rightarrow> vfile list \<Rightarrow> nat \<Rightarrow> wim_header \<Rightarrow> wim_resource_header set \<Rightarrow> wim_resource_header \<Rightarrow> bytes \<Rightarrow> bytes \<Rightarrow> bool" where
  "patchable w wfiles files f hdr R boot L M \<longleftrightarrow> f < length files \<and> memory_file (files ! f) \<and> length files = VDISK_MAX_FILES \<and>
     wim_header (file_source f (files ! f)) = Inr hdr \<and> readable w files f hdr R (wim_lookup hdr) L \<and> readable w files f hdr R boot M \<and>
     (\<forall>k < length files. wim_inject_file (files ! k) = Inr True \<longrightarrow> source_ok w wfiles files f hdr R k)"

lemma kept_readable:
  assumes "keeps_files wfiles files wfiles' files'" "f < length files" "vf_read (files ! f) \<noteq> None"
  shows "readable w files' f hdr R res bs = readable w files f hdr R res bs" "vf_len (files' ! f) = vf_len (files ! f)"
proof -
  have "same_file (files ! f) (files' ! f)" using assms by (simp add: keeps_files_def)
  with same_file_source [OF this] show "readable w files' f hdr R res bs = readable w files f hdr R res bs" "vf_len (files' ! f) = vf_len (files ! f)"
    by (simp_all add: readable_def same_file_def)
qed

lemma rs_region_inject:
  "set (rs_region (inject_regions len files l m parent d)) =
     {plain_region ''header'' No_opaque 0 208 Patch_header, plain_region ''lookup.copy'' No_opaque (lookup_pos len files) l Patch_lookup_copy,
      plain_region ''lookup.boot'' No_opaque (lookup_pos len files + l) 50 Patch_lookup_boot,
      plain_region ''boot.copy'' No_opaque (boot_pos len files l) m Patch_boot_copy,
      plain_region ''dir.subdir'' Dir (boot_pos len files l + parent + 16) 8 Patch_dir_subdir,
      plain_region WIM_INJECT_DIR Dir (boot_pos len files l + align8 m + 168 * entry_count files) d Patch_dir_copy} \<union>
     set (file_regions 0 len files) \<union>
     set (entry_regions (ascii ''lookup.file'') Patch_lookup_file 50 50 0 (lookup_pos len files + l + 50) files) \<union>
     set (entry_regions (ascii ''dir.file'') Patch_dir_file 166 168 0 (boot_pos len files l + align8 m) files)"
  by (auto simp: rs_region_def inject_regions_def Let_def)

lemma opaque_file_inject:
  assumes "(k, pos) \<in> set (file_table 0 len files)" "pr_opaque r = Rfile k" "rs_file (wp_regions patch) = file_regions 0 len files"
  shows "\<exists>rfile. opaque_file patch r = Inr (rfile, k) \<and> pr_offset rfile = pos"
proof -
  have tbl: "k < length files" "file_regions 0 len files ! k =
      \<lparr>pr_name = vf_name (files ! k), pr_opaque = Vfile k, pr_offset = pos, pr_len = vf_len (files ! k), pr_patch = Some Patch_file\<rparr>"
    using file_table_file [OF assms(1), of files] by auto
  have "length (file_regions i off vfs) = length vfs" for i off vfs by (induction i off vfs rule: file_regions.induct) auto
  with tbl assms(2,3) show ?thesis by (simp add: opaque_file_def)
qed

lemma inject_patch_ok:
  assumes ok: "patchable w wfiles files f hdr R boot L M" and len: "len = vf_len (files ! f)"
    and patch: "patch = inject_patch len files count parent pos d (base_patch f hdr boot index)" and dir: "dir_within patch"
    and kept: "keeps_files wfiles files wfiles' files'"
    and xlen: "boot_pos len files (res_len (wim_lookup hdr)) + boot_size (res_len boot) files d \<le> vf_xlen (files' ! f)"
  shows "patch_ok w wfiles' files' f hdr R patch"
proof -
  let ?l = "res_len (wim_lookup hdr)" and ?m = "res_len boot" and ?x = "vf_xlen (files' ! f)"
  have f: "f < length files" "vf_read (files ! f) \<noteq> None" and hdr: "wim_header (file_source f (files ! f)) = Inr hdr"
    and L: "readable w files f hdr R (wim_lookup hdr) L" and M: "readable w files f hdr R boot M"
    using ok by (auto simp: patchable_def memory_file_def)
  have hok: "header_ok hdr" "208 \<le> len" using wim_header_Inr [OF hdr memory_windows] len by auto
  have p: "wp_file patch = Some f" "header_ok (wp_header patch)" "wim_flags (wp_header patch) = wim_flags hdr" "wp_lookup patch = wim_lookup hdr"
    "wp_boot patch = boot" "pd_offset (wp_dir patch) = pos" "pd_parent (wp_dir patch) = parent" "pd_len (wp_dir patch) = d"
    "wp_regions patch = inject_regions len files ?l ?m parent d" "rs_file (wp_regions patch) = file_regions 0 len files"
    using hok by (simp_all add: patch inject_patch_def base_patch_def injected_header_def header_ok_def Let_def inject_regions_def)
  have d: "parent + 102 \<le> ?m" "pos + d \<le> ?m" using dir p by (auto simp: dir_within_def)
  have L': "readable w files' f hdr R (wim_lookup hdr) L" and M': "readable w files' f hdr R boot M"
    using kept_readable [OF kept f] L M by auto
  have src: "source_ok w wfiles' files' f hdr R k \<and> vf_len (files' ! k) = vf_len (files ! k)" if "(k, pos) \<in> set (file_table 0 len files)" for k pos
    using file_table_file [OF that, of files] kept_source [OF kept _ f, of w hdr R k] ok by (auto simp: patchable_def)
  have b: "len + table_len files \<le> lookup_pos len files" "lookup_pos len files + (?l + 50 + 50 * entry_count files) \<le> boot_pos len files ?l" "?m \<le> align8 ?m"
    "boot_pos len files ?l + (align8 ?m + (168 * entry_count files + d + 8)) \<le> ?x"
    using xlen by (simp_all add: lookup_pos_def boot_pos_def align8_ge lookup_size_def boot_size_def dir_size_def)
  have region: "region_ok w wfiles' files' hdr R patch r \<and> (pr_patch r \<noteq> None \<longrightarrow> pr_offset r + pr_len r \<le> ?x)"
    if r: "r \<in> set (rs_region (wp_regions patch))" for r
  proof (cases "pr_patch r = None")
    case True
    then show ?thesis by (simp add: region_ok_def)
  next
    case used: False
    consider "r \<in> set (file_regions 0 len files)"
      | "r \<in> set (entry_regions (ascii ''lookup.file'') Patch_lookup_file 50 50 0 (lookup_pos len files + ?l + 50) files)"
      | "r \<in> set (entry_regions (ascii ''dir.file'') Patch_dir_file 166 168 0 (boot_pos len files ?l + align8 ?m) files)"
      | "r \<in> {plain_region ''header'' No_opaque 0 208 Patch_header, plain_region ''lookup.copy'' No_opaque (lookup_pos len files) ?l Patch_lookup_copy,
          plain_region ''lookup.boot'' No_opaque (lookup_pos len files + ?l) 50 Patch_lookup_boot,
          plain_region ''boot.copy'' No_opaque (boot_pos len files ?l) ?m Patch_boot_copy,
          plain_region ''dir.subdir'' Dir (boot_pos len files ?l + parent + 16) 8 Patch_dir_subdir,
          plain_region WIM_INJECT_DIR Dir (boot_pos len files ?l + align8 ?m + 168 * entry_count files) d Patch_dir_copy}"
      using r unfolding p(9) rs_region_inject by blast
    then show ?thesis
    proof cases
      case 1
      from file_regions_file [OF this used] obtain k where k: "(k, pr_offset r) \<in> set (file_table 0 len files)" "pr_opaque r = Vfile k"
        "pr_patch r = Some Patch_file" "pr_len r = vf_len (files ! k)" by auto
      with src [OF k(1)] file_table_file [OF k(1), of files] b p(1) show ?thesis by (auto simp: region_ok_def)
    next
      case 2
      from entry_regions_file [OF this used, of len] obtain k pos where k: "(k, pos) \<in> set (file_table 0 len files)" "pr_opaque r = Rfile k"
        "pr_patch r = Some Patch_lookup_file" "pr_len r = 50" "pr_offset r + 50 \<le> lookup_pos len files + ?l + 50 + 50 * entry_count files"
        by (auto simp: entry_count_table)
      obtain rfile where rfile: "opaque_file patch r = Inr (rfile, k)" using opaque_file_inject [OF k(1,2) p(10)] by blast
      with src [OF k(1)] k b p(1) show ?thesis by (auto simp: region_ok_def)
    next
      case 3
      from entry_regions_file [OF this used, of len] obtain k pos where k: "(k, pos) \<in> set (file_table 0 len files)" "pr_opaque r = Rfile k"
        "pr_patch r = Some Patch_dir_file" "pr_len r = 166" "pr_offset r + 168 \<le> boot_pos len files ?l + align8 ?m + 168 * entry_count files"
        by (auto simp: entry_count_table)
      obtain rfile where rfile: "opaque_file patch r = Inr (rfile, k)" using opaque_file_inject [OF k(1,2) p(10)] by blast
      with src [OF k(1)] k b p(1) show ?thesis by (auto simp: region_ok_def)
    next
      case 4
      then consider "r = plain_region ''header'' No_opaque 0 208 Patch_header" | "r = plain_region ''lookup.copy'' No_opaque (lookup_pos len files) ?l Patch_lookup_copy"
        | "r = plain_region ''lookup.boot'' No_opaque (lookup_pos len files + ?l) 50 Patch_lookup_boot"
        | "r = plain_region ''boot.copy'' No_opaque (boot_pos len files ?l) ?m Patch_boot_copy"
        | "r = plain_region ''dir.subdir'' Dir (boot_pos len files ?l + parent + 16) 8 Patch_dir_subdir"
        | "r = plain_region WIM_INJECT_DIR Dir (boot_pos len files ?l + align8 ?m + 168 * entry_count files) d Patch_dir_copy" by blast
      then show ?thesis
        by cases (use L' M' d b hok p(1,4,5,6) in \<open>auto simp: region_ok_def plain_region_def\<close>)
    qed
  qed
  with p(1-3) show ?thesis by (simp add: patch_ok_def)
qed

section \<open>The patched image\<close>

lemma pad_next:
  assumes "align8 (length p) \<le> length p + n"
  shows "p @ replicate n 0 @ q = pad8 p @ replicate (n - (align8 (length p) - length p)) 0 @ q"
proof -
  have "replicate n (0 :: u8) = replicate (align8 (length p) - length p) 0 @ replicate (n - (align8 (length p) - length p)) 0"
    using assms by (simp flip: replicate_add)
  then show ?thesis by (simp add: pad8_def)
qed

lemma overlay_inside:
  assumes "length B = b" "off + length bs \<le> length M"
  shows "overlay (b + off) bs (B @ M @ q) = B @ overlay off bs M @ q"
  using assms by (simp add: overlay_def)

lemma pad8_166: "length bs = 166 \<Longrightarrow> pad8 bs = bs @ replicate 2 0"
  by (simp add: pad8_def align8_def)

lemma inject_image:
  assumes patch: "patch = inject_patch len files count parent pos d (base_patch f hdr boot index)"
    and content: "\<And>k pos. (k, pos) \<in> set (file_table 0 len files) \<Longrightarrow> length (vcontent w wfiles' files' k) = vf_len (files ! k) \<and>
      vf_len (files' ! k) = vf_len (files ! k) \<and> length (cstring (vf_name (files' ! k))) \<le> 31"
    and L: "resource_content w files' f hdr (wim_lookup hdr) = L" "length L = res_len (wim_lookup hdr)"
    and M: "resource_content w files' f hdr boot = M" "length M = res_len boot"
    and dir: "parent + 102 \<le> length M" "pos + d \<le> length M" and C: "length C = len" "208 \<le> len" and hdr: "header_ok hdr"
  shows "patched_image w wfiles' files' hdr patch (C @ replicate (boot_pos len files (length L) + boot_size (length M) files d - len) 0) =
    injected_image w wfiles' files' (file_table 0 len files) (wp_header patch) C L M parent pos d"
proof -
  let ?l = "length L" and ?m = "length M" and ?n = "entry_count files" and ?tbl = "file_table 0 len files"
  let ?lp = "lookup_pos len files" and ?bp = "boot_pos len files ?l"
  let ?lay = "lay_region w wfiles' files' hdr patch"
  have p: "wp_file patch = Some f" "header_ok (wp_header patch)" "wp_lookup patch = wim_lookup hdr"
    "wp_boot patch = boot" "wp_dir patch = \<lparr>pd_name = WIM_INJECT_DIR, pd_parent = parent, pd_offset = pos, pd_len = d, pd_subdir = align8 ?m\<rparr>"
    "wp_regions patch = inject_regions len files ?l ?m parent d" "rs_file (wp_regions patch) = file_regions 0 len files"
    using hdr L(2) M(2) by (simp_all add: patch inject_patch_def base_patch_def injected_header_def header_ok_def Let_def inject_regions_def)
  define N where "N = ?bp + boot_size ?m files d - len"
  define hb where "hb = wim_header_bytes (wp_header patch)"
  have hb: "length hb = 208" using p(2) by (simp add: hb_def length_wim_header_bytes)
  have b: "len + table_len files \<le> ?lp" "?lp + (?l + 50 + 50 * ?n) \<le> ?bp" "?m \<le> align8 ?m" "len + N = ?bp + (align8 ?m + (168 * ?n + d + 8))"
    by (simp_all add: N_def lookup_pos_def boot_pos_def align8_ge lookup_size_def boot_size_def dir_size_def)
       (use align8_ge [of "len + table_len files"] align8_ge [of "align8 (len + table_len files) + (?l + 50 + 50 * ?n)"] in linarith)
  define A where "A = hb @ drop 208 C @ table_contents w wfiles' files' ?tbl"
  have s1: "?lay (plain_region ''header'' No_opaque 0 208 Patch_header) (C @ replicate N 0) = (hb @ drop 208 C) @ replicate N 0 @ []"
    using hb C by (simp add: lay_region_def plain_region_def region_bytes_def Let_def hb_def overlay_0)
  have files: "fold ?lay (file_regions 0 len files) ((hb @ drop 208 C) @ replicate N 0 @ []) = A @ replicate (N - table_len files) 0 @ []"
    "length (table_contents w wfiles' files' ?tbl) = table_len files"
    using lay_files [of 0 len files w wfiles' files' files "hb @ drop 208 C" N hdr patch "[]"] content hb C b by (auto simp: A_def)
  have A: "length A = len + table_len files" using hb C files(2) by (simp add: A_def)
  then have s2: "A @ replicate (N - table_len files) 0 @ [] = pad8 A @ replicate (len + N - ?lp) 0 @ []"
    using b by (subst pad_next) (auto simp: lookup_pos_def)
  have padA: "length (pad8 A) = ?lp" using A by (simp add: length_pad8 lookup_pos_def)
  define E where "E = lookup_entry_bytes \<lparr>entry_resource = wim_boot (wp_header patch), entry_part = 0, entry_refcnt = 0, entry_hash = replicate 20 0\<rparr>"
  have E: "length E = 50" by (simp add: E_def length_lookup_entry_bytes)
  have s3: "?lay (plain_region ''lookup.copy'' No_opaque ?lp ?l Patch_lookup_copy) (pad8 A @ replicate (len + N - ?lp) 0 @ []) =
      (pad8 A @ L) @ replicate (len + N - ?lp - ?l) 0 @ []"
    using padA b L p(1,3) by (subst lay_next [where bs = L and p = Patch_lookup_copy]) (auto simp: plain_region_def region_bytes_def Let_def)
  have s4: "?lay (plain_region ''lookup.boot'' No_opaque (?lp + ?l) 50 Patch_lookup_boot) ((pad8 A @ L) @ replicate (len + N - ?lp - ?l) 0 @ []) =
      ((pad8 A @ L) @ E) @ replicate (len + N - ?lp - ?l - 50) 0 @ []"
    using padA b E by (subst lay_next [where bs = E and p = Patch_lookup_boot]) (auto simp: plain_region_def region_bytes_def Let_def E_def)
  define T where "T = table_entries w wfiles' files' ?tbl"
  have T: "length T = 50 * ?n" by (simp add: T_def length_table_entries entry_count_table)
  have entry: "region_bytes w wfiles' files' hdr patch r Patch_lookup_file = lookup_entry_bytes
        \<lparr>entry_resource = \<lparr>zlen__flags = vf_len (files' ! k), res_offset = q, res_len = vf_len (files' ! k)\<rparr>,
         entry_part = 0, entry_refcnt = 1, entry_hash = sha1_spec (vcontent w wfiles' files' k)\<rparr>
    \<and> region_bytes w wfiles' files' hdr patch r Patch_dir_file = wim_patch_dir_entry w (sha1_spec (vcontent w wfiles' files' k)) (cstring (vf_name (files' ! k)))"
    if "(k, q) \<in> set ?tbl" "pr_opaque r = Rfile k" for k q r
    using opaque_file_inject [OF that p(7)] by (auto simp: region_bytes_def injected_file_def lookup_entry_of_def Let_def)
  have s5: "fold ?lay (entry_regions (ascii ''lookup.file'') Patch_lookup_file 50 50 0 (?lp + ?l + 50) files)
      (((pad8 A @ L) @ E) @ replicate (len + N - ?lp - ?l - 50) 0 @ []) = (pad8 A @ L @ E @ T) @ replicate (len + N - ?lp - (?l + 50 + 50 * ?n)) 0 @ []"
  proof -
    define g where "g = (\<lambda>(k, q). lookup_entry_bytes
        \<lparr>entry_resource = \<lparr>zlen__flags = vf_len (files' ! k), res_offset = q, res_len = vf_len (files' ! k)\<rparr>,
         entry_part = 0, entry_refcnt = 1, entry_hash = sha1_spec (vcontent w wfiles' files' k)\<rparr>)"
    have "concat (map (\<lambda>e. g e @ replicate (50 - 50) 0) ?tbl) = T" by (simp add: T_def table_entries_def g_def)
    moreover have "fold ?lay (entry_regions (ascii ''lookup.file'') Patch_lookup_file 50 50 0 (?lp + ?l + 50) files)
        (((pad8 A @ L) @ E) @ replicate (len + N - ?lp - ?l - 50) 0 @ []) =
      ((pad8 A @ L) @ E) @ concat (map (\<lambda>e. g e @ replicate (50 - 50) 0) ?tbl) @ replicate (len + N - ?lp - ?l - 50 - 50 * length ?tbl) 0 @ []"
      using entry padA E b
      by (intro lay_entries) (auto simp: g_def length_lookup_entry_bytes length_sha1_spec entry_count_table)
    ultimately show ?thesis by (simp add: entry_count_table)
  qed
  define B where "B = pad8 (pad8 A @ L @ E @ T)"
  have lenB: "length B = ?bp" using padA E T by (simp add: B_def length_pad8 boot_pos_def lookup_size_def add.assoc)
  have s6: "(pad8 A @ L @ E @ T) @ replicate (len + N - ?lp - (?l + 50 + 50 * ?n)) 0 @ [] = B @ replicate (len + N - ?bp) 0 @ []"
    using lenB padA E T b unfolding B_def by (subst pad_next) (auto simp: length_pad8)
  have s7: "?lay (plain_region ''boot.copy'' No_opaque ?bp ?m Patch_boot_copy) (B @ replicate (len + N - ?bp) 0 @ []) =
      B @ M @ replicate (len + N - ?bp - ?m) 0 @ []"
    using lenB b M p(1,4) by (subst lay_next [where bs = M and p = Patch_boot_copy]) (auto simp: plain_region_def region_bytes_def Let_def)
  define M' where "M' = overlay (parent + 16) (le64 (align8 ?m)) M"
  have M': "length M' = ?m" using dir by (simp add: M'_def)
  have s8: "?lay (plain_region ''dir.subdir'' Dir (?bp + parent + 16) 8 Patch_dir_subdir) (B @ M @ replicate (len + N - ?bp - ?m) 0 @ []) =
      (B @ M') @ replicate (len + N - ?bp - ?m) 0 @ []"
    using overlay_inside [of B ?bp "parent + 16" "le64 (align8 ?m)" M "replicate (len + N - ?bp - ?m) 0"] lenB dir p(5)
    by (simp add: lay_region_def plain_region_def region_bytes_def Let_def M'_def add.assoc)
  define W where "W = window pos d M"
  have W: "length W = d" using dir by (simp add: W_def)
  define D where "D = B @ pad8 M'"
  have D: "length D = ?bp + align8 ?m" using lenB M' by (simp add: D_def length_pad8)
  have "(B @ M') @ replicate (len + N - ?bp - ?m) 0 @ [] = D @ replicate (168 * ?n + d + 8) 0"
  proof -
    have "M' @ replicate (len + N - ?bp - ?m) 0 @ [] = pad8 M' @ replicate (168 * ?n + d + 8) 0 @ []"
      using M' b by (subst pad_next) auto
    then show ?thesis by (simp add: D_def)
  qed
  also have "replicate (168 * ?n + d + 8) (0 :: u8) = replicate (168 * ?n) 0 @ replicate (d + 8) 0"
    by (simp flip: replicate_add add: add.assoc)
  finally have s9: "(B @ M') @ replicate (len + N - ?bp - ?m) 0 @ [] = (D @ replicate (168 * ?n) 0) @ replicate (d + 8) 0 @ []" by simp
  have s10: "?lay (plain_region WIM_INJECT_DIR Dir (?bp + align8 ?m + 168 * ?n) d Patch_dir_copy) ((D @ replicate (168 * ?n) 0) @ replicate (d + 8) 0 @ []) =
      (D @ replicate (168 * ?n) 0) @ W @ replicate (d + 8 - d) 0 @ []"
    using D W M p(1,4,5) lay_next [of "plain_region WIM_INJECT_DIR Dir (?bp + align8 ?m + 168 * ?n) d Patch_dir_copy" Patch_dir_copy w wfiles' files' hdr patch W
      "D @ replicate (168 * ?n) 0" "d + 8" "[]"] by (simp add: plain_region_def region_bytes_def Let_def W_def)
  have s11: "fold ?lay (entry_regions (ascii ''dir.file'') Patch_dir_file 166 168 0 (?bp + align8 ?m) files)
      (D @ replicate (168 * ?n) 0 @ W @ replicate 8 0) = D @ table_dir w wfiles' files' ?tbl @ W @ replicate 8 0"
  proof -
    define g where "g = (\<lambda>(k, q :: nat). wim_patch_dir_entry w (sha1_spec (vcontent w wfiles' files' k)) (cstring (vf_name (files' ! k))))"
    have len_g: "length (g (k, q)) = 166" if "(k, q) \<in> set ?tbl" for k q
      using content [OF that] by (simp add: g_def length_wim_patch_dir_entry length_sha1_spec)
    then have "map (\<lambda>e. g e @ replicate (168 - 166) 0) ?tbl = map (\<lambda>e. pad8 (g e)) ?tbl"
      by (intro map_cong) (auto simp: pad8_166)
    moreover have "table_dir w wfiles' files' ?tbl = concat (map (\<lambda>e. pad8 (g e)) ?tbl)" by (simp add: table_dir_def g_def split_beta')
    ultimately have tbl: "concat (map (\<lambda>e. g e @ replicate (168 - 166) 0) ?tbl) = table_dir w wfiles' files' ?tbl" by (simp only:)
    have "fold ?lay (entry_regions (ascii ''dir.file'') Patch_dir_file 166 168 0 (?bp + align8 ?m) files) (D @ replicate (168 * ?n) 0 @ (W @ replicate 8 0)) =
      D @ concat (map (\<lambda>e. g e @ replicate (168 - 166) 0) ?tbl) @ replicate (168 * ?n - 168 * length ?tbl) 0 @ (W @ replicate 8 0)"
      using entry D len_g by (intro lay_entries) (auto simp: g_def entry_count_table)
    then show ?thesis unfolding tbl by (simp add: entry_count_table)
  qed
  have image: "injected_image w wfiles' files' ?tbl (wp_header patch) C L M parent pos d = D @ table_dir w wfiles' files' ?tbl @ W @ replicate 8 0"
    by (simp add: injected_image_def injected_start_def injected_table_def injected_metadata_def D_def B_def A_def hb_def E_def T_def M'_def W_def
        struct_wim_directory_entry_def add.commute)
  have rs: "rs_region (wp_regions patch) = plain_region ''header'' No_opaque 0 208 Patch_header # file_regions 0 len files @
      plain_region ''lookup.copy'' No_opaque ?lp ?l Patch_lookup_copy # plain_region ''lookup.boot'' No_opaque (?lp + ?l) 50 Patch_lookup_boot #
      entry_regions (ascii ''lookup.file'') Patch_lookup_file 50 50 0 (?lp + ?l + 50) files @
      plain_region ''boot.copy'' No_opaque ?bp ?m Patch_boot_copy # plain_region ''dir.subdir'' Dir (?bp + parent + 16) 8 Patch_dir_subdir #
      plain_region WIM_INJECT_DIR Dir (?bp + align8 ?m + 168 * ?n) d Patch_dir_copy #
      entry_regions (ascii ''dir.file'') Patch_dir_file 166 168 0 (?bp + align8 ?m) files"
    unfolding p(6) by (simp add: rs_region_def inject_regions_def Let_def)
  have "patched_image w wfiles' files' hdr patch (C @ replicate N 0) = D @ table_dir w wfiles' files' ?tbl @ W @ replicate 8 0"
    unfolding patched_image_def rs fold_simps fold_append o_apply s1 files(1) s2 s3 s4 s5 s6 s7 s8 s9 s10
    using s11 by simp
  then show ?thesis unfolding image N_def .
qed

end
