(* ===== verification/Patch_Laws.thy ===== *)
theory Patch_Laws
  imports Patch_Layout
begin

text \<open>
  What the construction of a patch establishes, and what a reader of WIM images finds in the patched image.
\<close>

section \<open>The construction\<close>

lemma construct_keeps:
  assumes run: "wim_construct_patch w files f index inject s = (Inr (files', patch), s')" and len: "vf_xlen (files ! f) = vf_len (files ! f)"
    and hdr: "wim_header (file_source f (files ! f)) = Inr hdr" and R: "resources_ok w (file_source f (files ! f)) hdr R"
    and meta: "wim_lookup hdr \<in> R" "wp_boot patch \<in> R" and good: "cache_ok w (file_source f (files ! f)) hdr R s"
  shows "cache_ok w (file_source f (files ! f)) hdr R s'"
proof -
  let ?src = "file_source f (files ! f)"
  have f: "f < length files" using run by (auto simp: wim_construct_patch_def wret_def split: if_splits)
  have files: "files[f := (files ! f)\<lparr>vf_xlen := vf_len (files ! f)\<rparr>] = files"
    using len f by (metis list_update_id vdisk_file.surjective vdisk_file.update_convs(5))
  obtain boot s1 p where boot: "wim_metadata w ?src hdr index s = (Inr boot, s1)"
    and p: "wp_boot p = boot" "wim_lookup (wp_header p) = wim_lookup hdr" "wim_flags (wp_header p) = wim_flags hdr"
    and run: "(if \<not> inject then wret (Inr (files, p)) else wim_construct_inject w files f p) s1 = (Inr (files', patch), s')"
  proof -
    obtain boot s1 where "wim_metadata w ?src hdr index s = (Inr boot, s1)"
      "(let p = wim_patch_zero\<lparr>wp_file := Some f\<rparr>\<lparr>
          wp_header := (if index \<noteq> 0 then hdr\<lparr>wim_boot := boot, wim_boot_index := index\<rparr> else hdr),
          wp_lookup := wim_lookup hdr, wp_boot := boot, wp_boot_index := wim_boot_index hdr,
          wp_regions := regions_empty\<lparr>rs_header := fst (wim_construct_region w (ascii ''header'') No_opaque 0 (sizeof struct_wim_header) Patch_header)\<rparr>\<rparr>
        in if \<not> inject then wret (Inr (files, p)) else wim_construct_inject w files f p) s1 = (Inr (files', patch), s')"
      using run f unfolding wim_construct_patch_def Let_def files hdr wbind_wret split_beta
      by (auto simp: wbind_eq_Inr cong: if_cong)
    with that show ?thesis unfolding Let_def by (fastforce split: if_splits)
  qed
  show ?thesis
  proof (cases inject)
    case False
    then have "patch = p" "s' = s1" using run by (auto simp: wret_def)
    with keeps_run [OF keeps_metadata [OF R meta(1) refl] good boot] show ?thesis by simp
  next
    case True
    then have inj: "wim_construct_inject w files f p s1 = (Inr (files', patch), s')" using run by simp
    have "boot \<in> R" using inject_boot [OF inj] p(1) meta(2) by simp
    then have "keeps (cache_ok w ?src hdr R) (wim_construct_inject w files f p)"
      using p meta(1) by (intro keeps_inject [OF R]) simp_all
    with keeps_run [OF keeps_metadata [OF R meta(1) refl] good boot] inj show ?thesis by (auto simp: keeps_def)
  qed
qed

lemma keeps_files_refl: "keeps_files wfiles files wfiles files"
  by (simp add: keeps_files_def same_file_def)

lemma keeps_files_xlen: "keeps_files wfiles files wfiles (files[f := (files ! f)\<lparr>vf_xlen := x\<rparr>])"
proof -
  have "same_file (files ! k) (files[f := (files ! f)\<lparr>vf_xlen := x\<rparr>] ! k)" if "k < length files" for k
    using that by (cases "f = k") (simp_all add: same_file_def)
  then show ?thesis by (simp add: keeps_files_def)
qed

lemma no_entries: "entry_count files = 0 \<Longrightarrow> file_regions 0 len files = replicate (length files) region_empty"
proof -
  have "file_table i off vfs = [] \<Longrightarrow> file_regions i off' vfs = replicate (length vfs) region_empty" for i off off' vfs
    by (induction i off vfs arbitrary: off' rule: file_table.induct) (auto split: if_splits)
  then show "entry_count files = 0 \<Longrightarrow> ?thesis" by (auto simp: entry_count_def)
qed

lemma base_patch_ok:
  assumes hdr: "header_ok hdr" and rs: "rs = replicate n region_empty" and x: "208 \<le> vf_xlen (files ! f)"
    and patch: "patch = (base_patch f hdr boot index)\<lparr>wp_regions := (wp_regions (base_patch f hdr boot index))\<lparr>rs_file := rs\<rparr>\<rparr>"
  shows "patch_ok w wfiles files f hdr R patch"
proof -
  have p: "wp_file patch = Some f" "header_ok (wp_header patch)" "wim_flags (wp_header patch) = wim_flags hdr"
    using hdr by (simp_all add: patch base_patch_def header_ok_def)
  have "r = plain_region ''header'' No_opaque 0 208 Patch_header \<or> r = region_empty" if "r \<in> set (rs_region (wp_regions patch))" for r
    using that by (auto simp: patch base_patch_def rs rs_region_def regions_empty_def)
  with p x show ?thesis by (fastforce simp: patch_ok_def region_ok_def plain_region_def region_empty_def)
qed

lemma kept_cache:
  assumes "keeps_files wfiles files wfiles' files'" "f < length files" "vf_read (files ! f) \<noteq> None"
  shows "cache_good w f hdr R files' = cache_good w f hdr R files"
proof -
  have "same_file (files ! f) (files' ! f)" using assms by (simp add: keeps_files_def)
  from same_file_source [OF this] show ?thesis by (simp add: cache_good_def [abs_def])
qed

text \<open>The hypotheses on the image and the files, and a successful construction.\<close>

definition constructed :: "nat \<Rightarrow> struct_wim_file list \<Rightarrow> vfile list \<Rightarrow> nat \<Rightarrow> nat \<Rightarrow> bool \<Rightarrow> wim_header \<Rightarrow> wim_resource_header set \<Rightarrow> bytes \<Rightarrow> bytes
      \<Rightarrow> vfile list \<Rightarrow> wim_patch \<Rightarrow> bool" where
  "constructed w wfiles files f index inject hdr R L M files' patch \<longleftrightarrow> 8 \<le> w \<and> w \<le> 64 \<and>
     patchable w wfiles files f hdr R (wp_boot patch) L M \<and> resources_ok w (file_source f (files ! f)) hdr R \<and>
     vf_xlen (files ! f) = vf_len (files ! f) \<and> layout_fits w (vf_len (files ! f)) files (length L) (length M) (length M) \<and>
     (inject \<and> entry_count files \<noteq> 0 \<longrightarrow> dir_within patch) \<and>
     (\<exists>s s'. cache_good w f hdr R files s \<and> wim_construct_patch w files f index inject s = (Inr (files', patch), s'))"

lemma constructed_cases:
  assumes "constructed w wfiles files f index inject hdr R L M files' patch"
  defines "len \<equiv> vf_len (files ! f)" and "base \<equiv> base_patch f hdr (wp_boot patch) index"
  obtains
    (plain) "files' = files" "\<not> (inject \<and> entry_count files \<noteq> 0)" "\<exists>n. patch = base\<lparr>wp_regions := (wp_regions base)\<lparr>rs_file := replicate n region_empty\<rparr>\<rparr>"
  | (injected) count parent pos d where "inject \<and> entry_count files \<noteq> 0" "dir_within patch" "patch = inject_patch len files count parent pos d base"
      "files' = files[f := (files ! f)\<lparr>vf_xlen := boot_pos len files (length L) + boot_size (length M) files d\<rparr>]"
proof -
  have L: "length L = res_len (wim_lookup hdr)" and M: "length M = res_len (wp_boot patch)" and hdr: "wim_header (file_source f (files ! f)) = Inr hdr"
    using assms(1) by (auto simp: constructed_def patchable_def readable_def)
  obtain s s' where run: "wim_construct_patch w files f index inject s = (Inr (files', patch), s')"
    using assms(1) by (auto simp: constructed_def)
  have c: "vf_xlen (files ! f) = vf_len (files ! f)" "8 \<le> w" "w \<le> 64" "inject \<Longrightarrow> entry_count files \<noteq> 0 \<Longrightarrow> dir_within patch"
    "layout_fits w (vf_len (files ! f)) files (res_len (wim_lookup hdr)) (res_len (wp_boot patch)) (res_len (wp_boot patch))"
    using assms(1) L M by (auto simp: constructed_def)
  note eq = construct_patch [OF run c(1) hdr c(5,2,3,4), unfolded Let_def, folded len_def base_def]
  show ?thesis
  proof (cases "inject \<and> entry_count files \<noteq> 0")
    case True
    with eq L M show ?thesis by (auto intro: injected)
  next
    case False
    then have "files' = files" "patch = base\<lparr>wp_regions := (wp_regions base)\<lparr>rs_file := if inject then file_regions 0 len files else replicate VDISK_MAX_FILES region_empty\<rparr>\<rparr>"
      using eq by simp_all
    with False no_entries show ?thesis by (intro plain) (auto split: if_splits)
  qed
qed

lemma constructed_ok:
  assumes "constructed w wfiles files f index inject hdr R L M files' patch"
  shows "patch_ok w wfiles files' f hdr R patch \<and> vf_len (files' ! f) \<le> vf_xlen (files' ! f)"
proof -
  have ok: "patchable w wfiles files f hdr R (wp_boot patch) L M" using assms by (simp add: constructed_def)
  then have hdr: "wim_header (file_source f (files ! f)) = Inr hdr" and f: "f < length files"
    and lens: "length L = res_len (wim_lookup hdr)" "length M = res_len (wp_boot patch)" by (auto simp: patchable_def readable_def)
  have hok: "header_ok hdr" "208 \<le> vf_len (files ! f)" using wim_header_Inr [OF hdr memory_windows] by auto
  have xlen: "vf_xlen (files ! f) = vf_len (files ! f)" using assms by (simp add: constructed_def)
  from assms show ?thesis
  proof (cases rule: constructed_cases)
    case plain
    then obtain n where n: "patch = (base_patch f hdr (wp_boot patch) index)\<lparr>wp_regions := (wp_regions (base_patch f hdr (wp_boot patch) index))
        \<lparr>rs_file := replicate n region_empty\<rparr>\<rparr>" by blast
    have "208 \<le> vf_xlen (files ! f)" using hok(2) xlen by simp
    from base_patch_ok [OF hok(1) refl this n] plain(1) xlen show ?thesis by simp
  next
    case (injected count parent pos d)
    let ?x = "boot_pos (vf_len (files ! f)) files (length L) + boot_size (length M) files d"
    have x: "vf_xlen (files' ! f) = ?x" "vf_len (files' ! f) = vf_len (files ! f)" using injected(4) f by simp_all
    have kept: "keeps_files wfiles files wfiles files'" unfolding injected(4) by (rule keeps_files_xlen)
    have "vf_len (files ! f) \<le> ?x"
      using align8_ge [of "vf_len (files ! f) + table_len files"] align8_ge [of "lookup_pos (vf_len (files ! f)) files + lookup_size (length L) files"]
      by (simp add: lookup_pos_def boot_pos_def)
    with inject_patch_ok [OF ok refl injected(3,2) kept] x lens show ?thesis by simp
  qed
qed

text \<open>The layout of a construction that injects files.\<close>

definition injected_layout :: "nat \<Rightarrow> struct_wim_file list \<Rightarrow> vfile list \<Rightarrow> nat \<Rightarrow> wim_header \<Rightarrow> bytes \<Rightarrow> bytes \<Rightarrow> vfile list \<Rightarrow> wim_patch \<Rightarrow> bool" where
  "injected_layout w wfiles files f hdr L M files' patch \<longleftrightarrow>
     (let len = vf_len (files ! f); dir = wp_dir patch; lp = lookup_pos len files; bp = boot_pos len files (length L);
          ls = lookup_size (length L) files; bs = boot_size (length M) files (pd_len dir) in
      (\<exists>count. wp_header patch = injected_header hdr count lp ls bp bs) \<and> vf_xlen (files' ! f) = bp + bs \<and>
      patched_image w wfiles files' hdr patch (vcontent w wfiles files f @ replicate (vf_xlen (files' ! f) - len) 0) =
        injected_image w wfiles files' (file_table 0 len files) (wp_header patch) (vcontent w wfiles files f) L M
          (pd_parent dir) (pd_offset dir) (pd_len dir))"

lemma constructed_layout:
  assumes "constructed w wfiles files f index True hdr R L M files' patch" "entry_count files \<noteq> 0"
  shows "injected_layout w wfiles files f hdr L M files' patch \<and> pd_parent (wp_dir patch) + 102 \<le> length M \<and>
    pd_offset (wp_dir patch) + pd_len (wp_dir patch) \<le> length M \<and> length (vcontent w wfiles files f) = vf_len (files ! f) \<and>
    keeps_files wfiles files wfiles files' \<and>
    (\<forall>(k, q) \<in> set (file_table 0 (vf_len (files ! f)) files). length (vcontent w wfiles files' k) = vf_len (files ! k) \<and>
       vcontent w wfiles files' k = vcontent w wfiles files k \<and> length (cstring (vf_name (files' ! k))) \<le> 31)"
proof -
  have ok: "patchable w wfiles files f hdr R (wp_boot patch) L M" using assms(1) by (simp add: constructed_def)
  then have hdr: "wim_header (file_source f (files ! f)) = Inr hdr" and f: "f < length files" "memory_file (files ! f)" "vf_read (files ! f) \<noteq> None"
    and L: "readable w files f hdr R (wim_lookup hdr) L" and M: "readable w files f hdr R (wp_boot patch) M"
    by (auto simp: patchable_def memory_file_def)
  have hok: "header_ok hdr" "208 \<le> vf_len (files ! f)" using wim_header_Inr [OF hdr memory_windows] by auto
  from assms(1) show ?thesis
  proof (cases rule: constructed_cases)
    case plain
    with assms(2) show ?thesis by simp
  next
    case (injected count parent pos d)
    let ?len = "vf_len (files ! f)"
    have kept: "keeps_files wfiles files wfiles files'" unfolding injected(4) by (rule keeps_files_xlen)
    define boot where "boot = wp_boot patch"
    have patch: "patch = inject_patch ?len files count parent pos d (base_patch f hdr boot index)" unfolding boot_def by (rule injected(3))
    have M: "readable w files f hdr R boot M" unfolding boot_def by (rule M)
    have dir: "parent + 102 \<le> length M" "pos + d \<le> length M"
      using injected(2) M by (auto simp: patch dir_within_def inject_patch_def base_patch_def Let_def readable_def)
    have L': "resource_content w files' f hdr (wim_lookup hdr) = L" "length L = res_len (wim_lookup hdr)"
      and M': "resource_content w files' f hdr boot = M" "length M = res_len boot"
      using source_readable kept_readable [OF kept f(1,3)] L M by metis+
    have content: "length (vcontent w wfiles files' k) = vf_len (files ! k) \<and> vcontent w wfiles files' k = vcontent w wfiles files k \<and>
        length (cstring (vf_name (files' ! k))) \<le> 31 \<and> vf_len (files' ! k) = vf_len (files ! k)"
      if "(k, pos) \<in> set (file_table 0 ?len files)" for k pos
    proof -
      have "source_ok w wfiles files f hdr R k" using file_table_file [OF that, of files] ok by (auto simp: patchable_def)
      with kept_source [OF kept this f(1,3)] show ?thesis by (auto simp: source_ok_def length_vcontent VDISK_NAME_LEN_def)
    qed
    then have content': "length (vcontent w wfiles files' k) = vf_len (files ! k) \<and> vf_len (files' ! k) = vf_len (files ! k) \<and> length (cstring (vf_name (files' ! k))) \<le> 31"
      if "(k, pos) \<in> set (file_table 0 ?len files)" for k pos using that by blast
    have C: "length (vcontent w wfiles files f) = ?len" using f(2) by (auto simp: memory_file_def vcontent_def)
    have xlen: "vf_xlen (files' ! f) = boot_pos ?len files (length L) + boot_size (length M) files d" using injected(4) f by simp
    then have "patched_image w wfiles files' hdr patch (vcontent w wfiles files f @ replicate (vf_xlen (files' ! f) - ?len) 0) =
        injected_image w wfiles files' (file_table 0 ?len files) (wp_header patch) (vcontent w wfiles files f) L M parent pos d"
      using inject_image [OF patch content' L' M' dir C hok(2,1)] by simp
    moreover have "wp_header patch = injected_header hdr count (lookup_pos ?len files) (lookup_size (length L) files)
        (boot_pos ?len files (length L)) (boot_size (length M) files d)"
      by (simp add: patch inject_patch_def base_patch_def Let_def injected_header_def L'(2) M'(2))
    moreover have "pd_parent (wp_dir patch) = parent" "pd_offset (wp_dir patch) = pos" "pd_len (wp_dir patch) = d"
      by (simp_all add: patch inject_patch_def Let_def)
    ultimately show ?thesis using dir C kept content xlen unfolding injected_layout_def Let_def by auto
  qed
qed

end
