(* ===== verification/Patch_Reader.thy ===== *)
theory Patch_Reader
  imports Patch_Laws
begin

text \<open>
  What a reader of WIM images finds in the reference image with injected files, and in the image that is read from the disk.
\<close>

section \<open>Reading structures back\<close>

lemma rd_skip:
  assumes "length xs \<le> off"
  shows "rd8 (xs @ ys) off = rd8 ys (off - length xs)" "rd16 (xs @ ys) off = rd16 ys (off - length xs)"
    "rd32 (xs @ ys) off = rd32 ys (off - length xs)" "rd64 (xs @ ys) off = rd64 ys (off - length xs)"
    "rd_bytes (xs @ ys) off n = rd_bytes ys (off - length xs) n"
  using rd8_shift [of xs ys "off - length xs"] rd16_shift [of xs ys "off - length xs"] rd32_shift [of xs ys "off - length xs"]
    rd64_shift [of xs ys "off - length xs"] assms by (auto simp: rd_bytes_def window_def)

lemma parse_resource_skip:
  "length xs \<le> off \<Longrightarrow> parse_resource (xs @ ys) off = parse_resource ys (off - length xs)"
  by (simp add: parse_resource_def rd_skip)

definition resource_fits :: "wim_resource_header \<Rightarrow> bool" where
  "resource_fits res \<longleftrightarrow> zlen__flags res < 2 ^ 64 \<and> res_offset res < 2 ^ 64 \<and> res_len res < 2 ^ 64"

lemma parse_resource_bytes: "resource_fits res \<Longrightarrow> parse_resource (resource_header_bytes res @ ys) 0 = Inr res"
  by (simp add: parse_resource_def resource_header_bytes_def struct_wim_resource_header_def resource_fits_def rd_skip)

definition header_fits :: "wim_header \<Rightarrow> bool" where
  "header_fits h \<longleftrightarrow> header_ok h \<and> wim_header_len h < 2 ^ 32 \<and> wim_version h < 2 ^ 32 \<and> wim_flags h < 2 ^ 32 \<and> wim_chunk_len h < 2 ^ 32 \<and>
     wim_part h < 2 ^ 16 \<and> wim_parts h < 2 ^ 16 \<and> wim_images h < 2 ^ 32 \<and> wim_boot_index h < 2 ^ 32 \<and>
     resource_fits (wim_lookup h) \<and> resource_fits (wim_xml h) \<and> resource_fits (wim_boot h) \<and> resource_fits (wim_integrity h)"

lemma rd_bytes_here: "length xs = n \<Longrightarrow> rd_bytes (xs @ ys) 0 n = Inr xs"
  by (simp add: rd_bytes_def window_def)

lemma rd_bytes_last: "length xs = n \<Longrightarrow> rd_bytes xs 0 n = Inr xs"
  by (simp add: rd_bytes_def window_def)

lemma resource_size: "sizeof struct_wim_resource_header = 24"
  by (simp add: struct_wim_resource_header_def)

lemma parse_wim_header_bytes:
  assumes "header_fits h"
  shows "parse_wim_header (wim_header_bytes h) = Inr h"
  using assms unfolding parse_wim_header_def wim_header_bytes_def header_fits_def header_ok_def
  by (simp add: struct_wim_header_def resource_size rd_skip rd_bytes_here rd_bytes_last parse_resource_skip parse_resource_bytes)

lemma rd8_less: "rd8 data i = Inr v \<Longrightarrow> unat v < 256"
  by simp

lemma rd16_less: "rd16 data i = Inr v \<Longrightarrow> v < 2 ^ 16"
  using rd16_bound [of data i v] by simp

lemma rd32_less: "rd32 data i = Inr v \<Longrightarrow> v < 2 ^ 32"
  using rd16_less [of data i] rd16_less [of data "i + 2"] by (fastforce simp: rd32_def rbind_eq_Inr)

lemma rd64_less: "rd64 data i = Inr v \<Longrightarrow> v < 2 ^ 64"
  using rd32_less [of data i] rd32_less [of data "i + 4"] by (fastforce simp: rd64_def rbind_eq_Inr)

lemma parse_resource_fits: "parse_resource data i = Inr res \<Longrightarrow> resource_fits res"
  by (auto simp: parse_resource_def rbind_eq_Inr resource_fits_def Let_def dest!: rd64_less)

lemma wim_header_fits:
  assumes "wim_header src = Inr hdr" "reads_windows src"
  shows "header_fits hdr"
proof -
  obtain data where data: "parse_wim_header data = Inr hdr" using assms(1) by (auto simp: wim_header_def rbind_eq_Inr split: if_splits)
  then have "header_ok hdr" by (auto simp: parse_wim_header_def Let_def rbind_eq_Inr header_ok_def rd_bytes_def split: if_splits)
  with data show ?thesis
    by (auto simp: parse_wim_header_def Let_def rbind_eq_Inr header_fits_def dest!: parse_resource_fits rd32_less rd16_less)
qed

section \<open>Reading the reference image\<close>

lemma content_window:
  "(k, pos) \<in> set (file_table i off vfs) \<Longrightarrow> vfs = drop i files \<Longrightarrow>
    (\<And>k pos. (k, pos) \<in> set (file_table i off vfs) \<Longrightarrow> length (vcontent w wfiles files' k) = vf_len (files ! k)) \<Longrightarrow> length pre = off \<Longrightarrow>
    window pos (vf_len (files ! k)) (pre @ table_contents w wfiles files' (file_table i off vfs) @ post) = vcontent w wfiles files' k"
proof (induction i off vfs arbitrary: pre rule: file_table.induct)
  case (2 i off vf vfs)
  have vf: "files ! i = vf" "vfs = drop (i + 1) files" using drop_Cons [OF 2(4)] by simp_all
  show ?case
  proof (cases "wim_inject_file vf = Inr True")
    case False
    have mem: "(k, pos) \<in> set (file_table (i + 1) off vfs)" using 2(3) False by simp
    have len: "length (vcontent w wfiles files' k) = vf_len (files ! k)" if "(k, pos) \<in> set (file_table (i + 1) off vfs)" for k pos
      using 2(5) [of k pos] that False by simp
    from "2.IH"(2) [OF False mem vf(2) len 2(6)] False show ?thesis by simp
  next
    case True
    let ?c = "vcontent w wfiles files' i"
    have c: "length ?c = vf_len vf" using 2(5) [of i off] True vf by simp
    show ?thesis
    proof (cases "(k, pos) = (i, off)")
      case here: True
      with True c vf 2(6) show ?thesis by (simp add: table_simps window_def)
    next
      case False
      then have mem: "(k, pos) \<in> set (file_table (i + 1) (off + vf_len vf) vfs)" using 2(3) True by auto
      have len: "length (vcontent w wfiles files' k) = vf_len (files ! k)" if "(k, pos) \<in> set (file_table (i + 1) (off + vf_len vf) vfs)" for k pos
        using 2(5) [of k pos] that True by simp
      have "length (pre @ ?c) = off + vf_len vf" using c 2(6) by simp
      from "2.IH"(1) [OF True mem vf(2) len this] True show ?thesis by (simp add: table_simps)
    qed
  qed
qed simp

lemma length_contents:
  assumes "\<And>k pos. (k, pos) \<in> set (file_table i off vfs) \<Longrightarrow> length (vcontent w wfiles files' k) = vf_len (files ! k)" "vfs = drop i files"
  shows "length (table_contents w wfiles files' (file_table i off vfs)) = table_len vfs"
  using lay_files [of i off vfs w wfiles files' files "replicate off 0" "table_len vfs" undefined undefined "[]"] assms by simp

lemma stored_bytes:
  assumes "\<not> has_flag (WIM_RESHDR_COMPRESSED OR WIM_RESHDR_PACKED_STREAMS) res" "res_offset res + res_len res \<le> length P"
  shows "resource_bytes w (memory_source P) h res = Inr (window (res_offset res) (res_len res) P)"
  using assms by (simp add: resource_bytes_def memory_source_def rd_bytes_def)

lemma small_flags:
  fixes n :: nat
  assumes "n < 2 ^ 56"
  shows "word_of_nat n AND (WIM_RESHDR_COMPRESSED OR WIM_RESHDR_PACKED_STREAMS) = 0"
    "word_of_nat (unat (word_of_nat n OR WIM_RESHDR_METADATA)) AND (WIM_RESHDR_COMPRESSED OR WIM_RESHDR_PACKED_STREAMS) = 0"
proof -
  let ?n = "word_of_nat n :: u64"
  have n: "take_bit 56 ?n = ?n"
  proof -
    have "take_bit 56 n = n" using assms by (simp add: take_bit_nat_eq_self)
    then show ?thesis using of_nat_take_bit [of 56 n, where ?'a = "64 word"] by simp
  qed
  have m: "take_bit 56 (WIM_RESHDR_COMPRESSED OR WIM_RESHDR_PACKED_STREAMS) = 0" "WIM_RESHDR_METADATA AND (WIM_RESHDR_COMPRESSED OR WIM_RESHDR_PACKED_STREAMS) = 0"
    by (simp_all add: WIM_RESHDR_COMPRESSED_def WIM_RESHDR_PACKED_STREAMS_def WIM_RESHDR_METADATA_def)
  show one: "?n AND (WIM_RESHDR_COMPRESSED OR WIM_RESHDR_PACKED_STREAMS) = 0"
  proof (rule bit_word_eqI)
    fix k assume "k < LENGTH(64)"
    have "bit ?n k \<longleftrightarrow> bit (take_bit 56 ?n) k" by (simp only: n)
    moreover have "\<not> bit (take_bit 56 (WIM_RESHDR_COMPRESSED OR WIM_RESHDR_PACKED_STREAMS)) k" unfolding m(1) by simp
    ultimately show "bit (?n AND (WIM_RESHDR_COMPRESSED OR WIM_RESHDR_PACKED_STREAMS)) k \<longleftrightarrow> bit (0 :: u64) k"
      unfolding bit_take_bit_iff bit_and_iff by (simp, blast)
  qed
  show "word_of_nat (unat (?n OR WIM_RESHDR_METADATA)) AND (WIM_RESHDR_COMPRESSED OR WIM_RESHDR_PACKED_STREAMS) = 0"
    using one m(2) by (simp add: bit.conj_disj_distrib2)
qed

lemma length_injected:
  assumes hdr: "header_ok h" and C: "length C = len" "208 \<le> len"
    and content: "\<And>k pos. (k, pos) \<in> set (file_table 0 len files) \<Longrightarrow> length (vcontent w wfiles files' k) = vf_len (files ! k) \<and>
      length (cstring (vf_name (files' ! k))) \<le> 31"
    and dir: "parent + 102 \<le> length M" "pos + d \<le> length M"
  shows "length (injected_start w wfiles files' (file_table 0 len files) h C) = lookup_pos len files"
    "length (injected_table w wfiles files' (file_table 0 len files) h L) = lookup_size (length L) files"
    "length (injected_metadata w wfiles files' (file_table 0 len files) M parent pos d) = boot_size (length M) files d"
proof -
  let ?tbl = "file_table 0 len files"
  have "length (table_contents w wfiles files' ?tbl) = table_len files" using length_contents [of 0 len files w wfiles files' files] content by simp
  then show "length (injected_start w wfiles files' ?tbl h C) = lookup_pos len files"
    using hdr C by (simp add: injected_start_def length_pad8 lookup_pos_def length_wim_header_bytes)
  show "length (injected_table w wfiles files' ?tbl h L) = lookup_size (length L) files"
    by (simp add: injected_table_def lookup_size_def length_table_entries entry_count_table length_lookup_entry_bytes)
  have "length (pad8 (wim_patch_dir_entry w (sha1_spec (vcontent w wfiles files' k)) (cstring (vf_name (files' ! k))))) = 168" if "(k, q) \<in> set ?tbl" for k q
    using content [OF that] by (simp add: length_pad8_dir_entry length_sha1_spec)
  then have "map length (map (\<lambda>(k, q). pad8 (wim_patch_dir_entry w (sha1_spec (vcontent w wfiles files' k)) (cstring (vf_name (files' ! k))))) ?tbl) = map (\<lambda>e. 168) ?tbl"
    by (auto intro!: map_cong)
  then have "length (table_dir w wfiles files' ?tbl) = 168 * length ?tbl"
    unfolding table_dir_def length_concat by (simp only: map_replicate_const sum_list_replicate) simp
  then show "length (injected_metadata w wfiles files' ?tbl M parent pos d) = boot_size (length M) files d"
    using dir by (simp add: injected_metadata_def length_pad8 boot_size_def dir_size_def entry_count_table struct_wim_directory_entry_def)
qed

lemma injected_image_read:
  fixes w wfiles files' hdr count C L M parent pos d len files
  defines "h \<equiv> injected_header hdr count (lookup_pos len files) (lookup_size (length L) files) (boot_pos len files (length L)) (boot_size (length M) files d)"
  defines "P \<equiv> injected_image w wfiles files' (file_table 0 len files) h C L M parent pos d"
  assumes hdr: "header_fits hdr" and C: "length C = len" "208 \<le> len"
    and content: "\<And>k pos. (k, pos) \<in> set (file_table 0 len files) \<Longrightarrow> length (vcontent w wfiles files' k) = vf_len (files ! k) \<and>
      length (cstring (vf_name (files' ! k))) \<le> 31"
    and dir: "parent + 102 \<le> length M" "pos + d \<le> length M" and fits: "boot_pos len files (length L) + boot_size (length M) files d < 2 ^ 56"
  shows "wim_header (memory_source P) = Inr h"
    "resource_bytes w (memory_source P) h (wim_lookup h) = Inr (injected_table w wfiles files' (file_table 0 len files) h L)"
    "resource_bytes w (memory_source P) h (wim_boot h) = Inr (injected_metadata w wfiles files' (file_table 0 len files) M parent pos d)"
    "(k, q) \<in> set (file_table 0 len files) \<Longrightarrow> resource_bytes w (memory_source P) h
       \<lparr>zlen__flags = vf_len (files ! k), res_offset = q, res_len = vf_len (files ! k)\<rparr> = Inr (vcontent w wfiles files' k)"
proof -
  let ?tbl = "file_table 0 len files" and ?lp = "lookup_pos len files" and ?ls = "lookup_size (length L) files"
    and ?bp = "boot_pos len files (length L)" and ?bs = "boot_size (length M) files d"
  have hok: "header_ok h" using hdr by (simp add: header_fits_def h_def injected_header_def header_ok_def)
  define S T Q where "S = injected_start w wfiles files' ?tbl h C" and "T = injected_table w wfiles files' ?tbl h L"
    and "Q = injected_metadata w wfiles files' ?tbl M parent pos d"
  have S: "length S = ?lp" and T: "length T = ?ls" and Q: "length Q = ?bs"
    using length_injected [OF hok C content dir] by (simp_all add: S_def T_def Q_def)
  have P: "P = pad8 (S @ T) @ Q" by (simp add: P_def injected_image_def S_def T_def Q_def)
  have ST: "length (pad8 (S @ T)) = ?bp" using S T by (simp add: length_pad8 boot_pos_def)
  have lenP: "length P = ?bp + ?bs" using P ST Q by simp
  have "?lp + ?ls \<le> ?bp" by (simp add: boot_pos_def align8_ge)
  then have small: "?ls < 2 ^ 56" "?bs < 2 ^ 56" "?lp < 2 ^ 56" "?bp < 2 ^ 56" and inside: "?lp + ?ls \<le> length P" using fits lenP by auto
  have "unat (word_of_nat ?bs OR WIM_RESHDR_METADATA) < 2 ^ 64" 
    using unsigned_less [where ?'b = 64 and ?'a = nat, of "word_of_nat ?bs OR WIM_RESHDR_METADATA"] by simp
  then have fits_h: "header_fits h" using hdr small
    by (auto simp: header_fits_def h_def injected_header_def header_ok_def resource_fits_def)
  show "wim_header (memory_source P) = Inr h"
  proof -
    define rest where "rest = drop 208 C @ table_contents w wfiles files' ?tbl"
    have "S = pad8 (wim_header_bytes h @ rest)" by (simp add: S_def injected_start_def rest_def)
    then obtain z where "P = wim_header_bytes h @ z" unfolding P pad8_def by simp
    moreover have "length (wim_header_bytes h) = 208" by (rule length_wim_header_bytes [OF hok])
    ultimately show ?thesis using parse_wim_header_bytes [OF fits_h]
      by (simp add: wim_header_def header_size memory_source_def rd_bytes_here)
  qed
  have lk: "wim_lookup h = \<lparr>zlen__flags = ?ls, res_offset = ?lp, res_len = ?ls\<rparr>"
    and bt: "wim_boot h = \<lparr>zlen__flags = unat (word_of_nat ?bs OR WIM_RESHDR_METADATA), res_offset = ?bp, res_len = ?bs\<rparr>"
    by (simp_all add: h_def injected_header_def)
  have "window ?lp ?ls P = T" using S T by (simp add: P pad8_def window_def)
  moreover have "resource_bytes w (memory_source P) h (wim_lookup h) = Inr (window ?lp ?ls P)"
    using stored_bytes [of "wim_lookup h" P w h] small_flags(1) [OF small(1)] inside by (simp add: lk has_flag_def)
  ultimately show "resource_bytes w (memory_source P) h (wim_lookup h) = Inr (injected_table w wfiles files' ?tbl h L)" by (simp add: T_def)
  have "window ?bp ?bs P = Q" using ST Q by (simp add: P window_def)
  moreover have "resource_bytes w (memory_source P) h (wim_boot h) = Inr (window ?bp ?bs P)"
    using stored_bytes [of "wim_boot h" P w h] small_flags(2) [OF small(2)] lenP by (simp add: bt has_flag_def)
  ultimately show "resource_bytes w (memory_source P) h (wim_boot h) = Inr (injected_metadata w wfiles files' ?tbl M parent pos d)" by (simp add: Q_def)
  assume kq: "(k, q) \<in> set ?tbl"
  note tfile = file_table_file [OF kq, of files]
  have "len + table_len files \<le> ?lp" by (simp add: lookup_pos_def align8_ge)
  then have in_P: "q + vf_len (files ! k) \<le> length P" "vf_len (files ! k) < 2 ^ 56" using tfile lenP \<open>?lp + ?ls \<le> ?bp\<close> small(3) by auto
  obtain z where "P = (wim_header_bytes h @ drop 208 C) @ table_contents w wfiles files' ?tbl @ z"
    unfolding P S_def injected_start_def pad8_def by simp
  moreover have "length (wim_header_bytes h @ drop 208 C) = len" using C length_wim_header_bytes [OF hok] by simp
  ultimately have "window q (vf_len (files ! k)) P = vcontent w wfiles files' k"
    using content_window [OF kq, of files w wfiles files' "wim_header_bytes h @ drop 208 C" z] content by simp
  with stored_bytes [of "\<lparr>zlen__flags = vf_len (files ! k), res_offset = q, res_len = vf_len (files ! k)\<rparr>" P w h] in_P small_flags(1) [OF in_P(2)]
  show "resource_bytes w (memory_source P) h \<lparr>zlen__flags = vf_len (files ! k), res_offset = q, res_len = vf_len (files ! k)\<rparr> = Inr (vcontent w wfiles files' k)"
    by (simp add: has_flag_def)
qed

lemma constructed_read:
  assumes "constructed w wfiles files f index True hdr R L M files' patch" "entry_count files \<noteq> 0" "vf_xlen (files' ! f) < 2 ^ 56"
  shows "let P = patched_image w wfiles files' hdr patch (vcontent w wfiles files f @ replicate (vf_xlen (files' ! f) - vf_len (files ! f)) 0);
      h = wp_header patch; tbl = file_table 0 (vf_len (files ! f)) files; dir = wp_dir patch
    in wim_header (memory_source P) = Inr h
      \<and> resource_bytes w (memory_source P) h (wim_lookup h) = Inr (injected_table w wfiles files' tbl h L)
      \<and> resource_bytes w (memory_source P) h (wim_boot h) = Inr (injected_metadata w wfiles files' tbl M (pd_parent dir) (pd_offset dir) (pd_len dir))
      \<and> (\<forall>(k, q) \<in> set tbl. resource_bytes w (memory_source P) h
           \<lparr>zlen__flags = vf_len (files ! k), res_offset = q, res_len = vf_len (files ! k)\<rparr> = Inr (vcontent w wfiles files k))"
proof -
  note layout = constructed_layout [OF assms(1,2)]
  let ?len = "vf_len (files ! f)" and ?dir = "wp_dir patch" and ?C = "vcontent w wfiles files f"
  have hdr: "wim_header (file_source f (files ! f)) = Inr hdr" using assms(1) by (simp add: constructed_def patchable_def)
  have hok: "header_fits hdr" "208 \<le> ?len" using wim_header_fits [OF hdr memory_windows] wim_header_Inr [OF hdr memory_windows] by auto
  obtain count where count: "wp_header patch = injected_header hdr count (lookup_pos ?len files) (lookup_size (length L) files)
      (boot_pos ?len files (length L)) (boot_size (length M) files (pd_len ?dir))"
    and image: "patched_image w wfiles files' hdr patch (?C @ replicate (vf_xlen (files' ! f) - ?len) 0) =
        injected_image w wfiles files' (file_table 0 ?len files) (wp_header patch) ?C L M (pd_parent ?dir) (pd_offset ?dir) (pd_len ?dir)"
    and fits: "boot_pos ?len files (length L) + boot_size (length M) files (pd_len ?dir) < 2 ^ 56"
    using layout assms(3) unfolding injected_layout_def Let_def by auto
  have content: "length (vcontent w wfiles files' k) = vf_len (files ! k) \<and> length (cstring (vf_name (files' ! k))) \<le> 31"
    "vcontent w wfiles files' k = vcontent w wfiles files k" if "(k, q) \<in> set (file_table 0 ?len files)" for k q
    using layout that by blast+
  have C: "length ?C = ?len" and dir: "pd_parent ?dir + 102 \<le> length M" "pd_offset ?dir + pd_len ?dir \<le> length M" using layout by auto
  have content1: "\<And>k pos. (k, pos) \<in> set (file_table 0 ?len files) \<Longrightarrow> length (vcontent w wfiles files' k) = vf_len (files ! k) \<and> length (cstring (vf_name (files' ! k))) \<le> 31"
    by (rule content(1))
  have read: "wim_header (memory_source P) = Inr h"
    "resource_bytes w (memory_source P) h (wim_lookup h) = Inr (injected_table w wfiles files' (file_table 0 ?len files) h L)"
    "resource_bytes w (memory_source P) h (wim_boot h) = Inr (injected_metadata w wfiles files' (file_table 0 ?len files) M (pd_parent ?dir) (pd_offset ?dir) (pd_len ?dir))"
    "(k, q) \<in> set (file_table 0 ?len files) \<Longrightarrow> resource_bytes w (memory_source P) h
       \<lparr>zlen__flags = vf_len (files ! k), res_offset = q, res_len = vf_len (files ! k)\<rparr> = Inr (vcontent w wfiles files' k)"
    if "h = wp_header patch" "P = injected_image w wfiles files' (file_table 0 ?len files) h ?C L M (pd_parent ?dir) (pd_offset ?dir) (pd_len ?dir)" for h P k q
    unfolding that count
    by (rule injected_image_read [OF hok(1) C hok(2) content1 dir fits]; assumption)+
  show ?thesis unfolding Let_def image using read content(2) by auto
qed

end
