(* ===== verification/Patch_Example.thy ===== *)
theory Patch_Example
  imports Patch_Reader
begin

text \<open>
  A small WIM image with a directory \<open>\Windows\System32\<close>, and a disk that holds it and a file to inject.
\<close>

section \<open>The image\<close>

definition example_dir_entry :: "nat \<Rightarrow> nat \<Rightarrow> string \<Rightarrow> bytes" where
  "example_dir_entry len subdir name =
     render struct_wim_directory_entry [''len'' \<mapsto> le64 len, ''subdir'' \<mapsto> le64 subdir, ''name_len'' \<mapsto> le16 (2 * length name)] @
     concat (map le16 (map of_char name)) @ replicate (len - 102 - 2 * length name) 0"

definition example_metadata :: bytes where
  "example_metadata = (le32 8 @ le32 0) @
     example_dir_entry 104 120 '''' @ replicate 8 0 @
     example_dir_entry 120 248 ''Windows'' @ replicate 8 0 @
     example_dir_entry 120 376 ''System32'' @ replicate 8 0 @
     example_dir_entry 112 0 ''a'' @ replicate 8 0"

definition example_boot :: wim_resource_header where
  "example_boot = \<lparr>zlen__flags = 0x0200000000000000 + 496, res_offset = 258, res_len = 496\<rparr>"

definition example_lookup :: wim_resource_header where
  "example_lookup = \<lparr>zlen__flags = 50, res_offset = 208, res_len = 50\<rparr>"

definition example_header :: wim_header where
  "example_header = \<lparr>wim_signature = ascii ''MSWIM'' @ [0, 0, 0], wim_header_len = 208, wim_version = 0x10d00, wim_flags = 0,
     wim_chunk_len = 32768, wim_guid = replicate 16 0, wim_part = 1, wim_parts = 1, wim_images = 1,
     wim_lookup = example_lookup, wim_xml = resource_zero, wim_boot = example_boot,
     wim_boot_index = 1, wim_integrity = resource_zero, wim_reserved = replicate 60 0\<rparr>"

definition example_table :: bytes where
  "example_table = lookup_entry_bytes \<lparr>entry_resource = example_boot, entry_part = 1, entry_refcnt = 1, entry_hash = replicate 20 0\<rparr>"

definition example_wim :: bytes where
  "example_wim = wim_header_bytes example_header @ example_table @ example_metadata"

definition memory_vfile :: "string \<Rightarrow> bytes \<Rightarrow> vfile" where
  "memory_vfile name data = (let n = ascii name @ replicate (32 - length name) 0 in
     \<lparr>vf_name = n, vf_filename = n, vf_opaque = Data data, vf_len = length data, vf_xlen = length data,
      vf_read = Some Read_file, vf_patch = None\<rparr>)"

definition example_disk :: "vfile list" where
  "example_disk = memory_vfile ''b.wim'' example_wim # memory_vfile ''a.txt'' [1, 2, 3] # replicate 61 (vdisk_file_empty Null)"

abbreviation example_source :: source where
  "example_source \<equiv> file_source 0 (memory_vfile ''b.wim'' example_wim)"

section \<open>Reading it\<close>

lemma length_example_entry: "102 + 2 * length name \<le> len \<Longrightarrow> length (example_dir_entry len subdir name) = len"
proof -
  have "length (concat (map le16 (map of_char name))) = 2 * length name" by (induction name) simp_all
  then show "102 + 2 * length name \<le> len \<Longrightarrow> ?thesis"
    by (simp add: example_dir_entry_def struct_wim_directory_entry_def struct_wim_hash_def)
qed

lemma length_example:
  "length example_metadata = 496" "length example_table = 50" "length (wim_header_bytes example_header) = 208" "length example_wim = 754"
proof -
  show "length example_metadata = 496" by (simp add: example_metadata_def length_example_entry)
  moreover show "length example_table = 50" by (simp add: example_table_def length_lookup_entry_bytes)
  moreover have "header_ok example_header" by (simp add: header_ok_def example_header_def ascii_def)
  then show "length (wim_header_bytes example_header) = 208" by (rule length_wim_header_bytes)
  ultimately show "length example_wim = 754" by (simp add: example_wim_def)
qed

lemma example_flags:
  "zlen_of example_boot = 496" "zlen_of example_lookup = 50" "has_flag WIM_RESHDR_METADATA example_boot"
  "\<not> has_flag (WIM_RESHDR_COMPRESSED OR WIM_RESHDR_PACKED_STREAMS) example_boot"
  "\<not> has_flag (WIM_RESHDR_COMPRESSED OR WIM_RESHDR_PACKED_STREAMS) example_lookup"
  by (simp_all add: zlen_of_def has_flag_def example_boot_def example_lookup_def WIM_RESHDR_ZLEN_MASK_def WIM_RESHDR_METADATA_def
      WIM_RESHDR_COMPRESSED_def WIM_RESHDR_PACKED_STREAMS_def)

lemma read_plain:
  assumes "\<not> has_flag (WIM_RESHDR_COMPRESSED OR WIM_RESHDR_PACKED_STREAMS) res" "res_offset res + res_len res < 2 ^ w"
    "zlen_of res < 2 ^ w" "(res_offset res + zlen_of res) mod 2 ^ 64 \<le> src_len src"
    "src_read src (res_offset res) (res_len res) = Inr bs" "reads_windows src" "off + n \<le> res_len res"
  shows "wim_read w src h res off n = wret (Inr (window off n bs))"
proof -
  have "off + n < 2 ^ w" "res_offset res + off < 2 ^ w" using assms(2,7) by linarith+
  moreover have "src_read src (res_offset res + off) n = Inr (window off n bs)" using assms(5-7) by (simp add: reads_windows_def)
  ultimately show ?thesis using assms by (simp add: wim_read_def fun_eq_iff wret_def)
qed

lemma example_reads:
  "src_read example_source 258 496 = Inr example_metadata" "src_read example_source 208 50 = Inr example_table" "src_len example_source = 754"
  using length_example by (simp_all add: file_source_def memory_vfile_def read_file_def Let_def rd_bytes_def example_wim_def window_def)

lemma read_boot: "off + n \<le> 496 \<Longrightarrow> wim_read 32 example_source h example_boot off n = wret (Inr (window off n example_metadata))"
  using read_plain [OF example_flags(4), of 32 example_source example_metadata off n h] example_reads memory_windows
  by (simp add: example_flags(1)) (simp add: example_boot_def)

lemma read_lookup: "off + n \<le> 50 \<Longrightarrow> wim_read 32 example_source h example_lookup off n = wret (Inr (window off n example_table))"
  using read_plain [OF example_flags(5), of 32 example_source example_table off n h] example_reads memory_windows
  by (simp add: example_flags(2)) (simp add: example_lookup_def)

text \<open>The entries of the directories.\<close>

lemma render_entry:
  "render struct_wim_directory_entry [''len'' \<mapsto> le64 len, ''subdir'' \<mapsto> le64 subdir, ''name_len'' \<mapsto> le16 n] =
     le64 len @ replicate 8 0 @ le64 subdir @ replicate 40 0 @ replicate 20 0 @ replicate 16 0 @ le16 n"
  by (simp add: struct_wim_directory_entry_def struct_wim_hash_def replicate_numeral)

lemma parse_entry:
  assumes "len < 2 ^ 64" "subdir < 2 ^ 64" "n < 2 ^ 16"
  shows "parse_directory_entry (le64 len @ replicate 8 0 @ le64 subdir @ replicate 40 0 @ replicate 20 0 @ replicate 16 0 @ le16 n) =
    Inr \<lparr>dir_len = len, dir_subdir = subdir, dir_hash = replicate 20 0, dir_name_len = n\<rparr>"
  using assms rd16_le16 [of n "[]"]
  by (simp add: parse_directory_entry_def struct_wim_directory_entry_def struct_wim_hash_def rd_skip rd_bytes_here)

lemma direntry_here:
  assumes read: "\<And>i n. i + n \<le> length M \<Longrightarrow> wim_read w src h meta i n = wret (Inr (window i n M))"
    and M: "M = pre @ example_dir_entry len subdir nm @ post" "102 + 2 * length nm + 2 \<le> len" "len < 2 ^ 64" "subdir < 2 ^ 64" "length nm < 100"
    and small: "length pre + len < 2 ^ w"
    and name: "wcslen p = Inr (length nm)" "wcscasecmp p (wchars (concat (map le16 (map of_char nm)) @ [0, 0])) = Inr 0"
  shows "wim_direntry (Suc fuel) w src h meta p (length pre) =
    wret (Inr (length pre, \<lparr>dir_len = len, dir_subdir = subdir, dir_hash = replicate 20 0, dir_name_len = 2 * length nm\<rparr>))"
proof -
  define E where "E = le64 len @ replicate 8 0 @ le64 subdir @ replicate 40 0 @ replicate 20 0 @ replicate 16 0 @ le16 (2 * length nm)"
  define N where "N = concat (map le16 (map of_char nm))"
  define z where "z = len - 104 - 2 * length nm"
  have E: "length E = 102" by (simp add: E_def)
  have N: "length N = 2 * length nm" unfolding N_def by (induction nm) simp_all
  have z: "len - 102 - 2 * length nm = Suc (Suc z)" using M(2) by (simp add: z_def)
  have entry: "example_dir_entry len subdir nm = E @ N @ [0, 0] @ replicate z 0"
    unfolding example_dir_entry_def render_entry z by (simp add: E_def N_def)
  have len: "length M = length pre + len + length post" using M(1,2) length_example_entry [of nm len subdir] by simp
  have w8: "window (length pre) 8 M = le64 len" by (simp add: M(1) entry E_def window_def)
  have w102: "window (length pre) 102 M = E" using E by (simp add: M(1) entry window_def)
  have wn: "window (length pre + 102) (2 * (length nm + 1)) M = N @ [0, 0]" using E N by (simp add: M(1) entry window_def)
  have rd: "rd64 (le64 len) 0 = Inr len" using rd64_le64 [of len "[]"] M(3) by simp
  have parse: "parse_directory_entry E = Inr \<lparr>dir_len = len, dir_subdir = subdir, dir_hash = replicate 20 0, dir_name_len = 2 * length nm\<rparr>"
    unfolding E_def using M by (intro parse_entry) auto
  have r1: "wim_read w src h meta (length pre) 8 = wret (Inr (le64 len))" using read [of "length pre" 8] w8 len M(2) by simp
  have r2: "wim_read w src h meta (length pre) 102 = wret (Inr E)" using read [of "length pre" 102] w102 len M(2) by simp
  have r3: "wim_read w src h meta (length pre + 102) (2 * (length nm + 1)) = wret (Inr (N @ [0, 0]))"
    using read [of "length pre + 102" "2 * (length nm + 1)"] wn len M(2) by simp
  have m: "(length pre + 102) mod 2 ^ w = length pre + 102" using small M(2) by simp
  show ?thesis
    unfolding wim_direntry.simps name(1) wbind_wret Let_def r1 rd sizeof_dir_entry r2 parse wim_directory_entry.simps m r3 name(2) [folded N_def]
    using M(2) by simp
qed

lemma example_paths:
  "wcschr (wide_string WIM_INJECT_DIR) 0x5c = Inr (Some 0)" "wcschr (drop 1 (wide_string WIM_INJECT_DIR)) 0x5c = Inr (Some 7)"
  "wcschr (drop 8 (drop 1 (wide_string WIM_INJECT_DIR))) 0x5c = Inr None"
  "wcslen ((wide_string WIM_INJECT_DIR)[0 := 0]) = Inr 0" "wcslen ((drop 1 (wide_string WIM_INJECT_DIR))[7 := 0]) = Inr 7"
  "wcslen (drop 8 (drop 1 (wide_string WIM_INJECT_DIR))) = Inr 8"
  "wcscasecmp ((wide_string WIM_INJECT_DIR)[0 := 0]) (wchars (concat (map le16 (map of_char '''')) @ [0, 0])) = Inr 0"
  "wcscasecmp ((drop 1 (wide_string WIM_INJECT_DIR))[7 := 0]) (wchars (concat (map le16 (map of_char ''Windows'')) @ [0, 0])) = Inr 0"
  "wcscasecmp (drop 8 (drop 1 (wide_string WIM_INJECT_DIR))) (wchars (concat (map le16 (map of_char ''System32'')) @ [0, 0])) = Inr 0"
  by code_simp+

lemma dir_fuel_example: "dir_fuel example_boot = Suc 497"
  by (simp add: dir_fuel_def example_boot_def)

lemma read_metadata: "i + n \<le> length example_metadata \<Longrightarrow> wim_read 32 example_source h example_boot i n = wret (Inr (window i n example_metadata))"
  by (simp add: length_example read_boot)

lemma example_path:
  "wim_path 32 example_source h example_boot (wide_string WIM_INJECT_DIR) =
     wret (Inr (248, \<lparr>dir_len = 120, dir_subdir = 376, dir_hash = replicate 20 0, dir_name_len = 16\<rparr>))"
proof -
  let ?p = "wide_string WIM_INJECT_DIR"
  define A where "A = le32 8 @ le32 0"
  define B where "B = A @ example_dir_entry 104 120 '''' @ replicate 8 0"
  define D where "D = B @ example_dir_entry 120 248 ''Windows'' @ replicate 8 0"
  define Z where "Z = replicate 8 0 @ example_dir_entry 112 0 ''a'' @ replicate 8 (0 :: u8)"
  have len: "length A = 8" "length B = 120" "length D = 248" by (simp_all add: A_def B_def D_def length_example_entry)
  have M: "example_metadata = A @ example_dir_entry 104 120 '''' @ (replicate 8 0 @ example_dir_entry 120 248 ''Windows'' @ replicate 8 0 @ example_dir_entry 120 376 ''System32'' @ Z)"
    "example_metadata = B @ example_dir_entry 120 248 ''Windows'' @ (replicate 8 0 @ example_dir_entry 120 376 ''System32'' @ Z)"
    "example_metadata = D @ example_dir_entry 120 376 ''System32'' @ Z"
    by (simp_all add: example_metadata_def A_def B_def D_def Z_def)
  have root: "wim_direntry (dir_fuel example_boot) 32 example_source h example_boot (?p[0 := 0]) 8 =
      wret (Inr (8, \<lparr>dir_len = 104, dir_subdir = 120, dir_hash = replicate 20 0, dir_name_len = 0\<rparr>))"
    unfolding dir_fuel_example using direntry_here [OF read_metadata M(1), where fuel = 497 and p = "?p[0 := 0]"] example_paths(4,7) len by simp
  have windows: "wim_direntry (dir_fuel example_boot) 32 example_source h example_boot ((drop 1 ?p)[7 := 0]) 120 =
      wret (Inr (120, \<lparr>dir_len = 120, dir_subdir = 248, dir_hash = replicate 20 0, dir_name_len = 14\<rparr>))"
    unfolding dir_fuel_example using direntry_here [OF read_metadata M(2), where fuel = 497 and p = "(drop 1 ?p)[7 := 0]"] example_paths(5,8) len by simp
  have system: "wim_direntry (dir_fuel example_boot) 32 example_source h example_boot (drop 8 (drop 1 ?p)) 248 =
      wret (Inr (248, \<lparr>dir_len = 120, dir_subdir = 376, dir_hash = replicate 20 0, dir_name_len = 16\<rparr>))"
    unfolding dir_fuel_example using direntry_here [OF read_metadata M(3), where fuel = 497 and p = "drop 8 (drop 1 ?p)"] example_paths(6,9) len by simp
  have c3: "wim_components 32 example_source h example_boot (drop 8 (drop 1 ?p)) 248 =
      wret (Inr (248, \<lparr>dir_len = 120, dir_subdir = 376, dir_hash = replicate 20 0, dir_name_len = 16\<rparr>))"
    unfolding wim_components.simps [of _ _ _ _ "drop 8 (drop 1 ?p)"] example_paths(3) sum.case option.case using system by simp
  have c2: "wim_components 32 example_source h example_boot (drop 1 ?p) 120 = wim_components 32 example_source h example_boot (drop 8 (drop 1 ?p)) 248"
    unfolding wim_components.simps [of _ _ _ _ "drop 1 ?p"] example_paths(2) sum.case option.case using windows by (simp add: wbind_wret)
  have c1: "wim_components 32 example_source h example_boot ?p 8 = wim_components 32 example_source h example_boot (drop 1 ?p) 120"
    unfolding wim_components.simps [of _ _ _ _ ?p] example_paths(1) sum.case option.case using root by (simp add: wbind_wret)
  have "wim_read 32 example_source h example_boot 0 8 = wret (Inr (le32 8 @ le32 0))"
    using read_metadata [of 0 8 h] len by (simp add: length_example) (simp add: M(1) window_def A_def)
  moreover have "rd32 (le32 8 @ le32 0) 0 = Inr 8" using rd32_le32 [of 8 "le32 0"] by simp
  ultimately show ?thesis
    using c1 c2 c3 by (simp add: wim_path_def struct_wim_security_header_def wbind_wret)
qed

lemma example_dir_len: "wim_dir_len 32 example_source h example_boot 376 = wret (Inr 112)"
proof -
  define A where "A = (le32 8 @ le32 0) @ example_dir_entry 104 120 '''' @ replicate 8 0 @ example_dir_entry 120 248 ''Windows'' @ replicate 8 0 @
      example_dir_entry 120 376 ''System32'' @ replicate 8 0"
  have len: "length A = 376" by (simp add: A_def length_example_entry)
  have M: "example_metadata = A @ example_dir_entry 112 0 ''a'' @ replicate 8 0" by (simp add: example_metadata_def A_def)
  have "window 376 8 example_metadata = le64 112" using len by (simp add: M window_def example_dir_entry_def render_entry)
  then have r1: "wim_read 32 example_source h example_boot 376 8 = wret (Inr (le64 112))" by (simp add: read_metadata length_example)
  have "window 488 8 example_metadata = le64 0" using len by (simp add: M window_def length_example_entry replicate_numeral le64_def le32_def le16_def)
  then have r2: "wim_read 32 example_source h example_boot 488 8 = wret (Inr (le64 0))" by (simp add: read_metadata length_example)
  have rd: "rd64 (le64 112) 0 = Inr 112" "rd64 (le64 0) 0 = Inr 0" using rd64_le64 [of 112 "[]"] rd64_le64 [of 0 "[]"] by simp_all
  have fuel: "dir_fuel example_boot = Suc (Suc 496)" by (simp add: dir_fuel_example)
  show ?thesis
    unfolding wim_dir_len_def fuel wim_dir_len_loop.simps(2) by (simp add: r1 r2 rd wbind_wret)
qed

section \<open>The disk\<close>

lemma memory_vfile_simps:
  "vf_len (memory_vfile name data) = length data" "vf_xlen (memory_vfile name data) = length data"
  "vf_read (memory_vfile name data) = Some Read_file" "vf_opaque (memory_vfile name data) = Data data" "memory_file (memory_vfile name data)"
  "vf_name (memory_vfile name data) = ascii name @ replicate (32 - length name) 0"
  by (simp_all add: memory_vfile_def memory_file_def Let_def)

lemma example_inject:
  "wim_inject_file (memory_vfile ''b.wim'' data) = Inr False" "wim_inject_file (memory_vfile ''a.txt'' [1, 2, 3]) = Inr True"
  "wim_inject_file (vdisk_file_empty Null) = Inr False"
proof -
  show "wim_inject_file (vdisk_file_empty Null) = Inr False" by (simp add: wim_inject_file_def vdisk_file_empty_def)
  show "wim_inject_file (memory_vfile ''a.txt'' [1, 2, 3]) = Inr True" by code_simp
  have "wim_inject_file (memory_vfile ''b.wim'' data) = wim_inject_file (memory_vfile ''b.wim'' [])"
    by (simp only: wim_inject_file_def memory_vfile_simps)
  also have "\<dots> = Inr False" by code_simp
  finally show "wim_inject_file (memory_vfile ''b.wim'' data) = Inr False" .
qed

lemma example_construct_files:
  "\<exists>rfiles off. wim_construct_files 32 0 example_disk 754 = Inr (rfiles, off, 1)"
proof -
  have "wim_construct_files 32 i (replicate n (vdisk_file_empty Null)) off = Inr (replicate n region_empty, off, 0)" for i n off
    by (induction n arbitrary: i) (simp_all add: example_inject)
  then show ?thesis unfolding example_disk_def
    by (simp add: example_inject wim_construct_region_def)
qed

lemma example_disk_file: "example_disk ! 0 = memory_vfile ''b.wim'' example_wim" "length example_disk = 63"
  by (simp_all add: example_disk_def)

lemma example_header_fits: "header_fits example_header"
  by (simp add: header_fits_def header_ok_def example_header_def ascii_def resource_fits_def example_lookup_def example_boot_def resource_zero_def)

lemma example_wim_header: "wim_header example_source = Inr example_header"
proof -
  from parse_wim_header_bytes [OF example_header_fits] show ?thesis using length_example
    by (simp add: wim_header_def header_size file_source_def memory_vfile_simps read_file_def)
       (simp add: example_wim_def rd_bytes_here)
qed

lemma example_count: "\<exists>n. wim_count 32 example_source h s = (Inr n, s)" if "wim_lookup h = example_lookup"
proof -
  have fuel: "scan_fuel h = Suc (Suc 0)" using that by (simp add: scan_fuel_def lookup_entry_size example_lookup_def)
  have "window 0 50 example_table = example_table" by (simp add: window_def length_example)
  then have r: "wim_read 32 example_source h example_lookup 0 50 = wret (Inr example_table)" using read_lookup [of 0 50 h] by simp
  have "\<exists>e. parse_lookup_entry example_table = Inr e"
    by (simp add: example_table_def parse_lookup_entry_def lookup_entry_bytes_def struct_wim_lookup_entry_def resource_size
        parse_resource_skip parse_resource_bytes rd_skip rd_bytes_last resource_fits_def example_boot_def Let_def)
  then obtain e where e: "parse_lookup_entry example_table = Inr e" by blast
  have len: "res_len example_lookup = 50" by (simp add: example_lookup_def)
  show ?thesis
    unfolding wim_count_def fuel wim_scan.simps that lookup_entry_size
    using r e by (simp add: wbind_wret len wret_def)
qed

lemma plain_resource_ok:
  assumes "\<not> has_flag (WIM_RESHDR_COMPRESSED OR WIM_RESHDR_PACKED_STREAMS) res" "res_len res < 2 ^ 32" "res_offset res + zlen_of res < 2 ^ 32"
    "res_offset res + res_len res < 2 ^ 32"
  shows "resource_ok 32 example_source example_header res"
proof -
  have "chunk_plain 32 example_source example_header res chunk" for chunk by (simp add: chunk_plain_def example_header_def)
  with chunk_plain_stable reads_windows_length [OF memory_windows] assms show ?thesis by (simp add: resource_ok_def)
qed

lemma example_resources: "resources_ok 32 example_source example_header {example_lookup, example_boot}"
proof -
  have "resource_ok 32 example_source example_header example_lookup" "resource_ok 32 example_source example_header example_boot"
    using example_flags by (auto intro!: plain_resource_ok) (simp_all add: example_lookup_def example_boot_def)
  moreover have "inj_on res_offset {example_lookup, example_boot}" by (simp add: inj_on_def example_lookup_def example_boot_def)
  ultimately show ?thesis by (simp add: resources_ok_def)
qed

lemma example_readable:
  "readable 32 example_disk 0 example_header {example_lookup, example_boot} example_lookup example_table"
  "readable 32 example_disk 0 example_header {example_lookup, example_boot} example_boot example_metadata"
proof -
  have "res_len example_lookup = 50" "res_offset example_lookup = 208" "res_len example_boot = 496" "res_offset example_boot = 258"
    by (simp_all add: example_lookup_def example_boot_def)
  with example_flags example_reads length_example
  show "readable 32 example_disk 0 example_header {example_lookup, example_boot} example_lookup example_table"
    "readable 32 example_disk 0 example_header {example_lookup, example_boot} example_boot example_metadata"
    by (auto simp: readable_def resource_bytes_def example_disk_file memory_vfile_simps)
qed

lemma example_run:
  "\<exists>files' patch s'. wim_construct_patch 32 example_disk 0 0 True wim_cache_initial = (Inr (files', patch), s') \<and>
     wp_boot patch = example_boot \<and> pd_parent (wp_dir patch) = 248 \<and> pd_offset (wp_dir patch) = 376 \<and> pd_len (wp_dir patch) = 112"
proof -
  let ?src = "file_source 0 (example_disk ! 0)"
  have files: "example_disk[0 := (example_disk ! 0)\<lparr>vf_xlen := vf_len (example_disk ! 0)\<rparr>] = example_disk"
    by (simp add: example_disk_def memory_vfile_def Let_def)
  have meta: "wim_metadata 32 ?src example_header 0 = wret (Inr example_boot)" by (simp add: wim_metadata_def example_header_def)
  obtain rfiles off where rfiles: "wim_construct_files 32 0 example_disk 754 = Inr (rfiles, off, 1)" using example_construct_files by blast
  have n754: "vf_len (example_disk ! 0) = 754" by (simp add: example_disk_file memory_vfile_simps length_example)
  have "\<exists>n. wim_count 32 ?src h wim_cache_initial = (Inr n, wim_cache_initial)" if "wim_lookup h = example_lookup" for h
    using example_count [OF that] by (simp add: example_disk_file)
  then obtain n where n: "wim_count 32 ?src example_header wim_cache_initial = (Inr n, wim_cache_initial)"
    by (metis example_header_def wim_header.select_convs(10))
  have run: "\<exists>files' patch s'. wim_construct_inject 32 example_disk 0 p wim_cache_initial = (Inr (files', patch), s') \<and>
     wp_boot patch = example_boot \<and> pd_parent (wp_dir patch) = 248 \<and> pd_offset (wp_dir patch) = 376 \<and> pd_len (wp_dir patch) = 112"
    if p: "wp_header p = example_header" "wp_boot p = example_boot" for p
  proof -
    define p1 where "p1 = p\<lparr>wp_regions := (wp_regions p)\<lparr>rs_file := rfiles\<rparr>\<rparr>"
    define p2 where "p2 = p1\<lparr>wp_header := (wp_header p1)\<lparr>wim_images := (n + 1) mod 2 ^ 32, wim_boot_index := (n + 1) mod 2 ^ 32\<rparr>\<rparr>"
    obtain p3 off3 where p3: "wim_construct_lookup_regions 32 p2 off = (p3, off3)" by fastforce
    have boot3: "wp_boot p3 = example_boot" using regions_keep_boot(1) [of 32 p2 off] p3 p(2) by (simp add: p2_def p1_def)
    define p4 where "p4 = p3\<lparr>wp_dir := \<lparr>pd_name = WIM_INJECT_DIR, pd_parent = 248, pd_offset = 376, pd_len = 112, pd_subdir = 0\<rparr>\<rparr>"
    obtain p5 off5 where p5: "wim_construct_boot_regions 32 p4 off3 = (p5, off5)" by fastforce
    have "wim_construct_inject 32 example_disk 0 p wim_cache_initial = (Inr (example_disk[0 := (example_disk ! 0)\<lparr>vf_xlen := off5\<rparr>], p5), wim_cache_initial)"
    proof -
      have hdr1: "wp_header p1 = example_header" by (simp add: p1_def p(1))
      have path: "wim_path 32 ?src h example_boot (wide_string WIM_INJECT_DIR) = wret (Inr (248, \<lparr>dir_len = 120, dir_subdir = 376, dir_hash = replicate 20 0, dir_name_len = 16\<rparr>))"
        "wim_dir_len 32 ?src h example_boot 376 = wret (Inr 112)" for h
        by (simp_all add: example_disk_file example_path example_dir_len)
      have step: "wbind (wim_count 32 ?src (wp_header p1)) g wim_cache_initial = g n wim_cache_initial" for g :: "nat \<Rightarrow> (vfile list \<times> wim_patch) wim"
        unfolding hdr1 using n by (simp add: wbind_def)
      show ?thesis
        unfolding wim_construct_inject_def Let_def n754 rfiles wbind_wret prod.case p1_def [symmetric] if_not_P [OF one_neq_zero] step
          p2_def [symmetric] p3 boot3 path wim_directory_entry.simps
        by (simp add: path wbind_wret p4_def [symmetric] p5 wret_def)
    qed
    with boot_regions_dir [OF p5] boot3 show ?thesis by (auto simp: p4_def)
  qed
  have f: "\<not> length example_disk \<le> 0" by (simp add: example_disk_file)
  show ?thesis
    unfolding wim_construct_patch_def Let_def if_not_P [OF f] files example_wim_header [folded example_disk_file(1)] wbind_wret split_beta meta
      not_True_eq_False if_False
    by (rule run) simp_all
qed

definition example_R :: "wim_resource_header set" where
  "example_R = {example_lookup, example_boot}"

lemma example_source_ok: "wim_inject_file (example_disk ! k) = Inr True \<Longrightarrow> k < length example_disk \<Longrightarrow>
    source_ok 32 [] example_disk 0 example_header example_R k \<and> k = 1"
proof -
  assume k: "k < length example_disk" "wim_inject_file (example_disk ! k) = Inr True"
  have "k \<noteq> 0"
  proof
    assume "k = 0"
    with k(2) example_inject(1) [of example_wim] show False by (simp add: example_disk_file)
  qed
  moreover have "\<not> 2 \<le> k"
  proof
    assume "2 \<le> k"
    then obtain j where "k = Suc (Suc j)" by (metis Suc_le_D numeral_2_eq_2 Suc_le_mono)
    then have "example_disk ! k = vdisk_file_empty Null" using k(1) by (simp add: example_disk_def)
    with k(2) example_inject(3) show False by simp
  qed
  ultimately have "k = 1" by simp
  moreover have "example_disk ! 1 = memory_vfile ''a.txt'' [1, 2, 3]" by (simp add: example_disk_def)
  moreover have "vf_name (memory_vfile ''a.txt'' [1, 2, 3]) = [0x61, 0x2e, 0x74, 0x78, 0x74] @ replicate 27 0"
    by (simp add: memory_vfile_simps ascii_def)
  ultimately show ?thesis
    by (auto simp: source_ok_def example_disk_file memory_vfile_simps vfile_ok_def VDISK_NAME_LEN_def terminated_def cstring_def replicate_numeral)
qed

lemma example_entry_count: "entry_count example_disk = 1"
proof -
  have "file_table i pos (replicate n (vdisk_file_empty Null)) = []" for i pos n
    by (induction n arbitrary: i) (simp_all add: example_inject)
  then show ?thesis by (simp add: entry_count_def example_disk_def example_inject)
qed

lemma example_fits: "layout_fits 32 754 example_disk 50 496 496"
proof -
  have "table_len (replicate n (vdisk_file_empty Null)) = 0" for n by (induction n) (simp_all add: example_inject)
  then have "table_len example_disk = 3" by (simp add: example_disk_def example_inject memory_vfile_simps)
  then show ?thesis
    by (simp add: layout_fits_def layout_defs align8_def example_entry_count)
qed

lemma example_constructed:
  "\<exists>files' patch. constructed 32 [] example_disk 0 0 True example_header example_R example_table example_metadata files' patch"
proof -
  obtain files' patch s' where run: "wim_construct_patch 32 example_disk 0 0 True wim_cache_initial = (Inr (files', patch), s')"
    "wp_boot patch = example_boot" "pd_parent (wp_dir patch) = 248" "pd_offset (wp_dir patch) = 376" "pd_len (wp_dir patch) = 112"
    using example_run by blast
  have "patchable 32 [] example_disk 0 example_header example_R example_boot example_table example_metadata"
    using example_source_ok example_readable example_wim_header
    by (auto simp: patchable_def example_disk_file memory_vfile_simps VDISK_MAX_FILES_def VDISK_CLUSTER_COUNT_def example_R_def example_header_def)
  moreover have "dir_within patch" using run(2-5) by (simp add: dir_within_def example_boot_def)
  moreover have "cache_good 32 0 example_header example_R example_disk wim_cache_initial" by (simp add: cache_good_def cache_ok_initial)
  ultimately show ?thesis
    using run example_fits example_resources length_example unfolding constructed_def
    by (intro exI [of _ files'] exI [of _ patch]) (auto simp: example_disk_file memory_vfile_simps example_R_def)
qed

lemma example_table_files: "file_table 0 754 example_disk = [(1, 754)]"
proof -
  have "file_table i pos (replicate n (vdisk_file_empty Null)) = []" for i pos n
    by (induction n arbitrary: i) (simp_all add: example_inject)
  then show ?thesis by (simp add: example_disk_def example_inject)
qed

lemma example_content: "vcontent 32 [] example_disk 0 = example_wim" "vcontent 32 [] example_disk 1 = [1, 2, 3]"
  "vf_len (example_disk ! 1) = 3"
  by (simp_all add: vcontent_def example_disk_def memory_vfile_simps)

end
