(* ===== verification/Patch_Theorems.thy ===== *)
theory Patch_Theorems
  imports Patch_Example
begin

text \<open>
  The properties of patched WIM images.
\<close>



text \<open>
  C5: The patched image of a construction that injects files is the reference image: the original file with the new header, the
  files, the lookup table with an entry for each of them, and the boot metadata with a directory that lists them; the length of the
  file is the length of that image.
\<close>

theorem patched_image_reference:
  assumes "constructed w wfiles files f index True hdr R L M files' patch" "entry_count files \<noteq> 0"
  shows "patched_image w wfiles files' hdr patch (vcontent w wfiles files f @ replicate (vf_xlen (files' ! f) - vf_len (files ! f)) 0) =
      injected_image w wfiles files' (file_table 0 (vf_len (files ! f)) files) (wp_header patch) (vcontent w wfiles files f) L M
        (pd_parent (wp_dir patch)) (pd_offset (wp_dir patch)) (pd_len (wp_dir patch))
    \<and> (\<exists>count. wp_header patch = injected_header hdr count (lookup_pos (vf_len (files ! f)) files) (lookup_size (length L) files)
        (boot_pos (vf_len (files ! f)) files (length L)) (boot_size (length M) files (pd_len (wp_dir patch))))"
  using constructed_layout [OF assms] by (auto simp: injected_layout_def Let_def)

theorem patched_image_reference_witness:
  "\<exists>files' patch. patched_image 32 [] files' example_header patch (example_wim @ replicate (vf_xlen (files' ! 0) - 754) 0) =
     injected_image 32 [] files' [(1, 754)] (wp_header patch) example_wim example_table example_metadata
        (pd_parent (wp_dir patch)) (pd_offset (wp_dir patch)) (pd_len (wp_dir patch))"
proof -
  obtain files' patch where "constructed 32 [] example_disk 0 0 True example_header example_R example_table example_metadata files' patch"
    using example_constructed by blast
  from patched_image_reference [OF this] show ?thesis
    by (auto simp: example_entry_count example_table_files example_content example_disk_file memory_vfile_simps length_example)
qed

text \<open>
  C6: A reader of WIM images that is given the patched image finds the new header, the lookup table and the boot metadata where the
  header says, and every injected file where its entry in the lookup table says.
\<close>

theorem patched_image_read:
  assumes "constructed w wfiles files f index True hdr R L M files' patch" "entry_count files \<noteq> 0" "vf_xlen (files' ! f) < 2 ^ 56"
  shows "let P = patched_image w wfiles files' hdr patch (vcontent w wfiles files f @ replicate (vf_xlen (files' ! f) - vf_len (files ! f)) 0);
      h = wp_header patch; tbl = file_table 0 (vf_len (files ! f)) files; dir = wp_dir patch
    in wim_header (memory_source P) = Inr h
      \<and> resource_bytes w (memory_source P) h (wim_lookup h) = Inr (injected_table w wfiles files' tbl h L)
      \<and> resource_bytes w (memory_source P) h (wim_boot h) = Inr (injected_metadata w wfiles files' tbl M (pd_parent dir) (pd_offset dir) (pd_len dir))
      \<and> (\<forall>(k, q) \<in> set tbl. resource_bytes w (memory_source P) h
           \<lparr>zlen__flags = vf_len (files ! k), res_offset = q, res_len = vf_len (files ! k)\<rparr> = Inr (vcontent w wfiles files k))"
  by (rule constructed_read [OF assms])

theorem patched_image_read_witness:
  "\<exists>files' patch. resource_bytes 32 (memory_source (patched_image 32 [] files' example_header patch (example_wim @ replicate (vf_xlen (files' ! 0) - 754) 0)))
     (wp_header patch) \<lparr>zlen__flags = 3, res_offset = 754, res_len = 3\<rparr> = Inr [1, 2, 3]"
proof -
  obtain files' patch where c: "constructed 32 [] example_disk 0 0 True example_header example_R example_table example_metadata files' patch"
    using example_constructed by blast
  have len: "vf_xlen (files' ! 0) < 2 ^ 56"
    using constructed_layout [OF c] example_fits by (auto simp: injected_layout_def Let_def layout_fits_def boot_size_def dir_size_def
      example_entry_count example_disk_file memory_vfile_simps length_example)
  from patched_image_read [OF c _ len] show ?thesis
    by (auto simp: Let_def example_entry_count example_table_files example_content [unfolded One_nat_def] example_disk_file memory_vfile_simps length_example)
qed

end
