(* ===== verification/Bootapp.thy ===== *)
theory Bootapp
  imports Struct
begin

text \<open>
  The parameters of a real-mode call (\<open>bootapp.h\<close>): the registers are 32-bit words, and the narrower registers are parts of them.
\<close>

record bootapp_callback_params =
  interrupt :: u32
  eax :: u32
  ebx :: u32
  ecx :: u32
  edx :: u32
  esi :: u32
  edi :: u32
  ds_reg :: u32
  es_reg :: u32
  fs_reg :: u32
  gs_reg :: u32
  eflags :: u32

definition params_zero :: bootapp_callback_params where
  "params_zero = \<lparr>interrupt = 0, eax = 0, ebx = 0, ecx = 0, edx = 0, esi = 0, edi = 0, ds_reg = 0, es_reg = 0, fs_reg = 0, gs_reg = 0, eflags = 0\<rparr>"

section \<open>Parts of registers\<close>

definition low8 :: "u32 \<Rightarrow> u8" where "low8 r = ucast r"
definition high8 :: "u32 \<Rightarrow> u8" where "high8 r = ucast (drop_bit 8 r)"
definition low16 :: "u32 \<Rightarrow> u16" where "low16 r = ucast r"

definition set_low8 :: "u8 \<Rightarrow> u32 \<Rightarrow> u32" where "set_low8 v r = (r AND NOT (mask 8)) OR ucast v"
definition set_high8 :: "u8 \<Rightarrow> u32 \<Rightarrow> u32" where "set_high8 v r = (r AND NOT (push_bit 8 (mask 8))) OR push_bit 8 (ucast v)"
definition set_low16 :: "u16 \<Rightarrow> u32 \<Rightarrow> u32" where "set_low16 v r = (r AND NOT (mask 16)) OR ucast v"

definition CF :: u32 where "CF = 1"

text \<open>The address behind a segment and an offset (\<open>int13.h\<close>).\<close>

definition REAL_PTR :: "nat \<Rightarrow> nat \<Rightarrow> nat" where
  "REAL_PTR segment offset = (segment * 16 + offset) mod 2 ^ 32"

lemma no_bit: "\<not> bit (v :: u8) (8 + n)"
  using bit_imp_le_length [of v "8 + n"] by auto

lemma parts_of_sets [simp]:
  "low8 (set_low8 v r) = v" "high8 (set_low8 v r) = high8 r" "low8 (set_high8 v r) = low8 r" "high8 (set_high8 v r) = v"
  "low16 (set_low16 x r) = x"
  by (auto simp: low8_def high8_def low16_def set_low8_def set_high8_def set_low16_def bit_simps no_bit intro!: bit_word_eqI)

end
