(* ===== verification/Int13.thy ===== *)
theory Int13
  imports Bootapp Disk_Laws
begin

text \<open>
  The emulated drive (\<open>int13.c\<close>, \<open>int13.h\<close>): the INT 13 calls of the running system are answered from the virtual disk.

  The memory that real mode can reach is a list of bytes, indexed by address. The calls of the BIOS itself are a parameter
  \<open>call_interrupt\<close> of the model.
\<close>

section \<open>Interface\<close>

definition INT13_GET_PARAMETERS :: nat where "INT13_GET_PARAMETERS = 0x08"
definition INT13_GET_DISK_TYPE :: nat where "INT13_GET_DISK_TYPE = 0x15"
definition INT13_EXTENSION_CHECK :: nat where "INT13_EXTENSION_CHECK = 0x41"
definition INT13_EXTENDED_READ :: nat where "INT13_EXTENDED_READ = 0x42"
definition INT13_GET_EXTENDED_PARAMETERS :: nat where "INT13_GET_EXTENDED_PARAMETERS = 0x48"

definition INT13_DISK_TYPE_HDD :: u8 where "INT13_DISK_TYPE_HDD = 0x03"
definition INT13_EXTENSION_LINEAR :: u16 where "INT13_EXTENSION_LINEAR = 0x01"
definition INT13_EXTENSION_VER_1_X :: u8 where "INT13_EXTENSION_VER_1_X = 0x01"
definition INT13_FL_DMA_TRANSPARENT :: nat where "INT13_FL_DMA_TRANSPARENT = 0x01"

definition INT13_DRIVE_COUNT :: nat where "INT13_DRIVE_COUNT = REAL_PTR 0x40 0x75"

definition struct_int13_disk_address :: layout where
  "struct_int13_disk_address = [(''bufsize'', 1), (''reserved_a'', 1), (''count'', 1), (''reserved_b'', 1), (''buffer.offset'', 2),
     (''buffer.segment'', 2), (''lba'', 8), (''buffer_phys'', 8), (''long_count'', 4), (''reserved_c'', 4)]"

definition struct_int13_disk_parameters :: layout where
  "struct_int13_disk_parameters = [(''bufsize'', 2), (''flags'', 2), (''cylinders'', 4), (''heads'', 4), (''sectors_per_track'', 4),
     (''sectors'', 8), (''sector_size'', 2)]"

section \<open>Commands\<close>

text \<open>The number of the drive, which is the number of drives before it in the BIOS data area.\<close>

definition initialise_int13 :: "bytes \<Rightarrow> (u8 \<times> bytes) result" where
  "initialise_int13 mem =
     rbind (rd8 mem INT13_DRIVE_COUNT) (\<lambda>n.
     rbind (wr8 mem INT13_DRIVE_COUNT (n + 1)) (\<lambda>mem. Inr (0x80 OR n, mem)))"

definition int13_get_parameters :: "u8 \<Rightarrow> bytes \<Rightarrow> bootapp_callback_params \<Rightarrow> bootapp_callback_params result" where
  "int13_get_parameters vdisk_drive mem params =
     (let max_cylinder = VDISK_CYLINDERS - 1;
          max_head = VDISK_HEADS - 1;
          max_sector = VDISK_SECTORS_PER_TRACK - 0
      in rbind (rd8 mem INT13_DRIVE_COUNT) (\<lambda>num_drives.
         let min_num_drives = (vdisk_drive AND 0x7f) + 1;
             num_drives = (if num_drives < min_num_drives then min_num_drives else num_drives)
         in Inr (params\<lparr>
              ecx := set_low8 (word_of_nat ((max_cylinder div 256 * 64) OR max_sector)) (set_high8 (word_of_nat (max_cylinder mod 256)) (ecx params)),
              edx := set_low8 num_drives (set_high8 (word_of_nat max_head) (edx params)),
              eax := set_high8 0 (eax params)\<rparr>)))"

definition int13_get_disk_type :: "bootapp_callback_params \<Rightarrow> bootapp_callback_params" where
  "int13_get_disk_type params =
     (let sector_count = VDISK_COUNT mod 2 ^ 32;
          drive_type = INT13_DISK_TYPE_HDD
      in params\<lparr>ecx := set_low16 (word_of_nat (sector_count div 2 ^ 16)) (ecx params),
                edx := set_low16 (word_of_nat (sector_count mod 2 ^ 16)) (edx params),
                eax := set_high8 drive_type (eax params)\<rparr>)"

definition int13_extension_check :: "bootapp_callback_params \<Rightarrow> bootapp_callback_params" where
  "int13_extension_check params =
     params\<lparr>ebx := set_low16 0xaa55 (ebx params),
            ecx := set_low16 INT13_EXTENSION_LINEAR (ecx params),
            eax := set_high8 INT13_EXTENSION_VER_1_X (eax params)\<rparr>"

definition int13_get_extended_parameters :: "bytes \<Rightarrow> bootapp_callback_params \<Rightarrow> (bootapp_callback_params \<times> bytes) result" where
  "int13_get_extended_parameters mem params =
     (let disk_params = REAL_PTR (unat (ds_reg params)) (unat (low16 (esi params)));
          s = struct_int13_disk_parameters;
          f = (\<lambda>m. disk_params + offset_of s m)
      in rbind (memset mem disk_params 0 (sizeof s)) (\<lambda>mem.
         rbind (wr16 mem (f ''bufsize'') (sizeof s)) (\<lambda>mem.
         rbind (wr16 mem (f ''flags'') INT13_FL_DMA_TRANSPARENT) (\<lambda>mem.
         rbind (wr32 mem (f ''cylinders'') VDISK_CYLINDERS) (\<lambda>mem.
         rbind (wr32 mem (f ''heads'') VDISK_HEADS) (\<lambda>mem.
         rbind (wr32 mem (f ''sectors_per_track'') VDISK_SECTORS_PER_TRACK) (\<lambda>mem.
         rbind (wr64 mem (f ''sectors'') VDISK_COUNT) (\<lambda>mem.
         rbind (wr16 mem (f ''sector_size'') VDISK_SECTOR_SIZE) (\<lambda>mem.
         Inr (params\<lparr>eax := set_high8 0 (eax params)\<rparr>, mem))))))))))"

text \<open>The read of the virtual disk: \<open>read lba count data\<close> yields the buffer after the read.\<close>

type_synonym 's disk_read = "nat \<Rightarrow> nat \<Rightarrow> bytes \<Rightarrow> ('s, bytes) stateful"

definition int13_extended_read :: "'s disk_read \<Rightarrow> bytes \<Rightarrow> bootapp_callback_params \<Rightarrow> ('s, bootapp_callback_params \<times> bytes) stateful" where
  "int13_extended_read read mem params =
     (let disk_address = REAL_PTR (unat (ds_reg params)) (unat (low16 (esi params)));
          f = (\<lambda>m. disk_address + offset_of struct_int13_disk_address m)
      in wbind (wret (rd16 mem (f ''buffer.segment''))) (\<lambda>segment.
         wbind (wret (rd16 mem (f ''buffer.offset''))) (\<lambda>offset.
         wbind (wret (rd64 mem (f ''lba''))) (\<lambda>lba.
         wbind (wret (rd8 mem (f ''count''))) (\<lambda>count.
         let data = REAL_PTR segment offset in
         if length mem < data then wret (Inl Fault)
         else wbind (read lba (unat count) (drop data mem)) (\<lambda>bs.
           wret (Inr (params\<lparr>eax := set_high8 0 (eax params)\<rparr>, take data mem @ bs))))))))"

section \<open>Dispatch\<close>

text \<open>The flags that the processor has when the call is handled are the parameter \<open>flags\<close>.\<close>

definition emulate_int13 ::
    "(bootapp_callback_params \<Rightarrow> bytes \<Rightarrow> bootapp_callback_params \<times> bytes) \<Rightarrow> 's disk_read \<Rightarrow> u32 \<Rightarrow> u8 \<Rightarrow> bytes \<Rightarrow> bootapp_callback_params
      \<Rightarrow> ('s, bootapp_callback_params \<times> bytes) stateful" where
  "emulate_int13 call_interrupt read flags vdisk_drive mem params =
     (let command = unat (high8 (eax params)); drive = low8 (edx params) in
      if drive = vdisk_drive then
        let params = params\<lparr>eflags := flags AND NOT CF\<rparr> in
        if command = INT13_GET_PARAMETERS then wret (rbind (int13_get_parameters vdisk_drive mem params) (\<lambda>params. Inr (params, mem)))
        else if command = INT13_GET_DISK_TYPE then wret (Inr (int13_get_disk_type params, mem))
        else if command = INT13_EXTENSION_CHECK then wret (Inr (int13_extension_check params, mem))
        else if command = INT13_GET_EXTENDED_PARAMETERS then wret (int13_get_extended_parameters mem params)
        else if command = INT13_EXTENDED_READ then int13_extended_read read mem params
        else wret (Inr (params\<lparr>eflags := eflags params OR CF\<rparr>, mem))
      else
        let (params, mem) = call_interrupt params mem in
        if command = INT13_GET_PARAMETERS then
          let min_num_drives = (vdisk_drive AND 0x7f) + 1 in
          wret (Inr (if low8 (edx params) < min_num_drives then params\<lparr>edx := set_low8 min_num_drives (edx params)\<rparr> else params, mem))
        else wret (Inr (params, mem)))"

text \<open>
  The interrupt callback (\<open>main.c\<close>): INT 13 is emulated, the VESA video modes are hidden, every other call goes to the BIOS. That paging is
  switched on during the emulation is not modelled here.
\<close>

definition call_interrupt_wrapper ::
    "(bootapp_callback_params \<Rightarrow> bytes \<Rightarrow> bootapp_callback_params \<times> bytes) \<Rightarrow> 's disk_read \<Rightarrow> u32 \<Rightarrow> bool \<Rightarrow> u8 \<Rightarrow> bytes \<Rightarrow> bootapp_callback_params
      \<Rightarrow> ('s, bootapp_callback_params \<times> bytes) stateful" where
  "call_interrupt_wrapper call_interrupt read flags gui vdisk_drive mem params =
     (if interrupt params = 0x13 then emulate_int13 call_interrupt read flags vdisk_drive mem params
      else if interrupt params = 0x10 \<and> low16 (eax params) = 0x4f01 \<and> \<not> gui then
        let attributes = REAL_PTR (unat (es_reg params)) (unat (low16 (edi params)));
            (params, mem) = call_interrupt params mem
        in wret (rbind (rd16 mem attributes) (\<lambda>a. rbind (wr16 mem attributes (a AND 0xfffe)) (\<lambda>mem. Inr (params, mem))))
      else wret (Inr (call_interrupt params mem)))"

section \<open>The virtual disk behind the drive\<close>

text \<open>The state is the array of files with the static variables that the methods use.\<close>

definition disk_read :: "nat \<Rightarrow> struct_wim_file list \<Rightarrow> options \<Rightarrow> (vfile list \<times> statics) disk_read" where
  "disk_read w wfiles opts lba count data = (\<lambda>(files, s).
     case vdisk_read w (boot_read w wfiles) (boot_patch w wfiles opts) files lba count data s of
       (Inl e, s) \<Rightarrow> (Inl e, files, s)
     | (Inr (files, data), s) \<Rightarrow> (Inr data, files, s))"





section \<open>Properties\<close>





text \<open>The number of drives that a call reports, and the geometry that the emulated drive reports.\<close>

definition cylinders_of :: "bootapp_callback_params \<Rightarrow> nat" where
  "cylinders_of p = unat (high8 (ecx p)) + 256 * (unat (low8 (ecx p)) div 64) + 1"

lemma min_num_drives: "unat (((d :: u8) AND 0x7f) + 1) = unat (d AND 0x7f) + 1"
proof -
  have "d AND 0x7f \<le> 0x7f" by (rule word_and_le1)
  then have "unat (d AND 0x7f) \<le> 127" by (simp add: word_le_nat_alt)
  then show ?thesis by (simp add: unat_word_ariths)
qed

lemma drive_constants:
  "word_of_nat ((VDISK_CYLINDERS - 1) div 256 * 64 OR (VDISK_SECTORS_PER_TRACK - 0)) = (0xff :: u8)"
  "word_of_nat ((VDISK_CYLINDERS - 1) mod 256) = (0xff :: u8)" "word_of_nat (VDISK_HEADS - 1) = (0xfe :: u8)"
  by code_simp+

lemma geometry:
  assumes "int13_get_parameters drive mem p = Inr p'"
  shows "cylinders_of p' = VDISK_CYLINDERS \<and> unat (high8 (edx p')) + 1 = VDISK_HEADS \<and> unat (low8 (ecx p') AND 63) = VDISK_SECTORS_PER_TRACK
    \<and> high8 (eax p') = 0 \<and> unat (drive AND 0x7f) < unat (low8 (edx p'))"
proof -
  obtain n where p: "p' = p\<lparr>ecx := set_low8 0xff (set_high8 0xff (ecx p)), edx := set_low8 n (set_high8 0xfe (edx p)), eax := set_high8 0 (eax p)\<rparr>"
    and n: "(drive AND 0x7f) + 1 \<le> n"
    using assms unfolding int13_get_parameters_def Let_def drive_constants by (auto simp: rbind_eq_Inr not_less split: if_splits)
  have "unat (drive AND 0x7f) + 1 \<le> unat n" using n min_num_drives [of drive] by (simp add: word_le_nat_alt)
  moreover have regs: "low8 (ecx p') = 0xff" "high8 (ecx p') = 0xff" "high8 (edx p') = 0xfe" "high8 (eax p') = 0" "low8 (edx p') = n" by (simp_all add: p)
  moreover have "cylinders_of p' = 1024" by (simp add: regs cylinders_of_def)
  moreover have "unat ((0xff :: u8) AND 63) = 63" "unat (0xfe :: u8) = 254" by code_simp+
  moreover have "VDISK_CYLINDERS = 1024" "VDISK_HEADS = 255" "VDISK_SECTORS_PER_TRACK = 63" by code_simp+
  ultimately show ?thesis by (simp only: regs) linarith
qed

text \<open>
  Whatever drive a program asks for, the number of drives that a call for drive parameters reports is above the number of the emulated
  drive. For the emulated drive the call reports 1024 cylinders of 255 heads with 63 sectors; for every other drive it changes nothing but this number
  in what the BIOS answers.
\<close>

theorem int13_drive_parameters:
  assumes "high8 (eax p) = 8" "emulate_int13 bios read flags drive mem p s = (Inr (p', mem'), s')"
  shows "unat (drive AND 0x7f) < unat (low8 (edx p')) \<and>
    (if low8 (edx p) = drive then cylinders_of p' = VDISK_CYLINDERS \<and> unat (high8 (edx p')) + 1 = VDISK_HEADS \<and>
       unat (low8 (ecx p') AND 63) = VDISK_SECTORS_PER_TRACK \<and> high8 (eax p') = 0 \<and> mem' = mem
     else p' = (fst (bios p mem))\<lparr>edx := set_low8 (low8 (edx p')) (edx (fst (bios p mem)))\<rparr> \<and> mem' = snd (bios p mem))"
proof -
  have command: "unat (high8 (eax p)) = INT13_GET_PARAMETERS" using assms(1) by (simp add: INT13_GET_PARAMETERS_def)
  show ?thesis
proof (cases "low8 (edx p) = drive")
  case True
  have p: "int13_get_parameters drive mem (p\<lparr>eflags := flags AND NOT CF\<rparr>) = Inr p'" "mem' = mem"
    using assms(2) True unfolding emulate_int13_def Let_def command by (auto simp: wret_def rbind_eq_Inr)
  from geometry [OF p(1)] True p(2) show ?thesis by simp
next
  case False
  define m where "m = (drive AND 0x7f) + 1"
  obtain q mem1 where q: "bios p mem = (q, mem1)" by fastforce
  have "(if low8 (edx q) < m then q\<lparr>edx := set_low8 m (edx q)\<rparr> else q) = p'" "mem1 = mem'"
    using assms(2) False unfolding emulate_int13_def Let_def command m_def [symmetric] by (simp_all add: q wret_def)
  moreover have "set_low8 (low8 r) r = r" for r :: u32
    by (auto simp: set_low8_def low8_def bit_simps intro!: bit_word_eqI)
  moreover have "unat (drive AND 0x7f) < unat m" unfolding m_def min_num_drives by simp
  ultimately show ?thesis using False q by (auto simp: word_less_nat_alt split: if_splits)
qed
qed

theorem int13_drive_parameters_witness:
  "\<exists>p'. emulate_int13 Pair (\<lambda>lba n bs s. (Inr bs, s)) 0 0x81 [] (params_zero\<lparr>eax := 0x800, edx := 1\<rparr>) () = (Inr (p', []), ()) \<and>
     unat ((0x81 :: u8) AND 0x7f) < unat (low8 (edx p'))"
proof -
  let ?p = "params_zero\<lparr>eax := 0x800, edx := 1\<rparr>"
  have cmd: "high8 (eax ?p) = 8" by (simp add: high8_def params_zero_def)
  have "low8 (edx ?p) = 1" "((0x81 :: u8) AND 0x7f) + 1 = 2" "unat (8 :: u8) = 8" by (simp add: low8_def params_zero_def) code_simp+
  then have "emulate_int13 Pair (\<lambda>lba n bs s. (Inr bs, s)) 0 0x81 [] ?p () = (Inr (?p\<lparr>edx := set_low8 2 (edx ?p)\<rparr>, []), ())"
    unfolding emulate_int13_def Let_def cmd by (simp add: INT13_GET_PARAMETERS_def wret_def)
  with int13_drive_parameters [OF cmd this] show ?thesis by blast
qed

end
