(* ===== verification/Memmap.thy ===== *)
theory Memmap
  imports Bootapp
begin

text \<open>
  The system memory map (\<open>memmap.c\<close>, \<open>memmap.h\<close>), which is read entry by entry through INT 15,e820, and the placement of the initrd below
  2 GB (\<open>main.c\<close>).

  The memory is a list of bytes, indexed by address; \<open>buf\<close> is the address of the static buffer for an entry. The interrupt is a parameter of the model.
\<close>

type_synonym interrupt_call = "bootapp_callback_params \<Rightarrow> bytes \<Rightarrow> bootapp_callback_params \<times> bytes"

section \<open>Entries\<close>

definition E820_SMAP :: nat where "E820_SMAP = 0x534d4150"
definition E820_TYPE_RAM :: nat where "E820_TYPE_RAM = 1"
definition E820_ATTR_ENABLED :: nat where "E820_ATTR_ENABLED = 1"
definition E820_ATTR_NONVOLATILE :: nat where "E820_ATTR_NONVOLATILE = 2"

definition struct_e820_entry :: layout where
  "struct_e820_entry = [(''start'', 8), (''len'', 8), (''type'', 4), (''attrs'', 4)]"

record e820_entry =
  e820_start :: nat
  e820_len :: nat
  e820_type :: nat
  e820_attrs :: nat

definition parse_e820_entry :: "bytes \<Rightarrow> nat \<Rightarrow> e820_entry result" where
  "parse_e820_entry mem buf =
     (let f = (\<lambda>m. buf + offset_of struct_e820_entry m) in
      rbind (rd64 mem (f ''start'')) (\<lambda>start.
      rbind (rd64 mem (f ''len'')) (\<lambda>len.
      rbind (rd32 mem (f ''type'')) (\<lambda>type.
      rbind (rd32 mem (f ''attrs'')) (\<lambda>attrs.
      Inr \<lparr>e820_start = start, e820_len = len, e820_type = type, e820_attrs = attrs\<rparr>)))))"

definition BASE_SEG :: nat where "BASE_SEG = 0x2000"
definition BASE_ADDRESS :: nat where "BASE_ADDRESS = BASE_SEG * 16"

section \<open>Iteration\<close>

text \<open>The memory and the continuation value, which are what the function keeps between calls.\<close>

record memmap =
  mm_mem :: bytes
  mm_ebx :: u32

definition e820_params :: "nat \<Rightarrow> u32 \<Rightarrow> bootapp_callback_params \<Rightarrow> bootapp_callback_params" where
  "e820_params buf cont params = params\<lparr>interrupt := 0x15, eax := 0xe820, ebx := cont, ecx := word_of_nat (sizeof struct_e820_entry),
     edx := word_of_nat E820_SMAP, es_reg := word_of_nat BASE_SEG, edi := word_of_nat (buf - BASE_ADDRESS)\<rparr>"

text \<open>Is the entry in the buffer a region of memory that can be used? \<open>n\<close> is the number of bytes that the BIOS has stored.\<close>

definition e820_usable :: "nat \<Rightarrow> e820_entry \<Rightarrow> bool" where
  "e820_usable n e \<longleftrightarrow> e820_type e = E820_TYPE_RAM \<and>
     (n > offset_of struct_e820_entry ''attrs'' \<longrightarrow> e820_attrs e AND E820_ATTR_ENABLED \<noteq> 0 \<and> e820_attrs e AND E820_ATTR_NONVOLATILE = 0)"

text \<open>The loop may not end if the BIOS never clears the continuation value; it is given a bound.\<close>

fun memmap_loop :: "nat \<Rightarrow> interrupt_call \<Rightarrow> nat \<Rightarrow> bootapp_callback_params \<Rightarrow> memmap \<Rightarrow> (e820_entry option \<times> memmap) result" where
  "memmap_loop 0 call_interrupt buf params st = Inl Fuel"
| "memmap_loop (Suc fuel) call_interrupt buf params st =
     (let (params, mem) = call_interrupt (e820_params buf (mm_ebx st) params) (mm_mem st);
          st = \<lparr>mm_mem = mem, mm_ebx = ebx params\<rparr>
      in if eflags params AND CF \<noteq> 0 then Inr (None, st)
         else if eax params \<noteq> word_of_nat E820_SMAP then Inr (None, st)
         else rbind (parse_e820_entry mem buf) (\<lambda>e.
           if e820_usable (unat (ecx params)) e then Inr (Some e, st)
           else if mm_ebx st \<noteq> 0 then memmap_loop fuel call_interrupt buf params st
           else Inr (None, st)))"

text \<open>\<open>prev\<close> is the null pointer at the start.\<close>

definition memmap_next :: "nat \<Rightarrow> interrupt_call \<Rightarrow> nat \<Rightarrow> e820_entry option \<Rightarrow> memmap \<Rightarrow> (e820_entry option \<times> memmap) result" where
  "memmap_next fuel call_interrupt buf prev st =
     (if prev = None then
        rbind (memset (mm_mem st) buf 0 (sizeof struct_e820_entry)) (\<lambda>mem.
        memmap_loop fuel call_interrupt buf params_zero \<lparr>mm_mem = mem, mm_ebx = 0\<rparr>)
      else if mm_ebx st = 0 then Inr (None, st)
      else memmap_loop fuel call_interrupt buf params_zero st)"

section \<open>Placement below 2 GB\<close>

definition ADDR_1MB :: nat where "ADDR_1MB = 0x00100000"
definition ADDR_2GB :: nat where "ADDR_2GB = 0x80000000"
definition PAGE_SIZE :: nat where "PAGE_SIZE = 4096"

text \<open>A signed 32-bit address that is extended to 64 bits.\<close>

definition sign_extend :: "nat \<Rightarrow> nat" where
  "sign_extend a = (if a < 2 ^ 31 then a else a + (2 ^ 64 - 2 ^ 32))"

definition low_placement :: "nat \<Rightarrow> e820_entry \<Rightarrow> nat option" where
  "low_placement len e =
     (let fin = (e820_start e + e820_len e) mod 2 ^ 64;
          start = (if fin > ADDR_2GB then ADDR_2GB else fin)
      in if start < len then None else
         let start = (start - len) div PAGE_SIZE * PAGE_SIZE in
         if sign_extend start < e820_start e then None
         else if start \<ge> 2 ^ 31 \<or> start < ADDR_1MB then None
         else Some start)"

fun relocate_low_loop :: "nat \<Rightarrow> interrupt_call \<Rightarrow> nat \<Rightarrow> nat \<Rightarrow> nat \<Rightarrow> e820_entry option \<Rightarrow> memmap \<Rightarrow> (nat \<times> memmap) result" where
  "relocate_low_loop 0 call_interrupt buf data len e820 st = Inl Fuel"
| "relocate_low_loop (Suc fuel) call_interrupt buf data len e820 st =
     rbind (memmap_next (Suc fuel) call_interrupt buf e820 st) (\<lambda>(e820, st).
     case e820 of None \<Rightarrow> Inr (data, st)
     | Some e \<Rightarrow> (case low_placement len e of
         None \<Rightarrow> relocate_low_loop fuel call_interrupt buf data len e820 st
       | Some start \<Rightarrow> rbind (memmove (mm_mem st) start data len) (\<lambda>mem. Inr (start, st\<lparr>mm_mem := mem\<rparr>))))"

definition relocate_memory_low :: "nat \<Rightarrow> interrupt_call \<Rightarrow> nat \<Rightarrow> nat \<Rightarrow> nat \<Rightarrow> memmap \<Rightarrow> (nat \<times> memmap) result" where
  "relocate_memory_low fuel call_interrupt buf data len st = relocate_low_loop fuel call_interrupt buf data len None st"

section \<open>The service of the BIOS\<close>

text \<open>
  What the BIOS documents of INT 15,e820: a call with the continuation value of an entry stores the entry, of 20 or 24 bytes, in the buffer, and
  returns its length and the continuation value of the next entry; the value is zero at the start and after the last entry only.
\<close>

definition e820_service :: "interrupt_call \<Rightarrow> nat \<Rightarrow> bytes list \<Rightarrow> (nat \<Rightarrow> u32) \<Rightarrow> bool" where
  "e820_service call_interrupt buf entries cont \<longleftrightarrow>
     cont 0 = 0 \<and> (\<forall>i \<le> length entries. 0 < i \<longrightarrow> (cont i = 0 \<longleftrightarrow> i = length entries)) \<and>
     (\<forall>bs \<in> set entries. length bs = 20 \<or> length bs = 24) \<and>
     (\<forall>i < length entries. \<forall>p mem p' mem'. buf + 24 \<le> length mem \<longrightarrow> call_interrupt (e820_params buf (cont i) p) mem = (p', mem') \<longrightarrow>
        eflags p' AND CF = 0 \<and> eax p' = word_of_nat E820_SMAP \<and> ebx p' = cont (i + 1) \<and> unat (ecx p') = length (entries ! i) \<and>
        mem' = overlay buf (entries ! i) mem)"

definition region_of :: "bytes \<Rightarrow> nat \<times> nat" where
  "region_of bs = (projr (rd64 bs 0), projr (rd64 bs 8))"

definition usable_entry :: "bytes \<Rightarrow> bool" where
  "usable_entry bs \<longleftrightarrow> rd32 bs 16 = Inr 1 \<and>
     (length bs > 20 \<longrightarrow> (case rd32 bs 20 of Inr a \<Rightarrow> a AND 1 \<noteq> 0 \<and> a AND 2 = 0 | Inl e \<Rightarrow> False))"

text \<open>Nothing but the buffer has changed.\<close>

definition only_buffer :: "nat \<Rightarrow> bytes \<Rightarrow> bytes \<Rightarrow> bool" where
  "only_buffer buf mem mem' \<longleftrightarrow> length mem' = length mem \<and> take buf mem' = take buf mem \<and> drop (buf + 24) mem' = drop (buf + 24) mem"

lemma only_buffer_refl [simp]: "only_buffer buf mem mem"
  by (simp add: only_buffer_def)

lemma only_buffer_trans: "only_buffer buf a b \<Longrightarrow> only_buffer buf b c \<Longrightarrow> only_buffer buf a c"
  by (simp add: only_buffer_def)

lemma only_buffer_overlay: "length bs \<le> 24 \<Longrightarrow> buf + 24 \<le> length mem \<Longrightarrow> only_buffer buf mem (overlay buf bs mem)"
  by (simp add: only_buffer_def take_overlay drop_overlay)

lemma rd_defined: "i + 3 < length bs \<Longrightarrow> \<exists>v. rd32 bs i = Inr v" "i + 7 < length bs \<Longrightarrow> \<exists>v. rd64 bs i = Inr v"
  by (simp_all add: rd64_def rd32_def rd16_def rd8_def)

lemma rd_overlay:
  assumes "buf + length bs \<le> length mem"
  shows "i < length bs \<Longrightarrow> rd8 (overlay buf bs mem) (buf + i) = rd8 bs i"
    "i + 3 < length bs \<Longrightarrow> rd32 (overlay buf bs mem) (buf + i) = rd32 bs i"
    "i + 7 < length bs \<Longrightarrow> rd64 (overlay buf bs mem) (buf + i) = rd64 bs i"
proof -
  have r8: "i < length bs \<Longrightarrow> rd8 (overlay buf bs mem) (buf + i) = rd8 bs i" for i
    using assms by (simp add: rd8_def nth_overlay)
  then show "i < length bs \<Longrightarrow> rd8 (overlay buf bs mem) (buf + i) = rd8 bs i" .
  have r32: "i + 3 < length bs \<Longrightarrow> rd32 (overlay buf bs mem) (buf + i) = rd32 bs i" for i
    using r8 [of i] r8 [of "i + 1"] r8 [of "i + 2"] r8 [of "i + 3"] by (simp add: rd32_def rd16_def numeral_3_eq_3)
  then show "i + 3 < length bs \<Longrightarrow> rd32 (overlay buf bs mem) (buf + i) = rd32 bs i" .
  show "i + 7 < length bs \<Longrightarrow> rd64 (overlay buf bs mem) (buf + i) = rd64 bs i"
    using r32 [of i] r32 [of "i + 4"] by (simp add: rd64_def add.assoc)
qed

lemma entry_offsets:
  "offset_of struct_e820_entry ''start'' = 0" "offset_of struct_e820_entry ''len'' = 8" "offset_of struct_e820_entry ''type'' = 16"
  "offset_of struct_e820_entry ''attrs'' = 20" "sizeof struct_e820_entry = 24"
  by code_simp+

text \<open>An entry that the BIOS has stored is parsed.\<close>

lemma parse_stored:
  assumes "length bs = 20 \<or> length bs = 24" "buf + 24 \<le> length mem"
  shows "\<exists>e. parse_e820_entry (overlay buf bs mem) buf = Inr e \<and> (e820_start e, e820_len e) = region_of bs \<and>
    (e820_usable (length bs) e \<longleftrightarrow> usable_entry bs)"
proof -
  let ?m = "overlay buf bs mem"
  have len: "buf + length bs \<le> length mem" "16 + 3 < length bs" "length ?m = length mem" using assms by auto
  obtain t where t: "rd32 bs 16 = Inr t" using rd_defined(1) [OF len(2)] by blast
  obtain s l where sl: "rd64 bs 0 = Inr s" "rd64 bs 8 = Inr l" using rd_defined(2) [of 0 bs] rd_defined(2) [of 8 bs] len(2) by auto
  obtain a where a: "rd32 ?m (buf + 20) = Inr a" using rd_defined(1) [of "buf + 20" ?m] assms(2) len(3) by auto
  have "rd32 bs 20 = Inr a" if "length bs = 24" using rd_overlay(2) [OF len(1), of 20] that a by simp
  then show ?thesis
    using rd_overlay(2) [OF len(1), of 16] rd_overlay(3) [OF len(1), of 0] rd_overlay(3) [OF len(1), of 8] len(2) t sl a assms(1)
    by (auto simp: parse_e820_entry_def entry_offsets region_of_def usable_entry_def e820_usable_def E820_TYPE_RAM_def E820_ATTR_ENABLED_def
        E820_ATTR_NONVOLATILE_def)
qed

text \<open>What a search from the entries \<open>rest\<close> on finds.\<close>

definition finds :: "bytes list \<Rightarrow> (nat \<Rightarrow> u32) \<Rightarrow> nat \<Rightarrow> bytes list \<Rightarrow> bytes \<Rightarrow> (e820_entry option \<times> memmap) result \<Rightarrow> bool" where
  "finds entries cont buf rest mem r \<longleftrightarrow> (\<exists>st. only_buffer buf mem (mm_mem st) \<and>
     (case dropWhile (\<lambda>bs. \<not> usable_entry bs) rest of
        [] \<Rightarrow> r = Inr (None, st)
      | bs # rest' \<Rightarrow> \<exists>e. r = Inr (Some e, st) \<and> (e820_start e, e820_len e) = region_of bs \<and>
          mm_ebx st = cont (length entries - length rest') \<and> drop (length entries - length rest') entries = rest'))"

lemma finds_trans: "only_buffer buf a b \<Longrightarrow> finds entries cont buf rest b r \<Longrightarrow> finds entries cont buf rest a r"
  unfolding finds_def by (elim exE conjE) (rule exI, rule conjI, erule (1) only_buffer_trans)

lemma memmap_loop_finds:
  assumes service: "e820_service call_interrupt buf entries cont"
  shows "drop i entries = rest \<Longrightarrow> i < length entries \<Longrightarrow> mm_ebx st = cont i \<Longrightarrow> buf + 24 \<le> length (mm_mem st) \<Longrightarrow> length rest \<le> fuel \<Longrightarrow>
    finds entries cont buf rest (mm_mem st) (memmap_loop fuel call_interrupt buf params st)"
proof (induction rest arbitrary: i st fuel params)
  case (Cons bs rest)
  obtain f where f: "fuel = Suc f" "length rest \<le> f" using Cons.prems(5) by (cases fuel) auto
  have i: "entries ! i = bs" "drop (i + 1) entries = rest" "length rest = length entries - (i + 1)"
    using Cons.prems(1,2) by (metis nth_via_drop, metis Suc_eq_plus1 drop_Suc tl_drop list.sel(3), metis Suc_eq_plus1 drop_Suc length_drop tl_drop list.sel(3))
  obtain p' mem' where call: "call_interrupt (e820_params buf (cont i) params) (mm_mem st) = (p', mem')" by fastforce
  have bs: "length bs = 20 \<or> length bs = 24" using service Cons.prems(2) i(1) by (auto simp: e820_service_def)
  have ret: "eflags p' AND CF = 0" "eax p' = word_of_nat E820_SMAP" "ebx p' = cont (i + 1)" "unat (ecx p') = length bs" "mem' = overlay buf bs (mm_mem st)"
    using service Cons.prems(2,4) call i(1) unfolding e820_service_def by blast+
  obtain e where e: "parse_e820_entry mem' buf = Inr e" "(e820_start e, e820_len e) = region_of bs" "e820_usable (length bs) e \<longleftrightarrow> usable_entry bs"
    using parse_stored [OF bs Cons.prems(4)] ret(5) by blast
  let ?st = "\<lparr>mm_mem = mem', mm_ebx = cont (i + 1)\<rparr>"
  have only: "only_buffer buf (mm_mem st) mem'" unfolding ret(5) using bs Cons.prems(4) by (intro only_buffer_overlay) auto
  have step: "memmap_loop fuel call_interrupt buf params st =
      (if usable_entry bs then Inr (Some e, ?st) else if cont (i + 1) \<noteq> 0 then memmap_loop f call_interrupt buf p' ?st else Inr (None, ?st))"
    using call e(1,3) ret(1-4) Cons.prems(3) by (simp add: f(1))
  have cont: "cont (i + 1) = 0 \<longleftrightarrow> i + 1 = length entries" using service Cons.prems(2) by (auto simp: e820_service_def)
  show ?case
  proof (cases "usable_entry bs")
    case True
    have "length entries - length rest = i + 1" using i(3) Cons.prems(2) by simp
    with True step only e(2) i(2) show ?thesis by (auto simp: finds_def intro!: exI [of _ ?st])
  next
    case False
    show ?thesis
    proof (cases "i + 1 = length entries")
      case True
      with False step only cont i(2) show ?thesis by (auto simp: finds_def intro!: exI [of _ ?st])
    next
      case more: False
      have "finds entries cont buf rest mem' (memmap_loop f call_interrupt buf p' ?st)"
        using Cons.IH [of "i + 1" ?st f p'] i(2) Cons.prems(2,4) more f(2) only by (simp add: only_buffer_def)
      with False step cont more have "finds entries cont buf rest mem' (memmap_loop fuel call_interrupt buf params st)" by simp
      from finds_trans [OF only this] False show ?thesis by (simp add: finds_def)
    qed
  qed
qed simp

lemma memmap_next_finds:
  assumes service: "e820_service call_interrupt buf entries cont" and mem: "buf + 24 \<le> length (mm_mem st)" and fuel: "length rest \<le> fuel"
    and rest: "drop i entries = rest" and pos: "if prev = None then i = 0 \<and> entries \<noteq> [] else 0 < i \<and> i \<le> length entries \<and> mm_ebx st = cont i"
  shows "finds entries cont buf rest (mm_mem st) (memmap_next fuel call_interrupt buf prev st)"
proof (cases "prev = None")
  case True
  let ?m = "overlay buf (replicate 24 0) (mm_mem st)"
  have "cont 0 = 0" using service by (simp add: e820_service_def)
  then have f: "finds entries cont buf rest ?m (memmap_loop fuel call_interrupt buf params_zero \<lparr>mm_mem = ?m, mm_ebx = 0\<rparr>)"
    using memmap_loop_finds [OF service rest, of "\<lparr>mm_mem = ?m, mm_ebx = 0\<rparr>" fuel params_zero] True pos mem fuel by simp
  have "finds entries cont buf rest (mm_mem st) (memmap_loop fuel call_interrupt buf params_zero \<lparr>mm_mem = ?m, mm_ebx = 0\<rparr>)"
    by (rule finds_trans [OF only_buffer_overlay [OF _ mem] f]) simp
  with True show ?thesis
    by (simp add: memmap_next_def entry_offsets memset_overlay [OF mem])
next
  case False
  show ?thesis
  proof (cases "i = length entries")
    case True
    then have "mm_ebx st = 0" "rest = []" using False pos rest service by (auto simp: e820_service_def)
    then show ?thesis using False by (auto simp: memmap_next_def finds_def intro!: exI [of _ st])
  next
    case more: False
    moreover have "i \<le> length entries" "mm_ebx st = cont i" "mm_ebx st \<noteq> 0" using False pos more service by (auto simp: e820_service_def)
    moreover obtain e where "prev = Some e" using False by blast
    ultimately show ?thesis using memmap_loop_finds [OF service rest, of st fuel params_zero] mem fuel by (simp add: memmap_next_def)
  qed
qed

section \<open>Loops over the map\<close>

text \<open>The regions that a loop \<open>while ( ( e820 = memmap_next ( e820 ) ) != NULL )\<close> sees.\<close>

fun memmap_regions :: "nat \<Rightarrow> interrupt_call \<Rightarrow> nat \<Rightarrow> e820_entry option \<Rightarrow> memmap \<Rightarrow> (nat \<times> nat) list result" where
  "memmap_regions 0 call_interrupt buf e820 st = Inl Fuel"
| "memmap_regions (Suc fuel) call_interrupt buf e820 st =
     rbind (memmap_next (Suc fuel) call_interrupt buf e820 st) (\<lambda>(e820, st).
     case e820 of None \<Rightarrow> Inr []
     | Some e \<Rightarrow> rbind (memmap_regions fuel call_interrupt buf e820 st) (\<lambda>rs. Inr ((e820_start e, e820_len e) # rs)))"

definition usable_regions :: "bytes list \<Rightarrow> (nat \<times> nat) list" where
  "usable_regions entries = map region_of (filter usable_entry entries)"

text \<open>One step of such a loop.\<close>

lemma memmap_next_step:
  assumes service: "e820_service call_interrupt buf entries cont" and mem: "buf + 24 \<le> length (mm_mem st)" and fuel: "length rest \<le> fuel"
    and rest: "drop i entries = rest" and pos: "if prev = None then i = 0 \<and> entries \<noteq> [] else 0 < i \<and> i \<le> length entries \<and> mm_ebx st = cont i"
  obtains (stop) st' where "memmap_next fuel call_interrupt buf prev st = Inr (None, st')" "only_buffer buf (mm_mem st) (mm_mem st')" "usable_regions rest = []"
  | (region) e st' j where "memmap_next fuel call_interrupt buf prev st = Inr (Some e, st')" "only_buffer buf (mm_mem st) (mm_mem st')"
      "usable_regions rest = (e820_start e, e820_len e) # usable_regions (drop j entries)" "0 < j" "j \<le> length entries" "mm_ebx st' = cont j"
      "length (drop j entries) < length rest"
proof -
  from memmap_next_finds [OF assms] obtain st' where st': "only_buffer buf (mm_mem st) (mm_mem st')"
    and f: "case dropWhile (\<lambda>bs. \<not> usable_entry bs) rest of
        [] \<Rightarrow> memmap_next fuel call_interrupt buf prev st = Inr (None, st')
      | bs # rest' \<Rightarrow> \<exists>e. memmap_next fuel call_interrupt buf prev st = Inr (Some e, st') \<and> (e820_start e, e820_len e) = region_of bs \<and>
          mm_ebx st' = cont (length entries - length rest') \<and> drop (length entries - length rest') entries = rest'"
    unfolding finds_def by blast
  have filter: "filter usable_entry rest = (case dropWhile (\<lambda>bs. \<not> usable_entry bs) rest of [] \<Rightarrow> [] | bs # rest' \<Rightarrow> bs # filter usable_entry rest')"
    by (induction rest) auto
  show ?thesis
  proof (cases "dropWhile (\<lambda>bs. \<not> usable_entry bs) rest")
    case Nil
    with f filter st' show ?thesis by (intro stop) (auto simp: usable_regions_def)
  next
    case (Cons bs rest')
    let ?j = "length entries - length rest'"
    have "length (bs # rest') \<le> length rest" using length_dropWhile_le [of "\<lambda>bs. \<not> usable_entry bs" rest] unfolding Cons .
    moreover have "length rest \<le> length entries" using rest by auto
    ultimately have "0 < ?j" "length rest' < length rest" by auto
    moreover obtain e where "memmap_next fuel call_interrupt buf prev st = Inr (Some e, st')" "(e820_start e, e820_len e) = region_of bs"
      "mm_ebx st' = cont ?j" "drop ?j entries = rest'"
      using f unfolding Cons list.case by blast
    ultimately show ?thesis using st' filter unfolding Cons list.case by (intro region [of e st' ?j]) (simp_all add: usable_regions_def)
  qed
qed

lemma memmap_regions_from:
  assumes service: "e820_service call_interrupt buf entries cont"
  shows "drop i entries = rest \<Longrightarrow> buf + 24 \<le> length (mm_mem st) \<Longrightarrow> length rest < fuel \<Longrightarrow>
    (if prev = None then i = 0 \<and> entries \<noteq> [] else 0 < i \<and> i \<le> length entries \<and> mm_ebx st = cont i) \<Longrightarrow>
    memmap_regions fuel call_interrupt buf prev st = Inr (usable_regions rest)"
proof (induction fuel arbitrary: i rest st prev)
  case (Suc fuel)
  from Suc.prems(3) have "length rest \<le> Suc fuel" by simp
  from service Suc.prems(2) this Suc.prems(1,4) show ?case
  proof (cases rule: memmap_next_step)
    case (region e st' j)
    have "memmap_regions fuel call_interrupt buf (Some e) st' = Inr (usable_regions (drop j entries))"
      using region(2,4-7) Suc.prems(2,3) by (intro Suc.IH [of j]) (simp_all add: only_buffer_def)
    with region(1,3) show ?thesis by simp
  qed simp
qed simp

section \<open>Relocation\<close>

definition placement :: "nat \<Rightarrow> nat \<times> nat \<Rightarrow> nat option" where
  "placement len = (\<lambda>(s, l). low_placement len \<lparr>e820_start = s, e820_len = l, e820_type = 0, e820_attrs = 0\<rparr>)"

lemma low_placement_region: "low_placement len e = placement len (e820_start e, e820_len e)"
  by (simp add: placement_def low_placement_def Let_def)

fun first_placement :: "nat \<Rightarrow> (nat \<times> nat) list \<Rightarrow> nat option" where
  "first_placement len [] = None"
| "first_placement len (r # rs) = (case placement len r of None \<Rightarrow> first_placement len rs | Some s \<Rightarrow> Some s)"

lemma placement_sound:
  assumes "placement len (s, l) = Some a"
  shows "a mod 4096 = 0 \<and> 0x100000 \<le> a \<and> a + len \<le> 0x80000000 \<and> s \<le> a \<and> a + len \<le> s + l"
proof -
  define fin where "fin = (s + l) mod 2 ^ 64"
  define m where "m = (if fin > ADDR_2GB then ADDR_2GB else fin)"
  have a: "\<not> m < len" "a = (m - len) div 4096 * 4096" "\<not> sign_extend a < s" "a < 2 ^ 31" "0x100000 \<le> a"
    using assms unfolding placement_def low_placement_def Let_def prod.case e820_entry.simps fin_def [symmetric] m_def [symmetric] ADDR_1MB_def PAGE_SIZE_def
    by (simp_all only: split: if_splits) (simp_all add: not_le not_less)
  have "a \<le> m - len" unfolding a(2) by (rule div_times_less_eq_dividend)
  then have "a + len \<le> m" using a(1) by linarith
  moreover have "fin \<le> s + l" unfolding fin_def by (rule mod_less_eq_dividend)
  then have "m \<le> s + l" "m \<le> 0x80000000" by (auto simp: m_def ADDR_2GB_def)
  ultimately show ?thesis using a(2-5) by (simp add: sign_extend_def)
qed

lemma first_placement_in: "first_placement len rs = Some a \<Longrightarrow> \<exists>r \<in> set rs. placement len r = Some a"
  by (induction rs) (auto split: option.splits)

lemma first_placement_none: "first_placement len rs = None \<longleftrightarrow> (\<forall>r \<in> set rs. placement len r = None)"
  by (induction rs) (auto split: option.splits)

lemma relocate_low_from:
  assumes service: "e820_service call_interrupt buf entries cont"
  shows "drop i entries = rest \<Longrightarrow> buf + 24 \<le> length (mm_mem st) \<Longrightarrow> length rest < fuel \<Longrightarrow>
    (if prev = None then i = 0 \<and> entries \<noteq> [] else 0 < i \<and> i \<le> length entries \<and> mm_ebx st = cont i) \<Longrightarrow>
    \<exists>st'. only_buffer buf (mm_mem st) (mm_mem st') \<and> relocate_low_loop fuel call_interrupt buf data len prev st =
      (case first_placement len (usable_regions rest) of None \<Rightarrow> Inr (data, st')
       | Some s \<Rightarrow> rbind (memmove (mm_mem st') s data len) (\<lambda>mem. Inr (s, st'\<lparr>mm_mem := mem\<rparr>)))"
proof (induction fuel arbitrary: i rest st prev)
  case (Suc fuel)
  from Suc.prems(3) have "length rest \<le> Suc fuel" by simp
  from service Suc.prems(2) this Suc.prems(1,4) show ?case
  proof (cases rule: memmap_next_step)
    case (stop st')
    then show ?thesis by (intro exI [of _ st']) simp
  next
    case (region e st' j)
    show ?thesis
    proof (cases "low_placement len e")
      case None
      have "\<exists>st''. only_buffer buf (mm_mem st') (mm_mem st'') \<and> relocate_low_loop fuel call_interrupt buf data len (Some e) st' =
        (case first_placement len (usable_regions (drop j entries)) of None \<Rightarrow> Inr (data, st'')
         | Some s \<Rightarrow> rbind (memmove (mm_mem st'') s data len) (\<lambda>mem. Inr (s, st''\<lparr>mm_mem := mem\<rparr>)))"
        using region(2,4-7) Suc.prems(2,3) by (intro Suc.IH [of j]) (simp_all add: only_buffer_def)
      then show ?thesis using region(1,2,3) None only_buffer_trans [OF region(2)] by (fastforce simp: low_placement_region)
    next
      case (Some s)
      then show ?thesis using region(1-3) by (intro exI [of _ st']) (simp add: low_placement_region)
    qed
  qed
qed simp

lemma memmove_overlay:
  assumes "dest + len \<le> length mem" "src + len \<le> length mem"
  shows "memmove mem dest src len = Inr (overlay dest (window src len mem) mem)"
  using assms memcpy_up [of dest src len mem] memcpy_reverse_down [of src dest len mem] by (simp add: memmove_def)

section \<open>Properties\<close>

text \<open>
  C13: With a BIOS that answers INT 15,e820 as documented, a loop over the memory map sees every usable region, in the order of the BIOS, and no
  other region, and it ends.
\<close>

theorem memmap_all_regions:
  assumes "e820_service call_interrupt buf entries cont" "entries \<noteq> []" "buf + 24 \<le> length (mm_mem st)"
  shows "memmap_regions (length entries + 1) call_interrupt buf None st = Inr (usable_regions entries)"
  using memmap_regions_from [OF assms(1), of 0 entries st "length entries + 1" None] assms(2,3) by simp

text \<open>
  C14: The initrd is moved unchanged to a page-aligned address within a usable region, above 1 MB and below 2 GB, if any usable region admits
  one, and is otherwise left where it is.
\<close>

theorem relocate_low_result:
  assumes "e820_service call_interrupt buf entries cont" "entries \<noteq> []" "buf + 24 \<le> data" "data + len \<le> length (mm_mem st)" "0x80000000 \<le> length (mm_mem st)"
  shows "\<exists>start st'. relocate_memory_low (length entries + 1) call_interrupt buf data len st = Inr (start, st')
    \<and> window start len (mm_mem st') = window data len (mm_mem st)
    \<and> (if \<forall>r \<in> set (usable_regions entries). placement len r = None then start = data
       else start mod 4096 = 0 \<and> 0x100000 \<le> start \<and> start + len \<le> 0x80000000 \<and>
         (\<exists>(s, l) \<in> set (usable_regions entries). s \<le> start \<and> start + len \<le> s + l))"
proof -
  obtain st' where only: "only_buffer buf (mm_mem st) (mm_mem st')" and run: "relocate_memory_low (length entries + 1) call_interrupt buf data len st =
      (case first_placement len (usable_regions entries) of None \<Rightarrow> Inr (data, st')
       | Some s \<Rightarrow> rbind (memmove (mm_mem st') s data len) (\<lambda>mem. Inr (s, st'\<lparr>mm_mem := mem\<rparr>)))"
    using relocate_low_from [OF assms(1), of 0 entries st "length entries + 1" None data len] assms(2-4)
    unfolding relocate_memory_low_def by auto
  have rest: "drop data m = drop (data - (buf + 24)) (drop (buf + 24) m)" for m :: bytes using assms(3) by simp
  have same: "window data len (mm_mem st') = window data len (mm_mem st)" using only unfolding window_def rest by (simp only: only_buffer_def)
  note none = first_placement_none [of len "usable_regions entries"]
  show ?thesis
  proof (cases "first_placement len (usable_regions entries)")
    case None
    moreover have "\<forall>r \<in> set (usable_regions entries). placement len r = None" using None none by blast
    ultimately show ?thesis using run same by simp
  next
    case (Some a)
    then obtain s l where r: "(s, l) \<in> set (usable_regions entries)" "placement len (s, l) = Some a" using first_placement_in by fastforce
    note a = placement_sound [OF r(2)]
    have len: "length (mm_mem st') = length (mm_mem st)" using only by (simp add: only_buffer_def)
    have "memmove (mm_mem st') a data len = Inr (overlay a (window data len (mm_mem st')) (mm_mem st'))"
      using a assms(4,5) len by (intro memmove_overlay) auto
    moreover have "window a len (overlay a (window data len (mm_mem st')) (mm_mem st')) = window data len (mm_mem st')"
      using a assms(4,5) len window_overlay_same [of a "window data len (mm_mem st')" "mm_mem st'"] by simp
    moreover have "\<not> (\<forall>r \<in> set (usable_regions entries). placement len r = None)" using Some none by (metis option.distinct(1))
    ultimately show ?thesis using run Some same a r(1) by (auto intro!: exI [of _ a])
  qed
qed

text \<open>A BIOS with four entries, of which the second one is reserved.\<close>

definition example_entries :: "bytes list" where
  "example_entries = [le64 0 @ le64 0x9fc00 @ le32 1, le64 0xe0000 @ le64 0x20000 @ le32 2, le64 0x100000 @ le64 0x3ff00000 @ le32 1 @ le32 1,
     le64 0x100000000 @ le64 0x40000000 @ le32 1]"

definition example_cont :: "nat \<Rightarrow> u32" where
  "example_cont i = word_of_nat (i mod 4)"

definition example_bios :: interrupt_call where
  "example_bios p mem = (let i = unat (ebx p) in
     (p\<lparr>eax := word_of_nat E820_SMAP, ebx := example_cont (i + 1), ecx := word_of_nat (length (example_entries ! i)), eflags := 0\<rparr>,
      overlay 0x20100 (example_entries ! i) mem))"

lemma example_service: "e820_service example_bios 0x20100 example_entries example_cont"
proof -
  have n: "length example_entries = 4" "\<forall>bs \<in> set example_entries. length bs = 20 \<or> length bs = 24" by (simp_all add: example_entries_def)
  have "\<And>i. i \<le> 4 \<Longrightarrow> 0 < i \<Longrightarrow> example_cont i = 0 \<longleftrightarrow> i = 4"
  proof -
    fix i :: nat assume "i \<le> 4" "0 < i"
    then have "i = 1 \<or> i = 2 \<or> i = 3 \<or> i = 4" by linarith
    then show "example_cont i = 0 \<longleftrightarrow> i = 4" by (auto simp: example_cont_def)
  qed
  moreover have "unat (example_cont i) = i" if "i < 4" for i using that by (simp add: example_cont_def unat_of_nat)
  moreover have "unat (word_of_nat (length (example_entries ! i)) :: u32) = length (example_entries ! i)" if "i < 4" for i
  proof -
    have "length (example_entries ! i) = 20 \<or> length (example_entries ! i) = 24" using n that by simp
    then show ?thesis by (auto simp: unat_of_nat)
  qed
  ultimately show ?thesis using n
    by (auto simp: e820_service_def example_bios_def e820_params_def Let_def example_cont_def)
qed

lemma example_regions: "usable_regions example_entries = [(0, 0x9fc00), (0x100000, 0x3ff00000), (0x100000000, 0x40000000)]"
  by code_simp

theorem memmap_all_regions_witness:
  "memmap_regions 5 example_bios 0x20100 None \<lparr>mm_mem = replicate 0x30000 0, mm_ebx = 7\<rparr> = Inr [(0, 0x9fc00), (0x100000, 0x3ff00000), (0x100000000, 0x40000000)]"
proof -
  have "example_entries \<noteq> []" "length example_entries + 1 = 5" by (simp_all add: example_entries_def)
  with memmap_all_regions [OF example_service, of "\<lparr>mm_mem = replicate 0x30000 0, mm_ebx = 7\<rparr>"] example_regions show ?thesis
    by (simp del: memmap_regions.simps)
qed

theorem relocate_low_result_witness:
  "\<exists>start st'. relocate_memory_low 5 example_bios 0x20100 0x200000 0x1000 \<lparr>mm_mem = replicate 0x80000000 0, mm_ebx = 0\<rparr> = Inr (start, st') \<and>
     0x100000 \<le> start \<and> start + 0x1000 \<le> 0x80000000"
proof -
  let ?st = "\<lparr>mm_mem = replicate 0x80000000 0, mm_ebx = 0\<rparr>"
  have "placement 0x1000 (0x100000, 0x3ff00000) = Some 0x3ffff000" by code_simp
  then have "\<not> (\<forall>r \<in> set (usable_regions example_entries). placement 0x1000 r = None)" unfolding example_regions by simp
  moreover have "example_entries \<noteq> []" "length example_entries + 1 = 5" by (simp_all add: example_entries_def)
  moreover have "length (mm_mem ?st) = 0x80000000" by simp
  ultimately obtain start st' where "relocate_memory_low 5 example_bios 0x20100 0x200000 0x1000 ?st = Inr (start, st')" "0x100000 \<le> start" "start + 0x1000 \<le> 0x80000000"
    using relocate_low_result [OF example_service, of "0x200000" "0x1000" ?st] by (simp only: if_False) auto
  then show ?thesis by blast
qed

end
