(* ===== verification/Paging.thy ===== *)
theory Paging
  imports Memmap
begin

text \<open>
  Paging (\<open>paging.c\<close>, \<open>paging.h\<close>): 2 MB pages that are mapped one to one, and the relocation of the initrd above 4 GB, behind the
  same addresses.

  Physical memory is a list of bytes, indexed by address. The page directories are the list of their 2048 entries. The processor translates an
  address through the entry of its page.
\<close>

section \<open>State\<close>

definition CPUID_FEATURE_EDX_PAE :: u32 where "CPUID_FEATURE_EDX_PAE = 0x00000040"
definition CR0_PG :: u32 where "CR0_PG = 0x80000000"
definition CR4_PAE :: u32 where "CR4_PAE = 0x00000020"
definition PG_P :: u64 where "PG_P = 0x01"
definition PG_RW :: u64 where "PG_RW = 0x02"
definition PG_US :: u64 where "PG_US = 0x04"
definition PG_PS :: u64 where "PG_PS = 0x80"
definition PAGE_SIZE_2MB :: nat where "PAGE_SIZE_2MB = 0x200000"
definition ADDR_4GB :: nat where "ADDR_4GB = 0x100000000"
definition COPY_WINDOW :: nat where "COPY_WINDOW = 0x200000"

text \<open>The control registers, the static variables and the memory with the state of the memory map.\<close>

record paging_regs =
  cr0 :: u32
  cr3 :: u32
  cr4 :: u32

record paging_state =
  pg_paging :: bool
  pg_pdpt :: "u64 list"
  pg_pd :: "u64 list"
  pg_memmap :: memmap

section \<open>Pages\<close>

definition map_page :: "nat \<Rightarrow> nat \<Rightarrow> u64 list \<Rightarrow> u64 list result" where
  "map_page vaddr paddr pd =
     (if vaddr mod PAGE_SIZE_2MB \<noteq> 0 \<or> paddr mod PAGE_SIZE_2MB \<noteq> 0 then Inl Died
      else let index = vaddr div PAGE_SIZE_2MB in
        if length pd \<le> index then Inl Fault
        else Inr (pd[index := word_of_nat paddr OR PG_P OR PG_RW OR PG_US OR PG_PS]))"

text \<open>The loop ends when the address wraps around.\<close>

function init_pages :: "nat \<Rightarrow> u64 list \<Rightarrow> u64 list result" where
  "init_pages addr pd =
     rbind (map_page addr addr pd) (\<lambda>pd.
     if (addr + PAGE_SIZE_2MB) mod 2 ^ 32 \<noteq> 0 \<and> addr + PAGE_SIZE_2MB < 2 ^ 32 then init_pages (addr + PAGE_SIZE_2MB) pd else Inr pd)"
  by auto
termination by (relation "measure (\<lambda>(addr, pd). 2 ^ 32 - addr)") (auto simp: PAGE_SIZE_2MB_def)

declare init_pages.simps [simp del]

text \<open>\<open>features\<close> is what \<open>cpuid\<close> returns for the features, and \<open>pd_addr\<close> the address of the page directories.\<close>

definition paging_supported :: "u32 \<Rightarrow> bool" where
  "paging_supported features \<longleftrightarrow> features AND CPUID_FEATURE_EDX_PAE \<noteq> 0"

definition init_paging :: "bool \<Rightarrow> u32 \<Rightarrow> nat \<Rightarrow> paging_state \<Rightarrow> paging_state result" where
  "init_paging cmdline_linear features pd_addr st =
     (if cmdline_linear then Inr st
      else if \<not> paging_supported features then Inr st
      else rbind (init_pages 0 (pg_pd st)) (\<lambda>pd.
        Inr (st\<lparr>pg_pd := pd, pg_pdpt := map (\<lambda>i. word_of_nat ((pd_addr + i * PAGE_SIZE) mod 2 ^ 32) OR PG_P) [0..<length (pg_pdpt st)], pg_paging := True\<rparr>)))"

definition enable_paging :: "bool \<Rightarrow> u32 \<Rightarrow> paging_regs \<Rightarrow> paging_regs \<Rightarrow> paging_regs \<times> paging_regs" where
  "enable_paging paging pdpt saved regs =
     (if \<not> paging then (saved, regs)
      else let saved = regs;
               regs = regs\<lparr>cr0 := cr0 saved AND NOT CR0_PG\<rparr>;
               regs = regs\<lparr>cr4 := cr4 saved OR CR4_PAE\<rparr>;
               regs = regs\<lparr>cr3 := pdpt\<rparr>;
               regs = regs\<lparr>cr0 := cr0 saved OR CR0_PG\<rparr>
           in (saved, regs))"

definition disable_paging :: "bool \<Rightarrow> paging_regs \<Rightarrow> paging_regs \<Rightarrow> paging_regs" where
  "disable_paging paging saved regs =
     (if \<not> paging then regs
      else let regs = regs\<lparr>cr0 := cr0 saved AND NOT CR0_PG\<rparr>;
               regs = regs\<lparr>cr4 := cr4 saved\<rparr>;
               regs = regs\<lparr>cr3 := cr3 saved\<rparr>
           in regs\<lparr>cr0 := cr0 saved\<rparr>)"

section \<open>Memory through pages\<close>

definition translate :: "u64 list \<Rightarrow> nat \<Rightarrow> nat result" where
  "translate pd vaddr =
     (let index = vaddr div PAGE_SIZE_2MB in
      if length pd \<le> index then Inl Fault
      else if pd ! index AND PG_P = 0 then Inl Fault
      else Inr (unat (pd ! index AND 0x000fffffffe00000) + vaddr mod PAGE_SIZE_2MB))"

text \<open>\<open>memcpy\<close>, byte by byte, from and to addresses that are translated.\<close>

fun vmemcpy :: "u64 list \<Rightarrow> bytes \<Rightarrow> nat \<Rightarrow> nat \<Rightarrow> nat \<Rightarrow> bytes result" where
  "vmemcpy pd mem dest src 0 = Inr mem"
| "vmemcpy pd mem dest src (Suc n) =
     rbind (translate pd src) (\<lambda>s. rbind (rd8 mem s) (\<lambda>v.
     rbind (translate pd dest) (\<lambda>d. rbind (wr8 mem d v) (\<lambda>mem.
     vmemcpy pd mem (dest + 1) (src + 1) n))))"

section \<open>Relocation above 4 GB\<close>

function relocate_pages :: "u64 list \<Rightarrow> bytes \<Rightarrow> nat \<Rightarrow> nat \<Rightarrow> nat \<Rightarrow> (u64 list \<times> bytes) result" where
  "relocate_pages pd mem data dest len =
     (if len = 0 then Inr (pd, mem) else
      let offset = data mod PAGE_SIZE_2MB;
          frag_len = (if PAGE_SIZE_2MB - offset > len then len else PAGE_SIZE_2MB - offset)
      in rbind (map_page COPY_WINDOW (dest div PAGE_SIZE_2MB * PAGE_SIZE_2MB) pd) (\<lambda>pd.
         rbind (vmemcpy pd mem (COPY_WINDOW + offset) data frag_len) (\<lambda>mem.
         rbind (map_page (data - offset) (dest div PAGE_SIZE_2MB * PAGE_SIZE_2MB) pd) (\<lambda>pd.
         relocate_pages pd mem (data + frag_len) (dest + frag_len) (len - frag_len)))))"
  by auto
termination by (relation "measure (\<lambda>(pd, mem, data, dest, len). len)") (auto simp: PAGE_SIZE_2MB_def)

declare relocate_pages.simps [simp del]

text \<open>The address of the end is a signed 32-bit integer, which is extended to 64 bits.\<close>

definition high_placement :: "nat \<Rightarrow> nat \<Rightarrow> e820_entry \<Rightarrow> nat option" where
  "high_placement data len e =
     (let fin = sign_extend ((data + len) mod 2 ^ 32);
          start = (e820_start e + e820_len e) mod 2 ^ 64
      in if start < ADDR_4GB then None else
         let start = ((start + (2 ^ 64 - fin)) mod 2 ^ 64 div PAGE_SIZE_2MB * PAGE_SIZE_2MB + fin) mod 2 ^ 64;
             start = (start + (2 ^ 64 - len)) mod 2 ^ 64
         in if start < e820_start e then None
            else if start < ADDR_4GB then None
            else Some start)"

fun relocate_high_loop :: "nat \<Rightarrow> interrupt_call \<Rightarrow> nat \<Rightarrow> nat \<Rightarrow> nat \<Rightarrow> e820_entry option \<Rightarrow> paging_state \<Rightarrow> (nat \<times> paging_state) result" where
  "relocate_high_loop 0 call_interrupt buf data len e820 st = Inl Fuel"
| "relocate_high_loop (Suc fuel) call_interrupt buf data len e820 st =
     rbind (memmap_next (Suc fuel) call_interrupt buf e820 (pg_memmap st)) (\<lambda>(e820, mm).
     let st = st\<lparr>pg_memmap := mm\<rparr> in
     case e820 of None \<Rightarrow> Inr (sign_extend data, st)
     | Some e \<Rightarrow> (case high_placement data len e of
         None \<Rightarrow> relocate_high_loop fuel call_interrupt buf data len e820 st
       | Some start \<Rightarrow>
           rbind (relocate_pages (pg_pd st) (mm_mem mm) data start len) (\<lambda>(pd, mem).
           rbind (map_page COPY_WINDOW COPY_WINDOW pd) (\<lambda>pd.
           Inr (start, st\<lparr>pg_pd := pd, pg_memmap := mm\<lparr>mm_mem := mem\<rparr>\<rparr>)))))"

definition relocate_memory_high :: "nat \<Rightarrow> interrupt_call \<Rightarrow> nat \<Rightarrow> nat \<Rightarrow> nat \<Rightarrow> paging_state \<Rightarrow> (nat \<times> paging_state) result" where
  "relocate_memory_high fuel call_interrupt buf data len st =
     (if \<not> pg_paging st then Inr (sign_extend data, st)
      else relocate_high_loop fuel call_interrupt buf data len None st)"

section \<open>Entries\<close>

definition page_entry :: "nat \<Rightarrow> u64" where
  "page_entry paddr = word_of_nat paddr OR PG_P OR PG_RW OR PG_US OR PG_PS"

lemma page_bits:
  fixes w :: u64
  assumes "w < 2 ^ 31"
  shows "(push_bit 21 w OR 0x87) AND 0x000fffffffe00000 = push_bit 21 w" "(push_bit 21 w OR 0x87) AND 1 \<noteq> 0"
proof -
  have m: "(0x000fffffffe00000 :: u64) = push_bit 21 (mask 31)" and f: "(0x87 :: u64) = take_bit 8 0x87"
    by (simp_all add: push_bit_eq_mult mask_eq_exp_minus_1)
  have flags: "bit (0x87 :: u64) n \<Longrightarrow> n < 8" for n using f by (metis bit_take_bit_iff)
  have w: "bit w n \<Longrightarrow> n < 31" for n
    using less_mask_eq [OF assms] by (metis bit_and_iff bit_mask_iff)
  show "(push_bit 21 w OR 0x87) AND 0x000fffffffe00000 = push_bit 21 w"
  proof -
    have "\<not> bit (0x87 :: u64) n" if "21 \<le> n" for n using flags [of n] that by linarith
    then show ?thesis unfolding m using w by (auto simp: bit_simps intro!: bit_word_eqI)
  qed
  have "bit ((push_bit 21 w OR 0x87) AND 1) 0" by (simp add: bit_simps)
  then show "(push_bit 21 w OR 0x87) AND 1 \<noteq> 0" by auto
qed

lemma page_entry_address:
  assumes "p mod PAGE_SIZE_2MB = 0" "p < 2 ^ 52"
  shows "page_entry p AND PG_P \<noteq> 0" "unat (page_entry p AND 0x000fffffffe00000) = p"
proof -
  obtain k where k: "p = k * 2 ^ 21" using assms(1) by (auto simp: PAGE_SIZE_2MB_def mod_eq_0_iff_dvd dvd_def mult.commute)
  then have k31: "k < 2 ^ 31" using assms(2) by simp
  have w: "(word_of_nat p :: u64) = push_bit 21 (word_of_nat k)" by (simp add: k push_bit_eq_mult)
  have "(word_of_nat k :: u64) < 2 ^ 31" using k31 by (simp add: word_less_nat_alt unat_of_nat)
  moreover have "page_entry p = push_bit 21 (word_of_nat k) OR 0x87"
    by (simp add: page_entry_def w PG_P_def PG_RW_def PG_US_def PG_PS_def or.assoc)
  ultimately have e: "page_entry p AND 0x000fffffffe00000 = word_of_nat p" "page_entry p AND PG_P \<noteq> 0"
    using page_bits [of "word_of_nat k"] by (simp_all add: w PG_P_def)
  show "page_entry p AND PG_P \<noteq> 0" by (rule e(2))
  show "unat (page_entry p AND 0x000fffffffe00000) = p" unfolding e(1) using assms(2) by (simp add: unat_of_nat)
qed

lemma translate_entry:
  assumes "v div PAGE_SIZE_2MB < length pd" "pd ! (v div PAGE_SIZE_2MB) = page_entry p" "p mod PAGE_SIZE_2MB = 0" "p < 2 ^ 52"
  shows "translate pd v = Inr (p + v mod PAGE_SIZE_2MB)"
  using assms page_entry_address [OF assms(3,4)] by (simp add: translate_def)

text \<open>Pages that are mapped one to one.\<close>

definition identity_pages :: "u64 list \<Rightarrow> bool" where
  "identity_pages pd \<longleftrightarrow> length pd = 2048 \<and> (\<forall>i < 2048. pd ! i = page_entry (i * PAGE_SIZE_2MB))"

lemma map_page_entry:
  assumes "v mod PAGE_SIZE_2MB = 0" "p mod PAGE_SIZE_2MB = 0" "v div PAGE_SIZE_2MB < length pd"
  shows "map_page v p pd = Inr (pd[v div PAGE_SIZE_2MB := page_entry p])"
  using assms by (simp add: map_page_def page_entry_def)

lemma init_pages_from:
  "length pd = 2048 \<Longrightarrow> i < 2048 \<Longrightarrow> \<exists>pd'. init_pages (i * PAGE_SIZE_2MB) pd = Inr pd' \<and> length pd' = 2048 \<and>
     (\<forall>j < 2048. pd' ! j = (if j < i then pd ! j else page_entry (j * PAGE_SIZE_2MB)))"
proof (induction "2048 - i" arbitrary: i pd)
  case (Suc n)
  let ?a = "i * PAGE_SIZE_2MB"
  have pos: "0 < PAGE_SIZE_2MB" by (simp add: PAGE_SIZE_2MB_def)
  have "map_page ?a ?a pd = Inr (pd[i := page_entry ?a])"
    using map_page_entry [of ?a ?a pd] Suc.prems pos by simp
  moreover have more: "(?a + PAGE_SIZE_2MB) mod 2 ^ 32 \<noteq> 0 \<and> ?a + PAGE_SIZE_2MB < 2 ^ 32 \<longleftrightarrow> i + 1 < 2048"
  proof (cases "i + 1 < 2048")
    case True
    then have "?a + PAGE_SIZE_2MB < 2 ^ 32" "0 < ?a + PAGE_SIZE_2MB" by (simp_all add: PAGE_SIZE_2MB_def)
    then show ?thesis using True by simp
  next
    case False
    then have "?a + PAGE_SIZE_2MB = 2 ^ 32" using Suc.prems by (simp add: PAGE_SIZE_2MB_def)
    then show ?thesis using False by simp
  qed
  ultimately have step: "init_pages ?a pd = (if i + 1 < 2048 then init_pages ((i + 1) * PAGE_SIZE_2MB) (pd[i := page_entry ?a]) else Inr (pd[i := page_entry ?a]))"
    using more by (subst init_pages.simps) (simp add: add.commute)
  show ?case
  proof (cases "i + 1 < 2048")
    case True
    have "n = 2048 - (i + 1)" using Suc.hyps(2) by simp
    from Suc.hyps(1) [OF this _ True, of "pd[i := page_entry ?a]"] obtain pd' where
      "init_pages ((i + 1) * PAGE_SIZE_2MB) (pd[i := page_entry ?a]) = Inr pd'" "length pd' = 2048"
      "\<forall>j < 2048. pd' ! j = (if j < i + 1 then (pd[i := page_entry ?a]) ! j else page_entry (j * PAGE_SIZE_2MB))"
      using Suc.prems by auto
    then show ?thesis using step True Suc.prems by (auto simp: nth_list_update less_Suc_eq)
  next
    case False
    then have i: "i = 2047" using Suc.prems by simp
    have "(if j < 2047 then pd ! j else page_entry (j * PAGE_SIZE_2MB)) = (pd[2047 := page_entry (2047 * PAGE_SIZE_2MB)]) ! j" if "j < 2048" for j
      using that Suc.prems by (cases "j = 2047") auto
    then show ?thesis using step Suc.prems False unfolding i by auto
  qed
qed simp

lemma init_pages_identity: "length pd = 2048 \<Longrightarrow> \<exists>pd'. init_pages 0 pd = Inr pd' \<and> identity_pages pd'"
  using init_pages_from [of pd 0] by (auto simp: identity_pages_def)

section \<open>Copying\<close>

lemma vmemcpy_copies:
  "(\<And>i. i < n \<Longrightarrow> translate pd (src + i) = Inr (s + i)) \<Longrightarrow> (\<And>i. i < n \<Longrightarrow> translate pd (dest + i) = Inr (d + i)) \<Longrightarrow>
   s + n \<le> length mem \<Longrightarrow> d + n \<le> length mem \<Longrightarrow> s + n \<le> d \<or> d + n \<le> s \<Longrightarrow>
   vmemcpy pd mem dest src n = Inr (overlay d (window s n mem) mem)"
proof (induction n arbitrary: src s dest d mem)
  case 0
  then show ?case by (simp add: window_def)
next
  case (Suc n)
  let ?m = "mem[d := mem ! s]"
  have t: "translate pd src = Inr s" "translate pd dest = Inr d" using Suc.prems(1,2) [of 0] by simp_all
  have "vmemcpy pd ?m (dest + 1) (src + 1) n = Inr (overlay (d + 1) (window (s + 1) n ?m) ?m)"
    using Suc.prems(1,2) [of "Suc _"] Suc.prems(3-5) by (intro Suc.IH) auto
  moreover have "window (s + 1) n ?m = window (s + 1) n mem"
    using Suc.prems(3-5) by (intro nth_equalityI) (auto simp: nth_window nth_list_update)
  moreover have "overlay (d + 1) (window (s + 1) n mem) ?m = overlay d (window s (Suc n) mem) mem"
  proof -
    have "window s (Suc n) mem = [mem ! s] @ window (s + 1) n mem"
      using Suc.prems(3) by (simp add: window_def flip: Cons_nth_drop_Suc)
    then show ?thesis
      using overlay_overlay [of d "[mem ! s]" mem "window (s + 1) n mem"] Suc.prems(3,4) by (simp add: overlay_single)
  qed
  ultimately show ?case using t Suc.prems(3,4) by (simp add: rd8_def wr8_def)
qed

section \<open>Moving pages\<close>

text \<open>One fragment: it is copied to its destination, and its page is mapped there.\<close>

lemma page_split: "v div PAGE_SIZE_2MB * PAGE_SIZE_2MB + v mod PAGE_SIZE_2MB = v"
  by simp

lemma in_page:
  assumes "v mod PAGE_SIZE_2MB + n \<le> PAGE_SIZE_2MB" "i < n"
  shows "(v + i) div PAGE_SIZE_2MB = v div PAGE_SIZE_2MB" "(v + i) mod PAGE_SIZE_2MB = v mod PAGE_SIZE_2MB + i"
proof -
  have "v mod PAGE_SIZE_2MB + i < PAGE_SIZE_2MB" using assms by simp
  moreover have "v + i = v div PAGE_SIZE_2MB * PAGE_SIZE_2MB + (v mod PAGE_SIZE_2MB + i)" by (simp flip: add.assoc)
  ultimately show "(v + i) div PAGE_SIZE_2MB = v div PAGE_SIZE_2MB" "(v + i) mod PAGE_SIZE_2MB = v mod PAGE_SIZE_2MB + i"
    by (metis div_mult_self3 div_less add.right_neutral not_less_zero add.commute, metis mod_mult_self3 mod_less)
qed

lemma window_overlay_below: "off + n \<le> d \<Longrightarrow> d \<le> length mem \<Longrightarrow> window off n (overlay d bs mem) = window off n mem"
  by (intro nth_equalityI) (auto simp: window_def overlay_def nth_append)

lemma relocate_fragment:
  assumes pd: "length pd = 2048" "pd ! (data div PAGE_SIZE_2MB) = page_entry (data div PAGE_SIZE_2MB * PAGE_SIZE_2MB)" "2 \<le> data div PAGE_SIZE_2MB"
      "data div PAGE_SIZE_2MB < 2048"
    and range: "data mod PAGE_SIZE_2MB + n \<le> PAGE_SIZE_2MB" "data + n \<le> dest" "dest + n \<le> length mem" "dest < 2 ^ 52" "dest mod PAGE_SIZE_2MB = data mod PAGE_SIZE_2MB"
  defines "page \<equiv> dest div PAGE_SIZE_2MB * PAGE_SIZE_2MB"
  defines "pd1 \<equiv> pd[1 := page_entry page]"
  shows "map_page COPY_WINDOW page pd = Inr pd1"
    "vmemcpy pd1 mem (COPY_WINDOW + data mod PAGE_SIZE_2MB) data n = Inr (overlay dest (window data n mem) mem)"
    "map_page (data - data mod PAGE_SIZE_2MB) page pd1 = Inr (pd1[data div PAGE_SIZE_2MB := page_entry page])"
proof -
  have P: "0 < PAGE_SIZE_2MB" "COPY_WINDOW = PAGE_SIZE_2MB" by (simp_all add: PAGE_SIZE_2MB_def COPY_WINDOW_def)
  have page: "page mod PAGE_SIZE_2MB = 0" "page < 2 ^ 52" "page + data mod PAGE_SIZE_2MB = dest"
    using range(4) page_split [of dest] range(5) by (simp_all add: page_def)
  show "map_page COPY_WINDOW page pd = Inr pd1"
    using map_page_entry [of COPY_WINDOW page pd] P page(1) pd(1) by (simp add: pd1_def)
  have sub: "data - data mod PAGE_SIZE_2MB = data div PAGE_SIZE_2MB * PAGE_SIZE_2MB" by (simp add: minus_mod_eq_div_mult)
  show "map_page (data - data mod PAGE_SIZE_2MB) page pd1 = Inr (pd1[data div PAGE_SIZE_2MB := page_entry page])"
    using map_page_entry [of "data div PAGE_SIZE_2MB * PAGE_SIZE_2MB" page pd1] P page(1) pd(1,4) unfolding sub by (simp add: pd1_def)
  have here: "translate pd1 (data + i) = Inr (data + i)" if "i < n" for i
  proof -
    let ?p = "data div PAGE_SIZE_2MB * PAGE_SIZE_2MB"
    have "?p < 2 ^ 52" using range(2,4) by (metis div_times_less_eq_dividend order_le_less_trans le_add1 order_trans)
    moreover have "pd1 ! ((data + i) div PAGE_SIZE_2MB) = page_entry ?p" using in_page [OF range(1) that] pd by (simp add: pd1_def)
    ultimately have "translate pd1 (data + i) = Inr (?p + (data + i) mod PAGE_SIZE_2MB)"
      using in_page [OF range(1) that] pd(1,4) by (intro translate_entry) (simp_all add: pd1_def)
    then show ?thesis unfolding in_page(2) [OF range(1) that] using page_split [of data] by simp
  qed
  moreover have "translate pd1 (COPY_WINDOW + data mod PAGE_SIZE_2MB + i) = Inr (dest + i)" if "i < n" for i
  proof -
    let ?v = "COPY_WINDOW + data mod PAGE_SIZE_2MB"
    have v: "?v mod PAGE_SIZE_2MB = data mod PAGE_SIZE_2MB" "?v div PAGE_SIZE_2MB = 1" unfolding P(2) by (simp_all add: PAGE_SIZE_2MB_def)
    then have r: "?v mod PAGE_SIZE_2MB + n \<le> PAGE_SIZE_2MB" using range(1) by simp
    have "translate pd1 (?v + i) = Inr (page + (?v + i) mod PAGE_SIZE_2MB)"
      using in_page [OF r that] v pd(1) page(1,2) by (intro translate_entry) (simp_all add: pd1_def)
    then show ?thesis unfolding in_page(2) [OF r that] v using page(3) by simp
  qed
  ultimately show "vmemcpy pd1 mem (COPY_WINDOW + data mod PAGE_SIZE_2MB) data n = Inr (overlay dest (window data n mem) mem)"
    using range by (intro vmemcpy_copies) auto
qed

text \<open>All fragments.\<close>

definition pages_moved :: "u64 list \<Rightarrow> nat \<Rightarrow> nat \<Rightarrow> nat \<Rightarrow> u64 list \<Rightarrow> bool" where
  "pages_moved pd data dest len pd' \<longleftrightarrow> length pd' = 2048 \<and>
     (\<forall>i < len. translate pd' (data + i) = Inr (dest + i)) \<and>
     (\<forall>j < 2048. j \<noteq> 1 \<longrightarrow> j < data div PAGE_SIZE_2MB \<or> data + len \<le> j * PAGE_SIZE_2MB \<longrightarrow> pd' ! j = pd ! j)"

lemma overlay_window_join:
  assumes "s + m + n \<le> d" "d + m + n \<le> length mem"
  shows "overlay (d + m) (window (s + m) n (overlay d (window s m mem) mem)) (overlay d (window s m mem) mem) = overlay d (window s (m + n) mem) mem"
proof -
  have "window (s + m) n (overlay d (window s m mem) mem) = window (s + m) n mem"
    using assms by (intro window_overlay_below) auto
  then show ?thesis
    using overlay_overlay [of d "window s m mem" mem "window (s + m) n mem"] assms by (simp add: window_split)
qed

lemma next_page:
  assumes "v mod PAGE_SIZE_2MB + n = PAGE_SIZE_2MB"
  shows "(v + n) mod PAGE_SIZE_2MB = 0" "(v + n) div PAGE_SIZE_2MB = v div PAGE_SIZE_2MB + 1"
proof -
  have "v + n = (v div PAGE_SIZE_2MB + 1) * PAGE_SIZE_2MB" using assms div_mult_mod_eq [of v PAGE_SIZE_2MB] unfolding add_mult_distrib by linarith
  then show "(v + n) mod PAGE_SIZE_2MB = 0" "(v + n) div PAGE_SIZE_2MB = v div PAGE_SIZE_2MB + 1"
    by (simp_all add: PAGE_SIZE_2MB_def)
qed

lemma relocate_pages_moved:
  "length pd = 2048 \<Longrightarrow> (\<forall>j < 2048. data div PAGE_SIZE_2MB \<le> j \<longrightarrow> pd ! j = page_entry (j * PAGE_SIZE_2MB)) \<Longrightarrow> 2 \<le> data div PAGE_SIZE_2MB \<Longrightarrow>
   data + len \<le> 2 ^ 32 \<Longrightarrow> 2 ^ 32 \<le> dest \<Longrightarrow> dest + len \<le> length mem \<Longrightarrow> dest + len \<le> 2 ^ 52 \<Longrightarrow> dest mod PAGE_SIZE_2MB = data mod PAGE_SIZE_2MB \<Longrightarrow>
   \<exists>pd'. relocate_pages pd mem data dest len = Inr (pd', overlay dest (window data len mem) mem) \<and> pages_moved pd data dest len pd'"
proof (induction len arbitrary: pd mem data dest rule: less_induct)
  case (less len)
  note prems = less.prems
  show ?case
  proof (cases "len = 0")
    case True
    then show ?thesis using prems(1) by (simp add: relocate_pages.simps pages_moved_def window_def)
  next
    case False
    let ?o = "data mod PAGE_SIZE_2MB" and ?p = "data div PAGE_SIZE_2MB" and ?page = "dest div PAGE_SIZE_2MB * PAGE_SIZE_2MB"
    define n where "n = (if PAGE_SIZE_2MB - ?o > len then len else PAGE_SIZE_2MB - ?o)"
    have o: "?o < PAGE_SIZE_2MB" by (simp add: PAGE_SIZE_2MB_def)
    then have n: "0 < n" "n \<le> len" "?o + n \<le> PAGE_SIZE_2MB" using False by (auto simp: n_def)
    have "data < 2048 * PAGE_SIZE_2MB" using prems(4) False by (simp add: PAGE_SIZE_2MB_def)
    then have p: "?p < 2048" by (simp add: less_mult_imp_div_less)
    let ?pd1 = "pd[1 := page_entry ?page]" and ?mem = "overlay dest (window data n mem) mem"
    let ?pd2 = "?pd1[?p := page_entry ?page]"
    have step: "map_page COPY_WINDOW ?page pd = Inr ?pd1" "vmemcpy ?pd1 mem (COPY_WINDOW + ?o) data n = Inr ?mem" "map_page (data - ?o) ?page ?pd1 = Inr ?pd2"
      using relocate_fragment [of pd data n dest mem] prems n p False by auto
    have beyond: "\<not> (?p < ?p \<or> data + len \<le> ?p * PAGE_SIZE_2MB)"
      using False page_split [of data] by linarith
    have run: "relocate_pages pd mem data dest len = relocate_pages ?pd2 ?mem (data + n) (dest + n) (len - n)"
      using False step by (subst relocate_pages.simps) (simp add: Let_def n_def [symmetric])
    have page: "?page mod PAGE_SIZE_2MB = 0" "?page < 2 ^ 52" "?page + ?o = dest"
      using page_split [of dest] prems(7,8) False by simp_all
    have moved: "translate pd' (data + i) = Inr (dest + i)" if "pd' ! ?p = page_entry ?page" "length pd' = 2048" "i < n" for pd' i
      using translate_entry [of "data + i" pd' ?page] in_page [OF n(3) that(3)] that p page by simp
    show ?thesis
    proof (cases "n = len")
      case True
      then have "relocate_pages pd mem data dest len = Inr (?pd2, ?mem)" using run by (simp add: relocate_pages.simps)
      moreover have "pages_moved pd data dest len ?pd2"
      proof -
        have "?pd2 ! j = pd ! j" if "j \<noteq> 1" "j < ?p \<or> data + len \<le> j * PAGE_SIZE_2MB" for j
        proof -
          have "j \<noteq> ?p" using that(2) beyond by blast
          then show ?thesis using that(1) by simp
        qed
        then show ?thesis unfolding pages_moved_def using moved [of ?pd2] prems(1) p True by simp
      qed
      ultimately show ?thesis using True by blast
    next
      case more: False
      then have n': "?o + n = PAGE_SIZE_2MB" "n < len" using n o by (auto simp: n_def split: if_splits)
      note nexts = next_page [OF n'(1)] next_page [of dest n, unfolded prems(8), OF n'(1)]
      have "\<exists>pd'. relocate_pages ?pd2 ?mem (data + n) (dest + n) (len - n) = Inr (pd', overlay (dest + n) (window (data + n) (len - n) ?mem) ?mem)
          \<and> pages_moved ?pd2 (data + n) (dest + n) (len - n) pd'"
        using prems n' n nexts p by (intro less.IH) auto
      then obtain pd' where pd': "relocate_pages pd mem data dest len = Inr (pd', overlay (dest + n) (window (data + n) (len - n) ?mem) ?mem)"
        "pages_moved ?pd2 (data + n) (dest + n) (len - n) pd'" unfolding run by blast
      have "overlay (dest + n) (window (data + n) (len - n) ?mem) ?mem = overlay dest (window data len mem) mem"
        using overlay_window_join [of data n "len - n" dest mem] prems(4-6) n(2) by simp
      moreover have "pages_moved pd data dest len pd'"
        unfolding pages_moved_def
      proof (intro conjI allI impI)
        show "length pd' = 2048" using pd'(2) by (simp add: pages_moved_def)
        have "pd' ! ?p = page_entry ?page" using pd'(2) p nexts(2) prems(1,3) by (simp add: pages_moved_def)
        note first = moved [OF this \<open>length pd' = 2048\<close>]
        show "translate pd' (data + i) = Inr (dest + i)" if "i < len" for i
        proof (cases "i < n")
          case False
          have "\<forall>k < len - n. translate pd' (data + n + k) = Inr (dest + n + k)" using pd'(2) by (simp add: pages_moved_def)
          from this [rule_format, of "i - n"] False that show ?thesis by simp
        qed (rule first)
        show "pd' ! j = pd ! j" if "j < 2048" "j \<noteq> 1" "j < ?p \<or> data + len \<le> j * PAGE_SIZE_2MB" for j
        proof -
          have "j \<noteq> ?p" using that(3) beyond by blast
          moreover have "j < ?p + 1 \<or> data + n + (len - n) \<le> j * PAGE_SIZE_2MB" using that(3) n(2) by auto
          ultimately show ?thesis using pd'(2) that(1,2) nexts(2) by (auto simp: pages_moved_def)
        qed
      qed
      ultimately show ?thesis using pd'(1) by auto
    qed
  qed
qed

section \<open>Placement\<close>

definition high_place :: "nat \<Rightarrow> nat \<Rightarrow> nat \<times> nat \<Rightarrow> nat option" where
  "high_place data len = (\<lambda>(s, l). high_placement data len \<lparr>e820_start = s, e820_len = l, e820_type = 0, e820_attrs = 0\<rparr>)"

lemma high_placement_region: "high_placement data len e = high_place data len (e820_start e, e820_len e)"
  by (simp only: high_place_def high_placement_def prod.case e820_entry.simps)

fun first_high :: "nat \<Rightarrow> nat \<Rightarrow> (nat \<times> nat) list \<Rightarrow> nat option" where
  "first_high data len [] = None"
| "first_high data len (r # rs) = (case high_place data len r of None \<Rightarrow> first_high data len rs | Some s \<Rightarrow> Some s)"

lemma first_high_in: "first_high data len rs = Some a \<Longrightarrow> \<exists>r \<in> set rs. high_place data len r = Some a"
  by (induction rs) (auto split: option.splits)

lemma first_high_none: "first_high data len rs = None \<longleftrightarrow> (\<forall>r \<in> set rs. high_place data len r = None)"
  by (induction rs) (auto split: option.splits)

text \<open>Rounding down to a multiple of 2 MB beyond \<open>fin\<close>, in 64 bits.\<close>

lemma round_down:
  fixes x f :: nat
  assumes "f < 2 ^ 64" "2 ^ 21 \<le> x" "x < 2 ^ 64"
  defines "y \<equiv> (x + (2 ^ 64 - f)) mod 2 ^ 64"
  shows "(y div 2 ^ 21 * 2 ^ 21 + f) mod 2 ^ 64 = x - y mod 2 ^ 21" "(x - y mod 2 ^ 21) mod 2 ^ 21 = f mod 2 ^ 21"
proof -
  have r: "y mod 2 ^ 21 < 2 ^ 21" by simp
  have split: "y div 2 ^ 21 * 2 ^ 21 + y mod 2 ^ 21 = y" by (rule div_mult_mod_eq)
  have "y + f = x \<or> y + f = x + 2 ^ 64"
  proof (cases "f \<le> x")
    case True
    then have "x + (2 ^ 64 - f) = (x - f) + 2 ^ 64" using assms(1) by simp
    then have "y = x - f" unfolding y_def using assms(3) by (simp only: mod_add_self2) simp
    then show ?thesis using True by simp
  next
    case False
    then have "x + (2 ^ 64 - f) < 2 ^ 64" using assms(1) by linarith
    then have "y = x + (2 ^ 64 - f)" unfolding y_def by (rule mod_less)
    then show ?thesis using assms(1) by simp
  qed
  then have q: "y div 2 ^ 21 * 2 ^ 21 + f = x - y mod 2 ^ 21 \<or> y div 2 ^ 21 * 2 ^ 21 + f = x - y mod 2 ^ 21 + 2 ^ 64"
    using split r assms(2) by linarith
  have small: "x - y mod 2 ^ 21 < 2 ^ 64" using assms(3) by linarith
  show m: "(y div 2 ^ 21 * 2 ^ 21 + f) mod 2 ^ 64 = x - y mod 2 ^ 21"
    using q mod_less [OF small] by (metis mod_add_self2)
  have big: "(2 :: nat) ^ 64 = 2 ^ 43 * 2 ^ 21" by simp
  have "(x - y mod 2 ^ 21) mod 2 ^ 21 = (y div 2 ^ 21 * 2 ^ 21 + f) mod 2 ^ 21"
    using q by (elim disjE ssubst) (simp_all only: big mod_mult_self1)
  then show "(x - y mod 2 ^ 21) mod 2 ^ 21 = f mod 2 ^ 21" by simp
qed

lemma mod_cancel:
  assumes "(a + c) mod m = (b + c) mod m"
  shows "a mod m = b mod (m :: nat)"
proof -
  have "(int a + int c) mod int m = (int b + int c) mod int m" using assms by (metis of_nat_add of_nat_mod)
  then have "(int a + int c - int c) mod int m = (int b + int c - int c) mod int m" by (rule mod_diff_cong) (rule refl)
  then show ?thesis by (simp flip: of_nat_mod)
qed

lemma high_place_sound:
  assumes "high_place data len (s, l) = Some a" "data + len \<le> 2 ^ 32" "0x400000 \<le> data"
  shows "2 ^ 32 \<le> a \<and> s \<le> a \<and> a + len \<le> s + l \<and> a mod PAGE_SIZE_2MB = data mod PAGE_SIZE_2MB"
proof -
  define f where "f = sign_extend ((data + len) mod 2 ^ 32)"
  define x where "x = (s + l) mod 2 ^ 64"
  define y where "y = (x + (2 ^ 64 - f)) mod 2 ^ 64"
  define r where "r = x - y mod 2 ^ 21"
  have "(data + len) mod 2 ^ 32 < 2 ^ 32" by simp
  then have f: "f < 2 ^ 64" unfolding f_def sign_extend_def by auto
  have P: "PAGE_SIZE_2MB = 2 ^ 21" "ADDR_4GB = 2 ^ 32" by (simp_all add: PAGE_SIZE_2MB_def ADDR_4GB_def)
  have x: "2 ^ 32 \<le> x" "x < 2 ^ 64" "x \<le> s + l"
    using assms(1) by (auto simp: high_place_def high_placement_def Let_def x_def P split: if_splits)
  have "(2 :: nat) ^ 21 \<le> 2 ^ 32" by simp
  then have "2 ^ 21 \<le> x" using x(1) by (rule order_trans)
  note down = round_down [OF f this x(2), folded y_def, folded r_def]
  have a: "a = (r + (2 ^ 64 - len)) mod 2 ^ 64" "s \<le> a" "2 ^ 32 \<le> a"
    using assms(1) down(1) unfolding high_place_def high_placement_def Let_def prod.case e820_entry.simps P f_def [symmetric] x_def [symmetric] y_def [symmetric]
    by (auto split: if_splits)
  have "y mod 2 ^ 21 < 2 ^ 21" by simp
  then have r: "len \<le> r" "r \<le> x" using x(1) assms(2,3) unfolding r_def by simp_all
  then have "r + (2 ^ 64 - len) = (r - len) + 2 ^ 64" using assms(2) by simp
  then have ar: "a = r - len" using a(1) r x(2) by (simp only: mod_add_self2) simp
  have f_eq: "f = (data + len) mod 2 ^ 32 \<or> f = (data + len) mod 2 ^ 32 + (2 ^ 43 - 2 ^ 11) * 2 ^ 21"
    by (auto simp: f_def sign_extend_def)
  have "f mod 2 ^ 21 = (data + len) mod 2 ^ 32 mod 2 ^ 21"
    using f_eq by (elim disjE ssubst) (simp_all only: mod_mult_self1)
  also have "\<dots> = (data + len) mod 2 ^ 21" by (rule mod_mod_cancel) (simp add: le_imp_power_dvd)
  finally have "f mod 2 ^ 21 = (data + len) mod 2 ^ 21" .
  then have "(a + len) mod 2 ^ 21 = (data + len) mod 2 ^ 21" using down(2) ar r(1) by simp
  then have "a mod 2 ^ 21 = data mod 2 ^ 21" by (rule mod_cancel)
  then show ?thesis using a(2,3) ar r x(3) by (simp add: P)
qed

lemma relocate_high_from:
  assumes service: "e820_service call_interrupt buf entries cont"
  shows "drop i entries = rest \<Longrightarrow> buf + 24 \<le> length (mm_mem (pg_memmap st)) \<Longrightarrow> length rest < fuel \<Longrightarrow>
    (if prev = None then i = 0 \<and> entries \<noteq> [] else 0 < i \<and> i \<le> length entries \<and> mm_ebx (pg_memmap st) = cont i) \<Longrightarrow>
    \<exists>mm. only_buffer buf (mm_mem (pg_memmap st)) (mm_mem mm) \<and> relocate_high_loop fuel call_interrupt buf data len prev st =
      (case first_high data len (usable_regions rest) of None \<Rightarrow> Inr (sign_extend data, st\<lparr>pg_memmap := mm\<rparr>)
       | Some s \<Rightarrow> rbind (relocate_pages (pg_pd st) (mm_mem mm) data s len) (\<lambda>(pd, mem).
           rbind (map_page COPY_WINDOW COPY_WINDOW pd) (\<lambda>pd. Inr (s, st\<lparr>pg_pd := pd, pg_memmap := mm\<lparr>mm_mem := mem\<rparr>\<rparr>))))"
proof (induction fuel arbitrary: i rest st prev)
  case (Suc fuel)
  from Suc.prems(3) have "length rest \<le> Suc fuel" by simp
  from service Suc.prems(2) this Suc.prems(1,4) show ?case
  proof (cases rule: memmap_next_step)
    case (stop mm)
    then show ?thesis by (intro exI [of _ mm]) simp
  next
    case (region e mm j)
    show ?thesis
    proof (cases "high_placement data len e")
      case None
      let ?st = "st\<lparr>pg_memmap := mm\<rparr>"
      have "\<exists>mm'. only_buffer buf (mm_mem (pg_memmap ?st)) (mm_mem mm') \<and> relocate_high_loop fuel call_interrupt buf data len (Some e) ?st =
        (case first_high data len (usable_regions (drop j entries)) of None \<Rightarrow> Inr (sign_extend data, ?st\<lparr>pg_memmap := mm'\<rparr>)
         | Some s \<Rightarrow> rbind (relocate_pages (pg_pd ?st) (mm_mem mm') data s len) (\<lambda>(pd, mem).
           rbind (map_page COPY_WINDOW COPY_WINDOW pd) (\<lambda>pd. Inr (s, ?st\<lparr>pg_pd := pd, pg_memmap := mm'\<lparr>mm_mem := mem\<rparr>\<rparr>))))"
        using region(2,4-7) Suc.prems(2,3) by (intro Suc.IH [of j]) (simp_all add: only_buffer_def)
      then obtain mm' where mm': "only_buffer buf (mm_mem mm) (mm_mem mm')" "relocate_high_loop fuel call_interrupt buf data len (Some e) ?st =
        (case first_high data len (usable_regions (drop j entries)) of None \<Rightarrow> Inr (sign_extend data, st\<lparr>pg_memmap := mm'\<rparr>)
         | Some s \<Rightarrow> rbind (relocate_pages (pg_pd st) (mm_mem mm') data s len) (\<lambda>(pd, mem).
           rbind (map_page COPY_WINDOW COPY_WINDOW pd) (\<lambda>pd. Inr (s, st\<lparr>pg_pd := pd, pg_memmap := mm'\<lparr>mm_mem := mem\<rparr>\<rparr>))))"
        by (auto cong: option.case_cong)
      show ?thesis using region(1,3) None mm'(2) only_buffer_trans [OF region(2) mm'(1)]
        by (intro exI [of _ mm']) (simp add: high_placement_region Let_def)
    next
      case (Some s)
      then show ?thesis using region(1-3) by (intro exI [of _ mm]) (simp add: high_placement_region Let_def)
    qed
  qed
qed simp

lemma page_identity:
  assumes "v < 2 ^ 32" "v div PAGE_SIZE_2MB < length pd" "pd ! (v div PAGE_SIZE_2MB) = page_entry (v div PAGE_SIZE_2MB * PAGE_SIZE_2MB)"
  shows "translate pd v = Inr v"
proof -
  have "(2 :: nat) ^ 32 < 2 ^ 52" by simp
  then have "v div PAGE_SIZE_2MB * PAGE_SIZE_2MB < 2 ^ 52" using assms(1) page_split [of v] by linarith
  from translate_entry [OF assms(2,3) _ this] show ?thesis by simp
qed

lemma page_number: "v < 2 ^ 32 \<Longrightarrow> v div PAGE_SIZE_2MB < 2048"
  by (simp add: PAGE_SIZE_2MB_def)

text \<open>The copy window is mapped one to one again.\<close>

lemma window_restored:
  assumes "identity_pages pd0" "pages_moved pd0 data a len pd" "0x400000 \<le> data"
  defines "pd' \<equiv> pd[1 := page_entry PAGE_SIZE_2MB]"
  shows "map_page COPY_WINDOW COPY_WINDOW pd = Inr pd'" "i < len \<Longrightarrow> translate pd' (data + i) = Inr (a + i)"
    "v < 2 ^ 32 \<Longrightarrow> v div PAGE_SIZE_2MB < data div PAGE_SIZE_2MB \<or> data + len \<le> v div PAGE_SIZE_2MB * PAGE_SIZE_2MB \<Longrightarrow> translate pd' v = Inr v"
proof -
  have two: "2 \<le> data div PAGE_SIZE_2MB" using assms(3) by (simp add: PAGE_SIZE_2MB_def)
  have lpd: "length pd = 2048" using assms(1,2) by (simp add: pages_moved_def identity_pages_def)
  then show "map_page COPY_WINDOW COPY_WINDOW pd = Inr pd'"
    using map_page_entry [of COPY_WINDOW COPY_WINDOW pd] by (simp add: pd'_def COPY_WINDOW_def PAGE_SIZE_2MB_def)
  show "translate pd' (data + i) = Inr (a + i)" if "i < len"
  proof -
    have "2 \<le> (data + i) div PAGE_SIZE_2MB" using two div_le_mono [of data "data + i" PAGE_SIZE_2MB] by simp
    then have "1 \<noteq> (data + i) div PAGE_SIZE_2MB" by linarith
    then have "pd' ! ((data + i) div PAGE_SIZE_2MB) = pd ! ((data + i) div PAGE_SIZE_2MB)" unfolding pd'_def by (rule nth_list_update_neq)
    moreover have "length pd' = length pd" by (simp add: pd'_def)
    ultimately have "translate pd' (data + i) = translate pd (data + i)" by (simp add: translate_def Let_def)
    then show ?thesis using assms(2) that by (simp add: pages_moved_def)
  qed
  show "translate pd' v = Inr v"
    if "v < 2 ^ 32" "v div PAGE_SIZE_2MB < data div PAGE_SIZE_2MB \<or> data + len \<le> v div PAGE_SIZE_2MB * PAGE_SIZE_2MB"
  proof -
    have "pd' ! (v div PAGE_SIZE_2MB) = page_entry (v div PAGE_SIZE_2MB * PAGE_SIZE_2MB)"
      using assms(1,2) that(2) page_number [OF that(1)] lpd
      by (cases "v div PAGE_SIZE_2MB = 1") (auto simp: pd'_def pages_moved_def identity_pages_def)
    then show ?thesis using page_identity [of v pd'] that(1) page_number [OF that(1)] lpd by (simp add: pd'_def)
  qed
qed

section \<open>Properties\<close>

text \<open>
  C10: With pages mapped one to one, and for an initrd between 4 MB and 2 GB, relocating the initrd out of the 32-bit address space is invisible to the
  code that reads it: it is either left alone, if no usable region admits it, or a usable region above 4 GB holds a copy, and the addresses of the
  initrd are translated to it. The addresses outside the 2 MB pages that hold the initrd are still mapped one to one; nothing is said of the other
  bytes of its first and last page, which are remapped with it.
\<close>

theorem relocate_high_invisible:
  assumes "e820_service call_interrupt buf entries cont" "entries \<noteq> []" "buf + 24 \<le> data" "0x400000 \<le> data" "data + len \<le> 0x80000000" "0 < len"
    and "pg_paging st" "identity_pages (pg_pd st)" "2 ^ 32 \<le> length (mm_mem (pg_memmap st))" "length (mm_mem (pg_memmap st)) \<le> 2 ^ 52"
    and "\<forall>(s, l) \<in> set (usable_regions entries). s + l \<le> length (mm_mem (pg_memmap st))"
  shows "\<exists>start st'. relocate_memory_high (length entries + 1) call_interrupt buf data len st = Inr (start, st')
    \<and> window start len (mm_mem (pg_memmap st')) = window data len (mm_mem (pg_memmap st))
    \<and> (\<forall>i < len. translate (pg_pd st') (data + i) = Inr (start + i))
    \<and> (\<forall>v < 2 ^ 32. v div PAGE_SIZE_2MB < data div PAGE_SIZE_2MB \<or> data + len \<le> v div PAGE_SIZE_2MB * PAGE_SIZE_2MB \<longrightarrow> translate (pg_pd st') v = Inr v)
    \<and> (if \<forall>r \<in> set (usable_regions entries). high_place data len r = None then start = data
       else 2 ^ 32 \<le> start \<and> (\<exists>(s, l) \<in> set (usable_regions entries). s \<le> start \<and> start + len \<le> s + l))"
proof -
  let ?n = "length entries + 1" and ?rs = "usable_regions entries" and ?mem = "mm_mem (pg_memmap st)"
  obtain mm where only: "only_buffer buf ?mem (mm_mem mm)" and run: "relocate_memory_high ?n call_interrupt buf data len st =
      (case first_high data len ?rs of None \<Rightarrow> Inr (sign_extend data, st\<lparr>pg_memmap := mm\<rparr>)
       | Some s \<Rightarrow> rbind (relocate_pages (pg_pd st) (mm_mem mm) data s len) (\<lambda>(pd, mem).
           rbind (map_page COPY_WINDOW COPY_WINDOW pd) (\<lambda>pd. Inr (s, st\<lparr>pg_pd := pd, pg_memmap := mm\<lparr>mm_mem := mem\<rparr>\<rparr>))))"
    using relocate_high_from [OF assms(1), of 0 entries st ?n None data len] assms(2,3,5,7,9) unfolding relocate_memory_high_def by auto
  have rest: "drop data m = drop (data - (buf + 24)) (drop (buf + 24) m)" for m :: bytes using assms(3) by simp
  have same: "window data len (mm_mem mm) = window data len ?mem" using only unfolding window_def rest by (simp only: only_buffer_def)
  have len: "length (mm_mem mm) = length ?mem" using only by (simp add: only_buffer_def)
  note none = first_high_none [of data len ?rs]
  show ?thesis
  proof (cases "first_high data len ?rs")
    case None
    have "sign_extend data = data" using assms(5,6) by (simp add: sign_extend_def)
    then have "relocate_memory_high ?n call_interrupt buf data len st = Inr (data, st\<lparr>pg_memmap := mm\<rparr>)" using run None by simp
    moreover have "translate (pg_pd st) v = Inr v" if "v < 2 ^ 32" for v
      using page_identity [of v "pg_pd st"] page_number [OF that] that assms(8) by (simp add: identity_pages_def)
    moreover have "\<forall>r \<in> set ?rs. high_place data len r = None" using None none by blast
    ultimately show ?thesis using same assms(5) by (intro exI [of _ data] exI [of _ "st\<lparr>pg_memmap := mm\<rparr>"]) simp
  next
    case (Some a)
    then obtain s l where r: "(s, l) \<in> set ?rs" "high_place data len (s, l) = Some a" using first_high_in by fastforce
    have a: "2 ^ 32 \<le> a" "s \<le> a" "a + len \<le> s + l" "a mod PAGE_SIZE_2MB = data mod PAGE_SIZE_2MB"
      using high_place_sound [OF r(2) _ assms(4)] assms(5) by auto
    have fin: "a + len \<le> length (mm_mem mm)" using a(3) r(1) assms(11) len by fastforce
    have pages: "length (pg_pd st) = 2048" "\<forall>j < 2048. data div PAGE_SIZE_2MB \<le> j \<longrightarrow> pg_pd st ! j = page_entry (j * PAGE_SIZE_2MB)"
      using assms(8) by (simp_all add: identity_pages_def)
    have two: "2 \<le> data div PAGE_SIZE_2MB" using assms(4) by (simp add: PAGE_SIZE_2MB_def)
    have "data + len \<le> 2 ^ 32" "a + len \<le> 2 ^ 52" using assms(5,10) fin len by simp_all
    from relocate_pages_moved [OF pages two this(1) a(1) fin this(2) a(4)] obtain pd where
      pd: "relocate_pages (pg_pd st) (mm_mem mm) data a len = Inr (pd, overlay a (window data len (mm_mem mm)) (mm_mem mm))" "pages_moved (pg_pd st) data a len pd"
      by blast
    define pd' where "pd' = pd[1 := page_entry PAGE_SIZE_2MB]"
    define st' where "st' = st\<lparr>pg_pd := pd', pg_memmap := mm\<lparr>mm_mem := overlay a (window data len (mm_mem mm)) (mm_mem mm)\<rparr>\<rparr>"
    note win = window_restored [OF assms(8) pd(2) assms(4), folded pd'_def]
    from win(1)
    have "relocate_memory_high ?n call_interrupt buf data len st = Inr (a, st')" using run Some pd(1) by (simp add: st'_def)
    moreover have "window a len (mm_mem (pg_memmap st')) = window data len ?mem"
      using window_overlay_same [of a "window data len (mm_mem mm)" "mm_mem mm"] fin same assms(5,9) len by (simp add: st'_def)
    moreover have "translate (pg_pd st') (data + i) = Inr (a + i)" if "i < len" for i using win(2) [OF that] by (simp add: st'_def)
    moreover have "translate (pg_pd st') v = Inr v"
      if "v < 2 ^ 32" "v div PAGE_SIZE_2MB < data div PAGE_SIZE_2MB \<or> data + len \<le> v div PAGE_SIZE_2MB * PAGE_SIZE_2MB" for v
      using win(3) [OF that] by (simp add: st'_def)
    moreover have "\<not> (\<forall>r \<in> set ?rs. high_place data len r = None)" using Some none by (metis option.distinct(1))
    ultimately show ?thesis using a r(1) by (intro exI [of _ a] exI [of _ st']) auto
  qed
qed

theorem relocate_high_invisible_witness:
  "\<exists>start st'. relocate_memory_high 5 example_bios 0x20100 0x7fe01000 0x1fe000
      \<lparr>pg_paging = True, pg_pdpt = [], pg_pd = map (\<lambda>i. page_entry (i * PAGE_SIZE_2MB)) [0..<2048],
       pg_memmap = \<lparr>mm_mem = replicate 0x140000000 0, mm_ebx = 0\<rparr>\<rparr> = Inr (start, st') \<and>
     2 ^ 32 \<le> start \<and> translate (pg_pd st') 0x7fe01234 = Inr (start + 0x234)"
proof -
  let ?st = "\<lparr>pg_paging = True, pg_pdpt = [], pg_pd = map (\<lambda>i. page_entry (i * PAGE_SIZE_2MB)) [0..<2048],
       pg_memmap = \<lparr>mm_mem = replicate 0x140000000 0, mm_ebx = 0\<rparr>\<rparr>"
  have "high_place 0x7fe01000 0x1fe000 (0x100000000, 0x40000000) = Some 0x13fe01000" by code_simp
  then have place: "\<not> (\<forall>r \<in> set (usable_regions example_entries). high_place 0x7fe01000 0x1fe000 r = None)" unfolding example_regions by simp
  have ex: "example_entries \<noteq> []" "length example_entries + 1 = 5" by (simp_all add: example_entries_def)
  have mem: "length (mm_mem (pg_memmap ?st)) = 0x140000000" by simp
  have "identity_pages (pg_pd ?st)" by (simp add: identity_pages_def)
  then have "\<exists>start st'. relocate_memory_high 5 example_bios 0x20100 0x7fe01000 0x1fe000 ?st = Inr (start, st') \<and> 2 ^ 32 \<le> start \<and>
      (\<forall>i < 0x1fe000. translate (pg_pd st') (0x7fe01000 + i) = Inr (start + i))"
    using relocate_high_invisible [OF example_service ex(1), of "0x7fe01000" "0x1fe000" ?st, unfolded ex(2) mem if_not_P [OF place]] example_regions
    by (simp only: paging_state.simps) fastforce
  then obtain start st' where run: "relocate_memory_high 5 example_bios 0x20100 0x7fe01000 0x1fe000 ?st = Inr (start, st')" "2 ^ 32 \<le> start"
    and t: "\<forall>i < 0x1fe000. translate (pg_pd st') (0x7fe01000 + i) = Inr (start + i)" by blast
  have "translate (pg_pd st') 0x7fe01234 = Inr (start + 0x234)" using t [rule_format, of "0x234"] by simp
  with run show ?thesis by blast
qed

end
