(* ===== verification/Peloader.thy ===== *)
theory Peloader
  imports Struct
begin

text \<open>
  The loader of PE images (\<open>peloader.c\<close>, \<open>peloader.h\<close>), which places \<open>bootmgr.exe\<close> in memory.

  \<open>data\<close> are the bytes from the start of the file on, \<open>mem\<close> is the memory, indexed by address. They are separate lists: \<open>memcpy\<close> has no defined
  behaviour if the file and the place where it is loaded overlap.
\<close>

section \<open>Headers\<close>

definition struct_mz_header :: layout where
  "struct_mz_header = [(''magic'', 2), (''cblp'', 2), (''cp'', 2), (''crlc'', 2), (''cparhdr'', 2), (''minalloc'', 2), (''maxalloc'', 2), (''ss'', 2),
     (''sp'', 2), (''csum'', 2), (''ip'', 2), (''cs'', 2), (''lfarlc'', 2), (''ovno'', 2), (''res'', 4 * 2), (''oemid'', 2), (''oeminfo'', 2),
     (''res2'', 10 * 2), (''lfanew'', 4)]"

definition struct_coff_header :: layout where
  "struct_coff_header = [(''magic'', 2), (''num_sections'', 2), (''timestamp'', 4), (''symtab'', 4), (''num_syms'', 4), (''opthdr_len'', 2), (''flags'', 2)]"

definition struct_coff_section :: layout where
  "struct_coff_section = [(''name'', 8), (''misc'', 4), (''virtual'', 4), (''raw_len'', 4), (''raw'', 4), (''relocations'', 4), (''line_numbers'', 4),
     (''num_relocations'', 2), (''num_line_numbers'', 2), (''flags'', 4)]"

definition struct_pe_header :: layout where
  "struct_pe_header = [(''magic'', 4), (''coff'', sizeof struct_coff_header)]"

definition struct_pe_optional_header :: layout where
  "struct_pe_optional_header = [(''magic'', 2), (''linker_major'', 1), (''linker_minor'', 1), (''text_len'', 4), (''data_len'', 4), (''bss_len'', 4),
     (''entry'', 4), (''text'', 4), (''data'', 4), (''base'', 4), (''section_align'', 4), (''file_align'', 4), (''os_major'', 2), (''os_minor'', 2),
     (''image_major'', 2), (''image_minor'', 2), (''subsystem_major'', 2), (''subsystem_minor'', 2), (''win32_version'', 4), (''len'', 4), (''header_len'', 4)]"

definition MZ_HEADER_MAGIC :: nat where "MZ_HEADER_MAGIC = 0x5a4d"
definition PE_HEADER_MAGIC :: nat where "PE_HEADER_MAGIC = 0x00004550"

record loaded_pe =
  pe_base :: nat
  pe_len :: nat
  pe_entry :: nat

record coff_section =
  sec_virtual :: nat
  sec_virtual_len :: nat
  sec_raw_len :: nat
  sec_raw :: nat

section \<open>Loading\<close>

definition parse_section :: "bytes \<Rightarrow> nat \<Rightarrow> coff_section result" where
  "parse_section data section =
     (let f = (\<lambda>m. section + offset_of struct_coff_section m) in
      rbind (rd32 data (f ''virtual'')) (\<lambda>virtual.
      rbind (rd32 data (f ''misc'')) (\<lambda>virtual_len.
      rbind (rd32 data (f ''raw_len'')) (\<lambda>raw_len.
      rbind (rd32 data (f ''raw'')) (\<lambda>raw.
      Inr \<lparr>sec_virtual = virtual, sec_virtual_len = virtual_len, sec_raw_len = raw_len, sec_raw = raw\<rparr>)))))"

text \<open>One section: \<open>end\<close> is the end of what has been loaded.\<close>

definition load_section :: "bytes \<Rightarrow> nat \<Rightarrow> coff_section \<Rightarrow> bytes \<times> nat \<Rightarrow> (bytes \<times> nat) result" where
  "load_section data base s = (\<lambda>(mem, fin).
     let section_base = (base + sec_virtual s) mod 2 ^ 32;
         filesz = sec_raw_len s;
         memsz = sec_virtual_len s;
         section_end = (section_base + memsz) mod 2 ^ 32
     in rbind (memset mem section_base 0 memsz) (\<lambda>mem.
        rbind (rd_bytes data (sec_raw s) filesz) (\<lambda>bs.
        rbind (wr_bytes mem section_base bs) (\<lambda>mem.
        Inr (mem, if fin < section_end then section_end else fin)))))"

fun load_sections :: "bytes \<Rightarrow> nat \<Rightarrow> nat \<Rightarrow> nat \<Rightarrow> bytes \<times> nat \<Rightarrow> (bytes \<times> nat) result" where
  "load_sections data base section 0 st = Inr st"
| "load_sections data base section (Suc n) st =
     rbind (parse_section data section) (\<lambda>s.
     rbind (load_section data base s st) (\<lambda>st.
     load_sections data base (section + sizeof struct_coff_section) n st))"

text \<open>Round up to the alignment, which is a power of two; 32-bit arithmetic.\<close>

definition section_round :: "nat \<Rightarrow> nat \<Rightarrow> nat" where
  "section_round len align = unat ((word_of_nat (len + align) - 1 :: u32) AND NOT (word_of_nat align - 1))"

definition load_pe :: "bytes \<Rightarrow> nat \<Rightarrow> bytes \<Rightarrow> (loaded_pe \<times> bytes) result" where
  "load_pe data len mem =
     (let coff = offset_of struct_pe_header ''coff'' in
      rbind (rd16 data (offset_of struct_mz_header ''magic'')) (\<lambda>mz_magic.
      if mz_magic \<noteq> MZ_HEADER_MAGIC then Inl Fail else
      rbind (rd32 data (offset_of struct_mz_header ''lfanew'')) (\<lambda>pehdr_offset.
      if pehdr_offset > len then Inl Fail else
      rbind (rd32 data (pehdr_offset + offset_of struct_pe_header ''magic'')) (\<lambda>pe_magic.
      if pe_magic \<noteq> PE_HEADER_MAGIC then Inl Fail else
      let opthdr_offset = pehdr_offset + sizeof struct_pe_header;
          opt = (\<lambda>m. opthdr_offset + offset_of struct_pe_optional_header m)
      in rbind (rd32 data (opt ''base'')) (\<lambda>base.
         rbind (rd16 data (pehdr_offset + coff + offset_of struct_coff_header ''opthdr_len'')) (\<lambda>opthdr_len.
         rbind (rd32 data (opt ''header_len'')) (\<lambda>header_len.
         rbind (rd_bytes data 0 header_len) (\<lambda>header.
         rbind (wr_bytes mem base header) (\<lambda>mem.
         rbind (rd16 data (pehdr_offset + coff + offset_of struct_coff_header ''num_sections'')) (\<lambda>num_sections.
         rbind (load_sections data base (opthdr_offset + opthdr_len) num_sections (mem, (base + header_len) mod 2 ^ 32)) (\<lambda>(mem, fin).
         rbind (rd32 data (opt ''section_align'')) (\<lambda>section_align.
         let loaded_len = section_round ((fin + (2 ^ 32 - base)) mod 2 ^ 32) section_align
         in rbind (rd_bytes data 0 len) (\<lambda>raw.
            rbind (wr_bytes mem ((base + loaded_len) mod 2 ^ 32) raw) (\<lambda>mem.
            rbind (rd32 data (opt ''entry'')) (\<lambda>entry.
            Inr (\<lparr>pe_base = base, pe_len = (loaded_len + len) mod 2 ^ 32, pe_entry = (base + entry) mod 2 ^ 32\<rparr>, mem))))))))))))))))"

section \<open>Sections in memory\<close>

text \<open>What a section is in memory: its data in the file, and zeros up to its length.\<close>

definition section_bytes :: "bytes \<Rightarrow> coff_section \<Rightarrow> bytes" where
  "section_bytes data s = window (sec_raw s) (sec_raw_len s) data @ replicate (sec_virtual_len s - sec_raw_len s) 0"

definition section_span :: "coff_section \<Rightarrow> nat" where
  "section_span s = max (sec_virtual_len s) (sec_raw_len s)"

text \<open>The sections follow each other in memory and lie within the file.\<close>

fun sections_ok :: "bytes \<Rightarrow> nat \<Rightarrow> coff_section list \<Rightarrow> bool" where
  "sections_ok data low [] \<longleftrightarrow> True"
| "sections_ok data low (s # ss) \<longleftrightarrow> low \<le> sec_virtual s \<and> sec_raw s + sec_raw_len s \<le> length data \<and>
     sections_ok data (sec_virtual s + section_span s) ss"

fun sections_end :: "nat \<Rightarrow> coff_section list \<Rightarrow> nat" where
  "sections_end fin [] = fin"
| "sections_end fin (s # ss) = sections_end (max fin (sec_virtual s + sec_virtual_len s)) ss"

fun sections_limit :: "nat \<Rightarrow> coff_section list \<Rightarrow> nat" where
  "sections_limit low [] = low"
| "sections_limit low (s # ss) = sections_limit (sec_virtual s + section_span s) ss"

definition parses :: "bytes \<Rightarrow> nat \<Rightarrow> coff_section list \<Rightarrow> bool" where
  "parses data section ss \<longleftrightarrow> (\<forall>i < length ss. parse_section data (section + i * 40) = Inr (ss ! i))"

lemma length_section_bytes: "sec_raw s + sec_raw_len s \<le> length data \<Longrightarrow> length (section_bytes data s) = section_span s"
  by (simp add: section_bytes_def section_span_def)

lemma section_size: "sizeof struct_coff_section = 40"
  by code_simp

lemma sections_limit_ge: "sections_ok data low ss \<Longrightarrow> low \<le> sections_limit low ss"
  by (induction ss arbitrary: low) force+

lemma load_section_bytes:
  assumes "sec_raw s + sec_raw_len s \<le> length data" "base + sec_virtual s + section_span s \<le> length mem" "length mem < 2 ^ 32"
  shows "load_section data base s (mem, base + fin) =
    Inr (overlay (base + sec_virtual s) (section_bytes data s) mem, base + max fin (sec_virtual s + sec_virtual_len s))"
proof -
  let ?b = "base + sec_virtual s" and ?f = "window (sec_raw s) (sec_raw_len s) data" and ?m = "sec_virtual_len s"
  have small: "?b mod 2 ^ 32 = ?b" "(?b + ?m) mod 2 ^ 32 = ?b + ?m" using assms(2,3) by (auto simp: section_span_def)
  have fit: "?b + ?m \<le> length mem" "?b + sec_raw_len s \<le> length mem" "length ?f = sec_raw_len s"
    using assms(1,2) by (auto simp: section_span_def)
  have "overlay ?b ?f (overlay ?b (replicate ?m 0) mem) = overlay ?b (section_bytes data s) mem"
    using fit by (intro nth_equalityI) (auto simp: nth_overlay section_bytes_def nth_append length_section_bytes assms(1))
  then show ?thesis
    using fit small assms(1) by (auto simp: load_section_def Let_def memset_overlay rd_bytes_def wr_bytes_def max_def)
qed

lemma window_overlay_above_below:
  "a + length bs \<le> off \<or> off + n \<le> a \<Longrightarrow> a + length bs \<le> length mem \<Longrightarrow> window off n (overlay a bs mem) = window off n mem"
  by (intro nth_equalityI) (auto simp: nth_window nth_overlay)

text \<open>All sections: each is in its place, and nothing else has changed.\<close>

lemma load_sections_bytes:
  "parses data pos ss \<Longrightarrow> sections_ok data low ss \<Longrightarrow> base + sections_limit low ss \<le> length mem \<Longrightarrow> length mem < 2 ^ 32 \<Longrightarrow>
   \<exists>mem'. load_sections data base pos (length ss) (mem, base + fin) = Inr (mem', base + sections_end fin ss) \<and> length mem' = length mem \<and>
     (\<forall>s \<in> set ss. window (base + sec_virtual s) (section_span s) mem' = section_bytes data s) \<and>
     (\<forall>off n. off + n \<le> base + low \<or> base + sections_limit low ss \<le> off \<longrightarrow> window off n mem' = window off n mem)"
proof (induction ss arbitrary: pos low mem fin)
  case (Cons s ss)
  let ?low = "sec_virtual s + section_span s"
  have s: "low \<le> sec_virtual s" "sec_raw s + sec_raw_len s \<le> length data" "sections_ok data ?low ss" using Cons.prems(2) by auto
  have lim: "?low \<le> sections_limit ?low ss" by (rule sections_limit_ge [OF s(3)])
  then have fit: "base + ?low \<le> length mem" using Cons.prems(3) by simp
  define mem1 where "mem1 = overlay (base + sec_virtual s) (section_bytes data s) mem"
  have len1: "length mem1 = length mem" unfolding mem1_def using fit length_section_bytes [OF s(2)] by simp
  have "parse_section data pos = Inr s" "parses data (pos + 40) ss"
    using Cons.prems(1) by (auto simp: parses_def) (metis add.assoc add.commute mult_Suc nth_Cons_Suc Suc_less_eq)+
  moreover have "load_section data base s (mem, base + fin) = Inr (mem1, base + max fin (sec_virtual s + sec_virtual_len s))"
    unfolding mem1_def using fit Cons.prems(4) by (intro load_section_bytes [OF s(2)]) simp_all
  moreover have "\<exists>mem'. load_sections data base (pos + 40) (length ss) (mem1, base + max fin (sec_virtual s + sec_virtual_len s)) =
      Inr (mem', base + sections_end (max fin (sec_virtual s + sec_virtual_len s)) ss) \<and> length mem' = length mem1 \<and>
     (\<forall>s \<in> set ss. window (base + sec_virtual s) (section_span s) mem' = section_bytes data s) \<and>
     (\<forall>off n. off + n \<le> base + ?low \<or> base + sections_limit ?low ss \<le> off \<longrightarrow> window off n mem' = window off n mem1)"
    using Cons.prems(3,4) len1 calculation(2) by (intro Cons.IH [OF _ s(3)]) simp_all
  ultimately obtain mem' where run: "load_sections data base pos (length (s # ss)) (mem, base + fin) = Inr (mem', base + sections_end fin (s # ss))"
    and mem': "length mem' = length mem" "\<forall>s \<in> set ss. window (base + sec_virtual s) (section_span s) mem' = section_bytes data s"
    "\<forall>off n. off + n \<le> base + ?low \<or> base + sections_limit ?low ss \<le> off \<longrightarrow> window off n mem' = window off n mem1"
    using len1 by (auto simp: section_size)
  have "window (base + sec_virtual s) (section_span s) mem' = section_bytes data s"
    using mem'(3) [rule_format, of "base + sec_virtual s" "section_span s"] window_overlay_same [of "base + sec_virtual s" "section_bytes data s" mem]
      fit length_section_bytes [OF s(2)] by (simp add: mem1_def add.assoc)
  moreover have "window off n mem' = window off n mem" if "off + n \<le> base + low \<or> base + sections_limit ?low ss \<le> off" for off n
    using mem'(3) [rule_format, of off n] that s(1) lim fit length_section_bytes [OF s(2)]
      window_overlay_above_below [of "base + sec_virtual s" "section_bytes data s" off n mem] by (auto simp: mem1_def)
  ultimately show ?case using run mem' by auto
qed simp

section \<open>The loaded image\<close>

text \<open>The headers of an image of \<open>len\<close> bytes, where they are in the file.\<close>

record pe_info =
  pi_offset :: nat
  pi_base :: nat
  pi_header_len :: nat
  pi_opthdr_len :: nat
  pi_align :: nat
  pi_entry :: nat
  pi_sections :: "coff_section list"

definition pe_opthdr :: "pe_info \<Rightarrow> string \<Rightarrow> nat" where
  "pe_opthdr h m = pi_offset h + sizeof struct_pe_header + offset_of struct_pe_optional_header m"

definition pe_coff :: "pe_info \<Rightarrow> string \<Rightarrow> nat" where
  "pe_coff h m = pi_offset h + offset_of struct_pe_header ''coff'' + offset_of struct_coff_header m"

definition pe_headers :: "bytes \<Rightarrow> nat \<Rightarrow> pe_info \<Rightarrow> bool" where
  "pe_headers data len h \<longleftrightarrow> len \<le> length data \<and> pi_offset h \<le> len \<and> pi_header_len h \<le> len \<and>
     rd16 data (offset_of struct_mz_header ''magic'') = Inr MZ_HEADER_MAGIC \<and>
     rd32 data (offset_of struct_mz_header ''lfanew'') = Inr (pi_offset h) \<and>
     rd32 data (pi_offset h + offset_of struct_pe_header ''magic'') = Inr PE_HEADER_MAGIC \<and>
     rd16 data (pe_coff h ''opthdr_len'') = Inr (pi_opthdr_len h) \<and>
     rd16 data (pe_coff h ''num_sections'') = Inr (length (pi_sections h)) \<and>
     rd32 data (pe_opthdr h ''base'') = Inr (pi_base h) \<and>
     rd32 data (pe_opthdr h ''header_len'') = Inr (pi_header_len h) \<and>
     rd32 data (pe_opthdr h ''section_align'') = Inr (pi_align h) \<and>
     rd32 data (pe_opthdr h ''entry'') = Inr (pi_entry h) \<and>
     parses data (pi_offset h + sizeof struct_pe_header + pi_opthdr_len h) (pi_sections h) \<and>
     sections_ok data (pi_header_len h) (pi_sections h)"

text \<open>The length of the headers and the sections, rounded up to the alignment.\<close>

definition pe_span :: "pe_info \<Rightarrow> nat" where
  "pe_span h = (sections_end (pi_header_len h) (pi_sections h) + pi_align h - 1) div pi_align h * pi_align h"

definition pe_fits :: "nat \<Rightarrow> pe_info \<Rightarrow> bytes \<Rightarrow> bool" where
  "pe_fits len h mem \<longleftrightarrow> sections_limit (pi_header_len h) (pi_sections h) \<le> pe_span h \<and> pi_base h + pe_span h + len \<le> length mem \<and>
     length mem < 2 ^ 32 \<and> pi_base h + pi_entry h < 2 ^ 32 \<and> pi_align h \<in> set (map (\<lambda>k. 2 ^ k) [0..<32])"

definition pe_loaded :: "bytes \<Rightarrow> nat \<Rightarrow> pe_info \<Rightarrow> bytes \<Rightarrow> bytes \<Rightarrow> bool" where
  "pe_loaded data len h mem mem' \<longleftrightarrow> length mem' = length mem \<and>
     window (pi_base h) (pi_header_len h) mem' = window 0 (pi_header_len h) data \<and>
     (\<forall>s \<in> set (pi_sections h). window (pi_base h + sec_virtual s) (section_span s) mem' = section_bytes data s) \<and>
     window (pi_base h + pe_span h) len mem' = window 0 len data \<and>
     take (pi_base h) mem' = take (pi_base h) mem \<and>
     drop (pi_base h + pe_span h + len) mem' = drop (pi_base h + pe_span h + len) mem"

lemma section_round_power:
  assumes "n + 2 ^ k \<le> 2 ^ 32"
  shows "section_round n (2 ^ k) = (n + 2 ^ k - 1) div 2 ^ k * 2 ^ k"
proof -
  let ?x = "word_of_nat (n + 2 ^ k) - 1 :: u32"
  have "1 \<le> n + 2 ^ k" using one_le_power [of "2 :: nat" k] by linarith
  then have "?x = word_of_nat (n + 2 ^ k - 1)" by (simp only: of_nat_diff of_nat_1)
  moreover have small: "n + 2 ^ k - 1 < 2 ^ 32" using assms one_le_power [of "2 :: nat" k] by linarith
  ultimately have x: "unat ?x = n + 2 ^ k - 1" by (simp add: unat_of_nat take_bit_eq_mod)
  have "?x AND NOT (word_of_nat (2 ^ k) - 1) = push_bit k (drop_bit k ?x)"
    by (rule bit_eqI) (auto simp: bit_simps mask_eq_exp_minus_1 [symmetric])
  moreover have "(n + 2 ^ k - 1) div 2 ^ k * 2 ^ k < 2 ^ 32"
    by (rule le_less_trans [OF div_times_less_eq_dividend small])
  moreover have "unat (push_bit k (drop_bit k ?x)) = take_bit 32 (push_bit k (drop_bit k (n + 2 ^ k - 1)))"
    unfolding unsigned_push_bit_eq unsigned_drop_bit_eq x using small by (simp add: take_bit_eq_mod)
  ultimately show ?thesis
    by (simp only: section_round_def) (simp add: push_bit_eq_mult drop_bit_eq_div take_bit_eq_mod)
qed

lemma round_up_ge: "0 < a \<Longrightarrow> n \<le> (n + a - 1) div a * (a :: nat)"
  using div_mult_mod_eq [of "n + a - 1" a] mod_less_divisor [of a "n + a - 1"] by linarith

lemma pe_span_round:
  assumes "pi_align h \<in> set (map (\<lambda>k. 2 ^ k) [0..<32])" "pe_span h < 2 ^ 32"
  shows "section_round (sections_end (pi_header_len h) (pi_sections h)) (pi_align h) = pe_span h"
    "sections_end (pi_header_len h) (pi_sections h) \<le> pe_span h"
proof -
  let ?n = "sections_end (pi_header_len h) (pi_sections h)"
  obtain k where k: "k < 32" "pi_align h = 2 ^ k" using assms(1) by auto
  have "(?n + 2 ^ k - 1) div 2 ^ k * 2 ^ k < 2 ^ (32 - k) * 2 ^ k"
    using assms(2) k by (simp add: pe_span_def flip: power_add)
  then have "?n + 2 ^ k - 1 < 2 ^ (32 - k) * 2 ^ k"
    by (simp add: div_less_iff_less_mult)
  also have "\<dots> = 2 ^ 32" using k(1) by (simp flip: power_add)
  finally have "?n + 2 ^ k \<le> 2 ^ 32" by linarith
  from section_round_power [OF this] show "section_round ?n (pi_align h) = pe_span h" by (simp add: pe_span_def k(2))
  show "?n \<le> pe_span h" unfolding pe_span_def by (rule round_up_ge) (simp add: k(2))
qed

lemma sections_end_ge: "fin \<le> sections_end fin ss"
proof (induction ss arbitrary: fin)
  case (Cons s ss)
  show ?case using Cons [of "max fin (sec_virtual s + sec_virtual_len s)"] by simp
qed simp

lemma section_below_limit: "sections_ok data low ss \<Longrightarrow> s \<in> set ss \<Longrightarrow> sec_virtual s + section_span s \<le> sections_limit low ss"
  using sections_limit_ge by (induction ss arbitrary: low) force+

lemma pe_fitsD:
  assumes "pe_headers data len h" "pe_fits len h mem"
  shows "sections_limit (pi_header_len h) (pi_sections h) \<le> pe_span h" "pi_base h + pe_span h + len \<le> length mem" "length mem < 2 ^ 32"
    "pi_base h + pi_entry h < 2 ^ 32" "len \<le> length data" "pi_header_len h \<le> len" "sections_ok data (pi_header_len h) (pi_sections h)"
    "parses data (pi_offset h + sizeof struct_pe_header + pi_opthdr_len h) (pi_sections h)"
    "section_round (sections_end (pi_header_len h) (pi_sections h)) (pi_align h) = pe_span h"
    "sections_end (pi_header_len h) (pi_sections h) \<le> pe_span h" "pi_header_len h \<le> sections_limit (pi_header_len h) (pi_sections h)"
proof -
  show fits: "sections_limit (pi_header_len h) (pi_sections h) \<le> pe_span h" "pi_base h + pe_span h + len \<le> length mem" "length mem < 2 ^ 32"
    "pi_base h + pi_entry h < 2 ^ 32" using assms(2) by (simp_all add: pe_fits_def)
  show "len \<le> length data" "pi_header_len h \<le> len" and ok: "sections_ok data (pi_header_len h) (pi_sections h)"
    and "parses data (pi_offset h + sizeof struct_pe_header + pi_opthdr_len h) (pi_sections h)" using assms(1) by (simp_all add: pe_headers_def)
  have "pi_align h \<in> set (map (\<lambda>k. 2 ^ k) [0..<32])" using assms(2) by (simp add: pe_fits_def)
  from pe_span_round [OF this] fits(2,3) show "section_round (sections_end (pi_header_len h) (pi_sections h)) (pi_align h) = pe_span h"
    "sections_end (pi_header_len h) (pi_sections h) \<le> pe_span h" by simp_all
  show "pi_header_len h \<le> sections_limit (pi_header_len h) (pi_sections h)" by (rule sections_limit_ge [OF ok])
qed

text \<open>The steps around the sections.\<close>

lemma load_pe_steps:
  assumes "pe_headers data len h" "pe_fits len h mem"
    and run: "load_sections data (pi_base h) (pi_offset h + sizeof struct_pe_header + pi_opthdr_len h) (length (pi_sections h))
      (overlay (pi_base h) (take (pi_header_len h) data) mem, pi_base h + pi_header_len h) =
      Inr (mem2, pi_base h + sections_end (pi_header_len h) (pi_sections h))" and mem2: "length mem2 = length mem"
  shows "load_pe data len mem = Inr (\<lparr>pe_base = pi_base h, pe_len = pe_span h + len, pe_entry = pi_base h + pi_entry h\<rparr>,
    overlay (pi_base h + pe_span h) (take len data) mem2)"
proof -
  note ok = pe_fitsD [OF assms(1,2)]
  let ?b = "pi_base h" and ?n = "pi_header_len h" and ?ss = "pi_sections h" and ?span = "pe_span h"
  have w: "rd_bytes data 0 ?n = Inr (take ?n data)" "rd_bytes data 0 len = Inr (take len data)"
    using ok(5,6) by (simp_all add: rd_bytes_def window_def)
  have wr: "wr_bytes mem ?b (take ?n data) = Inr (overlay ?b (take ?n data) mem)"
    "wr_bytes mem2 (?b + ?span) (take len data) = Inr (overlay (?b + ?span) (take len data) mem2)"
    using ok mem2 by (simp_all add: wr_bytes_def)
  have small: "(?b + ?n) mod 2 ^ 32 = ?b + ?n" "(?b + sections_end ?n ?ss + (2 ^ 32 - ?b)) mod 2 ^ 32 = sections_end ?n ?ss"
    "(?b + ?span) mod 2 ^ 32 = ?b + ?span" "(?b + pi_entry h) mod 2 ^ 32 = ?b + pi_entry h" "(?span + len) mod 2 ^ 32 = ?span + len"
    using ok(1-6,10,11) by auto
  have reads: "rd16 data (offset_of struct_mz_header ''magic'') = Inr MZ_HEADER_MAGIC"
    "rd32 data (offset_of struct_mz_header ''lfanew'') = Inr (pi_offset h)" "\<not> pi_offset h > len"
    "rd32 data (pi_offset h + offset_of struct_pe_header ''magic'') = Inr PE_HEADER_MAGIC"
    "rd16 data (pi_offset h + offset_of struct_pe_header ''coff'' + offset_of struct_coff_header ''opthdr_len'') = Inr (pi_opthdr_len h)"
    "rd16 data (pi_offset h + offset_of struct_pe_header ''coff'' + offset_of struct_coff_header ''num_sections'') = Inr (length ?ss)"
    "rd32 data (pi_offset h + sizeof struct_pe_header + offset_of struct_pe_optional_header ''base'') = Inr ?b"
    "rd32 data (pi_offset h + sizeof struct_pe_header + offset_of struct_pe_optional_header ''header_len'') = Inr ?n"
    "rd32 data (pi_offset h + sizeof struct_pe_header + offset_of struct_pe_optional_header ''section_align'') = Inr (pi_align h)"
    "rd32 data (pi_offset h + sizeof struct_pe_header + offset_of struct_pe_optional_header ''entry'') = Inr (pi_entry h)"
    using assms(1) by (simp_all add: pe_headers_def pe_opthdr_def pe_coff_def)
  show ?thesis unfolding load_pe_def Let_def reads w wr run small ok(9) rbind_Inr
    by (simp only: reads wr w run small ok(9) rbind_Inr prod.case if_False if_True not_not simp_thms)
qed

lemma pe_loaded_copy:
  assumes "pe_headers data len h" "pe_fits len h mem" and mem2: "length mem2 = length mem"
    "\<forall>s \<in> set (pi_sections h). window (pi_base h + sec_virtual s) (section_span s) mem2 = section_bytes data s"
    "\<forall>off n. off + n \<le> pi_base h + pi_header_len h \<or> pi_base h + sections_limit (pi_header_len h) (pi_sections h) \<le> off \<longrightarrow>
      window off n mem2 = window off n (overlay (pi_base h) (take (pi_header_len h) data) mem)"
  shows "pe_loaded data len h mem (overlay (pi_base h + pe_span h) (take len data) mem2)"
proof -
  note ok = pe_fitsD [OF assms(1,2)]
  let ?b = "pi_base h" and ?n = "pi_header_len h" and ?span = "pe_span h" and ?mem3 = "overlay (pi_base h + pe_span h) (take len data) mem2"
  have keep: "window off k ?mem3 = window off k mem2" if "off + k \<le> ?b + ?span" for off k
    using that ok(2,5) mem2(1) by (intro window_overlay_above_below) auto
  have "window ?b ?n ?mem3 = window 0 ?n data"
    using keep [of ?b ?n] mem2(3) [rule_format, of ?b ?n] window_overlay_same [of ?b "take ?n data" mem] ok by (simp add: window_def)
  moreover have "window (?b + sec_virtual s) (section_span s) ?mem3 = section_bytes data s" if "s \<in> set (pi_sections h)" for s
    using keep [of "?b + sec_virtual s" "section_span s"] mem2(2) that section_below_limit [OF ok(7) that] ok(1) by simp
  moreover have "window (?b + ?span) len ?mem3 = window 0 len data"
    using window_overlay_same [of "?b + ?span" "take len data" mem2] ok(2,5) mem2(1) by (simp add: window_def)
  moreover have "take ?b ?mem3 = take ?b mem"
    using keep [of 0 ?b] mem2(3) [rule_format, of 0 ?b] ok(1,2,11) by (simp add: window_def take_overlay)
  moreover have "drop (?b + ?span + len) ?mem3 = drop (?b + ?span + len) mem"
    using mem2(3) [rule_format, of "?b + ?span + len" "length mem"] mem2(1) ok(1,2,5,6,11) by (simp add: window_def drop_overlay)
  moreover have "length ?mem3 = length mem" using ok(2,5) mem2(1) by simp
  ultimately show ?thesis by (simp add: pe_loaded_def)
qed

text \<open>
  C12: An image whose headers are well formed and which fits into memory is loaded as the headers describe: the headers at the image base,
  every section at its virtual address, with its data from the file followed by zeros, a copy of the file after the last section at the next
  multiple of the section alignment, and nothing else is changed; the entry point and the length are those of the loaded image.
\<close>

theorem load_pe_layout:
  assumes "pe_headers data len h" "pe_fits len h mem"
  shows "\<exists>mem'. load_pe data len mem =
      Inr (\<lparr>pe_base = pi_base h, pe_len = pe_span h + len, pe_entry = pi_base h + pi_entry h\<rparr>, mem') \<and> pe_loaded data len h mem mem'"
proof -
  note ok = pe_fitsD [OF assms]
  let ?mem1 = "overlay (pi_base h) (take (pi_header_len h) data) mem"
  have "length ?mem1 = length mem" using ok(1,2,5,6,11) by simp
  with load_sections_bytes [OF ok(8,7), of "pi_base h" ?mem1 "pi_header_len h"] ok(1-3) obtain mem2 where
    run: "load_sections data (pi_base h) (pi_offset h + sizeof struct_pe_header + pi_opthdr_len h) (length (pi_sections h))
      (?mem1, pi_base h + pi_header_len h) = Inr (mem2, pi_base h + sections_end (pi_header_len h) (pi_sections h))"
    and mem2: "length mem2 = length mem"
      "\<forall>s \<in> set (pi_sections h). window (pi_base h + sec_virtual s) (section_span s) mem2 = section_bytes data s"
      "\<forall>off n. off + n \<le> pi_base h + pi_header_len h \<or> pi_base h + sections_limit (pi_header_len h) (pi_sections h) \<le> off \<longrightarrow>
        window off n mem2 = window off n ?mem1"
    by auto
  from load_pe_steps [OF assms run mem2(1)] pe_loaded_copy [OF assms mem2] show ?thesis by blast
qed

text \<open>A small image with one section, whose headers are 192 bytes.\<close>

definition example_section :: coff_section where
  "example_section = \<lparr>sec_virtual = 192, sec_virtual_len = 12, sec_raw_len = 8, sec_raw = 192\<rparr>"

definition example_pe :: bytes where
  "example_pe = [0x4d, 0x5a] @ replicate 58 0 @ le32 64 @
     [0x50, 0x45, 0, 0, 0x4c, 1, 1, 0] @ replicate 12 0 @ [64, 0, 0, 0] @
     replicate 16 0 @ le32 196 @ replicate 8 0 @ le32 16 @ le32 32 @ replicate 24 0 @ le32 192 @
     replicate 8 0 @ le32 12 @ le32 192 @ le32 8 @ le32 192 @ replicate 16 0 @ [1, 2, 3, 4, 5, 6, 7, 8]"

definition example_pe_info :: pe_info where
  "example_pe_info = \<lparr>pi_offset = 64, pi_base = 16, pi_header_len = 192, pi_opthdr_len = 64, pi_align = 32, pi_entry = 196, pi_sections = [example_section]\<rparr>"

lemma example_pe_headers: "pe_headers example_pe 200 example_pe_info"
proof -
  have "rd16 example_pe 0 = Inr MZ_HEADER_MAGIC" "rd32 example_pe 60 = Inr 64" "rd32 example_pe 64 = Inr PE_HEADER_MAGIC"
    "rd16 example_pe 84 = Inr 64" "rd16 example_pe 70 = Inr 1"
    "rd32 example_pe 116 = Inr 16" "rd32 example_pe 148 = Inr 192" "rd32 example_pe 120 = Inr 32" "rd32 example_pe 104 = Inr 196"
    by (simp_all add: example_pe_def rd32_def rd16_def rd8_def nth_append le32_def le16_def MZ_HEADER_MAGIC_def PE_HEADER_MAGIC_def)
  moreover have "parse_section example_pe 152 = Inr example_section" "length example_pe = 200" by code_simp+
  moreover have "offset_of struct_mz_header ''magic'' = 0" "offset_of struct_mz_header ''lfanew'' = 60" "offset_of struct_pe_header ''magic'' = 0"
    "pe_coff example_pe_info ''opthdr_len'' = 84" "pe_coff example_pe_info ''num_sections'' = 70" "pe_opthdr example_pe_info ''base'' = 116"
    "pe_opthdr example_pe_info ''header_len'' = 148" "pe_opthdr example_pe_info ''section_align'' = 120" "pe_opthdr example_pe_info ''entry'' = 104"
    "sizeof struct_pe_header = 24"
    by code_simp+
  ultimately show ?thesis
    unfolding pe_headers_def by (simp add: parses_def) (simp add: example_pe_info_def example_section_def)
qed

lemma example_pe_fits: "pe_fits 200 example_pe_info (replicate 450 0xff)"
  unfolding pe_fits_def by code_simp

theorem load_pe_layout_witness:
  "\<exists>mem'. load_pe example_pe 200 (replicate 450 0xff) = Inr (\<lparr>pe_base = 16, pe_len = 424, pe_entry = 212\<rparr>, mem') \<and>
     pe_loaded example_pe 200 example_pe_info (replicate 450 0xff) mem'"
  using load_pe_layout [OF example_pe_headers example_pe_fits] by (simp add: example_pe_info_def pe_span_def example_section_def)

end
