(* ===== verification/Boot_Files.thy ===== *)
theory Boot_Files
  imports Disk_Laws Cpio Lznt1 Xca Memmap
begin

text \<open>
  The files of the boot disk of the BIOS loader (\<open>main.c\<close>): they are extracted from the initrd, the image gets its patch, and more
  files are added from the image. The loader is 32-bit.
\<close>

section \<open>State\<close>

text \<open>
  \<open>bt_initrd\<close> are the bytes from the start of the initrd on; \<open>bt_low\<close> is the free memory below it, of which the end is used when
  data is prepended to the initrd.
\<close>

record boot =
  bt_wim :: wim_state
  bt_patch :: wim_patch
  bt_bootmgr :: "nat option"
  bt_bootwim :: "nat option"
  bt_low :: bytes
  bt_initrd :: bytes

definition boot_disk_of :: "boot \<Rightarrow> disk" where
  "boot_disk_of b = ws_disk (bt_wim b)"

definition set_disk :: "disk \<Rightarrow> boot \<Rightarrow> boot" where
  "set_disk d b = b\<lparr>bt_wim := (bt_wim b)\<lparr>ws_disk := d\<rparr>\<rparr>"

text \<open>The static variables at the start.\<close>

definition struct_wim_file_zero :: struct_wim_file where
  "struct_wim_file_zero = \<lparr>wf_file = 0, wf_header = wim_header_zero, wf_resource = resource_zero\<rparr>"

definition boot_initial :: "bytes \<Rightarrow> bytes \<Rightarrow> boot" where
  "boot_initial low initrd = \<lparr>bt_wim = \<lparr>ws_disk = vdisk_initial Null, ws_files = replicate WIM_MAX_FILES struct_wim_file_zero,
       ws_index = 0, ws_cache = wim_cache_initial\<rparr>,
     bt_patch = wim_patch_zero, bt_bootmgr = None, bt_bootwim = None, bt_low = low, bt_initrd = initrd\<rparr>"

definition BOOTMGR_MIN_LEN :: nat where "BOOTMGR_MIN_LEN = 16384"

definition wim_path_of :: "string list \<Rightarrow> u16 list" where
  "wim_path_of names = concat (map (\<lambda>n. 0x5c # map of_char n) names) @ [0]"

definition bootmgr_path :: "u16 list" where
  "bootmgr_path = wim_path_of [''Windows'', ''Boot'', ''PXE'', ''bootmgr.exe'']"

definition wim_paths :: "u16 list list" where
  "wim_paths = [wim_path_of [''Windows'', ''Boot'', ''DVD'', ''PCAT'', ''boot.sdi''],
     wim_path_of [''Windows'', ''Boot'', ''DVD'', ''PCAT'', ''BCD''],
     wim_path_of [''Windows'', ''Boot'', ''Fonts'', ''segmono_boot.ttf''],
     wim_path_of [''Windows'', ''Boot'', ''Fonts'', ''segoen_slboot.ttf''],
     wim_path_of [''Windows'', ''Boot'', ''Fonts'', ''segoe_slboot.ttf''],
     wim_path_of [''Windows'', ''Boot'', ''Fonts'', ''wgl4_boot.ttf''],
     wim_path_of [''sms'', ''boot'', ''boot.sdi'']]"

section \<open>The embedded bootmgr.exe\<close>

definition is_empty_pgh :: "bytes \<Rightarrow> nat \<Rightarrow> bool result" where
  "is_empty_pgh data pgh =
     rbind (rd32 data pgh) (\<lambda>a. rbind (rd32 data (pgh + 4)) (\<lambda>b. rbind (rd32 data (pgh + 8)) (\<lambda>c. rbind (rd32 data (pgh + 12)) (\<lambda>d.
     Inr (a OR b OR c OR d = 0)))))"

text \<open>The operator \<open>&&\<close>, which evaluates its second operand only if the first one is true.\<close>

definition and_then :: "bool result \<Rightarrow> bool result \<Rightarrow> bool result" where
  "and_then a b = rbind a (\<lambda>x. if x then b else Inr False)"

definition byte_has :: "bytes \<Rightarrow> nat \<Rightarrow> (u8 \<Rightarrow> bool) \<Rightarrow> bool result" where
  "byte_has data i p = rbind (rd8 data i) (\<lambda>c. Inr (p c))"

definition not_empty :: "bytes \<Rightarrow> nat \<Rightarrow> bool result" where
  "not_empty data pgh = rbind (is_empty_pgh data pgh) (\<lambda>e. Inr (\<not> e))"

datatype compression = LZNT1 | XCA

fun decompressor :: "compression \<Rightarrow> bytes \<Rightarrow> nat \<Rightarrow> bytes option \<Rightarrow> (nat \<times> bytes option) result" where
  "decompressor LZNT1 = lznt1_decompress"
| "decompressor XCA = xca_decompress"

definition bootmgr_candidate :: "bytes \<Rightarrow> nat \<Rightarrow> compression option result" where
  "bootmgr_candidate data offset =
     rbind (and_then (Inr (offset mod 16 = 0)) (and_then (byte_has data (offset + 0x02) (\<lambda>c. c AND 0x03 = 0))
       (and_then (byte_has data (offset + 0x03) (\<lambda>c. c = 0x4d)) (byte_has data (offset + 0x04) (\<lambda>c. c = 0x5a))))) (\<lambda>lznt1.
     rbind (and_then (byte_has data offset (\<lambda>c. c AND 0x0f \<noteq> 0))
       (and_then (byte_has data (offset + 0x26) (\<lambda>c. c AND 0xf0 \<noteq> 0))
       (and_then (byte_has data (offset + 0x2d) (\<lambda>c. c AND 0x0f \<noteq> 0))
       (and_then (is_empty_pgh data (offset - 0x10))
       (and_then (not_empty data (offset + 0x400)) (and_then (not_empty data (offset + 0x800)) (not_empty data (offset + 0xc00)))))))) (\<lambda>xca.
     Inr (if xca then Some XCA else if lznt1 then Some LZNT1 else None)))"

text \<open>
  The length of the decompressed image, if there is a candidate and it can be decompressed. The length is a signed 32-bit integer, and a
  negative one means failure.
\<close>

definition image_length :: "compression option \<Rightarrow> bytes \<Rightarrow> nat \<Rightarrow> nat \<Rightarrow> (compression \<times> nat) option result" where
  "image_length c data len offset =
     (case c of None \<Rightarrow> Inr None
      | Some d \<Rightarrow> (case decompressor d (drop offset data) ((len + (2 ^ 32 - offset)) mod 2 ^ 32) None of
            Inr (n, _) \<Rightarrow> Inr (if n mod 2 ^ 32 < 2 ^ 31 then Some (d, n mod 2 ^ 32) else None)
          | Inl Fail \<Rightarrow> Inr None
          | Inl e \<Rightarrow> Inl e))"

text \<open>
  The loop over the offsets. It yields the first offset at which an image decompresses, with its decompressor and its length. That the
  offset wraps around to zero is not followed further.
\<close>

function bootmgr_search :: "bytes \<Rightarrow> nat \<Rightarrow> nat \<Rightarrow> (nat \<times> compression \<times> nat) option result" where
  "bootmgr_search data len offset =
     (if offset < (len + (2 ^ 32 - BOOTMGR_MIN_LEN)) mod 2 ^ 32 then
        rbind (bootmgr_candidate data offset) (\<lambda>c.
        rbind (image_length c data len offset) (\<lambda>found.
        case found of Some (d, n) \<Rightarrow> Inr (Some (offset, d, n))
        | None \<Rightarrow> if offset + 8 < 2 ^ 32 then bootmgr_search data len (offset + 8) else Inl Fuel))
      else Inr None)"
  by auto
termination by (relation "measure (\<lambda>(data, len, offset). 2 ^ 32 - offset)") auto

declare bootmgr_search.simps [simp del]

definition page_align :: "nat \<Rightarrow> nat" where
  "page_align n = (n + PAGE_SIZE - 1) mod 2 ^ 32 div PAGE_SIZE * PAGE_SIZE"

text \<open>The image is decompressed to the end of the memory below the initrd, which it then belongs to.\<close>

definition add_bootmgr :: "bytes \<Rightarrow> nat \<Rightarrow> boot \<Rightarrow> (nat option \<times> boot) result" where
  "add_bootmgr data len b =
     rbind (bootmgr_search data len BOOTMGR_MIN_LEN) (\<lambda>found.
     case found of None \<Rightarrow> Inr (None, b)
     | Some (offset, d, decompressed_len) \<Rightarrow>
         let padded_len = page_align decompressed_len;
             start = length (bt_low b) - padded_len
         in if padded_len > length (bt_low b) then Inl Fault else
            let buf = drop start (bt_low b);
                out = (case decompressor d (drop offset data) ((len + (2 ^ 32 - offset)) mod 2 ^ 32) (Some buf) of
                    Inr (_, Some buf) \<Rightarrow> Inr buf | Inr (_, None) \<Rightarrow> Inl Fault | Inl Fail \<Rightarrow> Inr buf | Inl e \<Rightarrow> Inl e)
            in rbind out (\<lambda>buf.
               let b = b\<lparr>bt_low := take start (bt_low b), bt_initrd := buf @ bt_initrd b\<rparr>
               in rbind (vdisk_add_file (ascii ''bootmgr.exe'' @ [0]) (Data (bt_initrd b)) decompressed_len Read_file (boot_disk_of b)) (\<lambda>(idx, disk).
                  Inr (Some idx, set_disk disk b))))"

section \<open>Files of the initrd\<close>

text \<open>\<open>strcasecmp ( ( name + strlen ( name ) - 4 ), ".wim" )\<close>, for the name at an offset of its entry.\<close>

definition has_wim_suffix :: "bytes \<Rightarrow> nat \<Rightarrow> bool result" where
  "has_wim_suffix entry name =
     rbind (strlen (drop name entry)) (\<lambda>n.
     if name + n < 4 then Inl Fault
     else rbind (strcasecmp (drop (name + n - 4) entry) (ascii ''.wim'' @ [0])) (\<lambda>d. Inr (d = 0)))"

definition name_is :: "bytes \<Rightarrow> string \<Rightarrow> bool result" where
  "name_is name s = rbind (strcasecmp name (ascii s @ [0])) (\<lambda>d. Inr (d = 0))"

definition add_file :: "boot \<Rightarrow> bytes \<Rightarrow> nat \<Rightarrow> bytes \<Rightarrow> nat \<Rightarrow> boot result" where
  "add_file b entry name data len =
     rbind (vdisk_add_file (drop name entry) (Data data) len Read_file (boot_disk_of b)) (\<lambda>(file, disk).
     let b = set_disk disk b in
     rbind (name_is (drop name entry) ''bootmgr.exe'') (\<lambda>is_exe.
     if is_exe then Inr (b\<lparr>bt_bootmgr := Some file\<rparr>) else
     rbind (name_is (drop name entry) ''bootmgr'') (\<lambda>is_bootmgr.
     if is_bootmgr then
       (if bt_bootmgr b = None then rbind (add_bootmgr data len b) (\<lambda>(file, b). Inr (b\<lparr>bt_bootmgr := file\<rparr>)) else Inr b)
     else
       rbind (has_wim_suffix entry name) (\<lambda>is_wim. Inr (if is_wim then b\<lparr>bt_bootwim := Some file\<rparr> else b)))))"

text \<open>Extract the initrd; a failure ends in \<open>die()\<close>.\<close>

definition extract_initrd :: "nat \<Rightarrow> boot \<Rightarrow> boot result" where
  "extract_initrd fuel b = or_die (cpio_extract fuel (bt_initrd b) (length (bt_initrd b)) add_file b)"

section \<open>The image\<close>

text \<open>Run the patch method of the image, with the static variables of \<open>wim.c\<close> and \<open>wimpatch.c\<close>.\<close>

definition patch_bootwim :: "options \<Rightarrow> nat \<Rightarrow> boot \<Rightarrow> boot result" where
  "patch_bootwim opts f b =
     (case vdisk_patch_file (boot_patch 32 (ws_files (bt_wim b)) opts) f Patch_wim (boot_disk_of b)
         \<lparr>st_cache = ws_cache (bt_wim b), st_patch = bt_patch b\<rparr> of
        (Inl e, st) \<Rightarrow> Inl e
      | (Inr disk, st) \<Rightarrow> Inr (b\<lparr>bt_wim := (bt_wim b)\<lparr>ws_disk := disk, ws_cache := st_cache st\<rparr>, bt_patch := st_patch st\<rparr>))"

definition process_bootwim :: "options \<Rightarrow> boot \<Rightarrow> boot result" where
  "process_bootwim opts b =
     (case bt_bootwim b of None \<Rightarrow> Inr b
      | Some f \<Rightarrow>
          rbind (patch_bootwim opts f b) (\<lambda>b.
          rbind (if bt_bootmgr b = None then
              rbind (wim_add_file 32 f (cmdline_index opts) bootmgr_path (bt_wim b)) (\<lambda>(file, ws).
              Inr (b\<lparr>bt_wim := ws, bt_bootmgr := file\<rparr>))
            else Inr b) (\<lambda>b.
          rbind (wim_add_files 32 f (cmdline_index opts) wim_paths (bt_wim b)) (\<lambda>ws.
          Inr (b\<lparr>bt_wim := ws\<rparr>)))))"

text \<open>Up to the start of \<open>bootmgr.exe\<close>: it must exist.\<close>

definition boot_files :: "nat \<Rightarrow> options \<Rightarrow> boot \<Rightarrow> boot result" where
  "boot_files fuel opts b =
     rbind (extract_initrd fuel b) (\<lambda>b.
     rbind (process_bootwim opts b) (\<lambda>b.
     if bt_bootmgr b = None then Inl Died else Inr b))"

end
