(* ===== verification/Boot_Laws.thy ===== *)
theory Boot_Laws
  imports Boot_Files
begin

text \<open>
  What the extraction of the initrd leaves on the disk.
\<close>

section \<open>Names\<close>

definition fold_name :: "bytes \<Rightarrow> int list" where
  "fold_name name = map (\<lambda>c. toupper (sint c)) name"

definition exe_name :: "bytes \<Rightarrow> bool" where "exe_name name \<longleftrightarrow> fold_name name = fold_name (ascii ''bootmgr.exe'')"
definition bootmgr_name :: "bytes \<Rightarrow> bool" where "bootmgr_name name \<longleftrightarrow> fold_name name = fold_name (ascii ''bootmgr'')"
definition wim_name :: "bytes \<Rightarrow> bool" where
  "wim_name name \<longleftrightarrow> 4 \<le> length name \<and> fold_name (drop (length name - 4) name) = fold_name (ascii ''.wim'')"

lemma toupper_0: "toupper (sint c) = 0 \<longleftrightarrow> c = (0 :: u8)"
  by (auto simp: toupper_def islower_def)

lemma strcasecmp_fold:
  assumes "terminated str1" "terminated str2"
  shows "\<exists>d. strcasecmp str1 str2 = Inr d \<and> (d = 0 \<longleftrightarrow> fold_name (cstring str1) = fold_name (cstring str2))"
  using str_compare_equal [of "\<lambda>c :: u8. toupper (sint c)", OF toupper_0 assms] by (simp add: strcasecmp_def fold_name_def)

lemma name_is_name:
  assumes "0 \<notin> set name" "0 \<notin> set (ascii s)"
  shows "name_is (name @ 0 # zs) s = Inr (fold_name name = fold_name (ascii s))"
  using strcasecmp_fold [of "name @ 0 # zs" "ascii s @ [0]"] assms by (auto simp: name_is_def)

lemma names_0: "0 \<notin> set (ascii ''bootmgr.exe'')" "0 \<notin> set (ascii ''bootmgr'')" "0 \<notin> set (ascii ''.wim'')"
  by (simp_all add: ascii_def)

lemma wim_suffix:
  assumes "length hdr = 110" "drop 106 hdr = replicate 4 0x30" "0 \<notin> set name"
  shows "has_wim_suffix (hdr @ name @ 0 # zs) 110 = Inr (wim_name name)"
proof -
  let ?n = "length name"
  have len: "strlen (name @ 0 # zs) = Inr ?n" using assms(3) by (simp add: strlen_def str_length_terminated)
  define t where "t = drop (110 + ?n - 4) (hdr @ name)"
  have t: "t = (if 4 \<le> ?n then drop (?n - 4) name else replicate (4 - ?n) 0x30 @ name)"
  proof (cases "4 \<le> ?n")
    case False
    then have "drop (106 + ?n) hdr = drop ?n (drop 106 hdr)" by (simp add: add.commute)
    also have "\<dots> = replicate (4 - ?n) 0x30" unfolding assms(2) by simp
    finally show ?thesis using False assms(1) by (simp add: t_def add.commute)
  qed (use assms(1) in \<open>simp add: t_def\<close>)
  have "0 \<notin> set t" using assms(3) by (auto simp: t dest: in_set_dropD)
  moreover have "drop (110 + ?n - 4) (hdr @ name @ 0 # zs) = t @ 0 # zs" using assms(1) by (simp add: t_def)
  moreover have "fold_name t = fold_name (ascii ''.wim'') \<longleftrightarrow> wim_name name"
  proof (cases "4 \<le> ?n")
    case False
    then obtain m where "4 - ?n = Suc m" by (metis Suc_diff_Suc not_le)
    then have "fold_name t = 48 # fold_name (replicate m 0x30 @ name)" using False by (simp add: t fold_name_def toupper_def islower_def)
    moreover have "fold_name (ascii ''.wim'') = 46 # fold_name (ascii ''wim'')" by (simp add: fold_name_def ascii_def toupper_def islower_def)
    ultimately show ?thesis using False by (simp add: wim_name_def)
  qed (simp add: t wim_name_def)
  ultimately show ?thesis using strcasecmp_fold [of "t @ 0 # zs" "ascii ''.wim'' @ [0]"] names_0(3) len assms(1)
    by (auto simp: has_wim_suffix_def)
qed

section \<open>Files of an archive\<close>

text \<open>The virtual file of a file in memory.\<close>

definition memory_slot :: "bytes \<Rightarrow> bytes \<Rightarrow> nat \<Rightarrow> vfile" where
  "memory_slot name data len = (let n = take 31 name @ replicate (32 - min 31 (length name)) 0 in
     (vdisk_file_empty Null)\<lparr>vf_name := n, vf_filename := n, vf_opaque := Data data, vf_len := len, vf_xlen := len, vf_read := Some Read_file\<rparr>)"

lemma add_to_disk:
  assumes "length (vdisk_files d) = 63" "vdisk_index d < 63" "vdisk_files d ! vdisk_index d = vdisk_file_empty Null" "0 \<notin> set name"
  shows "vdisk_add_file (name @ 0 # zs) (Data data) len Read_file d =
    Inr (vdisk_index d, d\<lparr>vdisk_files := (vdisk_files d)[vdisk_index d := memory_slot name data len], vdisk_index := vdisk_index d + 1\<rparr>)"
proof -
  let ?n = "take 31 name @ replicate (32 - min 31 (length name)) 0"
  have "overlay 0 (take 31 name @ [0]) (replicate 32 0) = ?n"
    by (cases "length name \<le> 31") (simp_all add: overlay_0 flip: replicate_Suc, simp_all add: numeral_eq_Suc Suc_diff_le)
  then have "vdisk_set_name (vf_name (vdisk_files d ! vdisk_index d)) (name @ 0 # zs) = Inr ?n"
    using assms(3,4) by (simp add: vdisk_set_name_def vdisk_file_empty_def wr_bytes_def VDISK_NAME_LEN_def)
  with assms(2,3) show ?thesis
    by (simp add: vdisk_add_file_def Let_def VDISK_MAX_FILES_def VDISK_CLUSTER_COUNT_def memory_slot_def)
qed

lemma disk_set: "boot_disk_of (set_disk d b) = d" "bt_bootmgr (set_disk d b) = bt_bootmgr b" "bt_bootwim (set_disk d b) = bt_bootwim b"
  by (simp_all add: boot_disk_of_def set_disk_def)

lemma add_file_entry:
  assumes disk: "length (vdisk_files d) = 63" "vdisk_index d < 63" "vdisk_files d ! vdisk_index d = vdisk_file_empty Null" "boot_disk_of b = d"
    and name: "0 \<notin> set name" "\<not> bootmgr_name name" and entry: "entry = hdr @ name @ 0 # zs" "length hdr = 110" "drop 106 hdr = replicate 4 0x30"
  shows "add_file b entry 110 data len =
    Inr ((set_disk (d\<lparr>vdisk_files := (vdisk_files d)[vdisk_index d := memory_slot name data len], vdisk_index := vdisk_index d + 1\<rparr>) b)
      \<lparr>bt_bootmgr := (if exe_name name then Some (vdisk_index d) else bt_bootmgr b),
       bt_bootwim := (if wim_name name then Some (vdisk_index d) else bt_bootwim b)\<rparr>)"
proof -
  have d: "drop 110 entry = name @ 0 # zs" using entry by simp
  have "\<not> wim_name name" if "exe_name name"
  proof -
    have "fold_name (drop 7 name) = drop 7 (fold_name (ascii ''bootmgr.exe''))" using that by (simp add: exe_name_def fold_name_def flip: drop_map)
    moreover have "length name = 11" using that by (auto simp: exe_name_def fold_name_def ascii_def dest: map_eq_imp_length_eq)
    ultimately show ?thesis by (simp add: wim_name_def) (simp add: fold_name_def ascii_def toupper_def islower_def)
  qed
  then show ?thesis
    using wim_suffix [OF entry(2,3) name(1), of zs, folded entry(1)] name_is_name [OF name(1) names_0(1), of zs] name_is_name [OF name(1) names_0(2), of zs] name(2)
    by (auto simp: add_file_def d add_to_disk [OF disk(1-3) name(1)] disk(4) exe_name_def bootmgr_name_def set_disk_def)
qed

section \<open>Extraction\<close>

text \<open>The disk before a file is added: the slots from the index on are empty.\<close>

definition disk_free :: "disk \<Rightarrow> bool" where
  "disk_free d \<longleftrightarrow> length (vdisk_files d) = 63 \<and> vdisk_index d \<le> 63 \<and>
     (\<forall>k. vdisk_index d \<le> k \<longrightarrow> k < 63 \<longrightarrow> vdisk_files d ! k = vdisk_file_empty Null)"

text \<open>The file of an archive in its slot; the data may be followed by other data.\<close>

definition holds_file :: "vfile \<Rightarrow> bytes \<times> bytes \<Rightarrow> bool" where
  "holds_file vf = (\<lambda>(name, contents). \<exists>rest. vf = memory_slot name (contents @ rest) (length contents))"

text \<open>The index of the last file whose name has a property.\<close>

fun last_named :: "(bytes \<Rightarrow> bool) \<Rightarrow> nat \<Rightarrow> (bytes \<times> bytes) list \<Rightarrow> nat option \<Rightarrow> nat option" where
  "last_named p k [] found = found"
| "last_named p k ((name, contents) # files) found = last_named p (k + 1) files (if p name then Some k else found)"

definition names_ok :: "(bytes \<times> bytes) list \<Rightarrow> bool" where
  "names_ok fs \<longleftrightarrow> (\<forall>(name, contents) \<in> set fs. cpio_name_ok name \<and> \<not> bootmgr_name name)"

definition extracted :: "boot \<Rightarrow> (bytes \<times> bytes) list \<Rightarrow> boot \<Rightarrow> bool" where
  "extracted b fs b' \<longleftrightarrow> (\<exists>d'. disk_free d' \<and> vdisk_index d' = vdisk_index (boot_disk_of b) + length fs \<and>
     take (vdisk_index (boot_disk_of b)) (vdisk_files d') = take (vdisk_index (boot_disk_of b)) (vdisk_files (boot_disk_of b)) \<and>
     (\<forall>i < length fs. holds_file (vdisk_files d' ! (vdisk_index (boot_disk_of b) + i)) (fs ! i)) \<and>
     b' = (set_disk d' b)\<lparr>bt_bootmgr := last_named exe_name (vdisk_index (boot_disk_of b)) fs (bt_bootmgr b),
       bt_bootwim := last_named wim_name (vdisk_index (boot_disk_of b)) fs (bt_bootwim b)\<rparr>)"

lemma cpio_header_end: "drop 106 (cpio_header m n) = replicate 4 0x30"
proof -
  obtain A where A: "cpio_header m n = A @ hexfield 8 0" by (simp add: cpio_header_def)
  have "length A = 102" using A length_cpio_header [of m n] by simp
  moreover have "drop 4 (hexfield 8 0) = replicate 4 0x30" by code_simp
  ultimately show ?thesis by (simp add: A)
qed

lemma extract_archive:
  "length (cpio_archive fs) < 2 ^ 32 - 4 \<Longrightarrow> names_ok fs \<Longrightarrow> disk_free (boot_disk_of b) \<Longrightarrow> length fs < fuel \<Longrightarrow>
   (if vdisk_index (boot_disk_of b) + length fs \<le> 63
    then \<exists>b'. cpio_extract fuel (cpio_archive fs) (length (cpio_archive fs)) add_file b = Inr b' \<and> extracted b fs b'
    else cpio_extract fuel (cpio_archive fs) (length (cpio_archive fs)) add_file b = Inl Died)"
proof (induction fs arbitrary: fuel b)
  case Nil
  then obtain f where f: "fuel = Suc f" by (cases fuel) auto
  have "(set_disk (boot_disk_of b) b)\<lparr>bt_bootmgr := bt_bootmgr b, bt_bootwim := bt_bootwim b\<rparr> = b" by (simp add: set_disk_def boot_disk_of_def)
  then have "extracted b [] b" using Nil(3) by (auto simp: extracted_def intro!: exI [of _ "boot_disk_of b"])
  with Nil f cpio_step_any [of "butlast CPIO_TRAILER" "[]" "[]" f add_file b] show ?case
    by (simp add: cpio_archive_def CPIO_TRAILER_def disk_free_def)
next
  case (Cons entry fs)
  obtain name contents where entry: "entry = (name, contents)" by (cases entry)
  obtain f where f: "fuel = Suc f" "length fs < f" using Cons.prems(4) by (cases fuel) auto
  let ?d = "boot_disk_of b" and ?rest = "cpio_archive fs"
  have arch: "cpio_archive ((name, contents) # fs) = cpio_file (name, contents) @ ?rest"
    by (simp add: cpio_archive_def)
  have ok: "0 \<notin> set name" "name \<noteq> butlast CPIO_TRAILER" "\<not> bootmgr_name name" "names_ok fs"
    using Cons.prems(2) entry by (auto simp: cpio_name_ok_def names_ok_def)
  have len: "length (cpio_file (name, contents) @ ?rest) < 2 ^ 32 - 4" "length ?rest < 2 ^ 32 - 4" using Cons.prems(1) arch entry by simp_all
  have pad: "\<exists>zs. pad4 contents = contents @ zs" by (simp add: pad4_def)
  obtain zeros where zeros: "drop cpio_header_size (cpio_file (name, contents) @ ?rest) = name @ 0 # zeros"
    and step: "cpio_extract (Suc f) (cpio_file (name, contents) @ ?rest) (length (cpio_file (name, contents) @ ?rest)) add_file b =
      rbind (add_file b (cpio_file (name, contents) @ ?rest) 110 (pad4 contents @ ?rest) (length contents)) (\<lambda>s. cpio_extract f ?rest (length ?rest) add_file s)"
    using cpio_step_any [OF ok(1) len(1), of f add_file b] ok(2) by (auto simp: cpio_offsets)
  show ?case
  proof (cases "vdisk_index ?d < 63")
    case False
    then have "vdisk_add_file n (Data data) l Read_file ?d = Inl Died" for n data l
      by (simp add: vdisk_add_file_def VDISK_MAX_FILES_def VDISK_CLUSTER_COUNT_def)
    then show ?thesis using False unfolding entry arch f(1) step by (simp add: add_file_def)
  next
    case True
    define d where "d = ?d\<lparr>vdisk_files := (vdisk_files ?d)[vdisk_index ?d := memory_slot name (pad4 contents @ ?rest) (length contents)], vdisk_index := vdisk_index ?d + 1\<rparr>"
    define b1 where "b1 = (set_disk d b)\<lparr>bt_bootmgr := (if exe_name name then Some (vdisk_index ?d) else bt_bootmgr b),
       bt_bootwim := (if wim_name name then Some (vdisk_index ?d) else bt_bootwim b)\<rparr>"
    have "add_file b (cpio_file (name, contents) @ ?rest) 110 (pad4 contents @ ?rest) (length contents) = Inr b1"
    proof -
      have "drop 110 (cpio_file (name, contents) @ ?rest) = name @ 0 # zeros" using zeros by (simp add: cpio_offsets)
      then have "cpio_file (name, contents) @ ?rest = cpio_header (length name + 1) (length contents) @ name @ 0 # zeros"
        by (simp add: cpio_file_starts)
      then show ?thesis unfolding b1_def d_def using True Cons.prems(3) ok
        by (intro add_file_entry) (auto simp: disk_free_def cpio_header_end)
    qed
    moreover have free: "disk_free d" "boot_disk_of b1 = d" "vdisk_index d = vdisk_index ?d + 1"
      using True Cons.prems(3) by (auto simp: disk_free_def d_def b1_def set_disk_def boot_disk_of_def)
    moreover have "extracted b ((name, contents) # fs) b'" if e: "extracted b1 fs b'" for b'
    proof -
      let ?k = "vdisk_index ?d"
      obtain d' where d': "disk_free d'" "vdisk_index d' = ?k + 1 + length fs" "take (?k + 1) (vdisk_files d') = take (?k + 1) (vdisk_files d)"
        "\<forall>i < length fs. holds_file (vdisk_files d' ! (?k + 1 + i)) (fs ! i)"
        "b' = (set_disk d' b1)\<lparr>bt_bootmgr := last_named exe_name (?k + 1) fs (bt_bootmgr b1), bt_bootwim := last_named wim_name (?k + 1) fs (bt_bootwim b1)\<rparr>"
        using e unfolding extracted_def free by blast
      have k: "vdisk_files d' ! ?k = vdisk_files d ! ?k" using arg_cong [OF d'(3), of "\<lambda>xs. xs ! ?k"] by simp
      have "holds_file (vdisk_files d ! ?k) (name, contents)"
        using True Cons.prems(3) pad by (auto simp: d_def disk_free_def holds_file_def)
      then have "\<forall>i < length ((name, contents) # fs). holds_file (vdisk_files d' ! (?k + i)) (((name, contents) # fs) ! i)"
        using d'(4) k by (auto simp: less_Suc_eq_0_disj)
      moreover have "take ?k (vdisk_files d') = take ?k (vdisk_files ?d)"
        using arg_cong [OF d'(3), of "take ?k"] by (simp add: min_def d_def)
      moreover have "b' = (set_disk d' b)\<lparr>bt_bootmgr := last_named exe_name ?k ((name, contents) # fs) (bt_bootmgr b),
          bt_bootwim := last_named wim_name ?k ((name, contents) # fs) (bt_bootwim b)\<rparr>"
        using d'(5) by (simp add: b1_def set_disk_def)
      ultimately show ?thesis using d'(1,2) unfolding extracted_def by auto
    qed
    ultimately show ?thesis using Cons.IH [OF len(2) ok(4) _ f(2), of b1] unfolding entry arch f(1) step by auto
  qed
qed

end
