(* ===== verification/Boot_Theorems.thy ===== *)
theory Boot_Theorems
  imports Boot_Laws
begin

text \<open>
  Booting without an image: from the initrd to the files that a FAT driver finds on the disk.
\<close>

section \<open>The disk\<close>

text \<open>The disk and the static variables after the files have been added, as parameters of the disk laws.\<close>

definition boot_conf :: "options \<Rightarrow> nat \<Rightarrow> wim_header \<Rightarrow> wim_resource_header set \<Rightarrow> boot \<Rightarrow> boot_config" where
  "boot_conf opts f hdr R b = \<lparr>bc_w = 32, bc_wfiles = ws_files (bt_wim b), bc_opts = opts, bc_image = f, bc_header = hdr,
     bc_resources = R, bc_patch = bt_patch b\<rparr>"

definition boot_statics :: "boot \<Rightarrow> statics" where
  "boot_statics b = \<lparr>st_cache = ws_cache (bt_wim b), st_patch = bt_patch b\<rparr>"

abbreviation boot_vfiles :: "boot \<Rightarrow> vfile list" where
  "boot_vfiles b \<equiv> vdisk_files (boot_disk_of b)"

text \<open>The sectors that a reader of the disk gets.\<close>

definition boot_sectors :: "options \<Rightarrow> boot \<Rightarrow> nat \<Rightarrow> bytes" where
  "boot_sectors opts b = read_lba (boot_conf opts 0 wim_header_zero {} b) (boot_vfiles b) (boot_statics b)"

lemma memory_slot_simps:
  "vf_read (memory_slot name data len) = Some Read_file" "vf_patch (memory_slot name data len) = None" "vf_opaque (memory_slot name data len) = Data data"
  "vf_len (memory_slot name data len) = len" "vf_xlen (memory_slot name data len) = len"
  "vf_filename (memory_slot name data len) = take 31 name @ replicate (32 - min 31 (length name)) 0"
  by (simp_all add: memory_slot_def vdisk_file_empty_def Let_def)

lemma slot_name:
  assumes "0 \<notin> set name"
  shows "terminated (vf_filename (memory_slot name data len))" "cstring (vf_filename (memory_slot name data len)) = take 31 name"
proof -
  have "vf_filename (memory_slot name data len) = take 31 name @ 0 # replicate (31 - min 31 (length name)) 0"
    by (cases "length name \<le> 31") (simp_all add: memory_slot_simps flip: replicate_Suc, simp_all add: Suc_diff_le)
  moreover have "0 \<notin> set (take 31 name)" using assms by (auto dest: in_set_takeD)
  ultimately show "terminated (vf_filename (memory_slot name data len))" "cstring (vf_filename (memory_slot name data len)) = take 31 name"
    by simp_all
qed

text \<open>Every slot of the disk is empty or holds one of the files.\<close>

lemma extracted_slots:
  assumes "extracted (boot_initial low initrd) fs b" "k < 63"
  shows "boot_vfiles b ! k = vdisk_file_empty Null \<or> (k < length fs \<and> holds_file (boot_vfiles b ! k) (fs ! k))"
  using assms by (cases "k < length fs")
    (auto simp: extracted_def disk_free_def disk_set boot_initial_def boot_disk_of_def vdisk_initial_def set_disk_def not_less)

lemma extracted_disk:
  assumes "extracted (boot_initial low initrd) fs b" "names_ok fs" "\<forall>vf \<in> set (boot_vfiles b). vf_xlen vf < 2 ^ 32"
  shows "boot_valid (boot_conf opts 0 wim_header_zero {} b) (boot_vfiles b)"
    "boot_good (boot_conf opts 0 wim_header_zero {} b) (boot_vfiles b) (boot_statics b)"
proof -
  have len: "length (boot_vfiles b) = 63" using assms(1) by (auto simp: extracted_def disk_free_def disk_set set_disk_def boot_disk_of_def)
  have slot: "boot_vfiles b ! k = vdisk_file_empty Null \<or>
      (\<exists>name data len. boot_vfiles b ! k = memory_slot name data len \<and> len \<le> length data \<and> 0 \<notin> set name)" if "k < 63" for k
  proof (cases "boot_vfiles b ! k = vdisk_file_empty Null")
    case False
    then have k: "k < length fs" "holds_file (boot_vfiles b ! k) (fs ! k)" using extracted_slots [OF assms(1) that] by auto
    obtain name contents where e: "fs ! k = (name, contents)" by (cases "fs ! k")
    then have "0 \<notin> set name" using assms(2) nth_mem [OF k(1)] by (auto simp: names_ok_def cpio_name_ok_def)
    with k(2) e show ?thesis by (fastforce simp: holds_file_def)
  qed simp
  have "disk_files_ok (boot_vfiles b)"
    unfolding disk_files_ok_def
  proof (intro conjI ballI impI)
    fix vf assume "vf \<in> set (boot_vfiles b)" "vf_read vf \<noteq> None"
    then obtain k where "k < 63" "vf = boot_vfiles b ! k" by (auto simp: in_set_conv_nth len)
    with slot [of k] \<open>vf_read vf \<noteq> None\<close> show "terminated (vf_filename vf)" "length (cstring (vf_filename vf)) \<le> 31"
      by (auto simp: vdisk_file_empty_def slot_name)
  qed (rule len)
  moreover have "vfile_ok 32 wf (boot_vfiles b) 0 wim_header_zero {} k" "vf_xlen (boot_vfiles b ! k) = vf_len (boot_vfiles b ! k)"
    "vf_patch (boot_vfiles b ! k) = None" if "k < 63" for k wf
  proof -
    have "vf_xlen (boot_vfiles b ! k) < 2 ^ 32" using assms(3) that len by simp
    with slot [OF that] show "vfile_ok 32 wf (boot_vfiles b) 0 wim_header_zero {} k" for wf
      by (auto simp: vfile_ok_def vdisk_file_empty_def memory_slot_simps memory_file_def)
  qed (use slot [OF that] in \<open>auto simp: vdisk_file_empty_def memory_slot_simps\<close>)
  ultimately show "boot_valid (boot_conf opts 0 wim_header_zero {} b) (boot_vfiles b)"
    by (simp add: boot_valid_def boot_conf_def resources_ok_def patched_def)
  have "ws_cache (bt_wim b) = wim_cache_initial"
    using assms(1) by (auto simp: extracted_def set_disk_def boot_initial_def)
  then show "boot_good (boot_conf opts 0 wim_header_zero {} b) (boot_vfiles b) (boot_statics b)"
    by (simp add: boot_good_def cache_good_def boot_conf_def boot_statics_def cache_ok_initial)
qed

lemma archive_contents_small: "(name, contents) \<in> set fs \<Longrightarrow> length contents \<le> length (cpio_archive fs)"
  by (induction fs) (auto simp: cpio_archive_def cpio_file_def pad4_def)

lemma extracted_small:
  assumes "extracted (boot_initial low (cpio_archive fs)) fs b" "length (cpio_archive fs) < 2 ^ 32 - 4"
  shows "\<forall>vf \<in> set (boot_vfiles b). vf_xlen vf < 2 ^ 32"
proof
  fix vf assume vf: "vf \<in> set (boot_vfiles b)"
  have "length (boot_vfiles b) = 63" using assms(1) by (auto simp: extracted_def disk_free_def disk_set set_disk_def boot_disk_of_def)
  with vf obtain k where k: "k < 63" "vf = boot_vfiles b ! k" by (auto simp: in_set_conv_nth)
  show "vf_xlen vf < 2 ^ 32"
  proof (cases "vf = vdisk_file_empty Null")
    case False
    then have h: "k < length fs" "holds_file vf (fs ! k)" using extracted_slots [OF assms(1) k(1)] k(2) by auto
    obtain name contents where e: "fs ! k = (name, contents)" by (cases "fs ! k")
    then have "length contents < 2 ^ 32" using archive_contents_small [of name contents fs] nth_mem [OF h(1)] assms(2) by simp
    with h(2) e show ?thesis by (auto simp: holds_file_def memory_slot_simps)
  qed (simp add: vdisk_file_empty_def)
qed

section \<open>The files\<close>

lemma last_named_found:
  "last_named p k fs found \<noteq> None \<longleftrightarrow> found \<noteq> None \<or> (\<exists>(name, contents) \<in> set fs. p name)"
  by (induction p k fs found rule: last_named.induct) auto

text \<open>The files are extracted, and no image is patched.\<close>

lemma boot_files_extracted:
  assumes "names_ok fs" "\<forall>(name, contents) \<in> set fs. \<not> wim_name name" "\<exists>(name, contents) \<in> set fs. exe_name name"
    "length fs \<le> 63" "length (cpio_archive fs) < 2 ^ 32 - 4" "length fs < fuel"
  shows "\<exists>b. boot_files fuel opts (boot_initial low (cpio_archive fs)) = Inr b \<and> extracted (boot_initial low (cpio_archive fs)) fs b"
proof -
  let ?b = "boot_initial low (cpio_archive fs)"
  have d: "disk_free (boot_disk_of ?b)" "vdisk_index (boot_disk_of ?b) = 0"
    by (simp_all add: disk_free_def boot_disk_of_def boot_initial_def vdisk_initial_def vdisk_numbers)
  from extract_archive [OF assms(5,1) d(1) assms(6)] assms(4) d(2) obtain b where
    b: "cpio_extract fuel (cpio_archive fs) (length (cpio_archive fs)) add_file ?b = Inr b" "extracted ?b fs b" by auto
  have "bt_bootwim b = last_named wim_name 0 fs None" "bt_bootmgr b = last_named exe_name 0 fs None"
    using b(2) d(2) by (auto simp: extracted_def boot_initial_def)
  then have "bt_bootwim b = None" "bt_bootmgr b \<noteq> None"
    using assms(2,3) last_named_found [of wim_name 0 fs None] last_named_found [of exe_name 0 fs None] by auto
  moreover have "bt_initrd ?b = cpio_archive fs" by (simp add: boot_initial_def)
  ultimately show ?thesis using b by (simp add: boot_files_def extract_initrd_def or_die_def process_bootwim_def)
qed

text \<open>An initrd with two files.\<close>

definition example_initrd :: "(bytes \<times> bytes) list" where
  "example_initrd = [(ascii ''BootMgr.exe'', [0x4d, 0x5a]), (ascii ''BCD'', [1, 2, 3])]"

lemma example_initrd_ok:
  "names_ok example_initrd" "\<forall>(name, contents) \<in> set example_initrd. \<not> wim_name name"
  "\<exists>(name, contents) \<in> set example_initrd. exe_name name" "length example_initrd \<le> 63"
  "length (cpio_archive example_initrd) < 2 ^ 32 - 4" "length example_initrd < 3"
proof -
  show "names_ok example_initrd" unfolding names_ok_def example_initrd_def by (simp, code_simp)
  show "\<forall>(name, contents) \<in> set example_initrd. \<not> wim_name name" unfolding example_initrd_def by (simp, code_simp)
  have "exe_name (ascii ''BootMgr.exe'')" by code_simp
  then show "\<exists>(name, contents) \<in> set example_initrd. exe_name name" by (simp add: example_initrd_def)
  show "length (cpio_archive example_initrd) < 2 ^ 32 - 4"
    by (simp add: cpio_archive_def cpio_file_def pad4_def example_initrd_def CPIO_TRAILER_def ascii_def)
qed (simp_all add: example_initrd_def)

text \<open>
  C1: An initrd with at most 63 files, among them bootmgr.exe and no image, boots: a FAT driver that reads the sectors of the disk
  afterwards can mount the volume, and in every directory it finds every file of the initrd that is not empty, under its
  name (cut to 31 characters) and with its contents.
\<close>

theorem boot_disk_of_archive:
  assumes "names_ok fs" "\<forall>(name, contents) \<in> set fs. \<not> wim_name name" "\<exists>(name, contents) \<in> set fs. exe_name name"
    and "length fs \<le> 63" "length (cpio_archive fs) < 2 ^ 32 - 4" "length fs < fuel"
    and "2 \<le> d" "d < 9" "(name, contents) \<in> set fs" "contents \<noteq> []"
  shows "\<exists>b files attr cluster len. boot_files fuel opts (boot_initial low (cpio_archive fs)) = Inr b
    \<and> mount (boot_sectors opts b) VDISK_VBR_LBA = Inr vdisk_volume \<and> fat_directory (boot_sectors opts b) vdisk_volume d = Inr files
    \<and> (wide (take 31 name), attr, cluster, len) \<in> set files \<and> fat_contents (boot_sectors opts b) vdisk_volume cluster len = Inr contents"
proof -
  let ?c = "boot_conf opts 0 wim_header_zero {}"
  obtain b where run: "boot_files fuel opts (boot_initial low (cpio_archive fs)) = Inr b"
    and b: "extracted (boot_initial low (cpio_archive fs)) fs b"
    using boot_files_extracted [OF assms(1-6)] by blast
  have small: "\<forall>vf \<in> set (boot_vfiles b). vf_xlen vf < 2 ^ 32" by (rule extracted_small [OF b assms(5)])
  note disk = extracted_disk [OF b assms(1) small, of opts]
  obtain k where k: "k < length fs" "fs ! k = (name, contents)" using assms(9) by (meson in_set_conv_nth)
  have k63: "k < 63" using k(1) assms(4) by simp
  have 0: "0 \<notin> set name" using assms(1,9) by (auto simp: names_ok_def cpio_name_ok_def)
  obtain rest where vf: "boot_vfiles b ! k = memory_slot name (contents @ rest) (length contents)"
    using b k by (auto simp: extracted_def holds_file_def disk_set boot_initial_def boot_disk_of_def vdisk_initial_def set_disk_def)
  have img: "boot_image (?c b) (boot_vfiles b) k = contents"
    by (simp add: boot_image_def boot_content_def patched_def vf memory_slot_simps vcontent_def)
  obtain attr cluster len where e: "(wide (take 31 name), attr, cluster, len) \<in> set (listing (boot_vfiles b) d)"
    "fat_contents (boot_sectors opts b) vdisk_volume cluster len = Inr contents"
    using driver_contents [OF disk _ small assms(7,8), of k] k63 img assms(10) slot_name(2) [OF 0]
    by (auto simp: vf memory_slot_simps boot_conf_def boot_sectors_def vdisk_numbers)
  have "mount (boot_sectors opts b) VDISK_VBR_LBA = Inr vdisk_volume
      \<and> fat_directory (boot_sectors opts b) vdisk_volume d = Inr (listing (boot_vfiles b) d)"
    using driver_directories [OF disk _ assms(7,8)] by (simp add: boot_sectors_def boot_conf_def)
  with run e show ?thesis by blast
qed

theorem boot_disk_of_archive_witness:
  "\<exists>b files attr cluster len. boot_files 3 cmdline_initial (boot_initial [] (cpio_archive example_initrd)) = Inr b
    \<and> mount (boot_sectors cmdline_initial b) VDISK_VBR_LBA = Inr vdisk_volume \<and> fat_directory (boot_sectors cmdline_initial b) vdisk_volume 4 = Inr files
    \<and> (wide (take 31 (ascii ''BCD'')), attr, cluster, len) \<in> set files \<and> fat_contents (boot_sectors cmdline_initial b) vdisk_volume cluster len = Inr [1, 2, 3]"
  by (rule boot_disk_of_archive [OF example_initrd_ok]) (simp_all add: example_initrd_def)

text \<open>
  An initrd with more files than the disk has slots ends in \<open>die()\<close>; no file is lost silently.
\<close>

theorem boot_too_many_files:
  assumes "names_ok fs" "63 < length fs" "length (cpio_archive fs) < 2 ^ 32 - 4" "length fs < fuel"
  shows "boot_files fuel opts (boot_initial low (cpio_archive fs)) = Inl Died"
proof -
  let ?b = "boot_initial low (cpio_archive fs)"
  have d: "disk_free (boot_disk_of ?b)" "vdisk_index (boot_disk_of ?b) = 0"
    by (simp_all add: disk_free_def boot_disk_of_def boot_initial_def vdisk_initial_def vdisk_numbers)
  have "bt_initrd ?b = cpio_archive fs" by (simp add: boot_initial_def)
  with extract_archive [OF assms(3,1) d(1) assms(4)] assms(2) d(2) show ?thesis
    by (simp add: boot_files_def extract_initrd_def or_die_def)
qed

theorem boot_too_many_files_witness:
  "boot_files 65 cmdline_initial (boot_initial [] (cpio_archive (replicate 64 (ascii ''a'', [])))) = Inl Died"
proof (rule boot_too_many_files)
  show "names_ok (replicate 64 (ascii ''a'', []))" unfolding names_ok_def by (simp, code_simp)
  show "length (cpio_archive (replicate 64 (ascii ''a'', []))) < 2 ^ 32 - 4"
    by (simp add: cpio_archive_def cpio_file_def pad4_def CPIO_TRAILER_def ascii_def length_concat sum_list_replicate)
qed simp_all

end
