(* ===== verification/Boot_Search.thy ===== *)
theory Boot_Search
  imports Boot_Laws
begin

text \<open>
  The search for the compressed \<open>bootmgr.exe\<close> within \<open>bootmgr\<close>.
\<close>

lemma rd32_within: "i + 4 \<le> length data \<Longrightarrow> \<exists>c. rd32 data i = Inr c"
  by (simp add: rd32_def rd16_def rd8_def)

lemma and_then_returns: "\<exists>x. a = Inr x \<Longrightarrow> \<exists>x. b = Inr x \<Longrightarrow> \<exists>x. and_then a b = Inr x"
  by (auto simp: and_then_def)

lemma byte_has_returns: "i < length data \<Longrightarrow> \<exists>x. byte_has data i p = Inr x"
  by (simp add: byte_has_def rd8_def)

lemma empty_pgh_returns: "i + 16 \<le> length data \<Longrightarrow> \<exists>x. is_empty_pgh data i = Inr x"
  using rd32_within [of i data] rd32_within [of "i + 4" data] rd32_within [of "i + 8" data] rd32_within [of "i + 12" data]
  by (auto simp: is_empty_pgh_def simp del: rbind_assoc)

lemma not_empty_returns: "i + 16 \<le> length data \<Longrightarrow> \<exists>x. not_empty data i = Inr x"
  by (drule empty_pgh_returns) (auto simp: not_empty_def)

lemma candidate_returns:
  assumes "16 \<le> offset" "offset + 0xc10 \<le> length data"
  shows "\<exists>c. bootmgr_candidate data offset = Inr c"
proof -
  have "\<exists>x. and_then (Inr (offset mod 16 = 0)) (and_then (byte_has data (offset + 0x02) (\<lambda>c. c AND 0x03 = 0))
       (and_then (byte_has data (offset + 0x03) (\<lambda>c. c = 0x4d)) (byte_has data (offset + 0x04) (\<lambda>c. c = 0x5a)))) = Inr x"
    using assms by (intro and_then_returns byte_has_returns) auto
  moreover have "\<exists>x. and_then (byte_has data offset (\<lambda>c. c AND 0x0f \<noteq> 0))
       (and_then (byte_has data (offset + 0x26) (\<lambda>c. c AND 0xf0 \<noteq> 0))
       (and_then (byte_has data (offset + 0x2d) (\<lambda>c. c AND 0x0f \<noteq> 0))
       (and_then (is_empty_pgh data (offset - 0x10))
       (and_then (not_empty data (offset + 0x400)) (and_then (not_empty data (offset + 0x800)) (not_empty data (offset + 0xc00))))))) = Inr x"
    using assms by (intro and_then_returns byte_has_returns empty_pgh_returns not_empty_returns) auto
  ultimately show ?thesis unfolding bootmgr_candidate_def by (elim exE) simp
qed

lemma xca_clean: "len + 11 \<le> length data \<Longrightarrow> clean (xca_decompress data len None)"
  unfolding xca_decompress_def
  by (rule xca_loop_clean) (auto simp: xca_inv_def xca_start_def xca_used_def xca_consts)

lemma image_length_returns:
  assumes "len + 4096 \<le> length data" "offset \<le> len" "len < 2 ^ 32"
  shows "\<exists>r. image_length c data len offset = Inr r"
proof (cases c)
  case (Some d)
  have len: "(len + (2 ^ 32 - offset)) mod 2 ^ 32 = len - offset" using assms(2,3) by (simp add: mod_if)
  have "clean (decompressor d (drop offset data) (len - offset) None)"
    using assms(1,2) xca_clean [of "len - offset" "drop offset data"] by (cases d) (auto intro!: lznt1_blocks_clean simp: lznt1_decompress_def)
  then show ?thesis
    unfolding image_length_def Some option.case len clean_def by (auto split: sum.splits error.splits)
qed (simp add: image_length_def)

text \<open>The loop, within a file that is large enough.\<close>

lemma bootmgr_search_within:
  assumes "BOOTMGR_MIN_LEN \<le> len" "len + 4096 \<le> length data" "len < 2 ^ 32"
  shows "16 \<le> offset \<Longrightarrow> \<exists>found. bootmgr_search data len offset = Inr found"
proof (induction "2 ^ 32 - offset" arbitrary: offset rule: less_induct)
  case less
  have bound: "(len + (2 ^ 32 - BOOTMGR_MIN_LEN)) mod 2 ^ 32 = len - BOOTMGR_MIN_LEN"
    using assms(1,3) by (simp add: BOOTMGR_MIN_LEN_def mod_if)
  show ?case
  proof (cases "offset < len - BOOTMGR_MIN_LEN")
    case True
    then have off: "offset \<le> len" "offset + 0xc10 \<le> length data" "offset + 8 < 2 ^ 32"
      using assms by (simp_all add: BOOTMGR_MIN_LEN_def)
    obtain c where c: "bootmgr_candidate data offset = Inr c" using candidate_returns [OF less.prems off(2)] by blast
    obtain r where r: "image_length c data len offset = Inr r" using image_length_returns [OF assms(2) off(1) assms(3)] by blast
    have "2 ^ 32 - (offset + 8) < 2 ^ 32 - offset" using off(3) by linarith
    then obtain found where "bootmgr_search data len (offset + 8) = Inr found"
      using less.hyps [of "offset + 8"] less.prems by auto
    with c r True off(3) show ?thesis
      by (subst bootmgr_search.simps) (cases r, simp_all only: bound if_True rbind_Inr option.case, auto)
  next
    case False
    then show ?thesis by (subst bootmgr_search.simps) (simp only: bound if_False, blast)
  qed
qed

text \<open>A file that is too short: the bound of the loop wraps around.\<close>

lemma bootmgr_search_short:
  assumes "len < BOOTMGR_MIN_LEN" "length data \<le> BOOTMGR_MIN_LEN"
  shows "bootmgr_search data len BOOTMGR_MIN_LEN = Inl Fault"
proof -
  have "BOOTMGR_MIN_LEN < (len + (2 ^ 32 - BOOTMGR_MIN_LEN)) mod 2 ^ 32" using assms(1) by (simp add: BOOTMGR_MIN_LEN_def)
  moreover have "bootmgr_candidate data BOOTMGR_MIN_LEN = Inl Fault"
    using assms(2) by (simp add: bootmgr_candidate_def and_then_def byte_has_def rd8_def BOOTMGR_MIN_LEN_def)
  ultimately show ?thesis by (subst bootmgr_search.simps) (simp only: if_True rbind_Inl)
qed

text \<open>
  C15: For a bootmgr of at least 16384 bytes, the search for the compressed bootmgr.exe terminates and stays within the file
  and the 4096 bytes after it, whatever the file contains: it finds an image or finds that there is none.
  Shorter files are searched beyond their end.
\<close>

theorem bootmgr_search_ends:
  assumes "BOOTMGR_MIN_LEN \<le> len" "len + 4096 \<le> length data" "len < 2 ^ 32"
  shows "\<exists>found. bootmgr_search data len BOOTMGR_MIN_LEN = Inr found"
  using bootmgr_search_within [OF assms, of BOOTMGR_MIN_LEN] by (simp add: BOOTMGR_MIN_LEN_def)

theorem bootmgr_search_ends_witness:
  "\<exists>found. bootmgr_search (replicate 44096 0x4d) 40000 BOOTMGR_MIN_LEN = Inr found"
  by (rule bootmgr_search_ends) (simp_all add: BOOTMGR_MIN_LEN_def)

text \<open>
  C35: For a shorter bootmgr the bound of the search wraps around, and the search reads beyond the file, and beyond the memory when
  the initrd is at its end.
\<close>

theorem short_bootmgr_overruns:
  assumes "len < BOOTMGR_MIN_LEN" "length data \<le> BOOTMGR_MIN_LEN"
  shows "add_bootmgr data len b = Inl Fault"
  by (simp add: add_bootmgr_def bootmgr_search_short [OF assms])

theorem short_bootmgr_overruns_witness:
  "add_bootmgr (replicate 100 0x4d) 100 (boot_initial [] (cpio_archive [])) = Inl Fault"
  by (rule short_bootmgr_overruns) (simp_all add: BOOTMGR_MIN_LEN_def)

end
