(* ===== verification/Boot_Invariant.thy ===== *)
theory Boot_Invariant
  imports Boot_Theorems
begin

text \<open>
  The well-formedness of the state of the loader, which every operation on the files keeps, whatever the initrd and the image contain.
\<close>

section \<open>The invariant\<close>

text \<open>A file in memory, which an image can be.\<close>

definition in_memory :: "wim_state \<Rightarrow> nat \<Rightarrow> bool" where
  "in_memory ws f \<longleftrightarrow> f < vdisk_index (ws_disk ws) \<and> vf_read (vdisk_files (ws_disk ws) ! f) = Some Read_file"

text \<open>The read method and the private pointer of a file belong together; the image of a WIM file is a file in memory.\<close>

definition method_ok :: "wim_state \<Rightarrow> reader option \<Rightarrow> opaque \<Rightarrow> bool" where
  "method_ok ws r p \<longleftrightarrow> (case (r, p) of (Some Read_file, Data _) \<Rightarrow> True
    | (Some Wim_read_file, Wim_entry i) \<Rightarrow> i < ws_index ws \<and> in_memory ws (wf_file (ws_files ws ! i)) | _ \<Rightarrow> False)"

definition slot_ok :: "wim_state \<Rightarrow> vfile \<Rightarrow> bool" where
  "slot_ok ws vf \<longleftrightarrow> terminated (vf_filename vf) \<and> length (cstring (vf_filename vf)) \<le> 31 \<and> method_ok ws (vf_read vf) (vf_opaque vf)"

definition wim_state_ok :: "wim_state \<Rightarrow> bool" where
  "wim_state_ok ws \<longleftrightarrow> length (vdisk_files (ws_disk ws)) = 63 \<and> vdisk_index (ws_disk ws) \<le> 63 \<and>
     length (ws_files ws) = WIM_MAX_FILES \<and> ws_index ws \<le> WIM_MAX_FILES \<and>
     (\<forall>k < vdisk_index (ws_disk ws). slot_ok ws (vdisk_files (ws_disk ws) ! k)) \<and>
     (\<forall>k < 63. vdisk_index (ws_disk ws) \<le> k \<longrightarrow> vdisk_files (ws_disk ws) ! k = vdisk_file_empty Null)"

definition boot_ok :: "boot \<Rightarrow> bool" where
  "boot_ok b \<longleftrightarrow> wim_state_ok (bt_wim b) \<and> (\<forall>f. bt_bootmgr b = Some f \<longrightarrow> f < vdisk_index (boot_disk_of b)) \<and>
     (\<forall>f. bt_bootwim b = Some f \<longrightarrow> in_memory (bt_wim b) f)"

lemma boot_ok_initial: "boot_ok (boot_initial low initrd)"
  by (simp add: boot_ok_def boot_initial_def wim_state_ok_def vdisk_initial_def boot_disk_of_def vdisk_numbers)

section \<open>Adding a file\<close>

text \<open>The state keeps its files and has a new one.\<close>

definition grown :: "wim_state \<Rightarrow> wim_state \<Rightarrow> bool" where
  "grown ws ws' \<longleftrightarrow> vdisk_index (ws_disk ws) \<le> vdisk_index (ws_disk ws') \<and> ws_index ws \<le> ws_index ws' \<and>
     (\<forall>f < vdisk_index (ws_disk ws). vf_read (vdisk_files (ws_disk ws') ! f) = vf_read (vdisk_files (ws_disk ws) ! f)) \<and>
     (\<forall>i < ws_index ws. wf_file (ws_files ws' ! i) = wf_file (ws_files ws ! i))"

lemma grown_refl: "grown ws ws"
  by (simp add: grown_def)

lemma grown_in_memory: "grown ws ws' \<Longrightarrow> in_memory ws f \<Longrightarrow> in_memory ws' f"
  by (auto simp: grown_def in_memory_def)

lemma grown_method: "grown ws ws' \<Longrightarrow> method_ok ws r p \<Longrightarrow> method_ok ws' r p"
  using grown_in_memory [of ws ws'] by (auto simp: method_ok_def grown_def split: option.splits reader.splits opaque.splits)

lemma set_name_ok:
  assumes "vdisk_set_name (replicate 32 0) name = Inr n"
  shows "terminated n" "length (cstring n) \<le> 31"
proof -
  let ?t = "take 31 (cstring name)"
  have n: "n = ?t @ 0 # drop (length ?t + 1) (replicate 32 0)"
    using assms by (auto simp: vdisk_set_name_def wr_bytes_def overlay_0 VDISK_NAME_LEN_def split: if_splits)
  have "0 \<notin> set ?t" by (auto simp: cstring_def dest!: in_set_takeD set_takeWhileD)
  then show "terminated n" "length (cstring n) \<le> 31" unfolding n by simp_all
qed

lemma add_file_grown:
  assumes "wim_state_ok ws" "vdisk_add_file name p len r (ws_disk ws) = Inr (idx, d)"
    and "method_ok ws (Some r) p"
  shows "wim_state_ok (ws\<lparr>ws_disk := d\<rparr>)" "grown ws (ws\<lparr>ws_disk := d\<rparr>)" "idx < vdisk_index d" "vf_read (vdisk_files d ! idx) = Some r"
proof -
  let ?v = "ws_disk ws"
  have ok: "length (vdisk_files ?v) = 63" "vdisk_index ?v < 63" using assms(1,2)
    by (auto simp: wim_state_ok_def vdisk_add_file_def Let_def VDISK_MAX_FILES_def VDISK_CLUSTER_COUNT_def split: if_splits)
  have "vdisk_files ?v ! vdisk_index ?v = vdisk_file_empty Null" using assms(1) ok by (auto simp: wim_state_ok_def)
  then obtain n where n: "vdisk_set_name (replicate 32 0) name = Inr n"
    and d: "idx = vdisk_index ?v" "d = ?v\<lparr>vdisk_files := (vdisk_files ?v)[vdisk_index ?v := (vdisk_file_empty Null)
      \<lparr>vf_name := n, vf_filename := n, vf_opaque := p, vf_len := len, vf_xlen := len, vf_read := Some r\<rparr>], vdisk_index := vdisk_index ?v + 1\<rparr>"
    using assms(2) ok(2) by (auto simp: vdisk_add_file_def Let_def VDISK_MAX_FILES_def VDISK_CLUSTER_COUNT_def vdisk_file_empty_def
        VDISK_NAME_LEN_def rbind_eq_Inr)
  show g: "grown ws (ws\<lparr>ws_disk := d\<rparr>)" by (simp add: grown_def d)
  show "idx < vdisk_index d" "vf_read (vdisk_files d ! idx) = Some r" using ok by (simp_all add: d)
  have "slot_ok (ws\<lparr>ws_disk := d\<rparr>) (vdisk_files d ! k)" if "k < vdisk_index d" for k
  proof (cases "k = vdisk_index ?v")
    case True
    then show ?thesis using set_name_ok [OF n] grown_method [OF g assms(3)] ok by (simp add: slot_ok_def d)
  next
    case False
    then have k: "k < vdisk_index ?v" "vdisk_files d ! k = vdisk_files ?v ! k" using that by (simp_all add: d)
    then have "slot_ok ws (vdisk_files ?v ! k)" using assms(1) by (simp add: wim_state_ok_def)
    with grown_method [OF g] show ?thesis by (simp add: slot_ok_def k(2))
  qed
  with assms(1) ok show "wim_state_ok (ws\<lparr>ws_disk := d\<rparr>)" by (auto simp: wim_state_ok_def) (simp_all add: d)
qed

section \<open>The initrd\<close>

lemma boot_grown: "wim_state_ok ws \<Longrightarrow> grown (bt_wim b) ws \<Longrightarrow> boot_ok b \<Longrightarrow> boot_ok (b\<lparr>bt_wim := ws\<rparr>)"
  using grown_in_memory [of "bt_wim b" ws] by (auto simp: boot_ok_def grown_def boot_disk_of_def)

lemma data_added:
  assumes "boot_ok b" "vdisk_add_file name (Data data) len Read_file (boot_disk_of b) = Inr (idx, d)"
  shows "boot_ok (set_disk d b)" "idx < vdisk_index d" "in_memory (bt_wim (set_disk d b)) idx"
proof -
  have ws: "wim_state_ok (bt_wim b)" using assms(1) by (simp add: boot_ok_def)
  note add = add_file_grown [OF ws assms(2) [unfolded boot_disk_of_def]]
  have m: "method_ok (bt_wim b) (Some Read_file) (Data data)" by (simp add: method_ok_def)
  from boot_grown [OF add(1,2) assms(1)] m show "boot_ok (set_disk d b)" by (simp add: set_disk_def)
  show "idx < vdisk_index d" "in_memory (bt_wim (set_disk d b)) idx" using add(3,4) [OF m] by (simp_all add: in_memory_def set_disk_def)
qed

lemma boot_ok_low: "boot_ok (b\<lparr>bt_low := x, bt_initrd := y\<rparr>) = boot_ok b"
  by (simp add: boot_ok_def boot_disk_of_def)

lemma boot_ok_bootmgr: "boot_ok b \<Longrightarrow> \<forall>i. f = Some i \<longrightarrow> i < vdisk_index (boot_disk_of b) \<Longrightarrow> boot_ok (b\<lparr>bt_bootmgr := f\<rparr>)"
  by (simp add: boot_ok_def boot_disk_of_def)

lemma boot_ok_bootwim: "boot_ok b \<Longrightarrow> in_memory (bt_wim b) f \<Longrightarrow> boot_ok (b\<lparr>bt_bootwim := Some f\<rparr>)"
  by (simp add: boot_ok_def boot_disk_of_def)

lemma rbind_InrE: "rbind r f = Inr y \<Longrightarrow> (\<And>x. r = Inr x \<Longrightarrow> f x = Inr y \<Longrightarrow> P) \<Longrightarrow> P"
  by (auto simp: rbind_eq_Inr)

lemma add_bootmgr_ok:
  assumes "boot_ok b" "add_bootmgr data len b = Inr (f, b')"
  shows "boot_ok b' \<and> (\<forall>i. f = Some i \<longrightarrow> i < vdisk_index (boot_disk_of b'))"
proof -
  obtain found where found: "bootmgr_search data len BOOTMGR_MIN_LEN = Inr found"
    using assms(2) by (auto simp: add_bootmgr_def rbind_eq_Inr)
  show ?thesis
  proof (cases found)
    case None
    with found assms show ?thesis by (auto simp: add_bootmgr_def)
  next
    case (Some t)
    obtain offset c n where t: "t = (offset, c, n)" by (cases t)
    obtain low data' idx d where d: "vdisk_add_file (ascii ''bootmgr.exe'' @ [0]) (Data data') n Read_file (boot_disk_of (b\<lparr>bt_low := low, bt_initrd := data'\<rparr>)) = Inr (idx, d)"
      "f = Some idx" "b' = set_disk d (b\<lparr>bt_low := low, bt_initrd := data'\<rparr>)"
      using assms(2) unfolding add_bootmgr_def found rbind_Inr Some t option.case prod.case Let_def
      by (auto elim!: rbind_InrE split: if_split_asm)
    have "boot_ok (b\<lparr>bt_low := low, bt_initrd := data'\<rparr>)" using assms(1) by (simp add: boot_ok_low)
    from data_added [OF this d(1)] d(2,3) show ?thesis by (simp add: disk_set)
  qed
qed

lemma add_file_ok:
  assumes "boot_ok b" "add_file b entry name data len = Inr b'"
  shows "boot_ok b'"
proof -
  obtain idx d where d: "vdisk_add_file (drop name entry) (Data data) len Read_file (boot_disk_of b) = Inr (idx, d)"
    using assms(2) by (auto simp: add_file_def rbind_eq_Inr)
  note ok = data_added [OF assms(1) d]
  from assms(2) d consider "b' = (set_disk d b)\<lparr>bt_bootmgr := Some idx\<rparr>" | "b' = set_disk d b" | "b' = (set_disk d b)\<lparr>bt_bootwim := Some idx\<rparr>"
    | f b1 where "add_bootmgr data len (set_disk d b) = Inr (f, b1)" "b' = b1\<lparr>bt_bootmgr := f\<rparr>"
    by (auto simp: add_file_def rbind_eq_Inr Let_def split: if_splits prod.splits)
  then show ?thesis
  proof cases
    case 4
    with add_bootmgr_ok [OF ok(1)] show ?thesis by (auto intro: boot_ok_bootmgr)
  qed (use ok in \<open>auto intro!: boot_ok_bootmgr boot_ok_bootwim simp: disk_set\<close>)
qed

lemma cpio_extract_keeps:
  assumes step: "\<And>s entry name data len s'. P s \<Longrightarrow> h s entry name data len = Inr s' \<Longrightarrow> P s'"
  shows "P s \<Longrightarrow> cpio_extract fuel data len h s = Inr s' \<Longrightarrow> P s'"
proof (induction fuel arbitrary: data len s)
  case (Suc fuel)
  from Suc.prems show ?case
    by (auto elim!: rbind_InrE simp: Let_def split: if_split_asm) (blast intro: Suc.IH step)
qed simp

section \<open>The image\<close>

text \<open>A construction changes no file but the length of the patched image.\<close>

lemma wbind_InrE:
  assumes "wbind m f s = (Inr y, s')"
  obtains x s1 where "m s = (Inr x, s1)" "f x s1 = (Inr y, s')"
  using assms by (auto simp: wbind_def split: prod.splits sum.splits)

definition relength :: "nat \<Rightarrow> vfile list \<Rightarrow> vfile list \<Rightarrow> bool" where
  "relength f files files' \<longleftrightarrow> (\<exists>x. files' = files[f := (files ! f)\<lparr>vf_xlen := x\<rparr>])"

lemma relength_refl: "relength f files files"
  unfolding relength_def by (intro exI [of _ "vf_xlen (files ! f)"]) simp

lemma relength_update: "relength f files (files[f := (files ! f)\<lparr>vf_xlen := x\<rparr>])"
  by (auto simp: relength_def)

lemma relength_trans:
  assumes "relength f (files[f := (files ! f)\<lparr>vf_xlen := y\<rparr>]) files'" "f < length files"
  shows "relength f files files'"
  using assms by (auto simp: relength_def)

lemma inject_relength:
  "wim_construct_inject w files f patch s = (Inr (files', patch'), s') \<Longrightarrow> relength f files files'"
  unfolding wim_construct_inject_def Let_def
  by (auto elim!: wbind_InrE simp: wret_def split: prod.splits if_split_asm)
    (rule relength_refl relength_update)+

lemma construct_relength:
  assumes "wim_construct_patch w files f index inject s = (Inr (files', patch), s')"
  shows "relength f files files'"
proof -
  have f: "f < length files" using assms by (auto simp: wim_construct_patch_def wret_def split: if_split_asm)
  have inj: "relength f files files'" if "wim_construct_inject w (files[f := (files ! f)\<lparr>vf_xlen := y\<rparr>]) f p s1 = (Inr (files', patch), s')" for y p s1
    by (rule relength_trans [OF inject_relength [OF that] f])
  show ?thesis
    using assms f unfolding wim_construct_patch_def Let_def
    by (auto elim!: wbind_InrE simp: wret_def split: prod.splits if_split_asm) (rule relength_update | erule inj)+
qed

lemma patch_wim_files:
  "patch_wim w wfiles opts files f None 0 0 s = (Inr (files', data), s') \<Longrightarrow> relength f files files'"
  unfolding patch_wim_def Let_def
  by (auto elim!: wbind_InrE simp: wret_def stateful_or_die_def on_cache_def set_patch_def or_die_def
      split: prod.splits if_split_asm sum.splits error.splits dest!: construct_relength) (rule relength_refl)+

lemma relength_ok:
  assumes "wim_state_ok ws" "in_memory ws f" "relength f ((vdisk_files (ws_disk ws))[f := (vdisk_files (ws_disk ws) ! f)\<lparr>vf_patch := p\<rparr>]) files"
  shows "wim_state_ok (ws\<lparr>ws_disk := (ws_disk ws)\<lparr>vdisk_files := files\<rparr>, ws_cache := c\<rparr>)"
    "grown ws (ws\<lparr>ws_disk := (ws_disk ws)\<lparr>vdisk_files := files\<rparr>, ws_cache := c\<rparr>)"
proof -
  let ?v = "ws_disk ws" and ?ws = "ws\<lparr>ws_disk := (ws_disk ws)\<lparr>vdisk_files := files\<rparr>, ws_cache := c\<rparr>"
  have f: "f < vdisk_index ?v" "f < length (vdisk_files ?v)" using assms(1,2) by (auto simp: in_memory_def wim_state_ok_def)
  obtain x where files: "files = (vdisk_files ?v)[f := (vdisk_files ?v ! f)\<lparr>vf_patch := p, vf_xlen := x\<rparr>]"
    using assms(3) f(2) by (auto simp: relength_def)
  have same: "vf_read (files ! k) = vf_read (vdisk_files ?v ! k)" "vf_filename (files ! k) = vf_filename (vdisk_files ?v ! k)"
    "vf_opaque (files ! k) = vf_opaque (vdisk_files ?v ! k)" for k
    using f(2) by (auto simp: files nth_list_update)
  then show g: "grown ws ?ws" by (simp add: grown_def)
  have "slot_ok ?ws (files ! k)" if "slot_ok ws (vdisk_files ?v ! k)" for k
    using that grown_method [OF g] by (simp add: slot_ok_def same)
  moreover have "files ! k = vdisk_files ?v ! k" if "vdisk_index ?v \<le> k" for k using that f(1) by (simp add: files)
  moreover have "length files = length (vdisk_files ?v)" by (simp add: files)
  ultimately show "wim_state_ok ?ws" using assms(1) by (auto simp: wim_state_ok_def)
qed

lemma patch_bootwim_ok:
  assumes "boot_ok b" "bt_bootwim b = Some f" "patch_bootwim opts f b = Inr b'"
  shows "boot_ok b' \<and> bt_bootwim b' = Some f"
proof -
  have ws: "wim_state_ok (bt_wim b)" "in_memory (bt_wim b) f" using assms(1,2) by (auto simp: boot_ok_def)
  let ?v = "ws_disk (bt_wim b)"
  let ?files = "(vdisk_files ?v)[f := (vdisk_files ?v ! f)\<lparr>vf_patch := Some Patch_wim\<rparr>]"
  obtain files' data s' where run: "boot_patch 32 (ws_files (bt_wim b)) opts Patch_wim ?files f None 0 0 \<lparr>st_cache = ws_cache (bt_wim b), st_patch = bt_patch b\<rparr>
      = (Inr (files', data), s')"
    and b': "b' = b\<lparr>bt_wim := (bt_wim b)\<lparr>ws_disk := ?v\<lparr>vdisk_files := files'\<rparr>, ws_cache := st_cache s'\<rparr>, bt_patch := st_patch s'\<rparr>"
    using assms(3) by (auto simp: patch_bootwim_def vdisk_patch_file_def boot_disk_of_def Let_def wret_def elim!: wbind_InrE
        split: prod.splits sum.splits if_split_asm)
  from patch_wim_files [of _ _ _ ?files f] run have "relength f ?files files'" by (simp add: boot_patch_def)
  note ok = relength_ok [OF ws this, of "st_cache s'"]
  from boot_grown [OF ok assms(1)] assms(2) show ?thesis by (simp add: b' boot_ok_def boot_disk_of_def)
qed

section \<open>Files of the image\<close>

lemma grown_trans: "grown ws1 ws2 \<Longrightarrow> grown ws2 ws3 \<Longrightarrow> grown ws1 ws3"
  by (auto simp: grown_def)

text \<open>The table of WIM files is changed at its end only.\<close>

lemma entry_ok:
  assumes "wim_state_ok ws" "n = ws_index ws \<or> (n = ws_index ws + 1 \<and> n \<le> WIM_MAX_FILES)"
  shows "wim_state_ok (ws\<lparr>ws_files := (ws_files ws)[ws_index ws := e], ws_index := n, ws_cache := c\<rparr>)"
    "grown ws (ws\<lparr>ws_files := (ws_files ws)[ws_index ws := e], ws_index := n, ws_cache := c\<rparr>)"
proof -
  let ?ws = "ws\<lparr>ws_files := (ws_files ws)[ws_index ws := e], ws_index := n, ws_cache := c\<rparr>"
  show g: "grown ws ?ws" using assms(2) by (auto simp: grown_def)
  have "slot_ok ?ws vf" if "slot_ok ws vf" for vf using that grown_method [OF g] by (simp add: slot_ok_def)
  then show "wim_state_ok ?ws" using assms by (auto simp: wim_state_ok_def)
qed

lemma unless_fail_InrE:
  assumes "unless_fail r b f = Inr y"
  obtains "r = Inl Fail" "y = b" | x where "r = Inr x" "f x = Inr y"
  using assms by (auto simp: unless_fail_def split: sum.splits error.splits)

text \<open>The part of adding a file that follows the check of its name.\<close>

definition wim_add_found :: "nat \<Rightarrow> nat \<Rightarrow> nat \<Rightarrow> u16 list \<Rightarrow> bytes \<Rightarrow> wim_state \<Rightarrow> (nat option \<times> wim_state) result" where
  "wim_add_found w f index path name st =
     (let src = file_source f (vdisk_files (ws_disk st) ! f) in
      unless_fail (wim_header src) (None, st) (\<lambda>header.
      let i = ws_index st;
          st = st\<lparr>ws_files := (ws_files st)[i := (ws_files st ! i)\<lparr>wf_header := header\<rparr>]\<rparr>;
          (meta, s) = wim_metadata w src header index (ws_cache st);
          st = st\<lparr>ws_cache := s\<rparr>
      in unless_fail meta (None, st) (\<lambda>meta.
      let (res, s) = wim_file w src header meta path (ws_cache st);
          st = st\<lparr>ws_cache := s\<rparr>
      in unless_fail res (None, st) (\<lambda>res.
      let st = st\<lparr>ws_files := (ws_files st)[i := \<lparr>wf_file = f, wf_header = header, wf_resource = res\<rparr>], ws_index := i + 1\<rparr>
      in rbind (vdisk_add_file name (Wim_entry i) (res_len res mod 2 ^ w) Wim_read_file (ws_disk st)) (\<lambda>(idx, disk).
      Inr (Some idx, st\<lparr>ws_disk := disk\<rparr>))))))"

lemma wim_add_file_found:
  "wim_add_file w f index path st =
     (if ws_index st \<ge> WIM_MAX_FILES then Inl Died
      else if length (vdisk_files (ws_disk st)) \<le> f then Inl Fault else
      rbind (wim_basename path path) (\<lambda>wname.
      rbind (wim_ascii_name wname) (\<lambda>name.
      rbind (wim_name_used name (vdisk_files (ws_disk st))) (\<lambda>used.
      if used then Inr (None, st) else wim_add_found w f index path name st))))"
  by (simp only: wim_add_file_def wim_add_found_def)

lemma wim_add_file_cases:
  assumes "wim_add_file w f index path ws = Inr (idx, ws')"
  shows "(idx = None \<and> ws' = ws) \<or> (ws_index ws < WIM_MAX_FILES \<and> (\<exists>name. wim_add_found w f index path name ws = Inr (idx, ws')))"
proof (cases "ws_index ws \<ge> WIM_MAX_FILES \<or> length (vdisk_files (ws_disk ws)) \<le> f")
  case True
  with assms show ?thesis by (auto simp: wim_add_file_found split: if_split_asm)
next
  case False
  then have "\<not> ws_index ws \<ge> WIM_MAX_FILES" "\<not> length (vdisk_files (ws_disk ws)) \<le> f" by simp_all
  note run = assms [unfolded wim_add_file_found if_not_P [OF this(1)] if_not_P [OF this(2)]]
  obtain name used where "(if used then Inr (None, ws) else wim_add_found w f index path name ws) = Inr (idx, ws')"
    using run by (elim rbind_InrE) (rule that)
  with False show ?thesis by (cases used) auto
qed

lemma wim_add_found_ok:
  assumes "wim_state_ok ws" "in_memory ws f" "ws_index ws < WIM_MAX_FILES" "wim_add_found w f index path name ws = Inr (idx, ws')"
  shows "wim_state_ok ws' \<and> grown ws ws' \<and> (\<forall>i. idx = Some i \<longrightarrow> i < vdisk_index (ws_disk ws'))"
proof -
  let ?i = "ws_index ws" and ?src = "file_source f (vdisk_files (ws_disk ws) ! f)"
  have files: "length (ws_files ws) = WIM_MAX_FILES" using assms(1) by (simp add: wim_state_ok_def)
  have same: "ws\<lparr>ws_files := x, ws_cache := c\<rparr> = ws\<lparr>ws_files := x, ws_index := ?i, ws_cache := c\<rparr>" for x c by simp
  from assms(4) show ?thesis unfolding wim_add_found_def Let_def
  proof (cases rule: unless_fail_InrE)
    case 1
    with assms(1) show ?thesis by (simp add: grown_refl)
  next
    case (2 header)
    let ?e = "(ws_files ws ! ?i)\<lparr>wf_header := header\<rparr>"
    obtain meta c where meta: "wim_metadata w ?src header index (ws_cache ws) = (meta, c)" by fastforce
    note run = 2(2) [simplified, simplified meta prod.case]
    from run show ?thesis
    proof (cases rule: unless_fail_InrE)
      case 1
      with entry_ok [OF assms(1), of ?i c ?e] show ?thesis by simp
    next
      case (2 m)
      obtain res c' where res: "wim_file w ?src header m path c = (res, c')" by fastforce
      note run = 2(2) [simplified, simplified res prod.case]
      from run show ?thesis
      proof (cases rule: unless_fail_InrE)
        case 1
        with entry_ok [OF assms(1), of ?i c' ?e] show ?thesis by simp
      next
        case (2 res)
        let ?e = "\<lparr>wf_file = f, wf_header = header, wf_resource = res\<rparr>"
        let ?ws = "ws\<lparr>ws_files := (ws_files ws)[?i := ?e], ws_index := ?i + 1, ws_cache := c'\<rparr>"
        obtain j d where d: "vdisk_add_file name (Wim_entry ?i) (res_len res mod 2 ^ w) Wim_read_file (ws_disk ?ws) = Inr (j, d)"
          "idx = Some j" "ws' = ?ws\<lparr>ws_disk := d\<rparr>"
          using 2(2) by (auto simp: rbind_eq_Inr)
        have g: "wim_state_ok ?ws" "grown ws ?ws" using entry_ok [OF assms(1), of "?i + 1" c' ?e] assms(3) by simp_all
        have "method_ok ?ws (Some Wim_read_file) (Wim_entry ?i)"
          using grown_in_memory [OF g(2) assms(2)] assms(3) files by (simp add: method_ok_def)
        note add = add_file_grown [OF g(1) d(1) this]
        from add(1) grown_trans [OF g(2) add(2)] add(3) d(2,3) show ?thesis by simp
      qed
    qed
  qed
qed

lemma wim_add_file_ok:
  assumes "wim_state_ok ws" "in_memory ws f" "wim_add_file w f index path ws = Inr (idx, ws')"
  shows "wim_state_ok ws' \<and> grown ws ws' \<and> (\<forall>i. idx = Some i \<longrightarrow> i < vdisk_index (ws_disk ws'))"
  using wim_add_file_cases [OF assms(3)] wim_add_found_ok [OF assms(1,2)] assms(1) by (auto simp: grown_refl)

lemma wim_add_files_ok:
  "wim_state_ok ws \<Longrightarrow> in_memory ws f \<Longrightarrow> wim_add_files w f index paths ws = Inr ws' \<Longrightarrow> wim_state_ok ws' \<and> grown ws ws'"
proof (induction paths arbitrary: ws)
  case (Cons path paths)
  obtain idx ws1 where ws1: "wim_add_file w f index path ws = Inr (idx, ws1)" "wim_add_files w f index paths ws1 = Inr ws'"
    using Cons.prems(3) by (auto simp: rbind_eq_Inr)
  note ok = wim_add_file_ok [OF Cons.prems(1,2) ws1(1)]
  with Cons.IH [of ws1] ws1(2) grown_in_memory [of ws ws1 f] Cons.prems(2) show ?case using grown_trans by blast
qed (simp add: grown_refl)

lemma process_bootwim_ok:
  assumes "boot_ok b" "process_bootwim opts b = Inr b'"
  shows "boot_ok b'"
proof (cases "bt_bootwim b")
  case None
  with assms show ?thesis by (simp add: process_bootwim_def)
next
  case (Some f)
  obtain b1 b2 ws where run: "patch_bootwim opts f b = Inr b1"
    "(if bt_bootmgr b1 = None then
        rbind (wim_add_file 32 f (cmdline_index opts) bootmgr_path (bt_wim b1)) (\<lambda>(file, ws). Inr (b1\<lparr>bt_wim := ws, bt_bootmgr := file\<rparr>))
      else Inr b1) = Inr b2" "wim_add_files 32 f (cmdline_index opts) wim_paths (bt_wim b2) = Inr ws" "b' = b2\<lparr>bt_wim := ws\<rparr>"
    using assms(2) unfolding process_bootwim_def Some option.case by (elim rbind_InrE) simp
  note b1 = patch_bootwim_ok [OF assms(1) Some run(1)]
  have b2: "boot_ok b2 \<and> bt_bootwim b2 = Some f"
  proof (cases "bt_bootmgr b1 = None")
    case True
    then obtain i ws where add: "wim_add_file 32 f (cmdline_index opts) bootmgr_path (bt_wim b1) = Inr (i, ws)" "b2 = b1\<lparr>bt_wim := ws, bt_bootmgr := i\<rparr>"
      using run(2) by (auto elim!: rbind_InrE)
    have "wim_state_ok (bt_wim b1)" "in_memory (bt_wim b1) f" using b1 by (simp_all add: boot_ok_def)
    note ok = wim_add_file_ok [OF this add(1)]
    with b1 boot_grown [of ws b1] boot_ok_bootmgr [of "b1\<lparr>bt_wim := ws\<rparr>" i] add(2) show ?thesis by (auto simp: boot_disk_of_def)
  qed (use run(2) b1 in auto)
  then have "wim_state_ok (bt_wim b2)" "in_memory (bt_wim b2) f" by (simp_all add: boot_ok_def)
  from wim_add_files_ok [OF this run(3)] boot_grown [of ws b2] b2 run(4) show ?thesis by simp
qed

section \<open>Property\<close>

text \<open>
  C9: Whatever the initrd and the image contain, the state of the loader stays well formed when the files are added: the table of
  files has its size and the used slots are at its start, every file has a terminated name of at most 31 characters and a read method that
  fits its private pointer, every WIM file refers to an image that is a file in memory, and a loader that goes on has found bootmgr.exe.
\<close>

theorem boot_files_invariant:
  assumes "boot_ok b" "boot_files fuel opts b = Inr b'"
  shows "boot_ok b' \<and> bt_bootmgr b' \<noteq> None"
proof -
  obtain b1 where run: "cpio_extract fuel (bt_initrd b) (length (bt_initrd b)) add_file b = Inr b1" "process_bootwim opts b1 = Inr b'" "bt_bootmgr b' \<noteq> None"
    using assms(2) by (auto simp: boot_files_def extract_initrd_def or_die_def rbind_eq_Inr split: sum.splits error.splits if_split_asm)
  have "boot_ok b1" by (rule cpio_extract_keeps [where P = boot_ok and h = add_file, OF add_file_ok assms(1) run(1)])
  from process_bootwim_ok [OF this run(2)] run(3) show ?thesis by simp
qed

theorem boot_files_invariant_witness:
  "\<exists>b. boot_files 3 cmdline_initial (boot_initial [] (cpio_archive example_initrd)) = Inr b \<and> boot_ok b \<and> bt_bootmgr b \<noteq> None"
proof -
  obtain b where b: "boot_files 3 cmdline_initial (boot_initial [] (cpio_archive example_initrd)) = Inr b"
    using boot_files_extracted [OF example_initrd_ok] by blast
  with boot_files_invariant [OF boot_ok_initial b] show ?thesis by blast
qed

end
