(* ===== verification/Vsprintf.thy ===== *)
theory Vsprintf
  imports Wimfile
begin

text \<open>
  Formatted output (\<open>ipxe/vsprintf.c\<close>, \<open>ipxe/vsprintf.h\<close>). The handler of the context is a parameter: it gets the number of
  characters before, the character and its own state. \<open>w\<close> is the number of bits of a pointer.

  The arguments are a list; a number comes with its size in bytes, as \<open>va_arg\<close> takes it. An argument of another type is a fault,
  and so is a conversion that does not fit into the 32 bytes of the temporary buffer.
\<close>

section \<open>Constants\<close>

definition CHAR_LEN :: int where "CHAR_LEN = 0"
definition SHORT_LEN :: int where "SHORT_LEN = 1"
definition INT_LEN :: int where "INT_LEN = 2"
definition LONG_LEN :: int where "LONG_LEN = 3"
definition LONGLONG_LEN :: int where "LONGLONG_LEN = 4"
definition SIZE_T_LEN :: int where "SIZE_T_LEN = 5"

definition type_sizes :: "nat \<Rightarrow> nat list" where
  "type_sizes w = [1, 2, 4, w div 8, 8, w div 8]"

definition LCASE :: u8 where "LCASE = 0x20"
definition ALT_FORM :: u8 where "ALT_FORM = 0x02"
definition ZPAD :: u8 where "ZPAD = 0x10"

datatype printf_arg = Num_arg nat nat | String_arg "bytes option" | Wstring_arg "u16 list option"

section \<open>Numbers\<close>

text \<open>The buffer is filled from its end; \<open>acc\<close> is what has been written, and there is room for \<open>31\<close> characters before the terminator.\<close>

definition push_char :: "u8 \<Rightarrow> bytes \<Rightarrow> bytes result" where
  "push_char c acc = (if length acc < 31 then Inr (c # acc) else Inl Fault)"

function pad_number :: "nat \<Rightarrow> u8 \<Rightarrow> bytes \<Rightarrow> bytes result" where
  "pad_number width pad acc = (if length acc < width then rbind (push_char pad acc) (pad_number width pad) else Inr acc)"
  by auto
termination by (relation "measure (\<lambda>(width, pad, acc). width - length acc)") (auto simp: push_char_def split: if_splits)

declare pad_number.simps [simp del]

fun hex_digits :: "u8 \<Rightarrow> nat \<Rightarrow> bytes \<Rightarrow> bytes result" where
  "hex_digits case_mod num acc =
     rbind (push_char (ascii ''0123456789ABCDEF'' ! (num mod 16) OR case_mod) acc) (\<lambda>acc.
     if num div 16 \<noteq> 0 then hex_digits case_mod (num div 16) acc else Inr acc)"

declare hex_digits.simps [simp del]

definition format_hex :: "nat \<Rightarrow> nat \<Rightarrow> u8 \<Rightarrow> bytes result" where
  "format_hex num width flags =
     (let case_mod = flags AND LCASE;
          pad = (flags AND ZPAD) OR 0x20
      in rbind (hex_digits case_mod num []) (\<lambda>acc.
         rbind (pad_number width pad acc) (\<lambda>acc.
         if flags AND ALT_FORM \<noteq> 0 then rbind (push_char (0x58 OR case_mod) acc) (push_char 0x30) else Inr acc)))"

fun decimal_digits :: "nat \<Rightarrow> bytes \<Rightarrow> bytes result" where
  "decimal_digits num acc =
     rbind (push_char (0x30 + word_of_nat (num mod 10)) acc) (\<lambda>acc.
     if num div 10 \<noteq> 0 then decimal_digits (num div 10) acc else Inr acc)"

declare decimal_digits.simps [simp del]

text \<open>The negation of the smallest number is not defined.\<close>

definition format_decimal :: "nat \<Rightarrow> int \<Rightarrow> nat \<Rightarrow> u8 \<Rightarrow> bytes result" where
  "format_decimal w num width flags =
     (let negative = num < 0;
          zpad = flags AND ZPAD;
          pad = zpad OR 0x20
      in if num = - (2 ^ (w - 1)) then Inl Fault else
         rbind (decimal_digits (nat \<bar>num\<bar>) []) (\<lambda>acc.
         rbind (if negative \<and> zpad = 0 then push_char 0x2d acc else Inr acc) (\<lambda>acc.
         rbind (pad_number width pad acc) (\<lambda>acc.
         Inr (if negative \<and> zpad \<noteq> 0 then acc[0 := 0x2d] else acc)))))"

section \<open>Directives\<close>

fun printf_flags :: "bytes \<Rightarrow> u8 \<Rightarrow> (u8 \<times> bytes) result" where
  "printf_flags [] flags = Inl Fault"
| "printf_flags (c # fmt) flags =
     (if c = 0x23 then printf_flags fmt (flags OR ALT_FORM)
      else if c = 0x30 then printf_flags fmt (flags OR ZPAD)
      else Inr (flags, c # fmt))"

text \<open>A width that does not fit into an integer is not defined.\<close>

fun printf_width :: "bytes \<Rightarrow> nat \<Rightarrow> (nat \<times> bytes) result" where
  "printf_width [] width = Inl Fault"
| "printf_width (c # fmt) width =
     (if c - 0x30 < 10 then
        (if width * 10 + unat (c - 0x30) < 2 ^ 31 then printf_width fmt (width * 10 + unat (c - 0x30)) else Inl Fault)
      else Inr (width, c # fmt))"

fun printf_length :: "bytes \<Rightarrow> int \<Rightarrow> (int \<times> bytes) result" where
  "printf_length [] len = Inl Fault"
| "printf_length (c # fmt) len =
     (if c = 0x68 then printf_length fmt (len - 1)
      else if c = 0x6c then printf_length fmt (len + 1)
      else if c = 0x7a then printf_length fmt SIZE_T_LEN
      else Inr (len, c # fmt))"

definition type_size :: "nat \<Rightarrow> int \<Rightarrow> nat result" where
  "type_size w len = (if 0 \<le> len \<and> len < 6 then Inr (type_sizes w ! nat len) else Inl Fault)"

fun num_arg :: "nat \<Rightarrow> printf_arg list \<Rightarrow> (nat \<times> printf_arg list) result" where
  "num_arg n (Num_arg m v # args) = (if m = n then Inr (v mod 256 ^ n, args) else Inl Fault)"
| "num_arg n args = Inl Fault"

fun string_arg :: "printf_arg list \<Rightarrow> (bytes option \<times> printf_arg list) result" where
  "string_arg (String_arg s # args) = Inr (s, args)"
| "string_arg args = Inl Fault"

fun wstring_arg :: "printf_arg list \<Rightarrow> (u16 list option \<times> printf_arg list) result" where
  "wstring_arg (Wstring_arg s # args) = Inr (s, args)"
| "wstring_arg args = Inl Fault"

definition signed_value :: "nat \<Rightarrow> nat \<Rightarrow> int" where
  "signed_value n v = (if v < 256 ^ n div 2 then int v else int v - 256 ^ n)"

text \<open>What a directive yields: a character that is output at once, or the narrow or wide string to write out.\<close>

datatype conversion = Char_out u8 | Narrow bytes | Wide "u16 list"

definition convert :: "nat \<Rightarrow> u8 \<Rightarrow> u8 \<Rightarrow> nat \<Rightarrow> int \<Rightarrow> printf_arg list \<Rightarrow> (conversion \<times> printf_arg list) result" where
  "convert w c flags width len args =
     (if c = 0x63 then
        rbind (num_arg 4 args) (\<lambda>(v, args).
        if len < LONG_LEN then Inr (Char_out (word_of_nat v), args)
        else Inr (Narrow (wcrtomb (word_of_nat v) @ [0]), args))
      else if c = 0x73 then
        (if len < LONG_LEN then rbind (string_arg args) (\<lambda>(s, args).
           Inr (case s of None \<Rightarrow> Narrow (ascii ''<NULL>'' @ [0]) | Some s \<Rightarrow> Narrow s, args))
         else rbind (wstring_arg args) (\<lambda>(s, args).
           Inr (case s of None \<Rightarrow> Narrow [0] | Some s \<Rightarrow> Wide s, args)))
      else if c = 0x70 then
        rbind (num_arg (w div 8) args) (\<lambda>(v, args).
        rbind (format_hex (nat (signed_value (w div 8) v mod 2 ^ 64)) width (ALT_FORM OR LCASE)) (\<lambda>s. Inr (Narrow (s @ [0]), args)))
      else if c AND NOT 0x20 = 0x58 then
        let flags = flags OR (c AND 0x20) in
        rbind (type_size w len) (\<lambda>n.
        rbind (num_arg (if n \<ge> 8 then 8 else if n \<ge> w div 8 then w div 8 else 4) args) (\<lambda>(v, args).
        rbind (format_hex v width flags) (\<lambda>s. Inr (Narrow (s @ [0]), args))))
      else if c = 0x64 \<or> c = 0x69 then
        rbind (type_size w len) (\<lambda>n.
        let n = (if n \<ge> w div 8 then w div 8 else 4) in
        rbind (num_arg n args) (\<lambda>(v, args).
        rbind (format_decimal w (signed_value n v) width flags) (\<lambda>s. Inr (Narrow (s @ [0]), args))))
      else Inr (Narrow [c, 0], args))"

section \<open>Output\<close>

type_synonym 's printf_handler = "nat \<Rightarrow> u8 \<Rightarrow> 's \<Rightarrow> 's result"

text \<open>The state of the context: the length so far and the state of the handler.\<close>

definition cputchar :: "'s printf_handler \<Rightarrow> u8 \<Rightarrow> nat \<times> 's \<Rightarrow> (nat \<times> 's) result" where
  "cputchar handler c = (\<lambda>(len, s). rbind (handler len c s) (\<lambda>s. Inr (len + 1, s)))"

fun write_narrow :: "'s printf_handler \<Rightarrow> bytes \<Rightarrow> nat \<times> 's \<Rightarrow> (nat \<times> 's) result" where
  "write_narrow handler [] st = Inl Fault"
| "write_narrow handler (c # cs) st = (if c = 0 then Inr st else rbind (cputchar handler c st) (write_narrow handler cs))"

fun write_bytes :: "'s printf_handler \<Rightarrow> bytes \<Rightarrow> nat \<times> 's \<Rightarrow> (nat \<times> 's) result" where
  "write_bytes handler [] st = Inr st"
| "write_bytes handler (c # cs) st = rbind (cputchar handler c st) (write_bytes handler cs)"

fun write_wide :: "'s printf_handler \<Rightarrow> u16 list \<Rightarrow> nat \<times> 's \<Rightarrow> (nat \<times> 's) result" where
  "write_wide handler [] st = Inl Fault"
| "write_wide handler (c # cs) st = (if c = 0 then Inr st else rbind (write_bytes handler (wcrtomb c) st) (write_wide handler cs))"

fun write_conversion :: "'s printf_handler \<Rightarrow> conversion \<Rightarrow> nat \<times> 's \<Rightarrow> (nat \<times> 's) result" where
  "write_conversion handler (Char_out c) = cputchar handler c"
| "write_conversion handler (Narrow s) = write_narrow handler s"
| "write_conversion handler (Wide s) = write_wide handler s"

lemma printf_flags_shorter: "printf_flags fmt flags = Inr (f, rest) \<Longrightarrow> length rest \<le> length fmt"
  by (induction fmt flags rule: printf_flags.induct) (auto split: if_splits)

lemma printf_width_shorter: "printf_width fmt width = Inr (v, rest) \<Longrightarrow> length rest \<le> length fmt"
  by (induction fmt width rule: printf_width.induct) (auto split: if_splits)

lemma printf_length_shorter: "printf_length fmt len = Inr (v, rest) \<Longrightarrow> length rest \<le> length fmt"
  by (induction fmt len rule: printf_length.induct) (auto split: if_splits)

text \<open>A directive: its flags, width, length and conversion character, and the rest of the format.\<close>

definition printf_directive :: "bytes \<Rightarrow> (u8 \<times> nat \<times> int \<times> u8 \<times> bytes) result" where
  "printf_directive fmt =
     rbind (printf_flags fmt 0) (\<lambda>(flags, fmt).
     rbind (printf_width fmt 0) (\<lambda>(width, fmt).
     rbind (printf_length fmt INT_LEN) (\<lambda>(len, fmt).
     case fmt of [] \<Rightarrow> Inl Fault | c # rest \<Rightarrow> Inr (flags, width, len, c, rest))))"

lemma printf_directive_shorter:
  assumes "printf_directive fmt = Inr (flags, width, len, c, rest)"
  shows "length rest < length fmt"
proof -
  from assms obtain fmt1 fmt2 fmt3 where d: "printf_flags fmt 0 = Inr (flags, fmt1)" "printf_width fmt1 0 = Inr (width, fmt2)"
      "printf_length fmt2 INT_LEN = Inr (len, fmt3)" "(case fmt3 of [] \<Rightarrow> Inl Fault | c # rest \<Rightarrow> Inr (flags, width, len, c, rest)) = Inr (flags, width, len, c, rest)"
    unfolding printf_directive_def rbind_eq_Inr by (fastforce simp: rbind_eq_Inr split: list.splits)
  then have "fmt3 = c # rest" by (cases fmt3) simp_all
  with printf_flags_shorter [OF d(1)] printf_width_shorter [OF d(2)] printf_length_shorter [OF d(3)] show ?thesis by simp
qed

function vcprintf_loop :: "nat \<Rightarrow> 's printf_handler \<Rightarrow> bytes \<Rightarrow> printf_arg list \<Rightarrow> nat \<times> 's \<Rightarrow> (nat \<times> 's) result" where
  "vcprintf_loop w handler [] args st = Inl Fault"
| "vcprintf_loop w handler (c # fmt) args st =
     (if c = 0 then Inr st
      else if c \<noteq> 0x25 then rbind (cputchar handler c st) (vcprintf_loop w handler fmt args)
      else rbind (printf_directive fmt) (\<lambda>(flags, width, len, c, rest).
        rbind (convert w c flags width len args) (\<lambda>(v, args).
        rbind (write_conversion handler v st) (\<lambda>st.
        vcprintf_loop w handler rest args st))))"
  by pat_completeness auto
termination by (relation "measure (\<lambda>(w, handler, fmt, args, st). length fmt)") (auto dest!: printf_directive_shorter)

definition vcprintf :: "nat \<Rightarrow> 's printf_handler \<Rightarrow> bytes \<Rightarrow> printf_arg list \<Rightarrow> 's \<Rightarrow> (nat \<times> 's) result" where
  "vcprintf w handler fmt args s = vcprintf_loop w handler fmt args (0, s)"

section \<open>Output to a buffer\<close>

definition printf_sputc :: "nat \<Rightarrow> bytes printf_handler" where
  "printf_sputc max_len len c buf = (if len < max_len then wr8 buf len c else Inr buf)"

text \<open>The length is returned as a signed integer; only shorter strings are considered.\<close>

definition vsnprintf :: "nat \<Rightarrow> bytes \<Rightarrow> nat \<Rightarrow> bytes \<Rightarrow> printf_arg list \<Rightarrow> (nat \<times> bytes) result" where
  "vsnprintf w buf max_size fmt args =
     rbind (vcprintf w (printf_sputc max_size) fmt args buf) (\<lambda>(len, buf).
     rbind (if max_size \<noteq> 0 then wr8 buf (if len < max_size - 1 then len else max_size - 1) 0 else Inr buf) (\<lambda>buf.
     Inr (len, buf)))"

definition vssnprintf :: "nat \<Rightarrow> bytes \<Rightarrow> int \<Rightarrow> bytes \<Rightarrow> printf_arg list \<Rightarrow> (nat \<times> bytes) result" where
  "vssnprintf w buf ssize fmt args = (let ssize = (if ssize < 0 then 0 else ssize) in vsnprintf w buf (nat ssize) fmt args)"

text \<open>The functions that take their arguments directly.\<close>

definition snprintf :: "nat \<Rightarrow> bytes \<Rightarrow> nat \<Rightarrow> bytes \<Rightarrow> printf_arg list \<Rightarrow> (nat \<times> bytes) result" where
  "snprintf w buf max_size fmt args = vsnprintf w buf max_size fmt args"

definition ssnprintf :: "nat \<Rightarrow> bytes \<Rightarrow> int \<Rightarrow> bytes \<Rightarrow> printf_arg list \<Rightarrow> (nat \<times> bytes) result" where
  "ssnprintf w buf ssize fmt args = vssnprintf w buf ssize fmt args"

text \<open>Output to the console, of which \<open>putchar\<close> is a parameter.\<close>

definition printf_putchar :: "(u8 \<Rightarrow> 's \<Rightarrow> 's result) \<Rightarrow> 's printf_handler" where
  "printf_putchar putchar len c = putchar c"

definition vprintf :: "nat \<Rightarrow> (u8 \<Rightarrow> 's \<Rightarrow> 's result) \<Rightarrow> bytes \<Rightarrow> printf_arg list \<Rightarrow> 's \<Rightarrow> (nat \<times> 's) result" where
  "vprintf w putchar fmt args s = vcprintf w (printf_putchar putchar) fmt args s"

definition printf :: "nat \<Rightarrow> (u8 \<Rightarrow> 's \<Rightarrow> 's result) \<Rightarrow> bytes \<Rightarrow> printf_arg list \<Rightarrow> 's \<Rightarrow> (nat \<times> 's) result" where
  "printf w putchar fmt args s = vprintf w putchar fmt args s"

section \<open>The formatted string\<close>

text \<open>The characters that are output, collected in a list.\<close>

definition collect :: "bytes printf_handler" where
  "collect len c out = Inr (out @ [c])"

definition formatted :: "nat \<Rightarrow> bytes \<Rightarrow> printf_arg list \<Rightarrow> bytes result" where
  "formatted w fmt args = rbind (vcprintf w collect fmt args []) (\<lambda>(n, out). Inr out)"

text \<open>A part of the output: with every handler the same characters are written.\<close>

definition outputs :: "(nat \<times> bytes \<Rightarrow> (nat \<times> bytes) result) \<Rightarrow> (nat \<times> 's \<Rightarrow> (nat \<times> 's) result) \<Rightarrow> 's printf_handler \<Rightarrow> bool" where
  "outputs f g handler \<longleftrightarrow> (\<forall>n out n' out'. f (n, out) = Inr (n', out') \<longrightarrow>
     (\<exists>os. out' = out @ os \<and> n' = n + length os \<and> (\<forall>st. g st = write_bytes handler os st)))"

lemma outputsI:
  "(\<And>n out n' out'. f (n, out) = Inr (n', out') \<Longrightarrow> \<exists>os. out' = out @ os \<and> n' = n + length os \<and> (\<forall>st. g st = write_bytes handler os st)) \<Longrightarrow>
   outputs f g handler"
  by (simp add: outputs_def)

lemma outputs_Inl: "outputs (\<lambda>st. Inl e) g handler"
  by (simp add: outputs_def)

lemma outputs_Inr: "outputs Inr Inr handler"
  by (auto simp: outputs_def)

lemma outputs_char: "outputs (cputchar collect c) (cputchar handler c) handler"
  by (rule outputsI, rule exI [of _ "[c]"]) (auto simp: cputchar_def collect_def rbind_def split: sum.splits)

lemma write_bytes_append: "write_bytes handler (xs @ ys) st = rbind (write_bytes handler xs st) (write_bytes handler ys)"
proof (induction xs arbitrary: st)
  case (Cons c xs)
  then show ?case by (cases "cputchar handler c st") simp_all
qed simp

lemma outputs_bind:
  assumes "outputs f g handler" "outputs f' g' handler"
  shows "outputs (\<lambda>st. rbind (f st) f') (\<lambda>st. rbind (g st) g') handler"
proof (rule outputsI)
  fix n out n' out'
  assume "rbind (f (n, out)) f' = Inr (n', out')"
  then obtain m o1 where f: "f (n, out) = Inr (m, o1)" "f' (m, o1) = Inr (n', out')" by (auto simp: rbind_eq_Inr)
  from assms(1) f(1) obtain xs where xs: "o1 = out @ xs" "m = n + length xs" "\<forall>st. g st = write_bytes handler xs st"
    unfolding outputs_def by blast
  from assms(2) f(2) obtain ys where ys: "out' = o1 @ ys" "n' = m + length ys" "\<forall>st. g' st = write_bytes handler ys st"
    unfolding outputs_def by blast
  have "g' = write_bytes handler ys" using ys(3) by auto
  with xs ys show "\<exists>os. out' = out @ os \<and> n' = n + length os \<and> (\<forall>st. rbind (g st) g' = write_bytes handler os st)"
    by (intro exI [of _ "xs @ ys"]) (simp add: write_bytes_append)
qed

lemma outputs_if: "outputs f g handler \<Longrightarrow> outputs f' g' handler \<Longrightarrow> outputs (\<lambda>st. if b then f st else f' st) (\<lambda>st. if b then g st else g' st) handler"
  by (simp add: outputs_def)

lemma outputs_bytes: "outputs (write_bytes collect cs) (write_bytes handler cs) handler"
proof (induction cs)
  case Nil
  then show ?case using outputs_Inr [of handler] by (simp add: outputs_def)
next
  case (Cons c cs)
  from outputs_bind [OF outputs_char Cons] show ?case by (simp add: outputs_def)
qed

lemma outputs_narrow: "outputs (write_narrow collect cs) (write_narrow handler cs) handler"
proof (induction cs)
  case (Cons c cs)
  from outputs_bind [OF outputs_char Cons] outputs_Inr [of handler] show ?case by (simp add: outputs_def)
qed (simp add: outputs_def)

lemma outputs_wide: "outputs (write_wide collect cs) (write_wide handler cs) handler"
proof (induction cs)
  case (Cons c cs)
  from outputs_bind [OF outputs_bytes Cons] outputs_Inr [of handler] show ?case by (simp add: outputs_def)
qed (simp add: outputs_def)

lemma outputs_conversion: "outputs (write_conversion collect v) (write_conversion handler v) handler"
proof (cases v)
  case (Char_out c)
  then show ?thesis using outputs_char [of c handler] by (simp add: outputs_def)
next
  case (Narrow s)
  then show ?thesis using outputs_narrow [of s handler] by (simp add: outputs_def)
next
  case (Wide s)
  then show ?thesis using outputs_wide [of s handler] by (simp add: outputs_def)
qed

lemma outputs_loop: "outputs (vcprintf_loop w collect fmt args) (vcprintf_loop w handler fmt args) handler"
proof (induction "length fmt" arbitrary: fmt args rule: less_induct)
  case less
  show ?case
  proof (cases fmt)
    case (Cons c rest)
    have plain: "outputs (\<lambda>st. rbind (cputchar collect c st) (vcprintf_loop w collect rest args))
        (\<lambda>st. rbind (cputchar handler c st) (vcprintf_loop w handler rest args)) handler"
      using less [of rest] Cons by (intro outputs_bind outputs_char) simp
    have directive: "outputs (\<lambda>st. rbind (printf_directive rest) (\<lambda>(flags, width, len, c, rest). rbind (convert w c flags width len args) (\<lambda>(v, args).
          rbind (write_conversion collect v st) (vcprintf_loop w collect rest args))))
        (\<lambda>st. rbind (printf_directive rest) (\<lambda>(flags, width, len, c, rest). rbind (convert w c flags width len args) (\<lambda>(v, args).
          rbind (write_conversion handler v st) (vcprintf_loop w handler rest args)))) handler"
    proof (cases "printf_directive rest")
      case (Inr d)
      obtain flags width len c' rest' where d: "d = (flags, width, len, c', rest')" by (cases d)
      then have "length rest' < length fmt" using printf_directive_shorter [of rest flags width len c' rest'] Inr Cons by simp
      then have "outputs (\<lambda>st. rbind (write_conversion collect v st) (vcprintf_loop w collect rest' args'))
          (\<lambda>st. rbind (write_conversion handler v st) (vcprintf_loop w handler rest' args')) handler" for v args'
        using less by (intro outputs_bind outputs_conversion) simp
      then show ?thesis using Inr d by (cases "convert w c' flags width len args") (auto simp: outputs_Inl)
    qed (simp add: outputs_Inl)
    show ?thesis using plain directive outputs_Inr [of handler] by (simp add: outputs_def Cons split_beta')
  qed (simp add: outputs_def)
qed

lemma formatted_output:
  assumes "formatted w fmt args = Inr out"
  shows "vcprintf w handler fmt args s = write_bytes handler out (0, s)"
proof -
  from assms obtain n where "vcprintf_loop w collect fmt args (0, []) = Inr (n, out)"
    by (auto simp: formatted_def vcprintf_def rbind_eq_Inr)
  with outputs_loop [of w fmt args handler] show ?thesis unfolding outputs_def vcprintf_def by fastforce
qed

section \<open>Output to a buffer\<close>

lemma overlay_Cons: "len < length buf \<Longrightarrow> overlay (len + 1) xs (buf[len := c]) = overlay len (c # xs) buf"
  by (simp add: overlay_def take_Suc_conv_app_nth)

lemma cputchar_buffer:
  "max_size \<le> length buf \<Longrightarrow> cputchar (printf_sputc max_size) c (len, buf) = Inr (len + 1, if len < max_size then buf[len := c] else buf)"
  by (simp add: cputchar_def printf_sputc_def wr8_def)

lemma write_bytes_buffer:
  "max_size \<le> length buf \<Longrightarrow> write_bytes (printf_sputc max_size) out (len, buf) = Inr (len + length out, overlay len (take (max_size - len) out) buf)"
proof (induction out arbitrary: len buf)
  case (Cons c out)
  show ?case
  proof (cases "len < max_size")
    case True
    then have "max_size - len = Suc (max_size - (len + 1))" by simp
    then have "overlay (len + 1) (take (max_size - (len + 1)) out) (buf[len := c]) = overlay len (take (max_size - len) (c # out)) buf"
      using True Cons.prems by (simp only: take_Suc_Cons) (rule overlay_Cons, simp)
    then show ?thesis using Cons.IH [of "buf[len := c]" "len + 1"] Cons.prems True by (simp add: cputchar_buffer)
  next
    case False
    then show ?thesis using Cons.IH [of buf "len + 1"] Cons.prems by (simp add: cputchar_buffer)
  qed
qed (simp add: overlay_def)

lemma vsnprintf_bytes:
  assumes "0 < max_size" "max_size \<le> length buf" "vcprintf w (printf_sputc max_size) fmt args buf = write_bytes (printf_sputc max_size) out (0, buf)"
  shows "vsnprintf w buf max_size fmt args = Inr (length out, overlay 0 (take (max_size - 1) out @ [0]) buf)"
proof -
  let ?stop = "if length out < max_size - 1 then length out else max_size - 1"
  have end_le: "?stop < length buf" using assms(1,2) by auto
  have "(overlay 0 (take max_size out) buf)[?stop := 0] = overlay 0 (take (max_size - 1) out @ [0]) buf"
    using assms(1,2) by (intro nth_equalityI) (auto simp: nth_overlay nth_list_update nth_append overlay_0 min_def)
  then show ?thesis using assms end_le by (simp add: vsnprintf_def write_bytes_buffer wr8_def)
qed

section \<open>Strings\<close>

lemma write_narrow_buffer:
  "max_size \<le> length buf \<Longrightarrow> write_narrow (printf_sputc max_size) s (len, buf) =
     (if terminated s then write_bytes (printf_sputc max_size) (cstring s) (len, buf) else Inl Fault)"
  by (induction s arbitrary: len buf) (auto simp: cputchar_buffer)

lemma write_wide_buffer:
  "max_size \<le> length buf \<Longrightarrow> write_wide (printf_sputc max_size) s (len, buf) =
     (if terminated s then write_bytes (printf_sputc max_size) (concat (map wcrtomb (cstring s))) (len, buf) else Inl Fault)"
  by (induction s arbitrary: len buf) (auto simp: cputchar_buffer wcrtomb_def)

lemma rbind_right [simp]: "rbind r Inr = r"
  by (cases r) simp_all

lemma vcprintf_loop_end: "vcprintf_loop w handler [0] args = Inr"
  by (rule ext) simp

lemma vcprintf_narrow: "vcprintf w handler (ascii ''%s'' @ [0]) [String_arg (Some s)] st = write_narrow handler s (0, st)"
  by (simp add: vcprintf_def ascii_def printf_directive_def convert_def INT_LEN_def LONG_LEN_def vcprintf_loop_end)

lemma vcprintf_wide: "vcprintf w handler (ascii ''%ls'' @ [0]) [Wstring_arg (Some s)] st = write_wide handler s (0, st)"
  by (simp add: vcprintf_def ascii_def printf_directive_def convert_def INT_LEN_def LONG_LEN_def vcprintf_loop_end)

section \<open>Numbers\<close>

lemma hex_digit_read: "k < 16 \<Longrightarrow> unat (strtoul_digit (ascii ''0123456789ABCDEF'' ! k OR 0x20)) = k"
  by (drule less_16_cases) (elim insertE emptyE; hypsubst; simp add: strtoul_digit_def ascii_def Let_def)

lemma hex_digits_value:
  "n < 16 ^ m \<Longrightarrow> 0 < m \<Longrightarrow> length acc + m \<le> 31 \<Longrightarrow>
   \<exists>ds. hex_digits LCASE n acc = Inr (ds @ acc) \<and> length ds \<le> m \<and> (\<forall>c \<in> set ds. unat (strtoul_digit c) < 16) \<and> digits_value 16 0 ds = n"
proof (induction m arbitrary: n acc)
  case (Suc m)
  let ?c = "ascii ''0123456789ABCDEF'' ! (n mod 16) OR LCASE"
  have c: "unat (strtoul_digit ?c) = n mod 16" unfolding LCASE_def by (rule hex_digit_read) simp
  show ?case
  proof (cases "n div 16 = 0")
    case True
    then show ?thesis using c Suc.prems by (intro exI [of _ "[?c]"]) (simp add: hex_digits.simps [of _ n] push_char_def)
  next
    case False
    then have "n div 16 < 16 ^ m" "0 < m" using Suc.prems(1) by (auto simp: less_mult_imp_div_less mult.commute intro: gr0I)
    then obtain ds where ds: "hex_digits LCASE (n div 16) (?c # acc) = Inr (ds @ ?c # acc)" "length ds \<le> m"
        "\<forall>c \<in> set ds. unat (strtoul_digit c) < 16" "digits_value 16 0 ds = n div 16"
      using Suc.IH [of "n div 16" "?c # acc"] Suc.prems(3) by auto
    then show ?thesis using False c Suc.prems(3) by (intro exI [of _ "ds @ [?c]"]) (simp add: hex_digits.simps [of _ n] push_char_def)
  qed
qed simp

lemma format_hex_read:
  assumes "n < 2 ^ 64" "n < 2 ^ w"
  shows "\<exists>s. format_hex n 0 (ALT_FORM OR LCASE) = Inr s \<and> length s \<le> 18 \<and> 0 \<notin> set s \<and> (\<forall>rest. strtoul w (s @ 0 # rest) 0 = Inr (n, 0 # rest))"
proof -
  have "(2::nat) ^ 64 = 16 ^ 16" by simp
  then have "n < 16 ^ 16" using assms(1) by simp
  then obtain ds where ds: "hex_digits LCASE n [] = Inr ds" "length ds \<le> 16" "\<forall>c \<in> set ds. unat (strtoul_digit c) < 16" "digits_value 16 0 ds = n"
    using hex_digits_value [of n 16 "[]"] by auto
  have flags: "(ALT_FORM OR LCASE) AND LCASE = LCASE" "(ALT_FORM OR LCASE) AND ALT_FORM \<noteq> 0" "0x58 OR LCASE = 0x78"
    by (simp_all add: ALT_FORM_def LCASE_def)
  have "format_hex n 0 (ALT_FORM OR LCASE) = Inr (0x30 # 0x78 # ds)"
    using ds(1,2) by (simp only: format_hex_def Let_def flags) (simp add: pad_number.simps push_char_def)
  moreover have "strtoul_digits w 16 0 (ds @ 0 # rest) = Inr (n, 0 # rest)" for rest
    using strtoul_digits_value [OF _ ds(3), of 0 0 w rest] ds(4) assms(2) by (simp add: strtoul_digit_def)
  then have "\<forall>rest. strtoul w ((0x30 # 0x78 # ds) @ 0 # rest) 0 = Inr (n, 0 # rest)"
    by (simp add: strtoul_def strtoul_sign_def strtoul_base_def rd8_def isspace_def)
  moreover have "0 \<notin> set ds" using ds(3) by (auto simp: strtoul_digit_def)
  ultimately show ?thesis using ds(2) by auto
qed

lemma vcprintf_pointer:
  assumes "format_hex n 0 (ALT_FORM OR LCASE) = Inr s" "n < 2 ^ 64"
  shows "vcprintf 64 handler (ascii ''%p'' @ [0]) [Num_arg 8 n] st = write_narrow handler (s @ [0]) (0, st)"
proof -
  have "nat (signed_value 8 n mod 2 ^ 64) = n" using assms(2) by (simp add: signed_value_def nat_mod_distrib)
  with assms show ?thesis
    by (simp add: vcprintf_def ascii_def printf_directive_def convert_def INT_LEN_def LONG_LEN_def vcprintf_loop_end)
qed

section \<open>Properties\<close>

text \<open>
  C36: The output of \<open>vsnprintf\<close> is the formatted string, cut to leave room for a terminator that is always written; the result
  is the length of the whole string, and the bytes of the buffer after the terminator are kept.
\<close>

theorem vsnprintf_truncates:
  assumes "formatted w fmt args = Inr out" "0 < max_size" "max_size \<le> length buf"
  shows "vsnprintf w buf max_size fmt args = Inr (length out, overlay 0 (take (max_size - 1) out @ [0]) buf)"
  using assms by (intro vsnprintf_bytes formatted_output)

theorem vsnprintf_truncates_witness:
  "vsnprintf 32 (replicate 8 0xff) 6 (ascii ''%#04x,%d'' @ [0]) [Num_arg 4 0xbe, Num_arg 4 5] = Inr (8, ascii ''0x00b'' @ [0, 0xff, 0xff])"
proof -
  have "formatted 32 (ascii ''%#04x,%d'' @ [0]) [Num_arg 4 0xbe, Num_arg 4 5] = Inr (ascii ''0x00be,5'')" by code_simp
  from vsnprintf_truncates [OF this, of 6 "replicate 8 0xff"] show ?thesis by (simp add: ascii_def overlay_def numeral_eq_Suc)
qed

text \<open>
  C37: The names of files are formatted: copying the name of a file to the virtual disk is \<open>snprintf\<close> with \<open>%s\<close>, and
  the name of a file of an image is what \<open>snprintf\<close> with \<open>%ls\<close> stores in front of the bytes that the buffer keeps.
\<close>

theorem snprintf_names:
  assumes "length buf = VDISK_NAME_LEN + 1"
  shows "rbind (snprintf w buf (VDISK_NAME_LEN + 1) (ascii ''%s'' @ [0]) [String_arg (Some name)]) (\<lambda>(n, buf). Inr buf) = vdisk_set_name buf name \<and>
    rbind (snprintf w buf (VDISK_NAME_LEN + 1) (ascii ''%ls'' @ [0]) [Wstring_arg (Some wname)]) (\<lambda>(n, buf). Inr buf) =
      rbind (wim_ascii_name wname) (\<lambda>name. Inr (overlay 0 name buf))"
proof
  have out: "vsnprintf w buf (VDISK_NAME_LEN + 1) fmt args = Inr (length out, overlay 0 (take VDISK_NAME_LEN out @ [0]) buf)"
    if "vcprintf w (printf_sputc (VDISK_NAME_LEN + 1)) fmt args buf = write_bytes (printf_sputc (VDISK_NAME_LEN + 1)) out (0, buf)" for fmt args out
    using vsnprintf_bytes [OF _ _ that] assms by simp
  show "rbind (snprintf w buf (VDISK_NAME_LEN + 1) (ascii ''%s'' @ [0]) [String_arg (Some name)]) (\<lambda>(n, buf). Inr buf) = vdisk_set_name buf name"
  proof (cases "terminated name")
    case True
    then show ?thesis using out [of _ _ "cstring name"] assms
      by (simp add: snprintf_def vcprintf_narrow write_narrow_buffer vdisk_set_name_def wr_bytes_def)
  next
    case False
    then show ?thesis using assms by (simp add: snprintf_def vsnprintf_def vcprintf_narrow write_narrow_buffer vdisk_set_name_def)
  qed
  show "rbind (snprintf w buf (VDISK_NAME_LEN + 1) (ascii ''%ls'' @ [0]) [Wstring_arg (Some wname)]) (\<lambda>(n, buf). Inr buf) =
      rbind (wim_ascii_name wname) (\<lambda>name. Inr (overlay 0 name buf))"
  proof (cases "terminated wname")
    case True
    then show ?thesis using out [of _ _ "concat (map wcrtomb (cstring wname))"] assms
      by (simp add: snprintf_def vcprintf_wide write_wide_buffer wim_ascii_name_def)
  next
    case False
    then show ?thesis using assms by (simp add: snprintf_def vsnprintf_def vcprintf_wide write_wide_buffer wim_ascii_name_def)
  qed
qed

theorem snprintf_names_witness:
  "rbind (snprintf 32 (replicate 32 7) 32 (ascii ''%s'' @ [0]) [String_arg (Some [0x42, 0x43, 0x44, 0])]) (\<lambda>(n, buf). Inr buf) =
     Inr ([0x42, 0x43, 0x44, 0] @ replicate 28 7)"
proof -
  have "vdisk_set_name (replicate 32 7) [0x42, 0x43, 0x44, 0] = Inr ([0x42, 0x43, 0x44, 0] @ replicate 28 7)"
    by (simp add: vdisk_set_name_def wr_bytes_def overlay_def VDISK_NAME_LEN_def)
  with snprintf_names [of "replicate 32 7" 32 "[0x42, 0x43, 0x44, 0]" "[0]"] show ?thesis by (simp add: VDISK_NAME_LEN_def)
qed

text \<open>
  A pointer that is printed with \<open>%p\<close> into a buffer of at least 19 bytes is read back by \<open>strtoul\<close>, with the base found from its prefix.
\<close>

theorem pointer_roundtrip:
  assumes "n < 2 ^ 64" "19 \<le> max_size" "max_size \<le> length buf"
  shows "\<exists>len out. snprintf 64 buf max_size (ascii ''%p'' @ [0]) [Num_arg 8 n] = Inr (len, out) \<and> strtoul 64 out 0 = Inr (n, drop len out)"
proof -
  obtain s where s: "format_hex n 0 (ALT_FORM OR LCASE) = Inr s" "length s \<le> 18" "0 \<notin> set s"
      "\<forall>rest. strtoul 64 (s @ 0 # rest) 0 = Inr (n, 0 # rest)"
    using format_hex_read [OF assms(1,1)] by blast
  then have "vcprintf 64 (printf_sputc max_size) (ascii ''%p'' @ [0]) [Num_arg 8 n] buf = write_bytes (printf_sputc max_size) s (0, buf)"
    using assms by (simp add: vcprintf_pointer write_narrow_buffer)
  from vsnprintf_bytes [OF _ assms(3) this] s(2) assms(2)
  have "snprintf 64 buf max_size (ascii ''%p'' @ [0]) [Num_arg 8 n] = Inr (length s, s @ 0 # drop (length s + 1) buf)"
    by (simp add: snprintf_def overlay_def)
  with s(4) show ?thesis by simp
qed

theorem pointer_roundtrip_witness:
  "\<exists>len out. snprintf 64 (replicate 20 7) 20 (ascii ''%p'' @ [0]) [Num_arg 8 0xdeadbeef] = Inr (len, out) \<and> strtoul 64 out 0 = Inr (0xdeadbeef, drop len out)"
  by (rule pointer_roundtrip) simp_all

text \<open>
  A decimal number with zero padding that fills its field loses its first digit to the sign: \<open>%02d\<close> prints -12 as -2.
\<close>

theorem format_decimal_overwrites_digit:
  "formatted 32 (ascii ''%02d'' @ [0]) [Num_arg 4 (2 ^ 32 - 12)] = Inr (ascii ''-2'') \<and>
   formatted 32 (ascii ''%2d'' @ [0]) [Num_arg 4 (2 ^ 32 - 12)] = Inr (ascii ''-12'')"
  by (rule conjI) code_simp+

end
