(* ===== verification/Efi_File.thy ===== *)
theory Efi_File
  imports Wim Vdisk_Tables Cmdline
begin

text \<open>
  Files of the EFI file system and the patch of the boot configuration data (\<open>efifile.c\<close>).

  The methods of an opened file are those of the firmware: they are parameters. Whoever reads sets the position first, so that what
  \<open>Read()\<close> does is a function of the position and of the length.
\<close>

section \<open>Reading\<close>

text \<open>The status of \<open>SetPosition()\<close>; the status of \<open>Read()\<close> and the bytes that it stores.\<close>

record efi_file =
  ef_set_position :: "nat \<Rightarrow> nat"
  ef_read :: "nat \<Rightarrow> nat \<Rightarrow> nat \<times> bytes"

text \<open>A read that stores fewer bytes leaves the rest of the buffer as it was, which is not followed further.\<close>

definition efi_read_file :: "efi_file \<Rightarrow> nat \<Rightarrow> nat \<Rightarrow> bytes result" where
  "efi_read_file file offset len =
     (if ef_set_position file offset \<noteq> 0 then Inl Died else
      let (efirc, data) = ef_read file offset len
      in if efirc \<noteq> 0 then Inl Died else if length data = len then Inr data else Inl Fault)"

text \<open>What is documented of a regular file with the given content: a read stores the bytes that are there, and fewer at the end of the file.\<close>

definition efi_file_holds :: "efi_file \<Rightarrow> bytes \<Rightarrow> bool" where
  "efi_file_holds file content \<longleftrightarrow> (\<forall>off. ef_set_position file off = 0) \<and>
     (\<forall>off n. off \<le> length content \<longrightarrow> ef_read file off n = (0, window off n content)) \<and>
     (\<forall>off n. length content < off \<longrightarrow> fst (ef_read file off n) \<noteq> 0)"

lemma efi_read_file_holds:
  assumes "efi_file_holds file content"
  shows "efi_read_file file off n =
     (if off + n \<le> length content then Inr (window off n content) else if off \<le> length content then Inl Fault else Inl Died)"
proof (cases "off \<le> length content")
  case True
  then have "ef_set_position file off = 0" "ef_read file off n = (0, window off n content)" using assms by (simp_all add: efi_file_holds_def)
  with True show ?thesis by (auto simp: efi_read_file_def)
next
  case False
  then have "fst (ef_read file off n) \<noteq> 0" using assms by (simp add: efi_file_holds_def)
  with False show ?thesis by (auto simp: efi_read_file_def split: prod.splits)
qed

section \<open>Boot configuration data\<close>

definition exe_suffix :: "u16 list" where "exe_suffix = map of_char ''.exe'' @ [0]"
definition efi_suffix :: "u16 list" where "efi_suffix = map of_char ''.efi'' @ [0]"

text \<open>The loop from an index on. The data goes on to the end of the buffer.\<close>

function efi_patch_from :: "nat \<Rightarrow> nat \<Rightarrow> bytes \<Rightarrow> bytes result" where
  "efi_patch_from i len data =
     (if i + 2 * length exe_suffix < len then
        rbind (wcscasecmp (wchars (drop i data)) exe_suffix) (\<lambda>d.
        rbind (if d = 0 then wr_bytes data i (units efi_suffix) else Inr data) (efi_patch_from (i + 1) len))
      else Inr data)"
  by auto
termination by (relation "measure (\<lambda>(i, len, data). len - i)") auto

declare efi_patch_from.simps [simp del]

text \<open>There is no buffer when the patch is installed; its length is zero then.\<close>

definition efi_patch_bcd :: "options \<Rightarrow> bytes option \<Rightarrow> nat \<Rightarrow> bytes option result" where
  "efi_patch_bcd opts data len =
     (if cmdline_rawbcd opts \<noteq> 0 then Inr data
      else case data of
          None \<Rightarrow> if 2 * length exe_suffix < len then Inl Fault else Inr None
        | Some data \<Rightarrow> rbind (efi_patch_from 0 len data) (\<lambda>data. Inr (Some data)))"

text \<open>The bytes of \<open>.exe\<close> in any case, with the terminator.\<close>

definition exe_at :: "bytes \<Rightarrow> nat \<Rightarrow> bool" where
  "exe_at data i \<longleftrightarrow> i + 10 \<le> length data \<and> data ! i = 0x2e \<and> data ! (i + 1) = 0 \<and>
     data ! (i + 2) \<in> {0x45, 0x65} \<and> data ! (i + 3) = 0 \<and> data ! (i + 4) \<in> {0x58, 0x78} \<and> data ! (i + 5) = 0 \<and>
     data ! (i + 6) \<in> {0x45, 0x65} \<and> data ! (i + 7) = 0 \<and> data ! (i + 8) = 0 \<and> data ! (i + 9) = 0"

lemma efi_units: "units efi_suffix = [0x2e, 0, 0x65, 0, 0x66, 0, 0x69, 0, 0, 0]"
  by (simp add: units_def efi_suffix_def le16_def)

lemma efi_length: "length efi_suffix = 5"
  by (simp add: efi_suffix_def)

lemma exe_length: "length exe_suffix = 5"
  by (simp add: exe_suffix_def)

lemma wchar_eq:
  fixes a b :: u8
  assumes "k < 256"
  shows "(word_of_nat (unat a + 256 * unat b) :: u16) = word_of_nat k \<longleftrightarrow> unat a = k \<and> b = 0"
proof -
  have "unat a < 256" "unat b < 256" using unsigned_less [of a] unsigned_less [of b] by simp_all
  then have "unat a + 256 * unat b < 65536" by linarith
  then have "(word_of_nat (unat a + 256 * unat b) :: u16) = word_of_nat k \<longleftrightarrow> unat a + 256 * unat b = k"
    using assms unfolding word_of_nat_eq_iff by (simp add: take_bit_eq_mod)
  also have "\<dots> \<longleftrightarrow> unat a = k \<and> unat b = 0" using assms \<open>unat a < 256\<close> by auto
  also have "\<dots> \<longleftrightarrow> unat a = k \<and> b = 0" by (simp add: unat_eq_zero)
  finally show ?thesis .
qed

lemma towupper_cases:
  "towupper c = 0x2e \<longleftrightarrow> c = word_of_nat 0x2e" "towupper c = 0x45 \<longleftrightarrow> c = word_of_nat 0x45 \<or> c = word_of_nat 0x65"
  "towupper c = 0x58 \<longleftrightarrow> c = word_of_nat 0x58 \<or> c = word_of_nat 0x78" "towupper c = 0 \<longleftrightarrow> c = word_of_nat 0"
  by (auto simp: towupper_def toupper_def islower_def word_uint_eq_iff)

lemma unat_eq: "unat (a :: u8) = 0x2e \<longleftrightarrow> a = 0x2e" "unat a = 0x45 \<longleftrightarrow> a = 0x45" "unat a = 0x65 \<longleftrightarrow> a = 0x65"
  "unat a = 0x58 \<longleftrightarrow> a = 0x58" "unat a = 0x78 \<longleftrightarrow> a = 0x78" "unat a = 0 \<longleftrightarrow> a = 0"
  by (simp_all add: word_unat_eq_iff)

lemma wchar_upper:
  fixes a b :: u8
  defines "c \<equiv> word_of_nat (unat a + 256 * unat b)"
  shows "towupper c = 0x2e \<longleftrightarrow> a = 0x2e \<and> b = 0" "towupper c = 0x45 \<longleftrightarrow> a \<in> {0x45, 0x65} \<and> b = 0"
    "towupper c = 0x58 \<longleftrightarrow> a \<in> {0x58, 0x78} \<and> b = 0" "towupper c = 0 \<longleftrightarrow> a = 0 \<and> b = 0"
proof -
  have wc: "(c = word_of_nat k) = (unat a = k \<and> b = 0)" if "k < 256" for k unfolding c_def by (rule wchar_eq [OF that])
  have wcs: "(c = word_of_nat 0x2e) = (unat a = 0x2e \<and> b = 0)" "(c = word_of_nat 0x45) = (unat a = 0x45 \<and> b = 0)"
    "(c = word_of_nat 0x65) = (unat a = 0x65 \<and> b = 0)" "(c = word_of_nat 0x58) = (unat a = 0x58 \<and> b = 0)"
    "(c = word_of_nat 0x78) = (unat a = 0x78 \<and> b = 0)" "(c = word_of_nat 0) = (unat a = 0 \<and> b = 0)"
    by (rule wc, simp)+
  show "towupper c = 0x2e \<longleftrightarrow> a = 0x2e \<and> b = 0" "towupper c = 0x45 \<longleftrightarrow> a \<in> {0x45, 0x65} \<and> b = 0"
    "towupper c = 0x58 \<longleftrightarrow> a \<in> {0x58, 0x78} \<and> b = 0" "towupper c = 0 \<longleftrightarrow> a = 0 \<and> b = 0"
    unfolding towupper_cases wcs unat_eq by auto
qed

lemma wchars_five:
  assumes "i + 10 \<le> length data"
  shows "\<exists>rest. wchars (drop i data) = map (\<lambda>j. word_of_nat (unat (data ! (i + 2 * j)) + 256 * unat (data ! (i + (2 * j + 1))))) [0, 1, 2, 3, 4] @ rest"
proof -
  have "drop i data = map (\<lambda>j. data ! (i + j)) [0..<10] @ drop (i + 10) data"
    using assms by (intro nth_equalityI) (auto simp: nth_append)
  moreover have "[0..<10] = [0, 1, 2, 3, 4, 5, 6, 7, 8, 9 :: nat]" by (simp add: upt_rec)
  ultimately have "drop i data = map (\<lambda>j. data ! (i + j)) [0, 1, 2, 3, 4, 5, 6, 7, 8, 9] @ drop (i + 10) data" by (simp only:)
  then show ?thesis by (simp add: numeral_eq_Suc)
qed

lemma str_compare_same_length:
  "length xs = length ys \<Longrightarrow> (\<forall>y \<in> set ys. f y \<noteq> 0) \<Longrightarrow> f z = 0 \<Longrightarrow>
   \<exists>d. str_compare f (xs @ x # rest) (ys @ [z]) = Inr d \<and> (d = 0 \<longleftrightarrow> map f xs = map f ys \<and> f x = 0)"
  by (induction xs ys rule: list_induct2) auto

lemma compare_exe:
  assumes "i + 10 \<le> length data"
  shows "\<exists>d. wcscasecmp (wchars (drop i data)) exe_suffix = Inr d \<and> (d = 0 \<longleftrightarrow> exe_at data i)"
proof -
  define c :: "nat \<Rightarrow> u16" where "c j = word_of_nat (unat (data ! (i + 2 * j)) + 256 * unat (data ! (i + (2 * j + 1))))" for j
  obtain rest where "wchars (drop i data) = map c [0, 1, 2, 3, 4] @ rest"
    using wchars_five [OF assms] unfolding c_def by blast
  then have data: "wchars (drop i data) = [c 0, c 1, c 2, c 3] @ c 4 # rest" by simp
  have suffix: "map towupper [0x2e, 0x65, 0x78, 0x65] = [0x2e, 0x45, 0x58, 0x45]" "towupper 0 = 0" "exe_suffix = [0x2e, 0x65, 0x78, 0x65] @ [0]"
    by (simp_all add: exe_suffix_def towupper_def toupper_def islower_def)
  then have "\<forall>y \<in> set [0x2e, 0x65, 0x78, 0x65]. towupper y \<noteq> 0" by simp
  from str_compare_same_length [OF _ this suffix(2), of "[c 0, c 1, c 2, c 3]" "c 4" rest]
  have "\<exists>d. wcscasecmp (wchars (drop i data)) exe_suffix = Inr d \<and>
      (d = 0 \<longleftrightarrow> towupper (c 0) = 0x2e \<and> towupper (c 1) = 0x45 \<and> towupper (c 2) = 0x58 \<and> towupper (c 3) = 0x45 \<and> towupper (c 4) = 0)"
    unfolding data suffix(3) wcscasecmp_def suffix(1) by simp
  moreover have "towupper (c 0) = 0x2e \<longleftrightarrow> data ! i = 0x2e \<and> data ! (i + 1) = 0"
      "towupper (c 1) = 0x45 \<longleftrightarrow> data ! (i + 2) \<in> {0x45, 0x65} \<and> data ! (i + 3) = 0"
      "towupper (c 2) = 0x58 \<longleftrightarrow> data ! (i + 4) \<in> {0x58, 0x78} \<and> data ! (i + 5) = 0"
      "towupper (c 3) = 0x45 \<longleftrightarrow> data ! (i + 6) \<in> {0x45, 0x65} \<and> data ! (i + 7) = 0"
      "towupper (c 4) = 0 \<longleftrightarrow> data ! (i + 8) = 0 \<and> data ! (i + 9) = 0"
    unfolding c_def wchar_upper by simp_all
  ultimately show ?thesis using assms by (auto simp: exe_at_def)
qed

text \<open>Occurrences do not overlap, and the replacement is none.\<close>

lemma exe_at_no_dot:
  assumes "exe_at data i" "i < j" "j < i + 10"
  shows "data ! j \<noteq> 0x2e"
proof -
  have "j \<in> {i + 1, i + 2, i + 3, i + 4, i + 5, i + 6, i + 7, i + 8, i + 9}" using assms(2,3) by auto
  then show ?thesis using assms(1) unfolding exe_at_def by (elim insertE emptyE conjE; hypsubst; simp)
qed

lemma exe_at_apart: "exe_at data i \<Longrightarrow> i < j \<Longrightarrow> j < i + 10 \<Longrightarrow> \<not> exe_at data j"
  using exe_at_no_dot [of data i j] by (simp add: exe_at_def)

lemma nth_replaced:
  assumes "i + 10 \<le> length data"
  shows "j < length data \<Longrightarrow> overlay i (units efi_suffix) data ! j = (if i \<le> j \<and> j < i + 10 then units efi_suffix ! (j - i) else data ! j)"
    "length (overlay i (units efi_suffix) data) = length data"
  using assms by (simp_all add: nth_overlay efi_units)

lemma efi_suffix_dot: "k < 10 \<Longrightarrow> units efi_suffix ! k = 0x2e \<longleftrightarrow> k = 0"
proof -
  assume "k < 10"
  then have "k \<in> {0, 1, 2, 3, 4, 5, 6, 7, 8, 9}" by auto
  then show ?thesis unfolding efi_units by (elim insertE emptyE; hypsubst; simp)
qed

lemma exe_at_patched:
  assumes "exe_at data i" "i < j"
  shows "exe_at (overlay i (units efi_suffix) data) j = exe_at data j"
proof (cases "j < i + 10")
  case True
  have len: "i + 10 \<le> length data" using assms(1) by (simp add: exe_at_def)
  then have "overlay i (units efi_suffix) data ! j \<noteq> 0x2e" using True assms(2) efi_suffix_dot [of "j - i"] by (simp add: nth_replaced)
  then have "\<not> exe_at (overlay i (units efi_suffix) data) j" by (simp add: exe_at_def)
  with exe_at_apart [OF assms True] show ?thesis by simp
next
  case False
  have len: "i + 10 \<le> length data" using assms(1) by (simp add: exe_at_def)
  have "overlay i (units efi_suffix) data ! (j + k) = data ! (j + k)" if "j + k < length data" for k
    using False that len by (simp add: nth_replaced)
  from this [of 0] this [of 1] this [of 2] this [of 3] this [of 4] this [of 5] this [of 6] this [of 7] this [of 8] this [of 9]
  show ?thesis using nth_replaced(2) [OF len] unfolding exe_at_def by (auto simp: numeral_eq_Suc)
qed

text \<open>What the loop does to a buffer.\<close>

definition exe_replaced :: "nat \<Rightarrow> nat \<Rightarrow> bytes \<Rightarrow> bytes \<Rightarrow> bool" where
  "exe_replaced i len data data' \<longleftrightarrow> length data' = length data \<and>
     (\<forall>k. i \<le> k \<longrightarrow> k + 10 < len \<longrightarrow> exe_at data k \<longrightarrow> window k 10 data' = units efi_suffix) \<and>
     (\<forall>j < length data. (\<forall>k. i \<le> k \<longrightarrow> k + 10 < len \<longrightarrow> exe_at data k \<longrightarrow> \<not> (k \<le> j \<and> j < k + 10)) \<longrightarrow> data' ! j = data ! j)"

lemma exe_replaced_step:
  assumes "i + 10 < len" "i + 10 \<le> length data" "exe_replaced (i + 1) len (if exe_at data i then overlay i (units efi_suffix) data else data) data'"
  shows "exe_replaced i len data data'"
proof (cases "exe_at data i")
  case False
  then have k: "i \<le> k \<and> exe_at data k \<longleftrightarrow> i + 1 \<le> k \<and> exe_at data k" for k by (cases "k = i") auto
  from False assms(3) show ?thesis unfolding exe_replaced_def using k by (simp, blast)
next
  case True
  let ?data = "overlay i (units efi_suffix) data"
  have at: "exe_at ?data k = exe_at data k" if "i < k" for k using exe_at_patched [OF True that] .
  have rep: "exe_replaced (i + 1) len ?data data'" using assms(3) True by simp
  have keep: "data' ! j = ?data ! j" if "j < length data" "j < i + 10 \<or> (\<forall>k. i < k \<longrightarrow> k + 10 < len \<longrightarrow> exe_at data k \<longrightarrow> \<not> (k \<le> j \<and> j < k + 10))" for j
    using rep that at exe_at_apart [OF True] nth_replaced(2) [OF assms(2)] unfolding exe_replaced_def
    by (metis Suc_eq_plus1 Suc_le_eq le_less_trans)
  have "length data' = length data" using rep nth_replaced(2) [OF assms(2)] by (simp add: exe_replaced_def)
  moreover have "window k 10 data' = units efi_suffix" if "i \<le> k" "k + 10 < len" "exe_at data k" for k
  proof (cases "k = i")
    case True
    show ?thesis unfolding True
      using calculation assms(2) keep by (intro nth_equalityI) (auto simp: nth_window nth_replaced(1) [OF assms(2)] efi_length)
  next
    case False
    with that rep at [of k] show ?thesis by (simp add: exe_replaced_def)
  qed
  moreover have "data' ! j = data ! j" if "j < length data" "\<forall>k. i \<le> k \<longrightarrow> k + 10 < len \<longrightarrow> exe_at data k \<longrightarrow> \<not> (k \<le> j \<and> j < k + 10)" for j
  proof -
    have "\<not> (i \<le> j \<and> j < i + 10)" using that(2) True assms(1) by auto
    then show ?thesis using keep [OF that(1)] that nth_replaced(1) [OF assms(2) that(1)] by auto
  qed
  ultimately show ?thesis by (simp add: exe_replaced_def)
qed

lemma efi_patch_from_replaced:
  "len \<le> length data \<Longrightarrow> \<exists>data'. efi_patch_from i len data = Inr data' \<and> exe_replaced i len data data'"
proof (induction i len data rule: efi_patch_from.induct)
  case (1 i len data)
  note IH = "1.IH" and len = "1.prems"
  show ?case
  proof (cases "i + 10 < len")
    case False
    then show ?thesis by (simp add: efi_patch_from.simps exe_length exe_replaced_def)
  next
    case True
    obtain d where d: "wcscasecmp (wchars (drop i data)) exe_suffix = Inr d" "d = 0 \<longleftrightarrow> exe_at data i"
      using compare_exe [of i data] True len by auto
    define data1 where "data1 = (if exe_at data i then overlay i (units efi_suffix) data else data)"
    have i: "i + 10 \<le> length data" using True len by simp
    have wr: "(if d = 0 then wr_bytes data i (units efi_suffix) else Inr data) = Inr data1"
      using d(2) i by (simp add: data1_def wr_bytes_def efi_units)
    have len1: "length data1 = length data" using nth_replaced(2) [OF i] by (simp add: data1_def)
    obtain data' where run: "efi_patch_from (i + 1) len data1 = Inr data'" and rep: "exe_replaced (i + 1) len data1 data'"
      using IH [OF _ d(1) wr] True len1 len by (auto simp: exe_length)
    have at: "exe_at data1 k = exe_at data k" if "i < k" for k using exe_at_patched [OF _ that, of data] by (simp add: data1_def)
    have "exe_replaced i len data data'" by (rule exe_replaced_step [OF _ i rep [unfolded data1_def]]) (use True in simp)
    then show ?thesis using run d(1) wr True by (subst efi_patch_from.simps) (simp add: exe_length)
  qed
qed

section \<open>Properties\<close>

text \<open>
  C39: The patch of the boot configuration data turns every \<open>.exe\<close>, in any case and at any position, that ends before the last byte of a read into
  \<open>.efi\<close>, and changes nothing else; with \<open>rawbcd\<close> it does nothing.
\<close>

theorem efi_patch_bcd_result:
  assumes "len \<le> length data"
  shows "\<exists>data'. efi_patch_bcd opts (Some data) len = Inr (Some data') \<and>
    (if cmdline_rawbcd opts \<noteq> 0 then data' = data else
      length data' = length data \<and>
      (\<forall>k. k + 10 < len \<longrightarrow> exe_at data k \<longrightarrow> window k 10 data' = units efi_suffix) \<and>
      (\<forall>j < length data. (\<forall>k. k + 10 < len \<longrightarrow> exe_at data k \<longrightarrow> \<not> (k \<le> j \<and> j < k + 10)) \<longrightarrow> data' ! j = data ! j))"
  using efi_patch_from_replaced [OF assms, of 0] by (auto simp: efi_patch_bcd_def exe_replaced_def)

definition bcd_text :: bytes where
  "bcd_text = [1, 0, 0x2e, 0, 0x45, 0, 0x58, 0, 0x65, 0, 0, 0, 2, 0]"

theorem efi_patch_bcd_result_witness:
  "\<exists>data'. efi_patch_bcd cmdline_initial (Some bcd_text) 14 = Inr (Some data') \<and> window 2 10 data' = units efi_suffix \<and> data' ! 0 = 1"
proof -
  have exe: "exe_at bcd_text 2" by (simp add: exe_at_def bcd_text_def)
  have none: "\<not> k \<le> 0" if "exe_at bcd_text k" for k using that by (cases k) (auto simp: exe_at_def bcd_text_def)
  have "bcd_text ! 0 = 1" "length bcd_text = 14" by (simp_all add: bcd_text_def)
  with efi_patch_bcd_result [of 14 bcd_text cmdline_initial] exe none show ?thesis
    by (fastforce simp: cmdline_initial_def)
qed

text \<open>
  A \<open>.exe\<close> at the very end of a read, or across two reads, is not patched, so that the contents depend on how the file is read.
\<close>

theorem efi_patch_bcd_depends_on_reads:
  "efi_patch_bcd cmdline_initial (Some bcd_text) 14 \<noteq> Inr (Some bcd_text) \<and>
   efi_patch_bcd cmdline_initial (Some (take 12 bcd_text)) 12 = Inr (Some (take 12 bcd_text)) \<and>
   efi_patch_bcd cmdline_initial (Some (drop 12 bcd_text)) 2 = Inr (Some (drop 12 bcd_text))"
  by (intro conjI) code_simp+

end
