(* ===== verification/Efi_Block.thy ===== *)
theory Efi_Block
  imports Disk_Laws Vsprintf
begin

text \<open>
  The devices that the EFI loader installs (\<open>efiblock.c\<close>) with their device paths (\<open>efipath.c\<close>, \<open>efipath.h\<close>), and the first opening of the
  graphics output that it blocks (\<open>efiboot.c\<close>).
\<close>

section \<open>Device paths\<close>

definition HARDWARE_DEVICE_PATH :: nat where "HARDWARE_DEVICE_PATH = 0x01"
definition HW_VENDOR_DP :: nat where "HW_VENDOR_DP = 0x04"
definition MESSAGING_DEVICE_PATH :: nat where "MESSAGING_DEVICE_PATH = 0x03"
definition MSG_ATAPI_DP :: nat where "MSG_ATAPI_DP = 0x01"
definition MEDIA_DEVICE_PATH :: nat where "MEDIA_DEVICE_PATH = 0x04"
definition MEDIA_HARDDRIVE_DP :: nat where "MEDIA_HARDDRIVE_DP = 0x01"
definition MEDIA_FILEPATH_DP :: nat where "MEDIA_FILEPATH_DP = 0x04"
definition MBR_TYPE_PCAT :: nat where "MBR_TYPE_PCAT = 0x01"
definition SIGNATURE_TYPE_MBR :: nat where "SIGNATURE_TYPE_MBR = 0x01"
definition END_DEVICE_PATH_TYPE :: nat where "END_DEVICE_PATH_TYPE = 0x7f"
definition END_ENTIRE_DEVICE_PATH_SUBTYPE :: nat where "END_ENTIRE_DEVICE_PATH_SUBTYPE = 0xff"

text \<open>A node: the header with the length of the whole node, and what follows it.\<close>

definition efi_devpath_init :: "nat \<Rightarrow> nat \<Rightarrow> nat \<Rightarrow> bytes" where
  "efi_devpath_init type subtype len = [word_of_nat type, word_of_nat subtype, word_of_nat (len mod 256), word_of_nat (len div 256)]"

definition efi_devpath_node :: "nat \<Rightarrow> nat \<Rightarrow> bytes \<Rightarrow> bytes" where
  "efi_devpath_node type subtype data = efi_devpath_init type subtype (4 + length data) @ data"

definition efi_devpath_end_init :: bytes where
  "efi_devpath_end_init = efi_devpath_init END_DEVICE_PATH_TYPE END_ENTIRE_DEVICE_PATH_SUBTYPE 4"

text \<open>A node of length zero makes the loop run for ever, which is \<open>None\<close>.\<close>

partial_function (option) efi_devpath_end :: "bytes \<Rightarrow> nat \<Rightarrow> nat result option" where
  "efi_devpath_end mem path =
     (case rbind (rd8 mem path) (\<lambda>t. rbind (rd16 mem (path + 2)) (\<lambda>len. Inr (t, len))) of
        Inl e \<Rightarrow> Some (Inl e)
      | Inr (t, len) \<Rightarrow> if unat t \<noteq> END_DEVICE_PATH_TYPE then efi_devpath_end mem (path + len) else Some (Inr path))"

definition EFIBLOCK_GUID :: bytes where
  "EFIBLOCK_GUID = le32 0x1322d197 @ le16 0x15dc @ le16 0x4a45 @ [0xa6, 0xa4, 0xfa, 0x57, 0x05, 0x4e, 0xa6, 0x14]"

definition efiblock_vendor :: bytes where
  "efiblock_vendor = efi_devpath_node HARDWARE_DEVICE_PATH HW_VENDOR_DP EFIBLOCK_GUID"

definition efiblock_ata :: bytes where
  "efiblock_ata = efi_devpath_node MESSAGING_DEVICE_PATH MSG_ATAPI_DP ([0, 0] @ le16 0)"

definition efiblock_hd :: bytes where
  "efiblock_hd = efi_devpath_node MEDIA_DEVICE_PATH MEDIA_HARDDRIVE_DP
     (le32 1 @ le64 VDISK_PARTITION_LBA @ le64 VDISK_PARTITION_COUNT @ (le32 VDISK_MBR_SIGNATURE @ replicate 12 0) @
      [word_of_nat MBR_TYPE_PCAT, word_of_nat SIGNATURE_TYPE_MBR])"

definition efi_vdisk_path :: bytes where
  "efi_vdisk_path = efiblock_vendor @ efiblock_ata @ efi_devpath_end_init"

definition efi_vpartition_path :: bytes where
  "efi_vpartition_path = efiblock_vendor @ efiblock_ata @ efiblock_hd @ efi_devpath_end_init"

section \<open>The boot file\<close>

datatype efi_arch = IA32 | X64 | AARCH64

fun efi_removable_media_file_name :: "efi_arch \<Rightarrow> u16 list" where
  "efi_removable_media_file_name IA32 = map of_char ([CHR 0x5c] @ ''EFI'' @ [CHR 0x5c] @ ''BOOT'' @ [CHR 0x5c] @ ''BOOTIA32.EFI'') @ [0]"
| "efi_removable_media_file_name X64 = map of_char ([CHR 0x5c] @ ''EFI'' @ [CHR 0x5c] @ ''BOOT'' @ [CHR 0x5c] @ ''BOOTX64.EFI'') @ [0]"
| "efi_removable_media_file_name AARCH64 = map of_char ([CHR 0x5c] @ ''EFI'' @ [CHR 0x5c] @ ''BOOT'' @ [CHR 0x5c] @ ''BOOTAA64.EFI'') @ [0]"

definition efi_bootarch_path :: "efi_arch \<Rightarrow> bytes" where
  "efi_bootarch_path arch = efiblock_vendor @ efiblock_ata @ efiblock_hd @
     efi_devpath_node MEDIA_DEVICE_PATH MEDIA_FILEPATH_DP (units (efi_removable_media_file_name arch)) @ efi_devpath_end_init"

text \<open>The loop over the path: \<open>name\<close> is the part after the last backslash so far.\<close>

fun efi_bootarch_scan :: "u16 list \<Rightarrow> u16 list \<Rightarrow> u16 list result" where
  "efi_bootarch_scan name [] = Inl Fault"
| "efi_bootarch_scan name (c # tmp) =
     (if c \<noteq> 0 then efi_bootarch_scan (if c = 0x5c then tmp else name) tmp else Inr name)"

definition efi_bootarch_wname :: "efi_arch \<Rightarrow> u16 list result" where
  "efi_bootarch_wname arch = efi_bootarch_scan (efi_removable_media_file_name arch) (efi_removable_media_file_name arch)"

text \<open>The static buffer is as long as the whole path.\<close>

definition efi_bootarch_name :: "nat \<Rightarrow> efi_arch \<Rightarrow> bytes \<Rightarrow> bytes result" where
  "efi_bootarch_name w arch name =
     rbind (efi_bootarch_wname arch) (\<lambda>wname.
     rbind (snprintf w name (length (efi_removable_media_file_name arch)) (ascii ''%ls'' @ [0]) [Wstring_arg (Some wname)]) (\<lambda>(n, name).
     Inr name))"

section \<open>Block devices\<close>







definition EFI_INVALID_PARAMETER :: "nat \<Rightarrow> nat" where "EFI_INVALID_PARAMETER w = 2 ^ (w - 1) + 2"
definition EFI_WRITE_PROTECTED :: "nat \<Rightarrow> nat" where "EFI_WRITE_PROTECTED w = 2 ^ (w - 1) + 8"

text \<open>The methods yield a status. The media number and the address that the caller returns to are only printed.\<close>

definition efi_reset_blocks :: nat where "efi_reset_blocks = 0"
definition efi_write_blocks :: "nat \<Rightarrow> nat" where "efi_write_blocks w = EFI_WRITE_PROTECTED w"
definition efi_flush_blocks :: nat where "efi_flush_blocks = 0"


section \<open>Opening protocols\<close>

text \<open>
  The original method and \<open>InstallMultipleProtocolInterfaces()\<close> for the dummy protocol are parameters, with the state of the firmware.
  Handles and protocols are numbers.
\<close>

definition efi_open_protocol_wrapper ::
    "nat \<Rightarrow> options \<Rightarrow> (nat \<Rightarrow> nat \<Rightarrow> 's \<Rightarrow> nat \<times> 's) \<Rightarrow> (nat \<Rightarrow> 's \<Rightarrow> nat \<times> 's) \<Rightarrow> nat \<Rightarrow> nat \<Rightarrow> nat \<Rightarrow> 's \<Rightarrow> nat \<times> 's" where
  "efi_open_protocol_wrapper w opts orig_open_protocol install gop handle protocol s =
     (let (efirc, s) = orig_open_protocol handle protocol s in
      if efirc \<noteq> 0 then (efirc, s)
      else if protocol = gop then
        (let (installed, s) = install handle s in
         if installed = 0 \<and> cmdline_gui opts = 0 then (EFI_INVALID_PARAMETER w, s) else (0, s))
      else (0, s))"

section \<open>Where device paths end\<close>

text \<open>The types and contents of the nodes of a path.\<close>

definition efi_nodes :: "(nat \<times> nat \<times> bytes) list \<Rightarrow> bytes" where
  "efi_nodes nodes = concat (map (\<lambda>(type, subtype, data). efi_devpath_node type subtype data) nodes)"

definition node_ok :: "nat \<times> nat \<times> bytes \<Rightarrow> bool" where
  "node_ok node \<longleftrightarrow> (case node of (type, subtype, data) \<Rightarrow> type < 256 \<and> type \<noteq> END_DEVICE_PATH_TYPE \<and> 4 + length data < 65536)"

lemma efi_nodes_simps:
  "efi_nodes [] = []" "efi_nodes ((type, subtype, data) # nodes) = efi_devpath_node type subtype data @ efi_nodes nodes"
  by (simp_all add: efi_nodes_def)

lemma length_devpath_node: "length (efi_devpath_node type subtype data) = 4 + length data"
  by (simp add: efi_devpath_node_def efi_devpath_init_def)

lemma devpath_header:
  assumes "n < 65536"
  shows "rd8 (efi_devpath_init type subtype n @ rest) 0 = Inr (word_of_nat type)" "rd16 (efi_devpath_init type subtype n @ rest) 2 = Inr n"
  using assms by (simp_all add: efi_devpath_init_def rd8_def rd16_def unat_of_nat)

lemma efi_devpath_end_step:
  assumes "rd8 mem path = Inr t" "rd16 mem (path + 2) = Inr len"
  shows "efi_devpath_end mem path = (if unat t \<noteq> END_DEVICE_PATH_TYPE then efi_devpath_end mem (path + len) else Some (Inr path))"
  unfolding efi_devpath_end.simps [of mem path] assms by simp

lemma devpath_header_at:
  assumes "n < 65536"
  shows "rd8 (pre @ efi_devpath_init type subtype n @ rest) (length pre) = Inr (word_of_nat type)"
    "rd16 (pre @ efi_devpath_init type subtype n @ rest) (length pre + 2) = Inr n"
  using rd8_shift [of pre "efi_devpath_init type subtype n @ rest" 0] rd16_shift [of pre "efi_devpath_init type subtype n @ rest" 2]
    devpath_header [OF assms, of type subtype rest] unfolding add_0_right by (simp_all only:)

lemma efi_devpath_end_nodes:
  assumes "\<forall>node \<in> set nodes. node_ok node"
  shows "efi_devpath_end (pre @ efi_nodes nodes @ efi_devpath_end_init @ rest) (length pre) = Some (Inr (length pre + length (efi_nodes nodes)))"
  using assms
proof (induction nodes arbitrary: pre)
  case Nil
  have "efi_devpath_end (pre @ efi_devpath_end_init @ rest) (length pre) = Some (Inr (length pre))"
    unfolding efi_devpath_end_init_def
    by (subst efi_devpath_end_step [OF devpath_header_at]) (simp_all add: END_DEVICE_PATH_TYPE_def)
  then show ?case by (simp add: efi_nodes_simps)
next
  case (Cons node nodes)
  obtain type subtype data where node: "node = (type, subtype, data)" by (cases node)
  have ok: "type < 256" "type \<noteq> END_DEVICE_PATH_TYPE" "4 + length data < 65536" using Cons.prems by (simp_all add: node node_ok_def)
  let ?node = "efi_devpath_node type subtype data" and ?rest = "efi_nodes nodes @ efi_devpath_end_init @ rest"
  have "unat (word_of_nat type :: u8) = type" using ok(1) by (simp add: unat_of_nat)
  then have "efi_devpath_end (pre @ ?node @ ?rest) (length pre) = efi_devpath_end (pre @ ?node @ ?rest) (length pre + (4 + length data))"
    using efi_devpath_end_step [OF devpath_header_at [OF ok(3), of pre type subtype "data @ ?rest"]] ok(2)
    by (simp add: efi_devpath_node_def)
  moreover have "efi_devpath_end ((pre @ ?node) @ ?rest) (length (pre @ ?node)) = Some (Inr (length (pre @ ?node) + length (efi_nodes nodes)))"
    by (rule Cons.IH) (use Cons.prems in simp)
  ultimately show ?case by (simp add: node efi_nodes_simps length_devpath_node ac_simps)
qed

text \<open>The paths of the program as lists of nodes.\<close>

definition efiblock_nodes :: "(nat \<times> nat \<times> bytes) list" where
  "efiblock_nodes = [(HARDWARE_DEVICE_PATH, HW_VENDOR_DP, EFIBLOCK_GUID), (MESSAGING_DEVICE_PATH, MSG_ATAPI_DP, [0, 0] @ le16 0)]"

definition efiblock_hd_node :: "nat \<times> nat \<times> bytes" where
  "efiblock_hd_node = (MEDIA_DEVICE_PATH, MEDIA_HARDDRIVE_DP, drop 4 efiblock_hd)"

lemma efiblock_node_lengths:
  "length EFIBLOCK_GUID = 16" "length efiblock_hd = 42" "length (efi_removable_media_file_name arch) < 32"
  by (simp_all add: EFIBLOCK_GUID_def efiblock_hd_def length_devpath_node) (cases arch; simp)

lemma efi_path_nodes:
  "efi_vdisk_path = efi_nodes efiblock_nodes @ efi_devpath_end_init"
  "efi_vpartition_path = efi_nodes (efiblock_nodes @ [efiblock_hd_node]) @ efi_devpath_end_init"
  "efi_bootarch_path arch = efi_nodes (efiblock_nodes @ [efiblock_hd_node, (MEDIA_DEVICE_PATH, MEDIA_FILEPATH_DP, units (efi_removable_media_file_name arch))])
     @ efi_devpath_end_init"
  by (simp_all add: efi_vdisk_path_def efi_vpartition_path_def efi_bootarch_path_def efi_nodes_def efiblock_nodes_def efiblock_hd_node_def
      efiblock_vendor_def efiblock_ata_def efiblock_hd_def efi_devpath_node_def efi_devpath_init_def)

lemma efi_nodes_ok:
  "\<forall>node \<in> set (efiblock_nodes @ [efiblock_hd_node, (MEDIA_DEVICE_PATH, MEDIA_FILEPATH_DP, units (efi_removable_media_file_name arch))]). node_ok node"
  using efiblock_node_lengths(3) [of arch]
  by (simp add: efiblock_nodes_def efiblock_hd_node_def node_ok_def efiblock_node_lengths(1,2) HARDWARE_DEVICE_PATH_def
      MESSAGING_DEVICE_PATH_def MEDIA_DEVICE_PATH_def END_DEVICE_PATH_TYPE_def)

lemma efi_devpath_end_path:
  assumes "path = efi_nodes nodes @ efi_devpath_end_init" "\<forall>node \<in> set nodes. node_ok node"
  shows "efi_devpath_end (path @ rest) 0 = Some (Inr (length path - 4))"
  using efi_devpath_end_nodes [OF assms(2), of "[]" rest] by (simp add: assms(1) efi_devpath_end_init_def efi_devpath_init_def)

section \<open>The name of the boot file\<close>

lemma bootarch_scan:
  "0 \<notin> set base \<Longrightarrow> 0x5c \<notin> set base \<Longrightarrow> efi_bootarch_scan name (base @ [0]) = Inr name"
  by (induction base) auto

fun bootarch_file :: "efi_arch \<Rightarrow> string" where
  "bootarch_file IA32 = ''BOOTIA32.EFI''"
| "bootarch_file X64 = ''BOOTX64.EFI''"
| "bootarch_file AARCH64 = ''BOOTAA64.EFI''"

lemma bootarch_wname: "efi_bootarch_wname arch = Inr (map of_char (bootarch_file arch) @ [0])"
  by (cases arch) (simp_all add: efi_bootarch_wname_def)

section \<open>Properties\<close>

text \<open>
  Each of the device paths ends where its last node says, whatever follows it in memory.
\<close>

theorem efi_device_paths_end:
  "efi_devpath_end (efi_vdisk_path @ rest) 0 = Some (Inr (length efi_vdisk_path - 4)) \<and>
   efi_devpath_end (efi_vpartition_path @ rest) 0 = Some (Inr (length efi_vpartition_path - 4)) \<and>
   efi_devpath_end (efi_bootarch_path arch @ rest) 0 = Some (Inr (length (efi_bootarch_path arch) - 4))"
  using efi_nodes_ok by (intro conjI efi_devpath_end_path [OF efi_path_nodes(1)] efi_devpath_end_path [OF efi_path_nodes(2)] efi_devpath_end_path [OF efi_path_nodes(3)]) simp_all

text \<open>
  The name of the boot file is the last component of its path.
\<close>

theorem efi_bootarch_names:
  assumes "length buf = length (efi_removable_media_file_name arch)"
  shows "\<exists>rest. efi_bootarch_name w arch buf = Inr (ascii (bootarch_file arch) @ 0 # rest)"
proof -
  let ?wname = "map of_char (bootarch_file arch) @ [0] :: u16 list" and ?n = "length (efi_removable_media_file_name arch)"
  have name: "terminated ?wname" "concat (map wcrtomb (cstring ?wname)) = ascii (bootarch_file arch)"
      "length (ascii (bootarch_file arch)) < ?n - 1" "0 < ?n"
    by (cases arch; simp add: wcrtomb_def ascii_def)+
  have "vcprintf w (printf_sputc ?n) (ascii ''%ls'' @ [0]) [Wstring_arg (Some ?wname)] buf = write_bytes (printf_sputc ?n) (ascii (bootarch_file arch)) (0, buf)"
    using name(1,2) assms by (simp add: vcprintf_wide write_wide_buffer)
  from vsnprintf_bytes [OF name(4) _ this] assms name(3) show ?thesis
    by (auto simp: efi_bootarch_name_def bootarch_wname snprintf_def overlay_0)
qed

theorem efi_bootarch_names_witness:
  "\<exists>rest. efi_bootarch_name 64 X64 (replicate 22 7) = Inr (ascii ''BOOTX64.EFI'' @ 0 # rest)"
  using efi_bootarch_names [of "replicate 22 7" X64 64] by simp



section \<open>Graphics output\<close>

text \<open>
  Calls of the intercepted method: the handles and protocols, and the statuses that are returned.
\<close>

fun efi_opens ::
    "nat \<Rightarrow> options \<Rightarrow> (nat \<Rightarrow> nat \<Rightarrow> 's \<Rightarrow> nat \<times> 's) \<Rightarrow> (nat \<Rightarrow> 's \<Rightarrow> nat \<times> 's) \<Rightarrow> nat \<Rightarrow> (nat \<times> nat) list \<Rightarrow> 's \<Rightarrow> nat list \<times> 's" where
  "efi_opens w opts orig install gop [] s = ([], s)"
| "efi_opens w opts orig install gop ((handle, protocol) # calls) s =
     (let (efirc, s) = efi_open_protocol_wrapper w opts orig install gop handle protocol s;
          (efircs, s) = efi_opens w opts orig install gop calls s
      in (efirc # efircs, s))"

text \<open>
  What is documented of the firmware, where \<open>blocked\<close> are the handles with the dummy protocol: it can be installed once on every handle, stays
  installed, and has nothing to do with opening protocols. The original method succeeds for the graphics output of the handle in question.
\<close>

definition installs_once :: "(nat \<Rightarrow> nat \<Rightarrow> 's \<Rightarrow> nat \<times> 's) \<Rightarrow> (nat \<Rightarrow> 's \<Rightarrow> nat \<times> 's) \<Rightarrow> ('s \<Rightarrow> nat set) \<Rightarrow> bool" where
  "installs_once orig install blocked \<longleftrightarrow>
     (\<forall>h p s. blocked (snd (orig h p s)) = blocked s) \<and>
     (\<forall>h s. if h \<in> blocked s then fst (install h s) \<noteq> 0 \<and> blocked (snd (install h s)) = blocked s
            else fst (install h s) = 0 \<and> blocked (snd (install h s)) = insert h (blocked s))"

lemma wrapper_blocks:
  assumes "installs_once orig install blocked" "efi_open_protocol_wrapper w opts orig install gop h p s = (rc, s')"
  shows "blocked s \<subseteq> blocked s'" "fst (orig h p s) = 0 \<Longrightarrow> p = gop \<Longrightarrow> h \<in> blocked s'"
    "rc = (if fst (orig h p s) = 0 \<and> p = gop \<and> h \<notin> blocked s \<and> cmdline_gui opts = 0 then EFI_INVALID_PARAMETER w else fst (orig h p s))"
proof -
  obtain rc1 s1 where orig: "orig h p s = (rc1, s1)" by (cases "orig h p s")
  obtain rc2 s2 where install: "install h s1 = (rc2, s2)" by (cases "install h s1")
  have "blocked s1 = blocked s" using assms(1) orig unfolding installs_once_def by (metis snd_conv)
  moreover have "if h \<in> blocked s1 then rc2 \<noteq> 0 \<and> blocked s2 = blocked s1 else rc2 = 0 \<and> blocked s2 = insert h (blocked s1)"
    using assms(1) install unfolding installs_once_def by (metis fst_conv snd_conv)
  ultimately show "blocked s \<subseteq> blocked s'" "fst (orig h p s) = 0 \<Longrightarrow> p = gop \<Longrightarrow> h \<in> blocked s'"
    "rc = (if fst (orig h p s) = 0 \<and> p = gop \<and> h \<notin> blocked s \<and> cmdline_gui opts = 0 then EFI_INVALID_PARAMETER w else fst (orig h p s))"
    using assms(2) orig install by (auto simp: efi_open_protocol_wrapper_def split: if_splits)
qed

lemma opens_keep_blocked:
  assumes "installs_once orig install blocked"
  shows "efi_opens w opts orig install gop calls s = (rcs, s') \<Longrightarrow> blocked s \<subseteq> blocked s'"
proof (induction calls arbitrary: s rcs)
  case (Cons call calls)
  obtain h p where call: "call = (h, p)" by (cases call)
  obtain rc s1 where step: "efi_open_protocol_wrapper w opts orig install gop h p s = (rc, s1)" by fastforce
  obtain rcs' where "efi_opens w opts orig install gop calls s1 = (rcs', s')"
    using Cons.prems by (auto simp: call step split: prod.splits)
  from Cons.IH [OF this] wrapper_blocks(1) [OF assms step] show ?case by blast
qed simp

text \<open>
  C40: Only the first opening of the graphics output of a handle is blocked: after one that the firmware admits, and whatever else is opened in between,
  openings of the handle yield what the firmware answers. With \<open>gui\<close> none is blocked.
\<close>

theorem efi_open_blocked_once:
  assumes "installs_once orig install blocked"
    and "efi_open_protocol_wrapper w opts orig install gop h gop s = (rc1, s1)" "fst (orig h gop s) = 0"
    and "efi_opens w opts orig install gop calls s1 = (rcs, s2)"
    and "efi_open_protocol_wrapper w opts orig install gop h p s2 = (rc3, s3)"
  shows "rc3 = fst (orig h p s2) \<and> rc1 = (if h \<notin> blocked s \<and> cmdline_gui opts = 0 then EFI_INVALID_PARAMETER w else 0)"
  using wrapper_blocks(2,3) [OF assms(1,2)] opens_keep_blocked [OF assms(1,4)] wrapper_blocks(3) [OF assms(1,5)] assms(3) by auto

definition example_install :: "nat \<Rightarrow> nat set \<Rightarrow> nat \<times> nat set" where
  "example_install h s = (if h \<in> s then (1, s) else (0, insert h s))"

theorem efi_open_blocked_once_witness:
  "fst (efi_open_protocol_wrapper 64 cmdline_initial (\<lambda>h p s. (0, s)) example_install 7 3 7 {3}) = 0 \<and>
   fst (efi_open_protocol_wrapper 64 cmdline_initial (\<lambda>h p s. (0, s)) example_install 7 3 7 {}) = 2 ^ 63 + 2"
proof -
  have once: "installs_once (\<lambda>h p s. (0, s)) example_install (\<lambda>s. s)" by (simp add: installs_once_def example_install_def)
  have run: "efi_open_protocol_wrapper 64 cmdline_initial (\<lambda>h p s. (0, s)) example_install 7 3 7 {} = (2 ^ 63 + 2, {3})"
    "efi_open_protocol_wrapper 64 cmdline_initial (\<lambda>h p s. (0, s)) example_install 7 3 7 {3} = (0, {3})"
    by (simp_all add: efi_open_protocol_wrapper_def example_install_def cmdline_initial_def EFI_INVALID_PARAMETER_def)
  from efi_open_blocked_once [OF once run(1) _ _ run(2), of "[]"] run show ?thesis
    by (simp add: cmdline_initial_def EFI_INVALID_PARAMETER_def)
qed

end
