(* ===== verification/Spec2Isabelle.thy ===== *)
theory Spec2Isabelle
  imports Huffman Lznt1 Xca Lzx Cstring Sha1 Cpio Cmdline Wimfile Disk_Laws Disk_Limits Patch_Theorems
    Int13 Memmap Paging Peloader Boot_Theorems Boot_Search Boot_Invariant Vsprintf Efi_File Efi_Block
begin

text \<open>
  A verification development of wimboot, the boot loader for Windows images (the C sources under \<open>src/\<close>).

  \<^bold>\<open>The program.\<close> On BIOS systems \<open>main.c\<close> gets a command line and an initrd, a CPIO archive. It parses the command line (\<open>cmdline.c\<close>),
  moves the initrd to a place below 2 GB (\<open>memmap.c\<close>), and adds every file of the archive (\<open>cpio.c\<close>) to a virtual disk (\<open>vdisk.c\<close>). If there is
  only a \<open>bootmgr\<close>, it searches it for the compressed \<open>bootmgr.exe\<close> and decompresses it (\<open>lznt1.c\<close>, \<open>xca.c\<close>, \<open>huffman.c\<close>). A WIM image among the
  files is patched when it is read (\<open>wimpatch.c\<close>, with \<open>sha1.c\<close>), and files within it are added to the disk (\<open>wimfile.c\<close>, \<open>wim.c\<close>, with \<open>lzx.c\<close> and
  \<open>xca.c\<close>). Then the initrd is moved above 4 GB and mapped back (\<open>paging.c\<close>), \<open>bootmgr.exe\<close> is loaded (\<open>peloader.c\<close>), and its disk reads are answered
  from the virtual disk (\<open>int13.c\<close>). On EFI systems the same disk is given to the firmware. Messages and names are formatted by
  \<open>ipxe/vsprintf.c\<close>; \<open>string.c\<close> has the string functions.

  \<^bold>\<open>Conventions\<close> (\<open>Prelude\<close>, \<open>State\<close>, \<open>Struct\<close>). A pointer to a buffer is the list of bytes from there on; the length that the code passes beside it stays
  an argument. An operation yields a result: a value, or \<open>Fail\<close> for a negative return value, \<open>Fault\<close> for an access outside a buffer or
  other undefined behaviour, \<open>Died\<close> for \<open>die()\<close>, \<open>Fuel\<close> for a loop that has not ended. Static variables are a state that
  is passed on. Packed structures are lists of members, from which offsets follow. \<open>w\<close> is the number of bits of \<open>size_t\<close> and of pointers.

  \<^bold>\<open>Theories and sources.\<close>
  \<^item> \<open>Cstring\<close>: \<open>string.c\<close>, \<open>ctype.h\<close>, \<open>wctype.h\<close>, \<open>wchar.h\<close>. Comparison, length, numbers, copying with overlap.
  \<^item> \<open>Vsprintf\<close>: \<open>ipxe/vsprintf.c\<close>. Directives, conversions, the context with its handler, output to buffers.
  \<^item> \<open>Cmdline\<close>: \<open>cmdline.c\<close>. The parser writes into the command line and restores it; it refines splitting into arguments.
  \<^item> \<open>Cpio\<close>: \<open>cpio.c\<close>, with the handler of the files as a parameter.
  \<^item> \<open>Sha1\<close>: \<open>sha1.c\<close>, \<open>rotate.h\<close>, \<open>byteswap.h\<close>, and the digest by padding and blocks that it refines.
  \<^item> \<open>Huffman\<close>, \<open>Decompress\<close>, \<open>Lznt1\<close>, \<open>Xca\<close>, \<open>Lzx\<close>: \<open>huffman.c\<close>, \<open>lznt1.c\<close>, \<open>xca.c\<close>, \<open>lzx.c\<close>. \<open>Decompress\<close> has their common interface.
  \<^item> \<open>Wim\<close>, \<open>Wim_Read\<close>: \<open>wim.c\<close>, \<open>wim.h\<close>. The record \<open>wim_cache\<close> is the static chunk cache; a \<open>source\<close> is the file of the image.
  \<^item> \<open>Vdisk\<close>, \<open>Vdisk_Tables\<close>, \<open>Vdisk_Image\<close>: \<open>vdisk.c\<close>, \<open>vdisk.h\<close>. The functions that build regions, the reading loop, the contents of the
    tables, and the image of the disk.
  \<^item> \<open>Fat_Driver\<close>, \<open>Fat_Directory\<close>: specifications of a FAT32 driver, which know nothing of \<open>vdisk.c\<close>.
  \<^item> \<open>Disk_Limits\<close>: reads of the disk that go wrong.
  \<^item> \<open>Wimfile\<close>: \<open>wimfile.c\<close>, and the methods that files can have (\<open>read_file\<close> of \<open>main.c\<close> is one).
  \<^item> \<open>Wimpatch\<close>: \<open>wimpatch.c\<close>, \<open>assert.h\<close>. The record \<open>wim_patch\<close> with its regions is the static patch.
  \<^item> \<open>Boot_Disk\<close>, \<open>Patched_Image\<close>, \<open>Disk_Laws\<close>, \<open>Cache_Kept\<close>: the methods of the program satisfy the laws of the disk, also for the patched image.
  \<^item> \<open>Patch_Layout\<close>, \<open>Patch_Laws\<close>, \<open>Patch_Reader\<close>, \<open>Patch_Example\<close>, \<open>Patch_Theorems\<close>: what a patch that injects files contains, as a reference image, and
    what a reader of WIM images finds in it.
  \<^item> \<open>Bootapp\<close>, \<open>Int13\<close>: \<open>bootapp.h\<close>, \<open>int13.c\<close>, \<open>int13.h\<close>. The registers of a call, the emulated drive, and the callback of \<open>main.c\<close>.
  \<^item> \<open>Memmap\<close>: \<open>memmap.c\<close>, and the relocation of the initrd in \<open>main.c\<close>.
  \<^item> \<open>Paging\<close>: \<open>paging.c\<close>, \<open>paging.h\<close>, and the translation of addresses that the processor performs.
  \<^item> \<open>Peloader\<close>: \<open>peloader.c\<close>.
  \<^item> \<open>Efi_File\<close>: reading files of the EFI file system and the patch of the boot configuration data in \<open>efifile.c\<close>.
  \<^item> \<open>Efi_Block\<close>: \<open>efiblock.c\<close>, \<open>efipath.c\<close>, \<open>efipath.h\<close>, and the intercepted \<open>OpenProtocol()\<close> of \<open>efiboot.c\<close>. The record \<open>efi_block\<close> is a
    device; its device path is a list of bytes.
  \<^item> \<open>Boot_Files\<close>, \<open>Boot_Laws\<close>, \<open>Boot_Theorems\<close>, \<open>Boot_Search\<close>, \<open>Boot_Invariant\<close>: the files of the boot disk in \<open>main.c\<close>: the record \<open>boot\<close> is its state.

  \<^bold>\<open>Interfaces.\<close> The locale \<open>decompressor\<close> promises that a run without a buffer reports the length of a run with one;
  \<open>stream_decompressor\<close> promises beyond this that the output is a function of the input. They are interpreted by
  \<open>lznt1_decompress\<close>, \<open>xca_decompress\<close> and \<open>lzx_decompress\<close> (the second one only for inputs without uncompressed LZX blocks, which break it), and
  the chunks of a WIM resource are read through it. The locale \<open>vdisk_methods\<close> has the laws of read and patch methods, under which
  reading the disk yields the sectors of an image; it is interpreted in \<open>Disk_Laws\<close> by the methods of the program.

  \<^bold>\<open>What is shown.\<close>
  \<^item> Composition: from the initrd to the files that a FAT32 driver finds on the disk; every operation keeps the state of the loader well formed;
    with more than 63 files the loader ends in \<open>die()\<close>.
  \<^item> The disk: every read yields the sectors of one image, whatever is read before and in whatever pieces; the FAT driver follows the chains to the
    contents and decodes the directories; disk reads of the running system store these sectors.
  \<^item> Patching: the construction keeps the invariant of the patch; the patched image is the reference image, in which a reader finds
    the new header and the injected files.
  \<^item> Images: the chunk cache is transparent, and windows of resources are windows of their contents.
  \<^item> Decompression: termination, bounds of what is read beyond the input with and without a buffer, independence of the buffer; canonical Huffman codes.
  \<^item> Memory: the memory map is enumerated completely; the initrd is placed in usable memory; its move above 4 GB is invisible; the sections of
    \<open>bootmgr.exe\<close> are placed as its headers say.
  \<^item> Text: parsing of the command line, extraction of archives, formatting into buffers, \<open>memmove\<close>, SHA-1.
  \<^item> EFI: block reads of the virtual disk and of its partition yield the sectors of the image; device paths end where their nodes say; the patch
    replaces exactly the suffixes that end before the end of a read; the graphics output of a handle is blocked once.
  \<^item> Errors: the theorems about \<open>lzx_uncompressed\<close>, LZX code lengths, wrapping archive entries, trailing white space, reads across the start of
    the file area and at its end, short \<open>bootmgr\<close> files and padded negative numbers state what the code does against its intention.

  \<^bold>\<open>Bounds and fuel.\<close> \<open>vdisk_read\<close> runs with one more step than sectors, since every fragment has at least one. \<open>xca_decompress\<close> has eight steps for
  each byte and 33 more, since every symbol uses a bit; the loops of LZNT1 and LZX are bounded by the bits of the input in the same way. The loop over a lookup table has a step for
  each entry. Archives and memory maps have their number of entries as a bound in the theorems about them, and wrapping
  entries are shown to need more than any bound. Loops over the components of a path, widths of numbers and offsets of the search are
  functions that terminate.
  The counts and symbols of a Huffman alphabet have 16 bits, and the theorems about alphabets are for tables of fewer than 65536 code lengths; the decompressors
  have at most 512. The length in a SHA-1 context has \<open>w\<close> bits and wraps; the digest is right for messages whose length is less than \<open>2 ^ w\<close>,
  and files of the disk have such lengths (\<open>vfile_ok\<close>). Reads of the disk are right if they do not cross LBA 0x800000 and, with 32-bit
  arithmetic, do not reach the last file area; the initrd that is moved above 4 GB lies between 4 MB and 2 GB.

  \<^bold>\<open>Assumptions.\<close> The BIOS is a parameter: the interrupts of \<open>int13.c\<close> and the memory map. The hypothesis \<open>e820_service\<close> says
  what is documented of the latter. The processor translates addresses as its manual says. The loader of \<open>main.c\<close> has 32 bits.
  Images are files in memory, as in the BIOS loader. The methods of EFI files and
  of the boot services are parameters, and \<open>efi_file_holds\<close> and \<open>installs_once\<close> say what is documented of them. \<open>putchar()\<close> is a parameter of console output.

  \<^bold>\<open>Not modelled.\<close> Of the EFI loader the directory loop of \<open>efi_extract()\<close>, the loading of images in \<open>efiboot.c\<close> and \<open>efimain.c\<close>, which
  consist of calls of the firmware, and so the use of EFI files and of their patch as methods of the disk. The EDK2 headers under \<open>efi/\<close> are declarations
  of third parties. The console (\<open>stdio.c\<close>, \<open>pause.c\<close>), the stack cookie, the
  assembly of the start-up code and the callbacks, the table of descriptors for \<open>bootmgr.exe\<close> and the jump into it are beyond the
  reach of a functional model. \<open>elf2efi.c\<close> is a tool of the build, \<open>coverity-model.c\<close> is for a static analyser. Messages for debugging are left out.
\<close>

end
